(* ===== verification/Amp_Prelude.thy ===== *)
theory Amp_Prelude
  imports Main "HOL-Library.Word" "HOL-Library.Monad_Syntax"
begin

text \<open>
  Shared material of the development: the machine integers of the C sources, the byte
  addressed shared memory with little-endian 8, 16 and 32 bit accesses (RV32, the ABI of
  every supported SoC), the copies \<open>memcpy\<close> and \<open>memset\<close>, and the generic facts on words,
  lists and memory footprints that the component theories use.
\<close>

unbundle bit_operations_syntax

subsection \<open>Machine integers\<close>

type_synonym u8 = "8 word"
type_synonym u16 = "16 word"
type_synonym u32 = "32 word"
type_synonym u64 = "64 word"

text \<open>A pointer is a 32 bit address; \<open>NULL\<close> is address zero.\<close>

type_synonym ptr = "32 word"

abbreviation (input) NULL :: ptr where
  "NULL \<equiv> 0"

named_theorems mem_simps \<open>reads of a memory after writes\<close>
named_theorems frame_intros \<open>a state change leaves part of the state alone\<close>

subsection \<open>Memory\<close>

type_synonym memory = "u32 \<Rightarrow> u8"

definition load8 :: "memory \<Rightarrow> ptr \<Rightarrow> u8" where
  "load8 m a = m a"

definition load16 :: "memory \<Rightarrow> ptr \<Rightarrow> u16" where
  "load16 m a = word_cat (m (a + 1)) (m a)"

definition load32 :: "memory \<Rightarrow> ptr \<Rightarrow> u32" where
  "load32 m a = word_cat (load16 m (a + 2)) (load16 m a)"

definition store8 :: "memory \<Rightarrow> ptr \<Rightarrow> u8 \<Rightarrow> memory" where
  "store8 m a v = m(a := v)"

definition store16 :: "memory \<Rightarrow> ptr \<Rightarrow> u16 \<Rightarrow> memory" where
  "store16 m a v = m(a := ucast v, a + 1 := ucast (drop_bit 8 v))"

definition store32 :: "memory \<Rightarrow> ptr \<Rightarrow> u32 \<Rightarrow> memory" where
  "store32 m a v = store16 (store16 m a (ucast v)) (a + 2) (ucast (drop_bit 16 v))"

text \<open>A buffer read as a list of bytes, and \<open>memcpy\<close> from such a list, byte by byte.\<close>

definition load_bytes :: "memory \<Rightarrow> ptr \<Rightarrow> nat \<Rightarrow> u8 list" where
  "load_bytes m a n = map (\<lambda>i. m (a + word_of_nat i)) [0..<n]"

fun store_bytes :: "memory \<Rightarrow> ptr \<Rightarrow> u8 list \<Rightarrow> memory" where
  "store_bytes m a [] = m"
| "store_bytes m a (b # bs) = store_bytes (m(a := b)) (a + 1) bs"

text \<open>
  The bytes an access of length \<open>n\<close> at address \<open>a\<close> touches. Addresses wrap at 32 bits,
  so membership is measured from the start of the span.
\<close>

definition span :: "ptr \<Rightarrow> nat \<Rightarrow> ptr set" where
  "span a n = {x. unat (x - a) < n}"

definition disj :: "ptr \<Rightarrow> nat \<Rightarrow> ptr \<Rightarrow> nat \<Rightarrow> bool" where
  "disj a n b k \<longleftrightarrow> n \<le> unat (b - a) \<and> k \<le> unat (a - b)"

text \<open>Two memories agree on a set of addresses.\<close>

definition agree :: "ptr set \<Rightarrow> memory \<Rightarrow> memory \<Rightarrow> bool" where
  "agree A m m' \<longleftrightarrow> (\<forall>x \<in> A. m x = m' x)"

subsection \<open>Words\<close>

lemma word_cat_bytes [simp]:
  "word_cat (ucast (drop_bit 8 v) :: u8) (ucast v :: u8) = (v :: u16)"
  by (rule bit_word_eqI) (auto simp: bit_simps bit_word_cat_iff)

lemma word_cat_halves [simp]:
  "word_cat (ucast (drop_bit 16 v) :: u16) (ucast v :: u16) = (v :: u32)"
  by (rule bit_word_eqI) (auto simp: bit_simps bit_word_cat_iff)

lemma unat_ucast_up:
  assumes "LENGTH('a::len) \<le> LENGTH('b::len)"
  shows "unat (ucast (x :: 'a word) :: 'b word) = unat x"
proof -
  have "unat x < 2 ^ LENGTH('b)"
    using less_le_trans [OF unsigned_less power_increasing [OF assms]] by simp
  then show ?thesis by (simp add: unsigned_ucast_eq take_bit_nat_eq_self)
qed

lemma unat_ucast_16_32 [simp]: "unat (ucast (x :: u16) :: u32) = unat x"
  by (rule unat_ucast_up) simp

lemma unat_ucast_8_32 [simp]: "unat (ucast (x :: u8) :: u32) = unat x"
  by (rule unat_ucast_up) simp

lemma unat_lt_16 [simp]: "unat (x :: u16) < 65536"
  using unsigned_less [of x] by simp

lemma unat_lt_32 [simp]: "unat (x :: u32) < 4294967296"
  using unsigned_less [of x] by simp

lemma unat_lt_8 [simp]: "unat (x :: u8) < 256"
  using unsigned_less [of x] by simp

lemma unat_le_32: "unat (x :: u16) \<le> 4294967296"
  using unat_lt_16 [of x] by linarith

lemma unat_of_nat_lt:
  "n < 2 ^ LENGTH('a) \<Longrightarrow> unat (word_of_nat n :: 'a::len word) = n"
  by (simp add: unat_of_nat take_bit_nat_eq_self)

lemma unat_2_power:
  assumes "k < LENGTH('a)"
  shows "unat (2 ^ k :: 'a::len word) = 2 ^ k"
proof -
  have "(2::nat) ^ k < 2 ^ LENGTH('a)" using assms by simp
  then have "unat (word_of_nat (2 ^ k) :: 'a word) = 2 ^ k" by (rule unat_of_nat_lt)
  then show ?thesis by simp
qed

lemma unat_of_nat32: "n < 4294967296 \<Longrightarrow> unat (word_of_nat n :: u32) = n"
  by (rule unat_of_nat_lt) simp

lemma unat_of_nat16: "n < 65536 \<Longrightarrow> unat (word_of_nat n :: u16) = n"
  by (rule unat_of_nat_lt) simp

lemma unat_sub_swap:
  assumes "a \<noteq> (b :: 'a::len word)"
  shows "unat (a - b) + unat (b - a) = 2 ^ LENGTH('a)"
proof -
  have neq: "unat a \<noteq> unat b" using assms by (simp add: word_unat_eq_iff)
  have "unat a < 2 ^ LENGTH('a)" "unat b < 2 ^ LENGTH('a)"
    by (rule unsigned_less)+
  with neq show ?thesis
    unfolding unat_sub_if' by (split if_split)+ arith
qed

lemma unat_neg32: "x \<noteq> 0 \<Longrightarrow> unat (- x) = 4294967296 - unat x" for x :: u32
  using unat_sub_swap [of 0 x] by simp

lemma unat_neg_numeral32 [simp]:
  "unat (- numeral k :: u32) =
     (if unat (numeral k :: u32) = 0 then 0 else 4294967296 - unat (numeral k :: u32))"
  using unat_neg32 [of "numeral k"] by (cases "(numeral k :: u32) = 0") (simp_all only: unat_eq_zero unsigned_0 minus_zero if_True if_False simp_thms)

lemma unat_neg_one32 [simp]: "unat (- 1 :: u32) = 4294967295"
  using unat_neg32 [of 1] by simp

lemma word_diff_add_offset: "x = a + word_of_nat (unat (x - a))" for x :: "'a::len word"
  by simp

subsection \<open>Spans and disjointness\<close>

lemma in_span_iff: "x \<in> span a n \<longleftrightarrow> unat (x - a) < n"
  by (simp add: span_def)

lemma in_span_offset: "i < n \<Longrightarrow> n \<le> 4294967296 \<Longrightarrow> a + word_of_nat i \<in> span a n"
  by (simp add: in_span_iff unat_of_nat32)

lemma span_cases:
  assumes "x \<in> span a n"
  obtains i where "i < n" "x = a + word_of_nat i"
  using assms that [of "unat (x - a)"] by (simp add: in_span_iff)

lemma disj_sym: "disj a n b k \<longleftrightarrow> disj b k a n"
  by (auto simp: disj_def)

lemma unat_add_le: "unat (x + y) \<le> unat x + unat y" for x y :: "'a::len word"
  by (simp add: unat_word_ariths)

lemma unat_add_no_wrap:
  "unat x + unat y < 2 ^ LENGTH('a) \<Longrightarrow> unat (x + y) = unat x + unat y" for x y :: "'a::len word"
  by (simp add: unat_word_ariths)

lemma unat_add32:
  "unat x + unat y < 4294967296 \<Longrightarrow> unat (x + y) = unat x + unat y" for x y :: u32
  by (simp add: unat_word_ariths)

lemma disjD:
  assumes "disj a n b k" and "x \<in> span a n"
  shows "x \<notin> span b k"
proof (cases "a = b")
  case True
  with assms show ?thesis by (simp add: disj_def in_span_iff)
next
  case False
  from assms have n: "n \<le> unat (b - a)" and k: "k \<le> unat (a - b)" and x: "unat (x - a) < n"
    by (simp_all add: disj_def in_span_iff)
  have "unat (a - b) + unat (b - a) = 4294967296"
    using unat_sub_swap [OF False] by simp
  with n x have "unat (a - b) + unat (x - a) < 4294967296" by linarith
  then have "unat ((a - b) + (x - a)) = unat (a - b) + unat (x - a)" by (rule unat_add32)
  with k show ?thesis by (simp add: in_span_iff)
qed

lemma disj_Int: "disj a n b k \<Longrightarrow> span a n \<inter> span b k = {}"
  using disjD by blast

text \<open>A sub-span, at an offset within the enclosing span.\<close>

lemma span_sub:
  assumes "unat (b - a) + k \<le> n"
  shows "span b k \<subseteq> span a n"
proof
  fix x assume "x \<in> span b k"
  then have "unat (x - b) < k" by (simp add: in_span_iff)
  moreover have "unat (x - a) \<le> unat (x - b) + unat (b - a)"
    using unat_add_le [of "x - b" "b - a"] by simp
  ultimately show "x \<in> span a n" using assms by (simp add: in_span_iff)
qed

lemma disj_sub:
  assumes "disj a n b k" and "unat (a' - a) + n' \<le> n" and "unat (b' - b) + k' \<le> k"
    and "0 < n'" and "0 < k'"
  shows "disj a' n' b' k'"
proof -
  have sub: "span a' n' \<inter> span b' k' = {}"
    using disj_Int [OF assms(1)] span_sub [OF assms(2)] span_sub [OF assms(3)] by blast
  have no_hit: "m \<le> unat (y - x)"
    if "span x m \<inter> span y l = {}" "0 < l" for x y :: ptr and m l
  proof (rule ccontr)
    assume "\<not> m \<le> unat (y - x)"
    then have "y \<in> span x m" by (simp add: in_span_iff)
    moreover have "y \<in> span y l" using that(2) by (simp add: in_span_iff)
    ultimately show False using that(1) by blast
  qed
  from no_hit [OF sub assms(5)] no_hit [OF _ assms(4), of b' k'] sub show ?thesis
    by (auto simp: disj_def)
qed

text \<open>A span that does not wrap is an interval of addresses.\<close>

lemma in_span_nowrap:
  assumes "unat a + n \<le> 4294967296"
  shows "x \<in> span a n \<longleftrightarrow> unat a \<le> unat x \<and> unat x < unat a + n"
proof (cases "unat a \<le> unat x")
  case True
  then show ?thesis by (auto simp: in_span_iff unat_sub_if')
next
  case False
  then have "unat (x - a) = unat x + 4294967296 - unat a" by (simp add: unat_sub_if')
  with False assms show ?thesis by (auto simp: in_span_iff)
qed

lemma disj_nowrap:
  assumes "unat a + n \<le> 4294967296" "unat b + k \<le> 4294967296"
    and "unat a + n \<le> unat b \<or> unat b + k \<le> unat a"
  shows "span a n \<inter> span b k = {}"
  using assms by (auto simp: in_span_nowrap)

lemma span_Un_sub:
  "unat (b - a) + k \<le> n \<Longrightarrow> span a n \<inter> A = {} \<Longrightarrow> span b k \<inter> A = {}"
  using span_sub by blast

lemma unat_add_of_nat:
  "unat a + n < 4294967296 \<Longrightarrow> unat (a + word_of_nat n) = unat a + n" for a :: u32
  by (simp add: unat_add32 unat_of_nat32)

lemma unat_add_numeral:
  "unat a + numeral k < 4294967296 \<Longrightarrow> unat (a + numeral k) = unat a + numeral k" for a :: u32
  using unat_add_of_nat [of a "numeral k"] by simp

subsection \<open>Reads and writes\<close>

lemma agree_refl [simp, intro]: "agree A m m"
  by (simp add: agree_def)

lemma agree_trans [trans]: "agree A m1 m2 \<Longrightarrow> agree A m2 m3 \<Longrightarrow> agree A m1 m3"
  by (simp add: agree_def)

lemma agree_sym: "agree A m m' \<Longrightarrow> agree A m' m"
  by (simp add: agree_def)

lemma agree_mono: "agree A m m' \<Longrightarrow> B \<subseteq> A \<Longrightarrow> agree B m m'"
  by (auto simp: agree_def)

lemma store8_outside: "x \<notin> span a 1 \<Longrightarrow> store8 m a v x = m x"
  by (auto simp: store8_def in_span_iff)

lemma store16_outside: "x \<notin> span a 2 \<Longrightarrow> store16 m a v x = m x"
  by (auto simp: store16_def in_span_iff)

lemma store32_outside:
  assumes "x \<notin> span a 4"
  shows "store32 m a v x = m x"
proof -
  have "x \<notin> span a 2" "x \<notin> span (a + 2) 2"
    using assms span_sub [of a a 2 4] span_sub [of "a + 2" a 2 4] by auto
  then show ?thesis by (simp add: store32_def store16_outside)
qed

lemma store_bytes_outside:
  "x \<notin> span a (length bs) \<Longrightarrow> length bs \<le> 4294967296 \<Longrightarrow> store_bytes m a bs x = m x"
proof (induction bs arbitrary: m a)
  case Nil
  then show ?case by simp
next
  case (Cons b bs)
  have "x \<notin> span (a + 1) (length bs)"
  proof
    assume "x \<in> span (a + 1) (length bs)"
    with span_sub [of "a + 1" a "length bs" "length (b # bs)"] Cons.prems(1)
    show False by auto
  qed
  moreover have "x \<noteq> a" using Cons.prems(1) by (auto simp: in_span_iff)
  ultimately show ?case using Cons by simp
qed

lemma agree_store8 [frame_intros]:
  "span a 1 \<inter> A = {} \<Longrightarrow> agree A m m0 \<Longrightarrow> agree A (store8 m a v) m0"
  unfolding agree_def by (metis disjoint_iff store8_outside)

lemma agree_store16 [frame_intros]:
  "span a 2 \<inter> A = {} \<Longrightarrow> agree A m m0 \<Longrightarrow> agree A (store16 m a v) m0"
  unfolding agree_def by (metis disjoint_iff store16_outside)

lemma agree_store32 [frame_intros]:
  "span a 4 \<inter> A = {} \<Longrightarrow> agree A m m0 \<Longrightarrow> agree A (store32 m a v) m0"
  unfolding agree_def by (metis disjoint_iff store32_outside)

lemma agree_store_bytes [frame_intros]:
  "span a (length bs) \<inter> A = {} \<Longrightarrow> length bs \<le> 4294967296 \<Longrightarrow> agree A m m0 \<Longrightarrow>
   agree A (store_bytes m a bs) m0"
  unfolding agree_def by (metis disjoint_iff store_bytes_outside)

lemma load8_cong: "agree (span a 1) m m' \<Longrightarrow> load8 m a = load8 m' a"
  by (auto simp: agree_def load8_def in_span_iff)

lemma load16_cong: "agree (span a 2) m m' \<Longrightarrow> load16 m a = load16 m' a"
  by (auto simp: agree_def load16_def in_span_iff)

lemma load32_cong:
  assumes "agree (span a 4) m m'"
  shows "load32 m a = load32 m' a"
proof -
  have "load16 m a = load16 m' a" "load16 m (a + 2) = load16 m' (a + 2)"
    using assms span_sub [of a a 2 4] span_sub [of "a + 2" a 2 4]
    by (auto intro!: load16_cong elim: agree_mono)
  then show ?thesis by (simp add: load32_def)
qed

lemma load_bytes_cong:
  "agree (span a n) m m' \<Longrightarrow> n \<le> 4294967296 \<Longrightarrow> load_bytes m a n = load_bytes m' a n"
  by (auto simp: agree_def load_bytes_def intro!: in_span_offset)

lemma length_load_bytes [simp]: "length (load_bytes m a n) = n"
  by (simp add: load_bytes_def)

lemma load8_store8_same [simp]: "load8 (store8 m a v) a = v"
  by (simp add: load8_def store8_def)

lemma load16_store16_same [simp]: "load16 (store16 m a v) a = v"
  by (simp add: load16_def store16_def)

lemma load32_store32_same [simp]: "load32 (store32 m a v) a = v"
proof -
  have "load16 (store16 (store16 m a (ucast v)) (a + 2) w) a = ucast v" for w
    by (simp add: load16_def store16_def)
  then show ?thesis by (simp add: load32_def store32_def)
qed

lemma store32_twice [simp]: "store32 (store32 m a v) a w = store32 m a w"
  by (rule ext) (auto simp: store32_def store16_def)

lemma load_bytes_Suc: "load_bytes m a (Suc n) = m a # load_bytes m (a + 1) n"
  unfolding load_bytes_def
  by (simp only: upt_conv_Cons [OF zero_less_Suc] map_Suc_upt [symmetric] list.map)
     (simp add: comp_def add.assoc)

lemma load_store_bytes_same:
  "length bs \<le> 4294967296 \<Longrightarrow> load_bytes (store_bytes m a bs) a (length bs) = bs"
proof (induction bs arbitrary: m a)
  case Nil
  then show ?case by (simp add: load_bytes_def)
next
  case (Cons b bs)
  have "a \<notin> span (a + 1) (length bs)"
    using Cons.prems by (simp add: in_span_iff)
  then have "store_bytes (m(a := b)) (a + 1) bs a = b"
    using Cons.prems by (simp add: store_bytes_outside)
  with Cons show ?case by (simp add: load_bytes_Suc)
qed

lemma load8_store8 [mem_simps]: "disj a 1 b 1 \<Longrightarrow> load8 (store8 m b v) a = load8 m a"
  by (rule load8_cong, rule agree_store8) (use disj_Int in blast)+

lemma load8_store16 [mem_simps]: "disj a 1 b 2 \<Longrightarrow> load8 (store16 m b v) a = load8 m a"
  by (rule load8_cong, rule agree_store16) (use disj_Int in blast)+

lemma load8_store32 [mem_simps]: "disj a 1 b 4 \<Longrightarrow> load8 (store32 m b v) a = load8 m a"
  by (rule load8_cong, rule agree_store32) (use disj_Int in blast)+

lemma load16_store8 [mem_simps]: "disj a 2 b 1 \<Longrightarrow> load16 (store8 m b v) a = load16 m a"
  by (rule load16_cong, rule agree_store8) (use disj_Int in blast)+

lemma load16_store16 [mem_simps]: "disj a 2 b 2 \<Longrightarrow> load16 (store16 m b v) a = load16 m a"
  by (rule load16_cong, rule agree_store16) (use disj_Int in blast)+

lemma load16_store32 [mem_simps]: "disj a 2 b 4 \<Longrightarrow> load16 (store32 m b v) a = load16 m a"
  by (rule load16_cong, rule agree_store32) (use disj_Int in blast)+

lemma load32_store8 [mem_simps]: "disj a 4 b 1 \<Longrightarrow> load32 (store8 m b v) a = load32 m a"
  by (rule load32_cong, rule agree_store8) (use disj_Int in blast)+

lemma load32_store16 [mem_simps]: "disj a 4 b 2 \<Longrightarrow> load32 (store16 m b v) a = load32 m a"
  by (rule load32_cong, rule agree_store16) (use disj_Int in blast)+

lemma load32_store32 [mem_simps]: "disj a 4 b 4 \<Longrightarrow> load32 (store32 m b v) a = load32 m a"
  by (rule load32_cong, rule agree_store32) (use disj_Int in blast)+

end
