(* ===== verification/Amp_Utils.thy ===== *)
theory Amp_Utils
  imports Amp_Prelude
begin

text \<open>
  The sizing helpers of src/components/esp_amp/src/esp_amp_utils.c: rounding a buffer size up to
  a word boundary and a queue length up to a power of two. The compiler intrinsic
  \<open>__builtin_clz\<close> is a parameter, specified on non-zero arguments only, as in C.
\<close>

definition get_aligned_size :: "u16 \<Rightarrow> u16" where
  "get_aligned_size sz =
     (let size_in_word = drop_bit 2 sz;
          size_in_word = (if sz AND 3 \<noteq> 0 then size_in_word + 1 else size_in_word)
      in push_bit 2 size_in_word)"

definition get_power_len :: "(u32 \<Rightarrow> nat) \<Rightarrow> u16 \<Rightarrow> u16" where
  "get_power_len clz len =
     (let max_bit = (16 :: nat); max_len = push_bit (max_bit - 1) (1 :: u16)
      in if len = 0 \<or> max_len < len then 0
         else let len = len - 1 in ucast (push_bit (32 - clz (ucast len)) (1 :: u32)))"

definition clz_spec :: "(u32 \<Rightarrow> nat) \<Rightarrow> bool" where
  "clz_spec clz \<longleftrightarrow>
     (\<forall>x. x \<noteq> 0 \<longrightarrow> clz x \<le> 31 \<and> 2 ^ (31 - clz x) \<le> unat x \<and> unat x < 2 ^ (32 - clz x))"

lemma unat_get_aligned_size:
  "unat (get_aligned_size sz) =
     (if 65532 < unat sz then 0 else 4 * ((unat sz + 3) div 4))"
proof -
  have and3: "sz AND 3 = take_bit 2 sz"
    by (simp add: take_bit_eq_mask mask_eq_exp_minus_1)
  have low: "sz AND 3 \<noteq> 0 \<longleftrightarrow> unat sz mod 4 \<noteq> 0"
    unfolding and3 by (simp add: word_unat_eq_iff unat_mod_distrib take_bit_eq_mod)
  have div4: "unat (drop_bit 2 sz) = unat sz div 4"
    by (simp add: drop_bit_eq_div unat_div_distrib)
  have up: "unat (push_bit 2 w) = 4 * unat w mod 65536" for w :: u16
    by (simp add: push_bit_eq_mult unat_word_ariths mult.commute)
  have suc: "unat (drop_bit 2 sz + 1) = unat sz div 4 + 1"
  proof -
    have "unat sz div 4 + 1 < 65536" using unat_lt_16 [of sz] by presburger
    then show ?thesis by (simp add: unat_word_ariths div4)
  qed
  define q r where "q = unat sz div 4" and "r = unat sz mod 4"
  have qr: "unat sz = 4 * q + r" "r < 4" by (simp_all add: q_def r_def)
  with unat_lt_16 [of sz] have q: "q \<le> 16383" by linarith
  show ?thesis
  proof (cases "r = 0")
    case True
    then have "unat (get_aligned_size sz) = 4 * q mod 65536"
      using low by (simp add: get_aligned_size_def Let_def up div4 q_def r_def)
    with True q qr show ?thesis by simp
  next
    case False
    then have "unat (get_aligned_size sz) = 4 * (q + 1) mod 65536"
      using low by (simp add: get_aligned_size_def Let_def up suc q_def r_def)
    moreover have "(4 * q + r + 3) div 4 = q + 1" using False qr(2) by simp
    ultimately show ?thesis using False q qr by (cases "q = 16383") simp_all
  qed
qed

lemma get_power_len_bits:
  assumes "clz_spec clz" and "2 \<le> unat len" and "unat len \<le> 32768"
  obtains k where "1 \<le> k" "k \<le> 15" "unat (get_power_len clz len) = 2 ^ k"
    "unat len \<le> 2 ^ k" "2 ^ k < 2 * unat len"
proof -
  have len1: "unat (len - 1) = unat len - 1"
    using assms(2) by (intro unat_minus_one) auto
  define x :: u32 where "x = ucast (len - 1)"
  have x: "unat x = unat len - 1" by (simp add: x_def len1)
  then have "x \<noteq> 0" using assms(2) by auto
  with assms(1) have clz: "clz x \<le> 31" "2 ^ (31 - clz x) \<le> unat x" "unat x < 2 ^ (32 - clz x)"
    by (auto simp: clz_spec_def)
  have "(2::nat) ^ (31 - clz x) < 2 ^ 15" using clz(2) x assms(3) by simp
  then have small: "31 - clz x < 15" by (simp only: power_strict_increasing_iff)
  define k where "k = 32 - clz x"
  have k: "1 \<le> k" "k \<le> 15" "(2::nat) ^ k = 2 * 2 ^ (31 - clz x)"
    using clz(1) small by (simp_all add: k_def Suc_diff_le flip: power_Suc)
  have "\<not> push_bit 15 (1 :: u16) < len" using assms(3) by (simp add: word_less_nat_alt)
  moreover have "len \<noteq> 0" using assms(2) by auto
  ultimately have "get_power_len clz len = ucast (push_bit k (1 :: u32))"
    by (simp add: get_power_len_def Let_def x_def k_def)
  moreover have "unat (ucast (push_bit k (1 :: u32)) :: u16) = 2 ^ k"
  proof -
    have le: "(2::nat) ^ k \<le> 2 ^ 15" using k(2) by (intro power_increasing) auto
    then show ?thesis
      using k(2) by (simp add: unsigned_ucast_eq push_bit_eq_mult unat_2_power take_bit_nat_eq_self)
  qed
  moreover have "unat len \<le> 2 ^ k" using clz(3) x assms(2) by (simp add: k_def)
  moreover have "2 ^ k < 2 * unat len" using k(3) clz(2) x assms(2) by linarith
  ultimately show thesis using that [of k] k(1,2) by simp
qed

lemma get_power_len_zero:
  "len = 0 \<or> 32768 < unat len \<Longrightarrow> get_power_len clz len = 0"
  by (auto simp: get_power_len_def Let_def word_less_nat_alt)

end
