(* ===== verification/Amp_Arith64.thy ===== *)
theory Amp_Arith64
  imports Amp_Utils
begin

text \<open>
  The integer support routines of src/components/esp_amp/idf_stub/esp_system/arith64.c, which the
  subcore firmware links in place of libgcc: counting zeros, 64 bit shifts built from 32 bit halves,
  and 64 bit division by shift and subtract.
\<close>

subsection \<open>Counting leading and trailing zeros\<close>

text \<open>One line \<open>b = !(a & m) << k; n += b; a <<= 2^k\<close> of the C code, with \<open>d = 2^k\<close>.\<close>

definition clz_stage :: "'a::len word \<Rightarrow> nat \<Rightarrow> nat \<times> 'a word \<Rightarrow> nat \<times> 'a word" where
  "clz_stage m d = (\<lambda>(n, a). let b = (if a AND m = 0 then d else 0) in (n + b, push_bit b a))"

definition ctz_stage :: "'a::len word \<Rightarrow> nat \<Rightarrow> nat \<times> 'a word \<Rightarrow> nat \<times> 'a word" where
  "ctz_stage m d = (\<lambda>(n, a). let b = (if a AND m = 0 then d else 0) in (n + b, drop_bit b a))"

definition clzsi2 :: "u32 \<Rightarrow> nat" where
  "clzsi2 a =
     (let s = (0, a);
          s = clz_stage 0xffff0000 16 s;
          s = clz_stage 0xff000000 8 s;
          s = clz_stage 0xf0000000 4 s;
          s = clz_stage 0xc0000000 2 s
      in fst s + (if snd s AND 0x80000000 = 0 then 1 else 0))"

definition clzdi2 :: "u64 \<Rightarrow> nat" where
  "clzdi2 a =
     (let s = (0, a);
          s = clz_stage 0xffffffff00000000 32 s;
          s = clz_stage 0xffff000000000000 16 s;
          s = clz_stage 0xff00000000000000 8 s;
          s = clz_stage 0xf000000000000000 4 s;
          s = clz_stage 0xc000000000000000 2 s
      in fst s + (if snd s AND 0x8000000000000000 = 0 then 1 else 0))"

definition ctzsi2 :: "u32 \<Rightarrow> nat" where
  "ctzsi2 a =
     (let s = (0, a);
          s = ctz_stage 0x0000ffff 16 s;
          s = ctz_stage 0x000000ff 8 s;
          s = ctz_stage 0x0000000f 4 s;
          s = ctz_stage 0x00000003 2 s
      in fst s + (if snd s AND 1 = 0 then 1 else 0))"

definition ctzdi2 :: "u64 \<Rightarrow> nat" where
  "ctzdi2 a =
     (let s = (0, a);
          s = ctz_stage 0x00000000ffffffff 32 s;
          s = ctz_stage 0x000000000000ffff 16 s;
          s = ctz_stage 0x00000000000000ff 8 s;
          s = ctz_stage 0x000000000000000f 4 s;
          s = ctz_stage 0x0000000000000003 2 s
      in fst s + (if snd s AND 1 = 0 then 1 else 0))"

definition ffsdi2 :: "u64 \<Rightarrow> nat" where
  "ffsdi2 a = (if a \<noteq> 0 then ctzdi2 a + 1 else 0)"

lemma high_bits_zero:
  fixes a :: "'a::len word"
  shows "a AND NOT (mask j) = 0 \<longleftrightarrow> unat a < 2 ^ j"
proof -
  have "a AND NOT (mask j) = 0 \<longleftrightarrow> take_bit j a = a"
    by (auto simp: bit_eq_iff bit_simps)
  also have "\<dots> \<longleftrightarrow> take_bit j (unat a) = unat a"
    by (simp add: word_unat_eq_iff unsigned_take_bit_eq)
  also have "\<dots> \<longleftrightarrow> unat a < 2 ^ j" by (simp add: take_bit_nat_eq_self_iff)
  finally show ?thesis .
qed

text \<open>
  A stage of \<open>clz\<close> on a value with a bit among the upper \<open>2 d\<close>: afterwards there is one among the
  upper \<open>d\<close>, and the value has been shifted by the added count without losing a bit.
\<close>

lemma clz_stage_sound:
  fixes a x :: "'a::len word"
  assumes "m = NOT (mask (LENGTH('a) - d))" and "2 * d \<le> LENGTH('a)" and "0 < d"
    and "unat a = unat x * 2 ^ n" and "2 ^ (LENGTH('a) - 2 * d) \<le> unat a"
    and "clz_stage m d (n, a) = (n', a')"
  shows "unat a' = unat x * 2 ^ n' \<and> 2 ^ (LENGTH('a) - d) \<le> unat a' \<and> n' \<le> n + d"
proof (cases "unat a < 2 ^ (LENGTH('a) - d)")
  case True
  then have r: "n' = n + d" "a' = push_bit d a"
    using assms(1,6) by (simp_all add: clz_stage_def high_bits_zero)
  have "unat a * 2 ^ d < 2 ^ (LENGTH('a) - d) * 2 ^ d" using True by simp
  also have "\<dots> = 2 ^ LENGTH('a)" using assms(2,3) by (simp flip: power_add)
  finally have "unat (push_bit d a) = unat a * 2 ^ d"
    by (simp only: unsigned_push_bit_eq) (simp add: push_bit_eq_mult take_bit_nat_eq_self)
  moreover have "(2::nat) ^ (LENGTH('a) - d) = 2 ^ (LENGTH('a) - 2 * d) * 2 ^ d"
    using assms(2) by (simp flip: power_add)
  ultimately show ?thesis using r assms(4,5) by (simp add: power_add)
next
  case False
  then have "n' = n" "a' = a"
    using assms(1,6) by (simp_all add: clz_stage_def high_bits_zero)
  with False assms(4) show ?thesis by simp
qed

text \<open>The number of leading zeros, as the position of the highest bit.\<close>

lemma clz_count:
  fixes a x :: "'a::len word"
  assumes "unat a = unat x * 2 ^ n" and "2 ^ (LENGTH('a) - 2) \<le> unat a" and "2 \<le> LENGTH('a)"
    and "r = n + (if unat a < 2 ^ (LENGTH('a) - 1) then 1 else 0)" and "n \<le> LENGTH('a) - 2"
  shows "r \<le> LENGTH('a) - 1 \<and> 2 ^ (LENGTH('a) - 1 - r) \<le> unat x \<and> unat x < 2 ^ (LENGTH('a) - r)"
proof -
  let ?w = "LENGTH('a)"
  have cancel: "2 ^ (p - n) \<le> unat x" if "2 ^ p \<le> unat x * 2 ^ n" "n \<le> p" for p
  proof -
    have "(2::nat) ^ p = 2 ^ (p - n) * 2 ^ n" using that(2) by (simp flip: power_add)
    then show ?thesis using that(1) by simp
  qed
  have cancel_lt: "unat x < 2 ^ (p - n)" if "unat x * 2 ^ n < 2 ^ p" "n \<le> p" for p
  proof -
    have "(2::nat) ^ p = 2 ^ (p - n) * 2 ^ n" using that(2) by (simp flip: power_add)
    then show ?thesis using that(1) by simp
  qed
  show ?thesis
  proof (cases "unat a < 2 ^ (?w - 1)")
    case True
    then have "2 ^ (?w - 2 - n) \<le> unat x" "unat x < 2 ^ (?w - 1 - n)"
      using assms cancel [of "?w - 2"] cancel_lt [of "?w - 1"] by simp_all
    moreover have "?w - 1 - (n + 1) = ?w - 2 - n" "?w - (n + 1) = ?w - 1 - n" by simp_all
    ultimately show ?thesis using True assms(3-5) by simp
  next
    case False
    have "unat a < 2 ^ ?w" by (rule unsigned_less)
    then have "2 ^ (?w - 1 - n) \<le> unat x" "unat x < 2 ^ (?w - n)"
      using False assms cancel [of "?w - 1"] cancel_lt [of ?w] by simp_all
    then show ?thesis using False assms(3-5) by simp
  qed
qed

lemma clzsi2_spec:
  assumes "x \<noteq> 0"
  shows "clzsi2 x \<le> 31 \<and> 2 ^ (31 - clzsi2 x) \<le> unat x \<and> unat x < 2 ^ (32 - clzsi2 x)"
proof -
  have m: "0xffff0000 = NOT (mask 16 :: u32)" "0xff000000 = NOT (mask 24 :: u32)"
    "0xf0000000 = NOT (mask 28 :: u32)" "0xc0000000 = NOT (mask 30 :: u32)"
    "0x80000000 = NOT (mask 31 :: u32)"
    by (simp_all add: mask_eq_exp_minus_1)
  obtain n1 a1 where s1: "clz_stage 0xffff0000 16 (0, x) = (n1, a1)" by fastforce
  obtain n2 a2 where s2: "clz_stage 0xff000000 8 (n1, a1) = (n2, a2)" by fastforce
  obtain n3 a3 where s3: "clz_stage 0xf0000000 4 (n2, a2) = (n3, a3)" by fastforce
  obtain n4 a4 where s4: "clz_stage 0xc0000000 2 (n3, a3) = (n4, a4)" by fastforce
  have "0 < unat x" using assms by (simp add: unat_gt_0)
  then have i1: "unat a1 = unat x * 2 ^ n1 \<and> 2 ^ 16 \<le> unat a1 \<and> n1 \<le> 16"
    using clz_stage_sound [of _ 16 x x 0 n1 a1] s1 m by simp
  then have i2: "unat a2 = unat x * 2 ^ n2 \<and> 2 ^ 24 \<le> unat a2 \<and> n2 \<le> 24"
    using clz_stage_sound [of _ 8 a1 x n1 n2 a2] s2 m by simp
  then have i3: "unat a3 = unat x * 2 ^ n3 \<and> 2 ^ 28 \<le> unat a3 \<and> n3 \<le> 28"
    using clz_stage_sound [of _ 4 a2 x n2 n3 a3] s3 m by simp
  then have i4: "unat a4 = unat x * 2 ^ n4 \<and> 2 ^ 30 \<le> unat a4 \<and> n4 \<le> 30"
    using clz_stage_sound [of _ 2 a3 x n3 n4 a4] s4 m by simp
  have r: "clzsi2 x = n4 + (if unat a4 < 2 ^ 31 then 1 else 0)"
    unfolding clzsi2_def Let_def s1 s2 s3 s4 m(5) high_bits_zero by simp
  from clz_count [of a4 x n4 "clzsi2 x"] i4 r show ?thesis by simp
qed

lemma clzdi2_spec:
  assumes "x \<noteq> 0"
  shows "clzdi2 x \<le> 63 \<and> 2 ^ (63 - clzdi2 x) \<le> unat x \<and> unat x < 2 ^ (64 - clzdi2 x)"
proof -
  have m: "0xffffffff00000000 = NOT (mask 32 :: u64)" "0xffff000000000000 = NOT (mask 48 :: u64)"
    "0xff00000000000000 = NOT (mask 56 :: u64)" "0xf000000000000000 = NOT (mask 60 :: u64)"
    "0xc000000000000000 = NOT (mask 62 :: u64)" "0x8000000000000000 = NOT (mask 63 :: u64)"
    by (simp_all add: mask_eq_exp_minus_1)
  obtain n0 a0 where s0: "clz_stage 0xffffffff00000000 32 (0, x) = (n0, a0)" by fastforce
  obtain n1 a1 where s1: "clz_stage 0xffff000000000000 16 (n0, a0) = (n1, a1)" by fastforce
  obtain n2 a2 where s2: "clz_stage 0xff00000000000000 8 (n1, a1) = (n2, a2)" by fastforce
  obtain n3 a3 where s3: "clz_stage 0xf000000000000000 4 (n2, a2) = (n3, a3)" by fastforce
  obtain n4 a4 where s4: "clz_stage 0xc000000000000000 2 (n3, a3) = (n4, a4)" by fastforce
  have "0 < unat x" using assms by (simp add: unat_gt_0)
  then have i0: "unat a0 = unat x * 2 ^ n0 \<and> 2 ^ 32 \<le> unat a0 \<and> n0 \<le> 32"
    using clz_stage_sound [of _ 32 x x 0 n0 a0] s0 m by simp
  then have i1: "unat a1 = unat x * 2 ^ n1 \<and> 2 ^ 48 \<le> unat a1 \<and> n1 \<le> 48"
    using clz_stage_sound [of _ 16 a0 x n0 n1 a1] s1 m by simp
  then have i2: "unat a2 = unat x * 2 ^ n2 \<and> 2 ^ 56 \<le> unat a2 \<and> n2 \<le> 56"
    using clz_stage_sound [of _ 8 a1 x n1 n2 a2] s2 m by simp
  then have i3: "unat a3 = unat x * 2 ^ n3 \<and> 2 ^ 60 \<le> unat a3 \<and> n3 \<le> 60"
    using clz_stage_sound [of _ 4 a2 x n2 n3 a3] s3 m by simp
  then have i4: "unat a4 = unat x * 2 ^ n4 \<and> 2 ^ 62 \<le> unat a4 \<and> n4 \<le> 62"
    using clz_stage_sound [of _ 2 a3 x n3 n4 a4] s4 m by simp
  have r: "clzdi2 x = n4 + (if unat a4 < 2 ^ 63 then 1 else 0)"
    unfolding clzdi2_def Let_def s0 s1 s2 s3 s4 m(6) high_bits_zero by simp
  from clz_count [of a4 x n4 "clzdi2 x"] i4 r show ?thesis by simp
qed

lemma clz_spec_clzsi2: "clz_spec clzsi2"
  unfolding clz_spec_def using clzsi2_spec by blast

subsection \<open>Sizing of queues\<close>

text \<open>The length of a queue is rounded up to the least power of two that is not smaller, for every
  length from two to 32768 and every correct count-leading-zeros intrinsic; zero and larger lengths
  are rejected.\<close>

theorem get_power_len_least:
  assumes "clz_spec clz"
  shows "if 2 \<le> unat len \<and> unat len \<le> 32768
    then \<exists>k. unat (get_power_len clz len) = 2 ^ k \<and> unat len \<le> 2 ^ k \<and>
           (\<forall>j. unat len \<le> 2 ^ j \<longrightarrow> k \<le> j)
    else unat len = 1 \<or> get_power_len clz len = 0"
proof (cases "2 \<le> unat len \<and> unat len \<le> 32768")
  case True
  then obtain k where k: "1 \<le> k" "unat (get_power_len clz len) = 2 ^ k" "unat len \<le> 2 ^ k"
    "2 ^ k < 2 * unat len"
    using get_power_len_bits [OF assms, of len] by metis
  have "k \<le> j" if "unat len \<le> 2 ^ j" for j
  proof (rule ccontr)
    assume "\<not> k \<le> j"
    then have "(2::nat) ^ Suc j \<le> 2 ^ k" by (intro power_increasing) auto
    then show False using that k(4) by simp
  qed
  with True k show ?thesis by auto
next
  case False
  then have "unat len = 1 \<or> len = 0 \<or> 32768 < unat len"
    by (metis One_nat_def Suc_1 Suc_leI le_neq_implies_less not_less unat_eq_zero zero_less_iff_neq_zero)
  with False show ?thesis using get_power_len_zero [of len clz] by auto
qed

theorem get_power_len_least_witness:
  "\<exists>k. unat (get_power_len clzsi2 5) = 2 ^ k \<and> 5 \<le> (2 :: nat) ^ k \<and> (\<forall>j. 5 \<le> (2 :: nat) ^ j \<longrightarrow> k \<le> j)"
  using get_power_len_least [OF clz_spec_clzsi2, of 5] by simp

end
