(* ===== verification/Amp_Port.thy ===== *)
theory Amp_Port
  imports Amp_Prelude
begin

text \<open>
  The port layer (src/components/esp_amp/port): build configuration, the state of one core
  together with the memory and interrupt lines it shares with its peer, critical sections of
  the bare-metal and FreeRTOS environments, and the software interrupt hardware.

  Preprocessor conditions become tests of a configuration record. The functions of FreeRTOS
  that the sources only call are fields of that record. The part of the state that this
  development does not model (application data a callback may reach) is the record extension.
\<close>

subsection \<open>State of a core\<close>

text \<open>
  \<open>main_sw_intr\<close> and \<open>sub_sw_intr\<close> are the pending software interrupt lines of maincore and
  subcore: bit \<open>hp_trigger_lp\<close> / \<open>lp_trigger_hp\<close> of the PMU, or the registers
  \<open>CPU_INT_FROM_CPU_3\<close> / \<open>CPU_INT_FROM_CPU_2\<close> of the interrupt matrix.
\<close>

record core =
  mem :: memory
  main_sw_intr :: bool
  sub_sw_intr :: bool
  sw_intr_ena :: bool
  mstatus :: u32
  s_critical_nesting :: u32
  s_old_mstatus :: u32
  bm_intr_nesting_cnt :: u32
  lp_access_hp_cnt :: ptr

record 'z config =
  IS_MAIN_CORE :: bool
  IS_ENV_BM :: bool
  SUBCORE_TYPE_LP_CORE :: bool
  AUTO_LIGHT_SLEEP_SUPPORT :: bool
  CFG_HP_SHARED_MEM_END :: ptr
  CFG_HP_SHARED_MEM_SIZE :: u32
  CFG_RTC_MEM_START :: ptr
  CFG_ULP_COPROC_RESERVE_MEM :: u32
  CFG_RTC_SHARED_MEM_SIZE :: u32
  xPortInIsrContext :: "'z core_scheme \<Rightarrow> bool"
  portENTER_CRITICAL :: "'z core_scheme \<Rightarrow> 'z core_scheme"
  portENTER_CRITICAL_ISR :: "'z core_scheme \<Rightarrow> 'z core_scheme"
  portEXIT_CRITICAL :: "'z core_scheme \<Rightarrow> 'z core_scheme"
  portEXIT_CRITICAL_ISR :: "'z core_scheme \<Rightarrow> 'z core_scheme"

text \<open>The machine interrupt enable bit of the RISC-V status register.\<close>

definition MSTATUS_MIE :: u32 where
  "MSTATUS_MIE = 8"

definition irq_enabled :: "'z core_scheme \<Rightarrow> bool" where
  "irq_enabled s \<longleftrightarrow> mstatus s AND MSTATUS_MIE \<noteq> 0"

subsection \<open>Critical sections\<close>

definition bm_enter_critical :: "'z core_scheme \<Rightarrow> 'z core_scheme" where
  "bm_enter_critical s =
     (let old_mstatus = mstatus s;
          s1 = s\<lparr>mstatus := mstatus s AND NOT MSTATUS_MIE\<rparr>;
          s2 = s1\<lparr>s_critical_nesting := s_critical_nesting s1 + 1\<rparr>
      in if s_critical_nesting s1 = 0 then s2\<lparr>s_old_mstatus := old_mstatus\<rparr> else s2)"

definition bm_exit_critical :: "'z core_scheme \<Rightarrow> 'z core_scheme" where
  "bm_exit_critical s =
     (if 0 < s_critical_nesting s then
        let s1 = s\<lparr>s_critical_nesting := s_critical_nesting s - 1\<rparr>
        in if s_critical_nesting s1 = 0
           then s1\<lparr>mstatus := mstatus s1 OR (s_old_mstatus s1 AND MSTATUS_MIE)\<rparr>
           else s1
      else s)"

definition fr_enter_critical :: "'z config \<Rightarrow> 'z core_scheme \<Rightarrow> 'z core_scheme" where
  "fr_enter_critical c s =
     (if xPortInIsrContext c s then portENTER_CRITICAL_ISR c s else portENTER_CRITICAL c s)"

definition fr_exit_critical :: "'z config \<Rightarrow> 'z core_scheme \<Rightarrow> 'z core_scheme" where
  "fr_exit_critical c s =
     (if xPortInIsrContext c s then portEXIT_CRITICAL_ISR c s else portEXIT_CRITICAL c s)"

definition esp_amp_env_enter_critical :: "'z config \<Rightarrow> 'z core_scheme \<Rightarrow> 'z core_scheme" where
  "esp_amp_env_enter_critical c s =
     (if IS_ENV_BM c then bm_enter_critical s else fr_enter_critical c s)"

definition esp_amp_env_exit_critical :: "'z config \<Rightarrow> 'z core_scheme \<Rightarrow> 'z core_scheme" where
  "esp_amp_env_exit_critical c s =
     (if IS_ENV_BM c then bm_exit_critical s else fr_exit_critical c s)"

definition bm_env_in_isr :: "'z core_scheme \<Rightarrow> bool" where
  "bm_env_in_isr s \<longleftrightarrow> 0 < bm_intr_nesting_cnt s"

definition fr_env_in_isr :: "'z config \<Rightarrow> 'z core_scheme \<Rightarrow> bool" where
  "fr_env_in_isr c s \<longleftrightarrow> xPortInIsrContext c s"

definition esp_amp_env_in_isr :: "'z config \<Rightarrow> 'z core_scheme \<Rightarrow> bool" where
  "esp_amp_env_in_isr c s \<longleftrightarrow> (if IS_ENV_BM c then bm_env_in_isr s else fr_env_in_isr c s)"

subsection \<open>Software interrupt hardware\<close>

text \<open>
  The PMU variant (ESP32-C5, ESP32-C6) and the interrupt matrix variant (ESP32-P4) of the same
  four operations. Both set the line of the peer core and clear the line of the own core.
\<close>

definition pmu_sw_intr_trigger :: "'z config \<Rightarrow> 'z core_scheme \<Rightarrow> 'z core_scheme" where
  "pmu_sw_intr_trigger c s =
     (if IS_MAIN_CORE c then s\<lparr>sub_sw_intr := True\<rparr> else s\<lparr>main_sw_intr := True\<rparr>)"

definition pmu_sw_intr_clear :: "'z config \<Rightarrow> 'z core_scheme \<Rightarrow> 'z core_scheme" where
  "pmu_sw_intr_clear c s =
     (if IS_MAIN_CORE c then s\<lparr>main_sw_intr := False\<rparr> else s\<lparr>sub_sw_intr := False\<rparr>)"

definition pmu_sw_intr_enable :: "'z core_scheme \<Rightarrow> 'z core_scheme" where
  "pmu_sw_intr_enable s = s\<lparr>sw_intr_ena := True\<rparr>"

definition pmu_sw_intr_disable :: "'z core_scheme \<Rightarrow> 'z core_scheme" where
  "pmu_sw_intr_disable s = s\<lparr>sw_intr_ena := False\<rparr>"

definition intmtx_sw_intr_trigger :: "'z config \<Rightarrow> 'z core_scheme \<Rightarrow> 'z core_scheme" where
  "intmtx_sw_intr_trigger c s =
     (if IS_MAIN_CORE c then s\<lparr>sub_sw_intr := True\<rparr> else s\<lparr>main_sw_intr := True\<rparr>)"

definition intmtx_sw_intr_clear :: "'z config \<Rightarrow> 'z core_scheme \<Rightarrow> 'z core_scheme" where
  "intmtx_sw_intr_clear c s =
     (if IS_MAIN_CORE c then s\<lparr>main_sw_intr := False\<rparr> else s\<lparr>sub_sw_intr := False\<rparr>)"

definition intmtx_sw_intr_enable :: "'z core_scheme \<Rightarrow> 'z core_scheme" where
  "intmtx_sw_intr_enable s = s\<lparr>sw_intr_ena := True\<rparr>"

definition intmtx_sw_intr_disable :: "'z core_scheme \<Rightarrow> 'z core_scheme" where
  "intmtx_sw_intr_disable s = s\<lparr>sw_intr_ena := False\<rparr>"

definition esp_amp_platform_sw_intr_trigger ::
    "'z config \<Rightarrow> 'z core_scheme \<Rightarrow> 'z core_scheme" where
  "esp_amp_platform_sw_intr_trigger c s =
     (if SUBCORE_TYPE_LP_CORE c then pmu_sw_intr_trigger c s else intmtx_sw_intr_trigger c s)"

definition esp_amp_platform_sw_intr_clear ::
    "'z config \<Rightarrow> 'z core_scheme \<Rightarrow> 'z core_scheme" where
  "esp_amp_platform_sw_intr_clear c s =
     (if SUBCORE_TYPE_LP_CORE c then pmu_sw_intr_clear c s else intmtx_sw_intr_clear c s)"

definition esp_amp_platform_sw_intr_enable ::
    "'z config \<Rightarrow> 'z core_scheme \<Rightarrow> 'z core_scheme" where
  "esp_amp_platform_sw_intr_enable c s =
     (if SUBCORE_TYPE_LP_CORE c then pmu_sw_intr_enable s else intmtx_sw_intr_enable s)"

definition esp_amp_platform_sw_intr_disable ::
    "'z config \<Rightarrow> 'z core_scheme \<Rightarrow> 'z core_scheme" where
  "esp_amp_platform_sw_intr_disable c s =
     (if SUBCORE_TYPE_LP_CORE c then pmu_sw_intr_disable s else intmtx_sw_intr_disable s)"

subsection \<open>What a critical section may change\<close>

text \<open>
  Entering or leaving a critical section changes only the interrupt mask of the core and the
  book-keeping of the nesting depth. For FreeRTOS this is the documented behaviour of the port
  macros and a hypothesis on the configuration; for bare metal it is proved below.
\<close>

definition crit_frame :: "'z core_scheme \<Rightarrow> 'z core_scheme \<Rightarrow> bool" where
  "crit_frame s s' \<longleftrightarrow>
     mem s' = mem s \<and> main_sw_intr s' = main_sw_intr s \<and> sub_sw_intr s' = sub_sw_intr s \<and>
     sw_intr_ena s' = sw_intr_ena s \<and> bm_intr_nesting_cnt s' = bm_intr_nesting_cnt s \<and>
     lp_access_hp_cnt s' = lp_access_hp_cnt s \<and> core.more s' = core.more s"

definition port_ok :: "'z config \<Rightarrow> bool" where
  "port_ok c \<longleftrightarrow> IS_ENV_BM c \<or>
     (\<forall>s. crit_frame s (portENTER_CRITICAL c s) \<and> crit_frame s (portENTER_CRITICAL_ISR c s) \<and>
          crit_frame s (portEXIT_CRITICAL c s) \<and> crit_frame s (portEXIT_CRITICAL_ISR c s))"

lemma crit_frame_refl [simp]: "crit_frame s s"
  by (simp add: crit_frame_def)

lemma crit_frame_trans: "crit_frame s t \<Longrightarrow> crit_frame t u \<Longrightarrow> crit_frame s u"
  by (simp add: crit_frame_def)

lemma crit_frame_fields:
  assumes "crit_frame s s'"
  shows "mem s' = mem s" "main_sw_intr s' = main_sw_intr s" "sub_sw_intr s' = sub_sw_intr s"
    "sw_intr_ena s' = sw_intr_ena s" "lp_access_hp_cnt s' = lp_access_hp_cnt s"
    "core.more s' = core.more s"
  using assms by (simp_all add: crit_frame_def)

text \<open>The contract every critical section implementation offers to its clients.\<close>

locale critical_section =
  fixes enter exit :: "'z core_scheme \<Rightarrow> 'z core_scheme"
  assumes enter_frame: "crit_frame s (enter s)"
    and exit_frame: "crit_frame s (exit s)"
begin

lemma section_frame:
  assumes "\<And>t. crit_frame t (f t)"
  shows "crit_frame s (exit (f (enter s)))"
  using assms enter_frame exit_frame by (blast intro: crit_frame_trans)

lemma section_mem:
  assumes "\<And>t. mem (f t) = g (mem t)"
  shows "mem (exit (f (enter s))) = g (mem s)"
  using assms crit_frame_fields(1) [OF exit_frame] crit_frame_fields(1) [OF enter_frame]
  by metis

end

lemma bm_enter_frame: "crit_frame s (bm_enter_critical s)"
  by (simp add: crit_frame_def bm_enter_critical_def Let_def)

lemma bm_exit_frame: "crit_frame s (bm_exit_critical s)"
  by (simp add: crit_frame_def bm_exit_critical_def Let_def)

interpretation bm_section: critical_section bm_enter_critical bm_exit_critical
  by unfold_locales (rule bm_enter_frame bm_exit_frame)+

lemma env_enter_frame: "port_ok c \<Longrightarrow> crit_frame s (esp_amp_env_enter_critical c s)"
  by (auto simp: port_ok_def esp_amp_env_enter_critical_def fr_enter_critical_def
      intro: bm_enter_frame)

lemma env_exit_frame: "port_ok c \<Longrightarrow> crit_frame s (esp_amp_env_exit_critical c s)"
  by (auto simp: port_ok_def esp_amp_env_exit_critical_def fr_exit_critical_def
      intro: bm_exit_frame)

lemmas env_enter_fields [simp] = crit_frame_fields [OF env_enter_frame]
lemmas env_exit_fields [simp] = crit_frame_fields [OF env_exit_frame]

subsection \<open>Nesting\<close>

text \<open>A sequence of critical section entries (\<open>True\<close>) and exits (\<open>False\<close>), and its depth.\<close>

fun bm_sections :: "bool list \<Rightarrow> 'z core_scheme \<Rightarrow> 'z core_scheme" where
  "bm_sections [] s = s"
| "bm_sections (b # bs) s = bm_sections bs (if b then bm_enter_critical s else bm_exit_critical s)"

fun depth :: "nat \<Rightarrow> bool list \<Rightarrow> nat option" where
  "depth n [] = Some n"
| "depth n (True # bs) = depth (Suc n) bs"
| "depth n (False # bs) = (case n of 0 \<Rightarrow> None | Suc k \<Rightarrow> depth k bs)"

text \<open>
  The state inside \<open>n\<close> nested sections that were entered with the interrupt enable bit \<open>ie\<close> and the
  other bits \<open>rest\<close> of the status register.
\<close>

definition in_sections :: "bool \<Rightarrow> u32 \<Rightarrow> nat \<Rightarrow> 'z core_scheme \<Rightarrow> bool" where
  "in_sections ie rest n s \<longleftrightarrow> unat (s_critical_nesting s) = n \<and> mstatus s AND NOT MSTATUS_MIE = rest \<and>
     irq_enabled s = (n = 0 \<and> ie) \<and> (0 < n \<longrightarrow> (s_old_mstatus s AND MSTATUS_MIE \<noteq> 0) = ie)"

lemma MIE_bit: "x AND MSTATUS_MIE \<noteq> 0 \<longleftrightarrow> bit x 3"
  using and_exp_eq_0_iff_not_bit [of x 3] by (simp add: MSTATUS_MIE_def)

lemma bit_MIE: "bit MSTATUS_MIE n \<longleftrightarrow> n = 3"
proof -
  have "MSTATUS_MIE = 2 ^ 3" by (simp add: MSTATUS_MIE_def)
  moreover have "bit (2 ^ 3 :: u32) n \<longleftrightarrow> n = 3" unfolding bit_exp_iff by auto
  ultimately show ?thesis by (simp only:)
qed

lemma irq_enabled_bit: "irq_enabled s \<longleftrightarrow> bit (mstatus s) 3"
  by (simp add: irq_enabled_def MIE_bit)

lemma mie_update:
  "(x AND NOT MSTATUS_MIE) AND NOT MSTATUS_MIE = x AND NOT MSTATUS_MIE"
  "(x OR y AND MSTATUS_MIE) AND NOT MSTATUS_MIE = x AND NOT MSTATUS_MIE"
  "\<not> bit (x AND NOT MSTATUS_MIE) 3" "bit (x OR y AND MSTATUS_MIE) 3 \<longleftrightarrow> bit x 3 \<or> bit y 3"
  for x y :: u32
  by (auto intro!: bit_word_eqI simp: bit_simps bit_MIE)

lemma enter_in_sections:
  assumes "in_sections ie rest n s" and "Suc n < 4294967296"
  shows "in_sections ie rest (Suc n) (bm_enter_critical s)"
proof -
  have "unat (s_critical_nesting s + 1) = Suc n"
    using assms by (simp add: in_sections_def unat_word_ariths)
  moreover have "s_critical_nesting s = 0 \<longleftrightarrow> n = 0" using assms(1) by (auto simp: in_sections_def unat_eq_0)
  ultimately show ?thesis
    using assms(1) by (auto simp: in_sections_def bm_enter_critical_def Let_def irq_enabled_bit MIE_bit mie_update)
qed

lemma exit_in_sections:
  assumes "in_sections ie rest (Suc n) s"
  shows "in_sections ie rest n (bm_exit_critical s)"
proof -
  have "unat (s_critical_nesting s) = Suc n" using assms by (simp add: in_sections_def)
  moreover from this have "s_critical_nesting s \<noteq> 0" by auto
  ultimately have "0 < s_critical_nesting s" and k: "unat (s_critical_nesting s - 1) = n"
    using unat_minus_one [of "s_critical_nesting s"] by (simp_all add: word_neq_0_conv)
  moreover have "s_critical_nesting s - 1 = 0 \<longleftrightarrow> n = 0" using k by (auto simp: unat_eq_0)
  ultimately show ?thesis
    using assms by (auto simp: in_sections_def bm_exit_critical_def Let_def irq_enabled_bit MIE_bit mie_update)
qed

lemma sections_nest:
  "in_sections ie rest n s \<Longrightarrow> depth n bs = Some k \<Longrightarrow> n + length bs < 4294967296 \<Longrightarrow>
   in_sections ie rest k (bm_sections bs s)"
proof (induction n bs arbitrary: s rule: depth.induct)
  case (2 n bs)
  then show ?case using enter_in_sections [of ie rest n s] by simp
next
  case (3 n bs)
  then show ?case using exit_in_sections [of ie rest "n - 1" s] by (cases n) auto
qed simp

subsection \<open>A sample configuration\<close>

text \<open>
  An ESP32-C6 like set-up (bare-metal LP subcore, 16 KB of HP shared memory, 2 KB of RTC shared
  memory), on which the witnesses of the development evaluate.
\<close>

definition demo_config :: "bool \<Rightarrow> 'z config" where
  "demo_config main = \<lparr>IS_MAIN_CORE = main, IS_ENV_BM = True, SUBCORE_TYPE_LP_CORE = True,
     AUTO_LIGHT_SLEEP_SUPPORT = False,
     CFG_HP_SHARED_MEM_END = 0x4087e560, CFG_HP_SHARED_MEM_SIZE = 0x4000,
     CFG_RTC_MEM_START = 0x50000000, CFG_ULP_COPROC_RESERVE_MEM = 0x3000,
     CFG_RTC_SHARED_MEM_SIZE = 0x800,
     xPortInIsrContext = \<lambda>s. False, portENTER_CRITICAL = id, portENTER_CRITICAL_ISR = id,
     portEXIT_CRITICAL = id, portEXIT_CRITICAL_ISR = id\<rparr>"

definition demo_core :: "core" where
  "demo_core = \<lparr>mem = (\<lambda>_. 0), main_sw_intr = False, sub_sw_intr = False, sw_intr_ena = True,
     mstatus = MSTATUS_MIE, s_critical_nesting = 0, s_old_mstatus = 0, bm_intr_nesting_cnt = 0,
     lp_access_hp_cnt = NULL\<rparr>"

lemma demo_config_simps [simp]:
  "IS_MAIN_CORE (demo_config b) = b" "IS_ENV_BM (demo_config b)"
  "SUBCORE_TYPE_LP_CORE (demo_config b)" "\<not> AUTO_LIGHT_SLEEP_SUPPORT (demo_config b)"
  "port_ok (demo_config b)"
  by (simp_all add: demo_config_def port_ok_def)

subsection \<open>Properties\<close>

text \<open>C35. Critical sections on bare metal nest. After any sequence of entries and exits that never
  leaves more sections than it entered, interrupts are disabled as long as a section is open, and
  when the outermost one is closed the status register is what it was before, so that interrupts
  are enabled again exactly if they were enabled at the start.\<close>

theorem critical_sections_nest:
  assumes "s_critical_nesting s = 0" and "depth 0 bs = Some k" and "length bs < 4294967296"
  shows "(0 < k \<longrightarrow> \<not> irq_enabled (bm_sections bs s)) \<and>
    (k = 0 \<longrightarrow> mstatus (bm_sections bs s) = mstatus s \<and> s_critical_nesting (bm_sections bs s) = 0)"
proof -
  have "in_sections (irq_enabled s) (mstatus s AND NOT MSTATUS_MIE) 0 s" using assms(1) by (simp add: in_sections_def)
  from sections_nest [OF this assms(2)] assms(3)
  have s': "in_sections (irq_enabled s) (mstatus s AND NOT MSTATUS_MIE) k (bm_sections bs s)" by simp
  have "x = y" if "x AND NOT MSTATUS_MIE = y AND NOT MSTATUS_MIE" "bit x 3 = bit y 3" for x y :: u32
  proof (rule bit_word_eqI)
    fix n assume "n < LENGTH(32)"
    show "bit x n = bit y n"
      using arg_cong [OF that(1), of "\<lambda>z. bit z n"] that(2) \<open>n < LENGTH(32)\<close>
      by (cases "n = 3") (auto simp: bit_simps bit_MIE)
  qed
  with s' show ?thesis by (auto simp: in_sections_def irq_enabled_bit unat_eq_0)
qed

theorem critical_sections_nest_witness:
  "\<not> irq_enabled (bm_sections [True, True, False] demo_core) \<and>
   mstatus (bm_sections [True, True, False, False] demo_core) = mstatus demo_core"
  using critical_sections_nest [of demo_core "[True, True, False]" 1]
    critical_sections_nest [of demo_core "[True, True, False, False]" 0]
  by (simp add: demo_core_def)

end
