(* ===== verification/Amp_Sys_Info.thy ===== *)
theory Amp_Sys_Info
  imports Amp_Port
begin

text \<open>
  The shared memory allocator, src/components/esp_amp/src/esp_amp_sys_info.c, and the memory map
  of priv_include/esp_amp_mem_priv.h. Maincore bump-allocates blocks, each with an eight byte
  header (id, size, pointer to the next header), from a pool in HP memory and, on SoCs with an LP
  core, one in RTC memory; both cores find a block by walking the list of headers.
\<close>

subsection \<open>Memory map\<close>

definition ALIGN_DOWN :: "u32 \<Rightarrow> u32 \<Rightarrow> u32" where
  "ALIGN_DOWN sz align = sz AND NOT (align - 1)"

definition ALIGN_UP :: "u32 \<Rightarrow> u32 \<Rightarrow> u32" where
  "ALIGN_UP sz align = (sz + align - 1) AND NOT (align - 1)"

definition ESP_AMP_HP_SHARED_MEM_START :: "'z config \<Rightarrow> ptr" where
  "ESP_AMP_HP_SHARED_MEM_START c =
     ALIGN_DOWN (CFG_HP_SHARED_MEM_END c - CFG_HP_SHARED_MEM_SIZE c) 0x10"

definition ESP_AMP_HP_SHARED_MEM_POOL_START :: "'z config \<Rightarrow> ptr" where
  "ESP_AMP_HP_SHARED_MEM_POOL_START c = ESP_AMP_HP_SHARED_MEM_START c + 0x20"

definition ESP_AMP_RTC_SHARED_MEM_POOL_SIZE :: "'z config \<Rightarrow> u32" where
  "ESP_AMP_RTC_SHARED_MEM_POOL_SIZE c = ALIGN_UP (CFG_RTC_SHARED_MEM_SIZE c) 0x10"

definition ESP_AMP_RTC_SHARED_MEM_POOL_START :: "'z config \<Rightarrow> ptr" where
  "ESP_AMP_RTC_SHARED_MEM_POOL_START c =
     CFG_RTC_MEM_START c + ALIGN_DOWN (CFG_ULP_COPROC_RESERVE_MEM c) 0x8
       - ESP_AMP_RTC_SHARED_MEM_POOL_SIZE c"

subsection \<open>Headers and ids\<close>

datatype sys_info_cap = SYS_INFO_CAP_HP | SYS_INFO_CAP_RTC

definition SYS_INFO_RESERVED_ID_EVENT_MAIN :: u16 where "SYS_INFO_RESERVED_ID_EVENT_MAIN = 0xff01"
definition SYS_INFO_RESERVED_ID_EVENT_SUB :: u16 where "SYS_INFO_RESERVED_ID_EVENT_SUB = 0xff02"
definition SYS_INFO_RESERVED_ID_VQUEUE :: u16 where "SYS_INFO_RESERVED_ID_VQUEUE = 0xff03"
definition SYS_INFO_RESERVED_ID_SYSTEM :: u16 where "SYS_INFO_RESERVED_ID_SYSTEM = 0xff04"
definition SYS_INFO_RESERVED_ID_PM :: u16 where "SYS_INFO_RESERVED_ID_PM = 0xff05"
definition ESP_AMP_SYS_INFO_ID_MAX :: u16 where "ESP_AMP_SYS_INFO_ID_MAX = 0xffff"

text \<open>The fields of \<open>sys_info_header_t\<close> at their offsets.\<close>

definition hdr_info_id :: "memory \<Rightarrow> ptr \<Rightarrow> u16" where
  "hdr_info_id m e = load16 m e"

definition hdr_size :: "memory \<Rightarrow> ptr \<Rightarrow> u16" where
  "hdr_size m e = load16 m (e + 2)"

definition hdr_next :: "memory \<Rightarrow> ptr \<Rightarrow> ptr" where
  "hdr_next m e = load32 m (e + 4)"

definition sizeof_sys_info_header :: u32 where
  "sizeof_sys_info_header = 8"

definition get_size_word :: "u16 \<Rightarrow> u16" where
  "get_size_word sz =
     (let size_in_word = drop_bit 2 sz
      in if sz AND 3 \<noteq> 0 then size_in_word + 1 else size_in_word)"

subsection \<open>Operations\<close>

text \<open>
  The two list walks. A cyclic list would make them run forever, which is the result \<open>None\<close>.
\<close>

partial_function (option) sys_info_find :: "memory \<Rightarrow> u16 \<Rightarrow> ptr \<Rightarrow> ptr option" where
  "sys_info_find m info_id e =
     (if e = NULL then Some NULL
      else if hdr_info_id m e = info_id then Some e
      else sys_info_find m info_id (hdr_next m e))"

partial_function (option) sys_info_last :: "memory \<Rightarrow> u16 \<Rightarrow> ptr \<Rightarrow> ptr option option" where
  "sys_info_last m info_id e =
     (if hdr_next m e = NULL then Some (Some e)
      else if hdr_info_id m (hdr_next m e) = info_id then Some None
      else sys_info_last m info_id (hdr_next m e))"

definition esp_amp_sys_info_get ::
    "'z config \<Rightarrow> u16 \<Rightarrow> sys_info_cap \<Rightarrow> 'z core_scheme \<Rightarrow> (ptr \<times> u16 option) option" where
  "esp_amp_sys_info_get c info_id cap s =
     (if \<not> SUBCORE_TYPE_LP_CORE c \<and> cap = SYS_INFO_CAP_RTC then Some (NULL, None)
      else let head = (if cap = SYS_INFO_CAP_HP then ESP_AMP_HP_SHARED_MEM_POOL_START c
                       else ESP_AMP_RTC_SHARED_MEM_POOL_START c)
           in do {
             e \<leftarrow> sys_info_find (mem s) info_id (hdr_next (mem s) head);
             if e = NULL then Some (NULL, None)
             else Some (e + sizeof_sys_info_header, Some (hdr_size (mem s) e))
           })"

definition esp_amp_sys_info_alloc ::
    "'z config \<Rightarrow> u16 \<Rightarrow> u16 \<Rightarrow> sys_info_cap \<Rightarrow> 'z core_scheme \<Rightarrow> (ptr \<times> 'z core_scheme) option"
  where
  "esp_amp_sys_info_alloc c info_id sz cap s =
     (if \<not> SUBCORE_TYPE_LP_CORE c \<and> cap = SYS_INFO_CAP_RTC then Some (NULL, s)
      else let head = (if cap = SYS_INFO_CAP_HP then ESP_AMP_HP_SHARED_MEM_POOL_START c
                       else ESP_AMP_RTC_SHARED_MEM_POOL_START c)
           in do {
             last \<leftarrow> sys_info_last (mem s) info_id head;
             (case last of
                None \<Rightarrow> Some (NULL, s)
              | Some e \<Rightarrow>
                  let start = e + sizeof_sys_info_header
                                + 4 * ucast (get_size_word (hdr_size (mem s) e));
                      end_addr = start + sizeof_sys_info_header + 4 * ucast (get_size_word sz);
                      buffer = start + sizeof_sys_info_header;
                      shared_mem_end =
                        (if cap = SYS_INFO_CAP_HP then CFG_HP_SHARED_MEM_END c
                         else ESP_AMP_RTC_SHARED_MEM_POOL_START c
                                + ESP_AMP_RTC_SHARED_MEM_POOL_SIZE c)
                  in if shared_mem_end < end_addr then Some (NULL, s)
                     else let m1 = store32 (mem s) (e + 4) start;
                              m2 = store32 m1 (start + 4) NULL;
                              m3 = store16 m2 start info_id;
                              m4 = store16 m3 (start + 2) sz
                          in Some (buffer, s\<lparr>mem := m4\<rparr>))
           })"

definition sys_info_init_head :: "memory \<Rightarrow> ptr \<Rightarrow> memory" where
  "sys_info_init_head m h =
     store32 (store16 (store16 m h ESP_AMP_SYS_INFO_ID_MAX) (h + 2) 0) (h + 4) NULL"

definition esp_amp_sys_info_init :: "'z config \<Rightarrow> 'z core_scheme \<Rightarrow> int \<times> 'z core_scheme" where
  "esp_amp_sys_info_init c s =
     (if IS_MAIN_CORE c then
        let m1 = sys_info_init_head (mem s) (ESP_AMP_HP_SHARED_MEM_POOL_START c);
            m2 = (if SUBCORE_TYPE_LP_CORE c
                  then sys_info_init_head m1 (ESP_AMP_RTC_SHARED_MEM_POOL_START c) else m1)
        in (0, s\<lparr>mem := m2\<rparr>)
      else (0, s))"

subsection \<open>The pool as a list of blocks\<close>

text \<open>
  Abstractly a pool is the list of its blocks (id, size) in allocation order. \<open>pool m e bs\<close>: the
  headers from address \<open>e\<close> on describe exactly the blocks \<open>bs\<close>, packed one after the other.
\<close>

type_synonym block = "u16 \<times> u16"

definition stride :: "u16 \<Rightarrow> nat" where
  "stride sz = 8 + 4 * ((unat sz + 3) div 4)"

fun pool :: "memory \<Rightarrow> ptr \<Rightarrow> block list \<Rightarrow> bool" where
  "pool m e [] = False"
| "pool m e [b] =
     (hdr_info_id m e = fst b \<and> hdr_size m e = snd b \<and> hdr_next m e = NULL)"
| "pool m e (b # b' # bs) =
     (hdr_info_id m e = fst b \<and> hdr_size m e = snd b \<and>
      hdr_next m e = e + word_of_nat (stride (snd b)) \<and>
      pool m (e + word_of_nat (stride (snd b))) (b' # bs))"

definition extent :: "block list \<Rightarrow> nat" where
  "extent bs = sum_list (map (stride \<circ> snd) bs)"

definition pool_head :: "'z config \<Rightarrow> sys_info_cap \<Rightarrow> ptr" where
  "pool_head c cap = (if cap = SYS_INFO_CAP_HP then ESP_AMP_HP_SHARED_MEM_POOL_START c
                      else ESP_AMP_RTC_SHARED_MEM_POOL_START c)"

definition pool_end :: "'z config \<Rightarrow> sys_info_cap \<Rightarrow> ptr" where
  "pool_end c cap = (if cap = SYS_INFO_CAP_HP then CFG_HP_SHARED_MEM_END c
     else ESP_AMP_RTC_SHARED_MEM_POOL_START c + ESP_AMP_RTC_SHARED_MEM_POOL_SIZE c)"

text \<open>The root header, with the reserved id and size zero, starts every pool.\<close>

abbreviation root_block :: block where
  "root_block \<equiv> (ESP_AMP_SYS_INFO_ID_MAX, 0)"

definition pool_ok :: "'z config \<Rightarrow> sys_info_cap \<Rightarrow> memory \<Rightarrow> block list \<Rightarrow> bool" where
  "pool_ok c cap m bs \<longleftrightarrow>
     (SUBCORE_TYPE_LP_CORE c \<or> cap = SYS_INFO_CAP_HP) \<and>
     pool m (pool_head c cap) (root_block # bs) \<and>
     0 < unat (pool_head c cap) \<and>
     unat (pool_head c cap) + extent (root_block # bs) \<le> unat (pool_end c cap) \<and>
     unat (pool_end c cap) < 4294836224 \<and>
     distinct (map fst bs)"

text \<open>The address of the buffer of the block after the blocks \<open>bs\<close>.\<close>

definition buf_after :: "'z config \<Rightarrow> sys_info_cap \<Rightarrow> block list \<Rightarrow> ptr" where
  "buf_after c cap bs = pool_head c cap + word_of_nat (extent (root_block # bs)) + 8"

fun block_addr :: "ptr \<Rightarrow> u16 \<Rightarrow> block list \<Rightarrow> ptr" where
  "block_addr e info_id [] = NULL"
| "block_addr e info_id (b # bs) =
     (if fst b = info_id then e else block_addr (e + word_of_nat (stride (snd b))) info_id bs)"

lemma unat_get_size_word: "unat (get_size_word sz) = (unat sz + 3) div 4"
proof -
  have and3: "sz AND 3 = take_bit 2 sz"
    by (simp add: take_bit_eq_mask mask_eq_exp_minus_1)
  have low: "sz AND 3 \<noteq> 0 \<longleftrightarrow> unat sz mod 4 \<noteq> 0"
    unfolding and3 by (simp add: word_unat_eq_iff unat_mod_distrib take_bit_eq_mod)
  have div4: "unat (drop_bit 2 sz) = unat sz div 4"
    by (simp add: drop_bit_eq_div unat_div_distrib)
  have "unat sz div 4 + 1 < 65536" using unat_lt_16 [of sz] by linarith
  then have suc: "unat (drop_bit 2 sz + 1) = unat sz div 4 + 1"
    by (simp add: unat_word_ariths div4)
  show ?thesis
    using low by (simp add: get_size_word_def Let_def suc div4) presburger
qed

lemma stride_word:
  "sizeof_sys_info_header + 4 * ucast (get_size_word sz) = (word_of_nat (stride sz) :: u32)"
proof -
  have "(ucast (get_size_word sz) :: u32) = word_of_nat (unat (get_size_word sz))" by simp
  then show ?thesis
    by (simp add: stride_def sizeof_sys_info_header_def unat_get_size_word)
qed

lemma stride_bounds: "8 \<le> stride sz" "stride sz \<le> 65544"
proof -
  have "(unat sz + 3) div 4 \<le> 16384" using unat_lt_16 [of sz] by presburger
  then show "8 \<le> stride sz" "stride sz \<le> 65544" by (simp_all add: stride_def)
qed

lemma extent_simps [simp]:
  "extent [] = 0" "extent (b # bs) = stride (snd b) + extent bs"
  "extent (bs @ cs) = extent bs + extent cs"
  by (simp_all add: extent_def)

lemma stride_zero [simp]: "stride 0 = 8"
  by (simp add: stride_def)

subsection \<open>The walks over a well-formed pool\<close>

lemma sys_info_find_pool:
  assumes "pool m e bs" and "0 < unat e" and "unat e + extent bs < 4294967296"
  shows "sys_info_find m info_id e = Some (block_addr e info_id bs)"
  using assms
proof (induction m e bs rule: pool.induct)
  case (2 m e b)
  then have "e \<noteq> NULL" by auto
  with 2 show ?case
    by (simp add: sys_info_find.simps [of m info_id e] sys_info_find.simps [of m info_id NULL])
next
  case (3 m e b b' bs)
  then have e: "e \<noteq> NULL" by auto
  have "unat (e + word_of_nat (stride (snd b))) = unat e + stride (snd b)"
    using 3 by (intro unat_add_of_nat) simp
  with 3 have "sys_info_find m info_id (e + word_of_nat (stride (snd b))) =
      Some (block_addr (e + word_of_nat (stride (snd b))) info_id (b' # bs))"
    by simp
  with e 3 show ?case by (simp add: sys_info_find.simps [of m info_id e])
qed simp

lemma sys_info_last_pool:
  assumes "pool m e (b # bs)" and "unat e + extent (b # bs) < 4294967296"
  shows "sys_info_last m info_id e =
    Some (if info_id \<in> set (map fst bs) then None
          else Some (e + word_of_nat (extent (butlast (b # bs)))))"
  using assms
proof (induction bs arbitrary: e b)
  case Nil
  then show ?case by (simp add: sys_info_last.simps [of m info_id e])
next
  case (Cons b' bs)
  let ?e = "e + word_of_nat (stride (snd b))"
  have e: "unat ?e = unat e + stride (snd b)"
    using Cons.prems by (intro unat_add_of_nat) simp
  then have nz: "?e \<noteq> NULL" using stride_bounds(1) [of "snd b"] by auto
  have id': "hdr_info_id m ?e = fst b'"
    using Cons.prems by (cases bs) auto
  have "sys_info_last m info_id ?e =
    Some (if info_id \<in> set (map fst bs) then None
          else Some (?e + word_of_nat (extent (butlast (b' # bs)))))"
    using Cons.prems e by (intro Cons.IH) auto
  then show ?case
    using Cons.prems nz id'
    by (auto simp: sys_info_last.simps [of m info_id e] add.assoc)
qed

subsection \<open>Appending a block\<close>

lemma hdr_congs:
  assumes "agree (span e 8) m m'"
  shows "hdr_info_id m e = hdr_info_id m' e" "hdr_size m e = hdr_size m' e"
    "hdr_next m e = hdr_next m' e"
  using assms span_sub [of e e 2 8] span_sub [of "e + 2" e 2 8] span_sub [of "e + 4" e 4 8]
  by (auto simp: hdr_info_id_def hdr_size_def hdr_next_def
      intro!: load16_cong load32_cong elim: agree_mono)

lemma pool_snoc:
  assumes "pool m e bs" and "unat e + extent bs < 4294967296"
    and "agree (span e (extent (butlast bs))) m m'"
    and "a = e + word_of_nat (extent (butlast bs))" and "st = e + word_of_nat (extent bs)"
    and "hdr_info_id m' a = hdr_info_id m a" and "hdr_size m' a = hdr_size m a"
    and "hdr_next m' a = st"
    and "hdr_info_id m' st = fst b" and "hdr_size m' st = snd b" and "hdr_next m' st = NULL"
  shows "pool m' e (bs @ [b])"
  using assms
proof (induction m e bs rule: pool.induct)
  case (3 m e b1 b2 bs)
  let ?s = "stride (snd b1)"
  let ?e = "e + word_of_nat ?s"
  have e: "unat ?e = unat e + ?s" using "3.prems"(2) by (intro unat_add_of_nat) simp
  have sub: "span ?e (extent (butlast (b2 # bs))) \<subseteq> span e (extent (butlast (b1 # b2 # bs)))"
    using "3.prems"(2) stride_bounds(2) [of "snd b1"] by (intro span_sub) (simp add: unat_of_nat32)
  have "span e 8 \<subseteq> span e (extent (butlast (b1 # b2 # bs)))"
    using stride_bounds(1) [of "snd b1"] by (intro span_sub) simp
  then have hd: "hdr_info_id m e = hdr_info_id m' e" "hdr_size m e = hdr_size m' e"
    "hdr_next m e = hdr_next m' e"
    using "3.prems"(3) by (auto intro!: hdr_congs elim: agree_mono)
  have "pool m' ?e ((b2 # bs) @ [b])"
  proof (rule "3.IH")
    show "pool m ?e (b2 # bs)" using "3.prems"(1) by simp
    show "unat ?e + extent (b2 # bs) < 4294967296" using "3.prems"(2) e by simp
    show "agree (span ?e (extent (butlast (b2 # bs)))) m m'"
      using "3.prems"(3) sub by (rule agree_mono)
  qed (use "3.prems"(4-) in \<open>simp_all add: add.assoc\<close>)
  with hd "3.prems"(1) show ?case by simp
qed simp_all

text \<open>The memory after a successful allocation, as written by the code.\<close>

definition alloc_mem :: "memory \<Rightarrow> ptr \<Rightarrow> ptr \<Rightarrow> block \<Rightarrow> memory" where
  "alloc_mem m e st b =
     store16 (store16 (store32 (store32 m (e + 4) st) (st + 4) NULL) st (fst b)) (st + 2) (snd b)"

lemma alloc_mem_frame:
  assumes "span (e + 4) 4 \<inter> A = {}" and "span st 8 \<inter> A = {}"
  shows "agree A (alloc_mem m e st b) m"
proof -
  have "span (st + 4) 4 \<inter> A = {}" "span st 2 \<inter> A = {}" "span (st + 2) 2 \<inter> A = {}"
    by (rule span_Un_sub [OF _ assms(2)], simp)+
  with assms(1) show ?thesis
    unfolding alloc_mem_def by (intro frame_intros agree_refl)
qed

lemma alloc_mem_new_hdr:
  "hdr_info_id (alloc_mem m e st b) st = fst b" "hdr_size (alloc_mem m e st b) st = snd b"
  "hdr_next (alloc_mem m e st b) st = NULL"
  by (simp_all add: alloc_mem_def hdr_info_id_def hdr_size_def hdr_next_def mem_simps disj_def)

lemma alloc_mem_last_hdr:
  assumes "span e 8 \<inter> span st 8 = {}"
  shows "hdr_info_id (alloc_mem m e st b) e = hdr_info_id m e"
    "hdr_size (alloc_mem m e st b) e = hdr_size m e"
    "hdr_next (alloc_mem m e st b) e = st"
proof -
  let ?m1 = "store32 m (e + 4) st"
  have "span st 8 \<inter> span e 8 = {}" using assms by blast
  then have "span (st + 4) 4 \<inter> span e 8 = {}" "span st 2 \<inter> span e 8 = {}"
    "span (st + 2) 2 \<inter> span e 8 = {}"
    by (rule span_Un_sub [rotated], simp)+
  then have "agree (span e 8) (alloc_mem m e st b) ?m1"
    unfolding alloc_mem_def by (intro frame_intros agree_refl)
  from hdr_congs [OF this] show
    "hdr_info_id (alloc_mem m e st b) e = hdr_info_id m e"
    "hdr_size (alloc_mem m e st b) e = hdr_size m e"
    "hdr_next (alloc_mem m e st b) e = st"
    by (simp_all add: hdr_info_id_def hdr_size_def hdr_next_def mem_simps disj_def)
qed

subsection \<open>The operations on a well-formed pool\<close>

definition last_hdr :: "'z config \<Rightarrow> sys_info_cap \<Rightarrow> block list \<Rightarrow> ptr" where
  "last_hdr c cap bs = pool_head c cap + word_of_nat (extent (butlast (root_block # bs)))"

definition new_hdr :: "'z config \<Rightarrow> sys_info_cap \<Rightarrow> block list \<Rightarrow> ptr" where
  "new_hdr c cap bs = pool_head c cap + word_of_nat (extent (root_block # bs))"

definition block_fits :: "'z config \<Rightarrow> sys_info_cap \<Rightarrow> block list \<Rightarrow> u16 \<Rightarrow> bool" where
  "block_fits c cap bs sz \<longleftrightarrow>
     unat (pool_head c cap) + extent (root_block # bs) + stride sz \<le> unat (pool_end c cap)"

lemma extent_last_split:
  "bs \<noteq> [] \<Longrightarrow> extent bs = extent (butlast bs) + stride (snd (last bs))"
  using extent_simps(3) [of "butlast bs" "[last bs]"] by simp

lemma pool_last_size:
  "pool m e bs \<Longrightarrow> hdr_size m (e + word_of_nat (extent (butlast bs))) = snd (last bs)"
  by (induction m e bs rule: pool.induct) (auto simp: add.assoc)

lemma pool_ok_bounds:
  assumes "pool_ok c cap m bs"
  shows "unat (new_hdr c cap bs) = unat (pool_head c cap) + extent (root_block # bs)"
    "unat (last_hdr c cap bs) = unat (pool_head c cap) + extent (butlast (root_block # bs))"
    "unat (last_hdr c cap bs) + 8 \<le> unat (new_hdr c cap bs)"
    "unat (new_hdr c cap bs) \<le> unat (pool_end c cap)"
proof -
  let ?bs = "root_block # bs"
  have ext: "extent ?bs = extent (butlast ?bs) + stride (snd (last ?bs))"
    by (rule extent_last_split) simp
  have "unat (pool_head c cap) + extent ?bs < 4294967296"
    using assms by (simp add: pool_ok_def)
  then show n: "unat (new_hdr c cap bs) = unat (pool_head c cap) + extent ?bs"
    and l: "unat (last_hdr c cap bs) = unat (pool_head c cap) + extent (butlast ?bs)"
    using ext unfolding new_hdr_def last_hdr_def by (intro unat_add_of_nat; linarith)+
  show "unat (last_hdr c cap bs) + 8 \<le> unat (new_hdr c cap bs)"
    using ext stride_bounds(1) [of "snd (last ?bs)"] n l by simp
  show "unat (new_hdr c cap bs) \<le> unat (pool_end c cap)"
    using assms n by (simp add: pool_ok_def)
qed

lemma alloc_pool_eq:
  assumes "pool_ok c cap (mem s) bs"
  shows "esp_amp_sys_info_alloc c info_id sz cap s = Some
    (if info_id \<in> fst ` set bs \<or> \<not> block_fits c cap bs sz then (NULL, s)
     else (buf_after c cap bs,
           s\<lparr>mem := alloc_mem (mem s) (last_hdr c cap bs) (new_hdr c cap bs) (info_id, sz)\<rparr>))"
proof -
  let ?h = "pool_head c cap" and ?bs = "root_block # bs"
  note b = pool_ok_bounds [OF assms]
  from assms have p: "pool (mem s) ?h ?bs" and lt: "unat ?h + extent ?bs < 4294967296"
    and cap: "SUBCORE_TYPE_LP_CORE c \<or> cap = SYS_INFO_CAP_HP"
    and lim: "unat (pool_end c cap) < 4294836224"
    by (simp_all add: pool_ok_def)
  have last: "sys_info_last (mem s) info_id ?h =
      Some (if info_id \<in> fst ` set bs then None else Some (last_hdr c cap bs))"
    using sys_info_last_pool [OF p lt] by (simp add: last_hdr_def)
  have st: "last_hdr c cap bs + sizeof_sys_info_header
      + 4 * ucast (get_size_word (hdr_size (mem s) (last_hdr c cap bs))) = new_hdr c cap bs"
  proof -
    have "hdr_size (mem s) (last_hdr c cap bs) = snd (last ?bs)"
      unfolding last_hdr_def using pool_last_size [OF p] .
    moreover have "extent ?bs = extent (butlast ?bs) + stride (snd (last ?bs))"
      by (rule extent_last_split) simp
    ultimately show ?thesis
      by (simp add: add.assoc stride_word new_hdr_def last_hdr_def del: extent_simps butlast.simps)
  qed
  have "unat (new_hdr c cap bs + word_of_nat (stride sz)) = unat (new_hdr c cap bs) + stride sz"
    using b(4) lim stride_bounds(2) [of sz] by (intro unat_add_of_nat) linarith
  then have fits: "pool_end c cap < new_hdr c cap bs + sizeof_sys_info_header
      + 4 * ucast (get_size_word sz) \<longleftrightarrow> \<not> block_fits c cap bs sz"
    using b(1) by (auto simp: add.assoc stride_word word_less_nat_alt block_fits_def)
  have hd: "(if cap = SYS_INFO_CAP_HP then ESP_AMP_HP_SHARED_MEM_POOL_START c
      else ESP_AMP_RTC_SHARED_MEM_POOL_START c) = ?h" by (simp add: pool_head_def)
  have en: "(if cap = SYS_INFO_CAP_HP then CFG_HP_SHARED_MEM_END c
      else ESP_AMP_RTC_SHARED_MEM_POOL_START c + ESP_AMP_RTC_SHARED_MEM_POOL_SIZE c)
      = pool_end c cap" by (simp add: pool_end_def)
  have buf: "new_hdr c cap bs + sizeof_sys_info_header = buf_after c cap bs"
    by (simp add: new_hdr_def buf_after_def sizeof_sys_info_header_def del: extent_simps)
  have rtc: "\<not> (\<not> SUBCORE_TYPE_LP_CORE c \<and> cap = SYS_INFO_CAP_RTC)" using cap by auto
  show ?thesis
  proof (cases "info_id \<in> fst ` set bs")
    case True
    then show ?thesis
      unfolding esp_amp_sys_info_alloc_def Let_def hd en last if_not_P [OF rtc] by simp
  next
    case False
    then show ?thesis
      unfolding esp_amp_sys_info_alloc_def Let_def hd en last if_not_P [OF rtc]
      by (cases "block_fits c cap bs sz")
        (simp_all only: if_True if_False Option.bind.simps option.case st fits [unfolded buf] buf
          simp_thms alloc_mem_def fst_conv snd_conv)
  qed
qed

lemma alloc_pool_ok:
  assumes "pool_ok c cap m bs" and "info_id \<notin> fst ` set bs" and "block_fits c cap bs sz"
  shows "pool_ok c cap (alloc_mem m (last_hdr c cap bs) (new_hdr c cap bs) (info_id, sz))
    (bs @ [(info_id, sz)])"
proof -
  let ?h = "pool_head c cap" and ?bs = "root_block # bs"
  let ?a = "last_hdr c cap bs" and ?st = "new_hdr c cap bs"
  let ?m = "alloc_mem m ?a ?st (info_id, sz)"
  note b = pool_ok_bounds [OF assms(1)]
  from assms(1) have lim: "unat (pool_end c cap) < 4294836224" by (simp add: pool_ok_def)
  have a4: "unat (?a + 4) = unat ?a + 4" using b(3,4) lim by (intro unat_add_numeral) linarith
  have "pool ?m ?h (?bs @ [(info_id, sz)])"
  proof (rule pool_snoc)
    show "pool m ?h ?bs" using assms(1) by (simp add: pool_ok_def)
    show "unat ?h + extent ?bs < 4294967296" using assms(1) by (simp add: pool_ok_def)
    have "span (?a + 4) 4 \<inter> span ?h (extent (butlast ?bs)) = {}"
      and "span ?st 8 \<inter> span ?h (extent (butlast ?bs)) = {}"
      using b(2-4) a4 lim by (intro disj_nowrap; linarith)+
    then show "agree (span ?h (extent (butlast ?bs))) m ?m"
      using alloc_mem_frame by (fastforce simp: agree_def)
    have "span ?a 8 \<inter> span ?st 8 = {}" using b lim by (intro disj_nowrap) linarith+
    note l = alloc_mem_last_hdr [OF this]
    show "hdr_info_id ?m ?a = hdr_info_id m ?a" "hdr_size ?m ?a = hdr_size m ?a"
      "hdr_next ?m ?a = ?st" by (rule l)+
  qed (simp_all add: alloc_mem_new_hdr last_hdr_def new_hdr_def del: extent_simps butlast.simps)
  with assms show ?thesis by (auto simp: pool_ok_def block_fits_def)
qed

subsection \<open>Lookup, placement and frame\<close>

lemma block_addr_append:
  "block_addr e i (bs @ [b]) =
     (if i \<in> fst ` set bs then block_addr e i bs
      else if fst b = i then e + word_of_nat (extent bs) else NULL)"
  by (induction bs arbitrary: e) (auto simp: add.assoc)

lemma block_addr_bounds:
  assumes "i \<in> fst ` set bs" and "unat e + extent bs < 4294967296"
  shows "unat e \<le> unat (block_addr e i bs) \<and>
    unat (block_addr e i bs) + stride (the (map_of bs i)) \<le> unat e + extent bs"
  using assms
proof (induction bs arbitrary: e)
  case (Cons b bs)
  show ?case
  proof (cases "fst b = i")
    case True
    then show ?thesis by (cases b) simp
  next
    case False
    have "unat (e + word_of_nat (stride (snd b))) = unat e + stride (snd b)"
      using Cons.prems by (intro unat_add_of_nat) simp
    moreover have "map_of (b # bs) i = map_of bs i" using False by (cases b) simp
    ultimately show ?thesis
      using False Cons.prems Cons.IH [of "e + word_of_nat (stride (snd b))"] by auto
  qed
qed simp

lemma pool_block_size:
  "pool m e bs \<Longrightarrow> i \<in> fst ` set bs \<Longrightarrow> hdr_size m (block_addr e i bs) = the (map_of bs i)"
proof (induction m e bs rule: pool.induct)
  case (3 m e b b' bs)
  then show ?case by (cases b; cases "fst b = i") auto
qed auto

definition buf_addr :: "'z config \<Rightarrow> sys_info_cap \<Rightarrow> u16 \<Rightarrow> block list \<Rightarrow> ptr" where
  "buf_addr c cap i bs = block_addr (pool_head c cap + 8) i bs + 8"

lemma get_pool_eq:
  assumes "pool_ok c cap (mem s) bs"
  shows "esp_amp_sys_info_get c info_id cap s = Some
    (case map_of bs info_id of None \<Rightarrow> (NULL, None)
     | Some sz \<Rightarrow> (buf_addr c cap info_id bs, Some sz))"
proof -
  let ?h = "pool_head c cap" and ?m = "mem s"
  from assms have p: "pool ?m ?h (root_block # bs)" and lt: "unat ?h + extent (root_block # bs) < 4294967296"
    and cap: "SUBCORE_TYPE_LP_CORE c \<or> cap = SYS_INFO_CAP_HP" and h0: "0 < unat ?h"
    by (simp_all add: pool_ok_def)
  have h8: "unat (?h + 8) = unat ?h + 8" using lt by (intro unat_add_numeral) simp
  have find: "sys_info_find ?m info_id (hdr_next ?m ?h) = Some (block_addr (?h + 8) info_id bs)"
  proof (cases bs)
    case Nil
    with p show ?thesis by (simp add: sys_info_find.simps [of _ _ NULL])
  next
    case (Cons b bs')
    with p have "pool ?m (?h + 8) bs" "hdr_next ?m ?h = ?h + 8" by simp_all
    then show ?thesis using lt h8 by (simp add: sys_info_find_pool)
  qed
  have hd: "(if cap = SYS_INFO_CAP_HP then ESP_AMP_HP_SHARED_MEM_POOL_START c
      else ESP_AMP_RTC_SHARED_MEM_POOL_START c) = ?h" by (simp add: pool_head_def)
  have rtc: "\<not> (\<not> SUBCORE_TYPE_LP_CORE c \<and> cap = SYS_INFO_CAP_RTC)" using cap by auto
  show ?thesis
  proof (cases "info_id \<in> fst ` set bs")
    case True
    then obtain sz where sz: "map_of bs info_id = Some sz"
      by (metis map_of_eq_None_iff not_None_eq)
    from True obtain b bs' where bs: "bs = b # bs'" by (cases bs) auto
    with p have "pool ?m (?h + 8) bs" by simp
    from pool_block_size [OF this True] have "hdr_size ?m (block_addr (?h + 8) info_id bs) = sz"
      by (simp add: sz)
    moreover have "block_addr (?h + 8) info_id bs \<noteq> NULL"
      using block_addr_bounds [OF True, of "?h + 8"] lt h8 by auto
    ultimately show ?thesis
      unfolding esp_amp_sys_info_get_def Let_def hd if_not_P [OF rtc] find
      by (simp add: sz buf_addr_def sizeof_sys_info_header_def)
  next
    case False
    then have "block_addr e info_id bs = NULL" for e by (induction bs arbitrary: e) auto
    moreover from False have "map_of bs info_id = None" by (simp add: map_of_eq_None_iff)
    ultimately show ?thesis
      unfolding esp_amp_sys_info_get_def Let_def hd if_not_P [OF rtc] find by simp
  qed
qed

subsection \<open>The interface of the allocator\<close>

text \<open>
  What a client relies on: lookup agrees with the list of blocks allocated so far, allocation
  appends one block or changes nothing, and the place of a block never changes once it is there.
\<close>

locale block_pool =
  fixes inv :: "'s \<Rightarrow> block list \<Rightarrow> bool"
    and alloc :: "u16 \<Rightarrow> u16 \<Rightarrow> 's \<Rightarrow> (ptr \<times> 's) option"
    and get :: "u16 \<Rightarrow> 's \<Rightarrow> (ptr \<times> u16 option) option"
    and place :: "u16 \<Rightarrow> block list \<Rightarrow> ptr"
    and fits :: "block list \<Rightarrow> u16 \<Rightarrow> bool"
  assumes get_law: "inv s bs \<Longrightarrow> get i s = Some
      (case map_of bs i of None \<Rightarrow> (NULL, None) | Some sz \<Rightarrow> (place i bs, Some sz))"
    and alloc_refused: "inv s bs \<Longrightarrow> i \<in> fst ` set bs \<or> \<not> fits bs sz \<Longrightarrow> alloc i sz s = Some (NULL, s)"
    and alloc_done: "inv s bs \<Longrightarrow> i \<notin> fst ` set bs \<Longrightarrow> fits bs sz \<Longrightarrow>
      \<exists>s'. alloc i sz s = Some (place i (bs @ [(i, sz)]), s') \<and> inv s' (bs @ [(i, sz)])"
    and place_stable: "i \<in> fst ` set bs \<Longrightarrow> place i (bs @ [b]) = place i bs"
    and place_nonnull: "inv s bs \<Longrightarrow> i \<in> fst ` set bs \<Longrightarrow> place i bs \<noteq> NULL"
begin

lemma alloc_total: "inv s bs \<Longrightarrow> \<exists>p s'. alloc i sz s = Some (p, s')"
  using alloc_refused [of s bs i sz] alloc_done [of s bs i sz] by blast

lemma alloc_cases:
  assumes "inv s bs" and "alloc i sz s = Some (p, s')"
  obtains (refused) "p = NULL" "s' = s" "i \<in> fst ` set bs \<or> \<not> fits bs sz"
    | (allocated) "p = place i (bs @ [(i, sz)])" "p \<noteq> NULL" "inv s' (bs @ [(i, sz)])"
        "i \<notin> fst ` set bs" "fits bs sz"
proof (cases "i \<in> fst ` set bs \<or> \<not> fits bs sz")
  case True
  then show thesis using alloc_refused [OF assms(1) True] assms(2) refused by simp
next
  case False
  then have "p = place i (bs @ [(i, sz)])" "inv s' (bs @ [(i, sz)])"
    using alloc_done [OF assms(1), of i sz] assms(2) by auto
  then show thesis
    using False allocated place_nonnull [of s' "bs @ [(i, sz)]" i] by simp
qed

lemma get_after_alloc:
  assumes "inv s bs" and "alloc i sz s = Some (p, s')" and "p \<noteq> NULL"
  shows "get i s' = Some (p, Some sz)" and "j \<noteq> i \<Longrightarrow> get j s' = get j s"
proof -
  from assms(1,2) show "get i s' = Some (p, Some sz)"
  proof (cases rule: alloc_cases)
    case refused
    then show ?thesis using assms(3) by simp
  next
    case allocated
    then have "map_of bs i = None" by (simp add: map_of_eq_None_iff)
    then show ?thesis
      using get_law [OF allocated(3), of i] allocated(1) by (simp add: map_add_def)
  qed
  show "get j s' = get j s" if "j \<noteq> i"
    using assms(1,2)
  proof (cases rule: alloc_cases)
    case allocated
    have "map_of (bs @ [(i, sz)]) j = map_of bs j"
      using that by (simp add: map_add_def split: option.split)
    moreover have "place j (bs @ [(i, sz)]) = place j bs" if "map_of bs j = Some z" for z
      using place_stable [of j bs] that by (force dest: map_of_SomeD)
    ultimately show ?thesis
      using get_law [OF allocated(3), of j] get_law [OF assms(1), of j]
      by (auto split: option.splits)
  qed simp
qed

lemma alloc_twice:
  assumes "inv s bs" and "alloc i sz s = Some (p, s')" and "p \<noteq> NULL"
  shows "alloc i sz' s' = Some (NULL, s')"
  using assms(1,2)
proof (cases rule: alloc_cases)
  case refused
  then show ?thesis using assms(3) by simp
next
  case allocated
  show ?thesis by (rule alloc_refused [OF allocated(3)]) simp
qed

end

lemma buf_addr_snoc:
  "i \<notin> fst ` set bs \<Longrightarrow> buf_addr c cap i (bs @ [(i, sz)]) = buf_after c cap bs"
  by (simp add: buf_addr_def buf_after_def block_addr_append add_ac)

lemma buf_addr_bounds:
  assumes "pool_ok c cap m bs" and "map_of bs i = Some sz"
  shows "unat (pool_head c cap) + 16 \<le> unat (buf_addr c cap i bs)"
    "unat (buf_addr c cap i bs) + unat sz \<le> unat (pool_end c cap)"
    "unat (buf_addr c cap i bs) = unat (block_addr (pool_head c cap + 8) i bs) + 8"
    "unat (block_addr (pool_head c cap + 8) i bs) + stride sz \<le> unat (pool_end c cap)"
    "unat sz + 8 \<le> stride sz"
proof -
  let ?h = "pool_head c cap"
  from assms(1) have lt: "unat ?h + 8 + extent bs \<le> unat (pool_end c cap)"
    and en: "unat (pool_end c cap) < 4294836224"
    by (simp_all add: pool_ok_def)
  have h8: "unat (?h + 8) = unat ?h + 8" using lt en by (intro unat_add_numeral) linarith
  have i: "i \<in> fst ` set bs" using assms(2) by (force dest: map_of_SomeD)
  have b: "unat (?h + 8) \<le> unat (block_addr (?h + 8) i bs)"
    "unat (block_addr (?h + 8) i bs) + stride sz \<le> unat (?h + 8) + extent bs"
    using block_addr_bounds [OF i, of "?h + 8"] lt en h8 assms(2) by simp_all
  have sz: "unat sz + 8 \<le> stride sz" unfolding stride_def by presburger
  then show "unat sz + 8 \<le> stride sz" .
  show a: "unat (buf_addr c cap i bs) = unat (block_addr (?h + 8) i bs) + 8"
    unfolding buf_addr_def using b lt en h8 sz by (intro unat_add_numeral) linarith
  show "unat ?h + 16 \<le> unat (buf_addr c cap i bs)" using a b h8 by linarith
  show "unat (block_addr (?h + 8) i bs) + stride sz \<le> unat (pool_end c cap)"
    using b lt h8 by linarith
  then show "unat (buf_addr c cap i bs) + unat sz \<le> unat (pool_end c cap)"
    using a sz by linarith
qed

interpretation sys_info: block_pool
    "\<lambda>s. pool_ok c cap (mem s)" "\<lambda>i sz. esp_amp_sys_info_alloc c i sz cap"
    "\<lambda>i. esp_amp_sys_info_get c i cap" "buf_addr c cap" "block_fits c cap"
  for c :: "'z config" and cap
proof
  fix s :: "'z core_scheme" and bs i sz b
  show "pool_ok c cap (mem s) bs \<Longrightarrow> esp_amp_sys_info_get c i cap s = Some
      (case map_of bs i of None \<Rightarrow> (NULL, None) | Some sz \<Rightarrow> (buf_addr c cap i bs, Some sz))"
    by (rule get_pool_eq)
  show "pool_ok c cap (mem s) bs \<Longrightarrow> i \<in> fst ` set bs \<or> \<not> block_fits c cap bs sz \<Longrightarrow>
      esp_amp_sys_info_alloc c i sz cap s = Some (NULL, s)"
    by (simp add: alloc_pool_eq)
  show "i \<in> fst ` set bs \<Longrightarrow> buf_addr c cap i (bs @ [b]) = buf_addr c cap i bs"
    by (simp add: buf_addr_def block_addr_append)
  show "\<exists>s'. esp_amp_sys_info_alloc c i sz cap s = Some (buf_addr c cap i (bs @ [(i, sz)]), s') \<and>
      pool_ok c cap (mem s') (bs @ [(i, sz)])"
    if "pool_ok c cap (mem s) bs" "i \<notin> fst ` set bs" "block_fits c cap bs sz"
    using that by (simp add: alloc_pool_eq buf_addr_snoc alloc_pool_ok)
  show "buf_addr c cap i bs \<noteq> NULL" if p: "pool_ok c cap (mem s) bs" and i: "i \<in> fst ` set bs"
  proof -
    from i obtain z where "map_of bs i = Some z" by (metis map_of_eq_None_iff not_None_eq)
    from buf_addr_bounds(1) [OF p this] show ?thesis by auto
  qed
qed

subsection \<open>Headers, buffers and other memory\<close>

fun hdrs :: "ptr \<Rightarrow> block list \<Rightarrow> ptr set" where
  "hdrs e [] = {}"
| "hdrs e (b # bs) = span e 8 \<union> hdrs (e + word_of_nat (stride (snd b))) bs"

lemma pool_cong: "agree (hdrs e bs) m m' \<Longrightarrow> pool m e bs = pool m' e bs"
proof (induction m e bs rule: pool.induct)
  case (2 m e b)
  then have "agree (span e 8) m m'" by (auto simp: agree_def)
  from hdr_congs [OF this] show ?case by simp
next
  case (3 m e b b' bs)
  then have "agree (span e 8) m m'" by (auto simp: agree_def)
  from hdr_congs [OF this] 3 show ?case by (auto simp: agree_def)
qed simp

lemma hdrs_bounds:
  assumes "x \<in> hdrs e bs" and "unat e + extent bs < 4294967296"
  shows "unat e \<le> unat x" "unat x < unat e + extent bs"
proof -
  have "unat e \<le> unat x \<and> unat x < unat e + extent bs"
    using assms
  proof (induction bs arbitrary: e)
    case (Cons b bs)
    have e: "unat (e + word_of_nat (stride (snd b))) = unat e + stride (snd b)"
      using Cons.prems by (intro unat_add_of_nat) simp
    show ?case
    proof (cases "x \<in> span e 8")
      case True
      then show ?thesis
        using Cons.prems(2) stride_bounds(1) [of "snd b"] in_span_nowrap [of e 8 x] by auto
    next
      case False
      then show ?thesis using Cons.prems Cons.IH e by fastforce
    qed
  qed simp
  then show "unat e \<le> unat x" "unat x < unat e + extent bs" by simp_all
qed

lemma buffer_not_hdr:
  assumes "i \<in> fst ` set bs" and "unat e + extent bs < 4294967296"
    and "unat (block_addr e i bs) + 8 \<le> unat x"
    and "unat x < unat (block_addr e i bs) + stride (the (map_of bs i))"
  shows "x \<notin> hdrs e bs"
  using assms
proof (induction bs arbitrary: e)
  case (Cons b bs)
  let ?e = "e + word_of_nat (stride (snd b))"
  have e: "unat ?e = unat e + stride (snd b)"
    using Cons.prems(2) by (intro unat_add_of_nat) simp
  have fit: "unat ?e + extent bs < 4294967296" "8 \<le> stride (snd b)"
    using e Cons.prems(2) stride_bounds(1) by simp_all
  then have span: "x \<in> span e 8 \<longleftrightarrow> unat e \<le> unat x \<and> unat x < unat e + 8"
    using e by (intro in_span_nowrap) linarith
  show ?case
  proof (cases "fst b = i")
    case True
    then have "map_of (b # bs) i = Some (snd b)" by (cases b) simp
    then show ?thesis
      using True Cons.prems(3,4) hdrs_bounds(1) [of x ?e bs] e fit span by auto
  next
    case False
    moreover have "map_of (b # bs) i = map_of bs i" using False by (cases b) simp
    moreover have "unat ?e \<le> unat (block_addr ?e i bs)"
      using block_addr_bounds [of i bs ?e] Cons.prems(1) False fit by auto
    ultimately show ?thesis
      using Cons.IH [of ?e] Cons.prems e fit span by auto
  qed
qed simp

lemma block_addr_separate:
  assumes "i \<in> fst ` set bs" "j \<in> fst ` set bs" "i \<noteq> j" "unat e + extent bs < 4294967296"
  shows "unat (block_addr e i bs) + stride (the (map_of bs i)) \<le> unat (block_addr e j bs) \<or>
    unat (block_addr e j bs) + stride (the (map_of bs j)) \<le> unat (block_addr e i bs)"
  using assms
proof (induction bs arbitrary: e)
  case (Cons b bs)
  let ?e = "e + word_of_nat (stride (snd b))"
  have e: "unat ?e = unat e + stride (snd b)"
    using Cons.prems(4) by (intro unat_add_of_nat) simp
  have fit: "unat ?e + extent bs < 4294967296" using e Cons.prems(4) by simp
  have low: "unat ?e \<le> unat (block_addr ?e k bs)" if "k \<in> fst ` set bs" for k
    using block_addr_bounds [OF that fit] by simp
  have m: "map_of (b # bs) k = (if fst b = k then Some (snd b) else map_of bs k)" for k
    by (cases b) simp
  show ?case
    using Cons.prems(1-3) Cons.IH [of ?e] fit low [of i] low [of j] e
    by (cases "fst b = i"; cases "fst b = j") (auto simp: m)
qed simp

lemma pool_ok_cong:
  assumes "pool_ok c cap m bs" and "agree (hdrs (pool_head c cap) (root_block # bs)) m m'"
  shows "pool_ok c cap m' bs"
  using assms pool_cong [OF assms(2)] unfolding pool_ok_def by blast

lemma buffer_not_pool_hdr:
  assumes "pool_ok c cap m bs" and "map_of bs i = Some sz"
    and "x \<in> span (buf_addr c cap i bs) (unat sz)"
  shows "x \<notin> hdrs (pool_head c cap) (root_block # bs)"
proof -
  let ?h = "pool_head c cap"
  note b = buf_addr_bounds [OF assms(1,2)]
  from assms(1) have lt: "unat ?h + 8 + extent bs \<le> unat (pool_end c cap)"
    and en: "unat (pool_end c cap) < 4294836224" by (simp_all add: pool_ok_def)
  have h8: "unat (?h + 8) = unat ?h + 8" using lt en by (intro unat_add_numeral) linarith
  have x: "unat (buf_addr c cap i bs) \<le> unat x" "unat x < unat (buf_addr c cap i bs) + unat sz"
    using assms(3) in_span_nowrap [of "buf_addr c cap i bs" "unat sz" x] b(2) en by auto
  have i: "i \<in> fst ` set bs" using assms(2) by (force dest: map_of_SomeD)
  have "x \<notin> hdrs (?h + 8) bs"
    using i
  proof (rule buffer_not_hdr)
    show "unat (?h + 8) + extent bs < 4294967296" using h8 lt en by linarith
    show "unat (block_addr (?h + 8) i bs) + 8 \<le> unat x" using b(3) x(1) by linarith
    show "unat x < unat (block_addr (?h + 8) i bs) + stride (the (map_of bs i))"
      using b(3,5) x(2) assms(2) by simp
  qed
  moreover have "x \<notin> span ?h 8"
    using in_span_nowrap [of ?h 8 x] b(1) x(1) lt en by auto
  ultimately show ?thesis by simp
qed

lemma pool_ok_buffer_write:
  assumes "pool_ok c cap m bs" and "map_of bs i = Some sz"
    and "agree (- span (buf_addr c cap i bs) (unat sz)) m' m"
  shows "pool_ok c cap m' bs"
  using assms(1)
proof (rule pool_ok_cong)
  show "agree (hdrs (pool_head c cap) (root_block # bs)) m m'"
    using buffer_not_pool_hdr [OF assms(1,2)] by (intro agree_sym [OF agree_mono [OF assms(3)]]) blast
qed

lemma last_hdr_in_hdrs:
  "bs \<noteq> [] \<Longrightarrow> span (e + word_of_nat (extent (butlast bs))) 8 \<subseteq> hdrs e bs"
proof (induction bs arbitrary: e)
  case (Cons b bs)
  then show ?case
    using Cons.IH [of "e + word_of_nat (stride (snd b))"] by (cases bs) (auto simp: add.assoc)
qed simp

lemma alloc_keeps_buffers:
  assumes "pool_ok c cap (mem s) bs" and "esp_amp_sys_info_alloc c i sz cap s = Some (p, s')"
    and "map_of bs j = Some n"
  shows "agree (span (buf_addr c cap j bs) (unat n)) (mem s') (mem s)"
proof (cases "i \<in> fst ` set bs \<or> \<not> block_fits c cap bs sz")
  case True
  then show ?thesis using assms(1,2) by (simp add: alloc_pool_eq)
next
  case False
  let ?B = "span (buf_addr c cap j bs) (unat n)"
  let ?a = "last_hdr c cap bs" and ?st = "new_hdr c cap bs"
  note b = pool_ok_bounds [OF assms(1)] and d = buf_addr_bounds [OF assms(1,3)]
  from assms(1) have en: "unat (pool_end c cap) < 4294836224" by (simp add: pool_ok_def)
  have "span ?a 8 \<inter> ?B = {}"
    using buffer_not_pool_hdr [OF assms(1,3)] last_hdr_in_hdrs [of "root_block # bs" "pool_head c cap"]
    unfolding last_hdr_def by blast
  then have "span (?a + 4) 4 \<inter> ?B = {}" by (rule span_Un_sub [rotated]) simp
  moreover have "span ?st 8 \<inter> ?B = {}"
  proof (rule disj_nowrap)
    have "j \<in> fst ` set bs" using assms(3) by (force dest: map_of_SomeD)
    moreover have "unat (pool_head c cap + 8) = unat (pool_head c cap) + 8"
      using b(1,4) en by (intro unat_add_numeral) simp
    ultimately have "unat (block_addr (pool_head c cap + 8) j bs) + stride n \<le> unat ?st"
      using block_addr_bounds [of j bs "pool_head c cap + 8"] b(1,4) en assms(3) by simp
    then show "unat ?st + 8 \<le> unat (buf_addr c cap j bs) \<or>
        unat (buf_addr c cap j bs) + unat n \<le> unat ?st" using d(3,5) by linarith
  qed (use b d en in linarith)+
  ultimately show ?thesis
    using False assms(1,2) by (auto simp: alloc_pool_eq intro: alloc_mem_frame)
qed

subsection \<open>Use of the pool over time\<close>

text \<open>
  A well-formed memory map: the pools start above address zero, hold at least their root header,
  end with room for the largest block below the top of the address space, and do not overlap.
\<close>

definition mem_map_ok :: "'z config \<Rightarrow> bool" where
  "mem_map_ok c \<longleftrightarrow>
     (\<forall>cap \<in> (if SUBCORE_TYPE_LP_CORE c then {SYS_INFO_CAP_HP, SYS_INFO_CAP_RTC} else {SYS_INFO_CAP_HP}).
        0 < unat (pool_head c cap) \<and> unat (pool_head c cap) + 8 \<le> unat (pool_end c cap) \<and>
        unat (pool_end c cap) < 4294836224) \<and>
     (SUBCORE_TYPE_LP_CORE c \<longrightarrow>
        unat (pool_end c SYS_INFO_CAP_HP) \<le> unat (pool_head c SYS_INFO_CAP_RTC) \<or>
        unat (pool_end c SYS_INFO_CAP_RTC) \<le> unat (pool_head c SYS_INFO_CAP_HP))"

definition cap_available :: "'z config \<Rightarrow> sys_info_cap \<Rightarrow> bool" where
  "cap_available c cap \<longleftrightarrow> SUBCORE_TYPE_LP_CORE c \<or> cap = SYS_INFO_CAP_HP"

text \<open>
  The history of one pool: initialised by maincore, then any interleaving of allocations (which may
  be refused), byte writes of either core into buffers it looked up, and changes of the state that
  leave the memory of the pool alone.
\<close>

inductive shm_run :: "'z config \<Rightarrow> sys_info_cap \<Rightarrow> 'z core_scheme \<Rightarrow> block list \<Rightarrow> bool"
  for c :: "'z config" and cap where
  init: "shm_run c cap (snd (esp_amp_sys_info_init c s)) []"
| alloc: "shm_run c cap s bs \<Longrightarrow> esp_amp_sys_info_alloc c i sz cap s = Some (p, s') \<Longrightarrow>
    shm_run c cap s' (if p = NULL then bs else bs @ [(i, sz)])"
| client: "shm_run c cap s bs \<Longrightarrow> esp_amp_sys_info_get c i cap s = Some (p, Some sz) \<Longrightarrow>
    unat k < unat sz \<Longrightarrow> shm_run c cap (s\<lparr>mem := store8 (mem s) (p + k) v\<rparr>) bs"
| elsewhere: "shm_run c cap s bs \<Longrightarrow>
    agree {a. unat (pool_head c cap) \<le> unat a \<and> unat a < unat (pool_end c cap)} (mem s) (mem s') \<Longrightarrow>
    shm_run c cap s' bs"

lemma init_head_pool: "pool (sys_info_init_head m h) h [root_block]"
  by (simp add: sys_info_init_head_def hdr_info_id_def hdr_size_def hdr_next_def mem_simps disj_def)

lemma init_head_frame: "span h 8 \<inter> A = {} \<Longrightarrow> agree A (sys_info_init_head m h) m"
proof -
  assume "span h 8 \<inter> A = {}"
  then have "span h 2 \<inter> A = {}" "span (h + 2) 2 \<inter> A = {}" "span (h + 4) 4 \<inter> A = {}"
    by (rule span_Un_sub [rotated], simp)+
  then show ?thesis unfolding sys_info_init_head_def by (intro frame_intros agree_refl)
qed

lemma init_pool_ok:
  assumes "mem_map_ok c" and "IS_MAIN_CORE c" and "cap_available c cap"
  shows "pool_ok c cap (mem (snd (esp_amp_sys_info_init c s))) []"
proof -
  let ?m = "mem (snd (esp_amp_sys_info_init c s))"
  have "pool ?m (pool_head c cap) [root_block]"
  proof (cases "cap = SYS_INFO_CAP_HP \<and> SUBCORE_TYPE_LP_CORE c")
    case True
    let ?m1 = "sys_info_init_head (mem s) (ESP_AMP_HP_SHARED_MEM_POOL_START c)"
    have "span (pool_head c SYS_INFO_CAP_RTC) 8 \<inter> span (pool_head c SYS_INFO_CAP_HP) 8 = {}"
      using assms(1) True by (intro disj_nowrap) (auto simp: mem_map_ok_def)
    then have "agree (span (pool_head c cap) 8) ?m ?m1"
      using True assms(2)
      by (auto simp: esp_amp_sys_info_init_def Let_def pool_head_def intro: init_head_frame)
    from pool_cong [of "pool_head c cap" "[root_block]" ?m ?m1] this show ?thesis
      using True init_head_pool by (simp add: pool_head_def)
  next
    case False
    then show ?thesis
      using assms init_head_pool
      by (cases cap) (auto simp: esp_amp_sys_info_init_def Let_def pool_head_def cap_available_def)
  qed
  then show ?thesis
    using assms by (cases cap) (auto simp: pool_ok_def mem_map_ok_def cap_available_def split: if_splits)
qed

lemma client_write_pool_ok:
  assumes "pool_ok c cap (mem s) bs" and "esp_amp_sys_info_get c i cap s = Some (p, Some sz)"
    and "unat k < unat sz"
  shows "pool_ok c cap (store8 (mem s) (p + k) v) bs"
proof -
  from assms(1,2) have i: "map_of bs i = Some sz" and p: "p = buf_addr c cap i bs"
    by (auto simp: get_pool_eq split: option.splits)
  have "p + k \<in> span (buf_addr c cap i bs) (unat sz)" using p assms(3) by (simp add: in_span_iff)
  from buffer_not_pool_hdr [OF assms(1) i this]
  have "agree (hdrs (pool_head c cap) (root_block # bs)) (mem s) (store8 (mem s) (p + k) v)"
    by (auto simp: agree_def store8_def)
  from pool_ok_cong [OF assms(1) this] show ?thesis .
qed

lemma shm_run_pool_ok:
  assumes "shm_run c cap s bs" and "mem_map_ok c" and "IS_MAIN_CORE c" and "cap_available c cap"
  shows "pool_ok c cap (mem s) bs"
  using assms(1)
proof induction
  case (init s)
  then show ?case using init_pool_ok assms(2-4) by blast
next
  case (alloc s bs i sz p s')
  from alloc.IH alloc.hyps(2) show ?case
    by (cases rule: sys_info.alloc_cases) (use alloc.IH in simp_all)
next
  case (client s bs i p sz k v)
  then show ?case using client_write_pool_ok by simp
next
  case (elsewhere s bs s')
  have "agree (hdrs (pool_head c cap) (root_block # bs)) (mem s) (mem s')"
  proof (rule agree_mono [OF elsewhere.hyps(2)], rule subsetI)
    fix x assume x: "x \<in> hdrs (pool_head c cap) (root_block # bs)"
    have "unat (pool_head c cap) + extent (root_block # bs) \<le> unat (pool_end c cap)"
      "unat (pool_head c cap) + extent (root_block # bs) < 4294967296"
      using elsewhere.IH by (simp_all add: pool_ok_def)
    with hdrs_bounds [OF x] show "x \<in> {a. unat (pool_head c cap) \<le> unat a \<and> unat a < unat (pool_end c cap)}"
      by simp
  qed
  from pool_ok_cong [OF elsewhere.IH this] show ?case .
qed

subsection \<open>Properties\<close>

lemma demo_map [simp]:
  "pool_head (demo_config b) SYS_INFO_CAP_HP = 0x4087a580"
  "pool_end (demo_config b) SYS_INFO_CAP_HP = 0x4087e560"
  "pool_head (demo_config b) SYS_INFO_CAP_RTC = 0x50002800"
  "pool_end (demo_config b) SYS_INFO_CAP_RTC = 0x50003000"
  by (simp_all add: pool_head_def pool_end_def demo_config_def ESP_AMP_HP_SHARED_MEM_POOL_START_def
      ESP_AMP_HP_SHARED_MEM_START_def ESP_AMP_RTC_SHARED_MEM_POOL_START_def
      ESP_AMP_RTC_SHARED_MEM_POOL_SIZE_def ALIGN_DOWN_def ALIGN_UP_def)

lemma demo_map_ok [simp]: "mem_map_ok (demo_config b)" "cap_available (demo_config b) cap"
  by (simp_all add: mem_map_ok_def cap_available_def)

text \<open>C37. In every state a pool can reach, allocation terminates. It is refused, with nothing
  changed, exactly when the id is taken or the block does not fit; otherwise it returns a buffer
  that both cores find again under the id with the requested size, all other lookups are as before,
  and the contents of every buffer handed out earlier are untouched.\<close>

theorem sys_info_alloc_get:
  assumes "shm_run c cap s bs" "mem_map_ok c" "IS_MAIN_CORE c" "cap_available c cap"
  shows "\<exists>p s'. esp_amp_sys_info_alloc c i sz cap s = Some (p, s') \<and>
    (if i \<in> fst ` set bs \<or> \<not> block_fits c cap bs sz then p = NULL \<and> s' = s
     else p \<noteq> NULL \<and> esp_amp_sys_info_get c i cap s' = Some (p, Some sz) \<and>
       (\<forall>j. j \<noteq> i \<longrightarrow> esp_amp_sys_info_get c j cap s' = esp_amp_sys_info_get c j cap s) \<and>
       (\<forall>j q n. esp_amp_sys_info_get c j cap s = Some (q, Some n) \<longrightarrow>
          load_bytes (mem s') q (unat n) = load_bytes (mem s) q (unat n)))"
proof -
  from assms have ok: "pool_ok c cap (mem s) bs" by (rule shm_run_pool_ok)
  from sys_info.alloc_total [OF ok] obtain p s'
    where a: "esp_amp_sys_info_alloc c i sz cap s = Some (p, s')" by blast
  have keep: "load_bytes (mem s') q (unat n) = load_bytes (mem s) q (unat n)"
    if "esp_amp_sys_info_get c j cap s = Some (q, Some n)" for j q n
  proof -
    have "map_of bs j = Some n" "q = buf_addr c cap j bs"
      using that ok by (auto simp: get_pool_eq split: option.splits)
    then show ?thesis
      using alloc_keeps_buffers [OF ok a] unat_le_32 [of n] by (intro load_bytes_cong) simp_all
  qed
  from ok a show ?thesis
  proof (cases rule: sys_info.alloc_cases)
    case refused
    then show ?thesis using a by auto
  next
    case allocated
    then show ?thesis
      using a keep sys_info.get_after_alloc [OF ok a] by auto
  qed
qed

theorem sys_info_alloc_get_witness:
  "\<exists>p s'. esp_amp_sys_info_alloc (demo_config True :: unit config) 0x10 100 SYS_INFO_CAP_HP
      (snd (esp_amp_sys_info_init (demo_config True) demo_core)) = Some (p, s') \<and>
    p \<noteq> NULL \<and> esp_amp_sys_info_get (demo_config True) 0x10 SYS_INFO_CAP_HP s' = Some (p, Some 100)"
  using sys_info_alloc_get [OF shm_run.init, of "demo_config True :: unit config" SYS_INFO_CAP_HP "0x10" 100 demo_core]
  by (auto simp: block_fits_def stride_def)

text \<open>C38. In every state a pool can reach, each block ever handed out is found under its id at one
  address, its buffer lies inside the pool behind the root header, and the buffers of two
  different ids have no byte in common.\<close>

theorem sys_info_blocks_separate:
  assumes "shm_run c cap s bs" "mem_map_ok c" "IS_MAIN_CORE c" "cap_available c cap"
    and "(i, n) \<in> set bs"
  shows "\<exists>p. esp_amp_sys_info_get c i cap s = Some (p, Some n) \<and>
    unat (pool_head c cap) + 16 \<le> unat p \<and> unat p + unat n \<le> unat (pool_end c cap) \<and>
    (\<forall>j k q. j \<noteq> i \<longrightarrow> esp_amp_sys_info_get c j cap s = Some (q, Some k) \<longrightarrow>
       span p (unat n) \<inter> span q (unat k) = {})"
proof -
  let ?p = "\<lambda>i. buf_addr c cap i bs"
  from assms(1-4) have ok: "pool_ok c cap (mem s) bs" by (rule shm_run_pool_ok)
  then have "distinct (map fst bs)" by (simp add: pool_ok_def)
  with assms(5) have i: "map_of bs i = Some n" by simp
  note b = buf_addr_bounds [OF ok i]
  have en: "unat (pool_end c cap) < 4294836224" using ok by (simp add: pool_ok_def)
  have "span (?p i) (unat n) \<inter> span (?p j) (unat k) = {}"
    if "j \<noteq> i" and j: "map_of bs j = Some k" for j k
  proof -
    note d = buf_addr_bounds [OF ok j]
    have lt: "unat (pool_head c cap) + 8 + extent bs < 4294967296" using ok by (simp add: pool_ok_def)
    have h8: "unat (pool_head c cap + 8) = unat (pool_head c cap) + 8"
      using lt by (intro unat_add_numeral) linarith
    have mem: "i \<in> fst ` set bs" "j \<in> fst ` set bs" using i j by (force dest: map_of_SomeD)+
    from block_addr_separate [OF mem _, of "pool_head c cap + 8"] that(1) lt h8 i j b d en
    show ?thesis by (intro disj_nowrap) auto
  qed
  then show ?thesis using b(1,2) i ok by (auto simp: get_pool_eq split: option.splits)
qed

theorem sys_info_blocks_separate_witness:
  "\<exists>p s'. esp_amp_sys_info_alloc (demo_config True :: unit config) 0x10 100 SYS_INFO_CAP_RTC
      (snd (esp_amp_sys_info_init (demo_config True) demo_core)) = Some (p, s') \<and>
    (\<exists>q. esp_amp_sys_info_get (demo_config True) 0x10 SYS_INFO_CAP_RTC s' = Some (q, Some 100) \<and>
      unat q + 100 \<le> 0x50003000)"
proof -
  let ?c = "demo_config True :: unit config" and ?cap = SYS_INFO_CAP_RTC
  let ?s = "snd (esp_amp_sys_info_init ?c demo_core)"
  have ok: "pool_ok ?c ?cap (mem ?s) []" by (rule init_pool_ok) simp_all
  obtain p s' where a: "esp_amp_sys_info_alloc ?c 0x10 100 ?cap ?s = Some (p, s')" "p \<noteq> NULL"
    using sys_info.alloc_done [OF ok, of "0x10" 100] sys_info.place_nonnull
    by (force simp: block_fits_def stride_def)
  then have "shm_run ?c ?cap s' [(0x10, 100)]"
    using shm_run.alloc [OF shm_run.init a(1)] by simp
  from sys_info_blocks_separate [OF this] a(1) show ?thesis by fastforce
qed

end
