(* ===== verification/Amp_Pm.thy ===== *)
theory Amp_Pm
  imports Amp_Sys_Info
begin

text \<open>
  Light sleep prevention, src/components/esp_amp/system/esp_amp_pm.c and the macros of
  system/include/esp_amp_pm.h. While the subcore accesses HP memory it keeps a byte counter in
  RTC memory above zero, which the maincore reads before it enters light sleep.
\<close>

definition pm_active :: "'z config \<Rightarrow> bool" where
  "pm_active c \<longleftrightarrow> AUTO_LIGHT_SLEEP_SUPPORT c \<and> \<not> IS_MAIN_CORE c"

definition pm_cnt :: "'z core_scheme \<Rightarrow> u8" where
  "pm_cnt s = load8 (mem s) (lp_access_hp_cnt s)"

definition esp_amp_system_pm_maincore_check_ls_ctrl :: "'z core_scheme \<Rightarrow> bool" where
  "esp_amp_system_pm_maincore_check_ls_ctrl s \<longleftrightarrow> 0 < pm_cnt s"

definition esp_amp_system_pm_subcore_skip_light_sleep_enter ::
    "'z config \<Rightarrow> 'z core_scheme \<Rightarrow> 'z core_scheme" where
  "esp_amp_system_pm_subcore_skip_light_sleep_enter c s =
     (let s1 = esp_amp_env_enter_critical c s;
          need_trigger = (pm_cnt s1 = 0);
          s2 = s1\<lparr>mem := store8 (mem s1) (lp_access_hp_cnt s1) (pm_cnt s1 + 1)\<rparr>;
          s3 = esp_amp_env_exit_critical c s2
      in if \<not> need_trigger then s3 else esp_amp_platform_sw_intr_trigger c s3)"

text \<open>A failing assertion aborts the firmware: the result is \<open>None\<close>.\<close>

definition esp_amp_system_pm_subcore_skip_light_sleep_exit ::
    "'z config \<Rightarrow> 'z core_scheme \<Rightarrow> 'z core_scheme option" where
  "esp_amp_system_pm_subcore_skip_light_sleep_exit c s =
     (let s1 = esp_amp_env_enter_critical c s
      in if \<not> 0 < pm_cnt s1 then None
         else let s2 = s1\<lparr>mem := store8 (mem s1) (lp_access_hp_cnt s1) (pm_cnt s1 - 1)\<rparr>
              in Some (esp_amp_env_exit_critical c s2))"

text \<open>The macros, empty unless automatic light sleep is configured and this is the subcore.\<close>

definition PM_SKIP_LIGHT_SLEEP_ENTER :: "'z config \<Rightarrow> 'z core_scheme \<Rightarrow> 'z core_scheme" where
  "PM_SKIP_LIGHT_SLEEP_ENTER c s =
     (if AUTO_LIGHT_SLEEP_SUPPORT c \<and> \<not> IS_MAIN_CORE c
      then esp_amp_system_pm_subcore_skip_light_sleep_enter c s else s)"

definition PM_SKIP_LIGHT_SLEEP_EXIT ::
    "'z config \<Rightarrow> 'z core_scheme \<Rightarrow> 'z core_scheme option" where
  "PM_SKIP_LIGHT_SLEEP_EXIT c s =
     (if AUTO_LIGHT_SLEEP_SUPPORT c \<and> \<not> IS_MAIN_CORE c
      then esp_amp_system_pm_subcore_skip_light_sleep_exit c s else Some s)"

text \<open>
  Initialisation. \<open>register_ok\<close>: the ESP-IDF accepted the light sleep callback. Enabling the wake-up
  source changes no modelled state.
\<close>

definition esp_amp_system_pm_init ::
    "bool \<Rightarrow> 'z config \<Rightarrow> 'z core_scheme \<Rightarrow> (int \<times> 'z core_scheme) option" where
  "esp_amp_system_pm_init register_ok c s =
     (if IS_MAIN_CORE c then do {
        (p, s1) \<leftarrow> esp_amp_sys_info_alloc c SYS_INFO_RESERVED_ID_PM 4 SYS_INFO_CAP_RTC s;
        let s2 = s1\<lparr>lp_access_hp_cnt := p\<rparr>;
        if p = NULL then Some (-1, s2)
        else let s3 = s2\<lparr>mem := store8 (mem s2) p 0\<rparr>
             in Some (if register_ok then 0 else -1, s3)
      } else do {
        (p, _) \<leftarrow> esp_amp_sys_info_get c SYS_INFO_RESERVED_ID_PM SYS_INFO_CAP_RTC s;
        let s1 = s\<lparr>lp_access_hp_cnt := p\<rparr>;
        Some (if p = NULL then -1 else 0, s1)
      })"

subsection \<open>Effect of the macros\<close>

text \<open>
  \<open>pm_frame c A\<close>: every byte but the counter is as before, so a client whose data does not
  overlap the counter is not affected.
\<close>

definition pm_frame :: "'z config \<Rightarrow> 'z core_scheme \<Rightarrow> 'z core_scheme \<Rightarrow> bool" where
  "pm_frame c s s' \<longleftrightarrow> lp_access_hp_cnt s' = lp_access_hp_cnt s \<and> core.more s' = core.more s \<and>
     (if pm_active c then \<forall>x. x \<noteq> lp_access_hp_cnt s \<longrightarrow> mem s' x = mem s x else s' = s)"

lemma platform_trigger_fields [simp]:
  "mem (esp_amp_platform_sw_intr_trigger c s) = mem s"
  "lp_access_hp_cnt (esp_amp_platform_sw_intr_trigger c s) = lp_access_hp_cnt s"
  "core.more (esp_amp_platform_sw_intr_trigger c s) = core.more s"
  by (simp_all add: esp_amp_platform_sw_intr_trigger_def pmu_sw_intr_trigger_def
      intmtx_sw_intr_trigger_def)

lemma pm_enter_frame: "port_ok c \<Longrightarrow> pm_frame c s (PM_SKIP_LIGHT_SLEEP_ENTER c s)"
  by (simp add: pm_frame_def PM_SKIP_LIGHT_SLEEP_ENTER_def pm_active_def Let_def
      esp_amp_system_pm_subcore_skip_light_sleep_enter_def store8_def)

lemma pm_exit_frame:
  "port_ok c \<Longrightarrow> PM_SKIP_LIGHT_SLEEP_EXIT c s = Some s' \<Longrightarrow> pm_frame c s s'"
  by (auto simp: pm_frame_def PM_SKIP_LIGHT_SLEEP_EXIT_def pm_active_def Let_def
      esp_amp_system_pm_subcore_skip_light_sleep_exit_def store8_def split: if_splits)

lemma pm_enter_cnt:
  assumes "port_ok c" and "pm_active c"
  shows "pm_cnt (PM_SKIP_LIGHT_SLEEP_ENTER c s) = pm_cnt s + 1"
  using assms
  by (simp add: PM_SKIP_LIGHT_SLEEP_ENTER_def pm_active_def pm_cnt_def Let_def
      esp_amp_system_pm_subcore_skip_light_sleep_enter_def)

lemma pm_exit_cnt:
  assumes "port_ok c" and "pm_active c"
  shows "(pm_cnt s = 0 \<longrightarrow> PM_SKIP_LIGHT_SLEEP_EXIT c s = None) \<and>
    (pm_cnt s \<noteq> 0 \<longrightarrow> (\<exists>s'. PM_SKIP_LIGHT_SLEEP_EXIT c s = Some s' \<and> pm_cnt s' = pm_cnt s - 1))"
  using assms
  by (simp add: PM_SKIP_LIGHT_SLEEP_EXIT_def pm_active_def pm_cnt_def Let_def word_neq_0_conv
      esp_amp_system_pm_subcore_skip_light_sleep_exit_def)

lemma pm_inactive [simp]:
  assumes "\<not> pm_active c"
  shows "PM_SKIP_LIGHT_SLEEP_ENTER c s = s" "PM_SKIP_LIGHT_SLEEP_EXIT c s = Some s"
  using assms by (auto simp: pm_active_def PM_SKIP_LIGHT_SLEEP_ENTER_def PM_SKIP_LIGHT_SLEEP_EXIT_def)

lemma pm_frame_agree:
  "pm_frame c s s' \<Longrightarrow> pm_active c \<longrightarrow> lp_access_hp_cnt s \<notin> A \<Longrightarrow> agree A (mem s') (mem s)"
  by (cases "pm_active c") (auto simp: pm_frame_def agree_def, metis)

subsection \<open>Guarded access\<close>

text \<open>
  What a component relies on that writes shared memory in between the two macros: entering changes
  one byte, the counter, and leaving puts it back, if what ran in between left it alone.
\<close>

locale access_guard =
  fixes enter :: "'s \<Rightarrow> 's" and leave :: "'s \<Rightarrow> 's option" and bytes :: "'s \<Rightarrow> memory" and cell :: "'s \<Rightarrow> ptr" and ready :: "'s \<Rightarrow> bool"
  assumes enter_cell: "ready s \<Longrightarrow> cell (enter s) = cell s"
    and enter_bytes: "ready s \<Longrightarrow> x \<noteq> cell s \<Longrightarrow> bytes (enter s) x = bytes s x"
    and leave_restores: "ready s \<Longrightarrow> cell t = cell s \<Longrightarrow> bytes t (cell s) = bytes (enter s) (cell s) \<Longrightarrow>
      \<exists>t'. leave t = Some t' \<and> cell t' = cell s \<and> bytes t' (cell s) = bytes s (cell s) \<and> (\<forall>x. x \<noteq> cell s \<longrightarrow> bytes t' x = bytes t x)"
begin

lemma bracket:
  assumes "ready s" and "cell s \<notin> A" and m: "agree (- A) (bytes t) (bytes (enter s))" and "cell t = cell s"
  obtains t' where "leave t = Some t'" "agree A (bytes t') (bytes t)" "agree (- A) (bytes t') (bytes s)" "cell t' = cell s"
proof -
  have "bytes t (cell s) = bytes (enter s) (cell s)" using m assms(2) by (simp add: agree_def)
  from leave_restores [OF assms(1,4) this] obtain t' where t': "leave t = Some t'" "cell t' = cell s"
    "bytes t' (cell s) = bytes s (cell s)" "\<And>x. x \<noteq> cell s \<Longrightarrow> bytes t' x = bytes t x" by blast
  have "agree A (bytes t') (bytes t)" unfolding agree_def using t'(4) assms(2) by metis
  moreover have "bytes t' x = bytes s x" if "x \<notin> A" for x
    using t'(3,4) enter_bytes [OF assms(1)] m that by (cases "x = cell s") (simp_all add: agree_def)
  ultimately show thesis using that t'(1,2) by (auto simp: agree_def)
qed

end

interpretation pm: access_guard "PM_SKIP_LIGHT_SLEEP_ENTER c" "PM_SKIP_LIGHT_SLEEP_EXIT c" mem lp_access_hp_cnt
  "\<lambda>s. port_ok c \<and> (pm_active c \<longrightarrow> pm_cnt s \<noteq> -1)"
proof
  fix s t :: "'a core_scheme" and x
  assume r: "port_ok c \<and> (pm_active c \<longrightarrow> pm_cnt s \<noteq> -1)"
  then have f: "pm_frame c s (PM_SKIP_LIGHT_SLEEP_ENTER c s)" by (simp add: pm_enter_frame)
  then show "lp_access_hp_cnt (PM_SKIP_LIGHT_SLEEP_ENTER c s) = lp_access_hp_cnt s" by (simp add: pm_frame_def)
  show "mem (PM_SKIP_LIGHT_SLEEP_ENTER c s) x = mem s x" if "x \<noteq> lp_access_hp_cnt s"
    using f that by (auto simp: pm_frame_def split: if_splits)
  assume t: "lp_access_hp_cnt t = lp_access_hp_cnt s"
    "mem t (lp_access_hp_cnt s) = mem (PM_SKIP_LIGHT_SLEEP_ENTER c s) (lp_access_hp_cnt s)"
  have c: "pm_cnt t = pm_cnt (PM_SKIP_LIGHT_SLEEP_ENTER c s)" using t f by (simp add: pm_cnt_def load8_def pm_frame_def)
  show "\<exists>t'. PM_SKIP_LIGHT_SLEEP_EXIT c t = Some t' \<and> lp_access_hp_cnt t' = lp_access_hp_cnt s \<and>
      mem t' (lp_access_hp_cnt s) = mem s (lp_access_hp_cnt s) \<and> (\<forall>x. x \<noteq> lp_access_hp_cnt s \<longrightarrow> mem t' x = mem t x)"
  proof (cases "pm_active c")
    case True
    have "pm_cnt t = pm_cnt s + 1" using pm_enter_cnt [of c s] r True c by simp
    then have "pm_cnt t \<noteq> 0" using r True by (simp add: add_eq_0_iff2)
    then obtain t' where t': "PM_SKIP_LIGHT_SLEEP_EXIT c t = Some t'" "pm_cnt t' = pm_cnt s"
      using pm_exit_cnt [of c t] r True \<open>pm_cnt t = pm_cnt s + 1\<close> by auto
    then show ?thesis using pm_exit_frame [OF conjunct1 [OF r] t'(1)] True t(1) by (auto simp: pm_frame_def pm_cnt_def load8_def)
  next
    case False
    then show ?thesis using t by simp
  qed
qed

subsection \<open>Balanced use\<close>

fun pm_steps :: "'z config \<Rightarrow> bool list \<Rightarrow> 'z core_scheme \<Rightarrow> 'z core_scheme option" where
  "pm_steps c [] s = Some s"
| "pm_steps c (True # bs) s = pm_steps c bs (PM_SKIP_LIGHT_SLEEP_ENTER c s)"
| "pm_steps c (False # bs) s = do { s' \<leftarrow> PM_SKIP_LIGHT_SLEEP_EXIT c s; pm_steps c bs s' }"

text \<open>Nesting depth, never below zero and below 256.\<close>

fun pm_depth :: "nat \<Rightarrow> bool list \<Rightarrow> nat option" where
  "pm_depth n [] = Some n"
| "pm_depth n (True # bs) = (if Suc n < 256 then pm_depth (Suc n) bs else None)"
| "pm_depth n (False # bs) = (case n of 0 \<Rightarrow> None | Suc k \<Rightarrow> pm_depth k bs)"

lemma pm_steps_depth:
  assumes "port_ok c" and "pm_active c"
  shows "unat (pm_cnt s) = n \<Longrightarrow> pm_depth n bs = Some k \<Longrightarrow>
    \<exists>s'. pm_steps c bs s = Some s' \<and> unat (pm_cnt s') = k \<and> lp_access_hp_cnt s' = lp_access_hp_cnt s \<and>
      (\<forall>x. x \<noteq> lp_access_hp_cnt s \<longrightarrow> mem s' x = mem s x)"
proof (induction n bs arbitrary: s rule: pm_depth.induct)
  case (2 n bs)
  let ?s = "PM_SKIP_LIGHT_SLEEP_ENTER c s"
  have "unat (pm_cnt ?s) = Suc n"
    using 2(2,3) pm_enter_cnt [OF assms, of s] by (auto simp: unat_word_ariths split: if_splits)
  then show ?case
    using 2 pm_enter_frame [OF assms(1), of s] assms(2) by (fastforce simp: pm_frame_def split: if_splits)
next
  case (3 n bs)
  then obtain m where m: "n = Suc m" "pm_depth m bs = Some k" by (cases n) auto
  then have "pm_cnt s \<noteq> 0" using 3(2) by auto
  then obtain s' where s': "PM_SKIP_LIGHT_SLEEP_EXIT c s = Some s'" "pm_cnt s' = pm_cnt s - 1"
    using pm_exit_cnt [OF assms, of s] by auto
  have "unat (pm_cnt s') = m" using s'(2) unat_minus_one [OF \<open>pm_cnt s \<noteq> 0\<close>] 3(2) m(1) by simp
  from 3(1) [OF m(1) this m(2)] s'(1) pm_exit_frame [OF assms(1) s'(1)] assms(2) show ?case
    by (auto simp: pm_frame_def)
qed simp

subsection \<open>Properties\<close>

text \<open>C36. The maincore sees that the subcore needs HP memory exactly while it does. When both cores
  use the same counter and it starts at zero, then after any nested use by the subcore, up to 255
  deep, the check of maincore answers whether a use is still open, and no other byte of memory has
  changed.\<close>

theorem pm_light_sleep_prevented:
  assumes "port_ok d" and "pm_active d" and "mem t = mem s" "lp_access_hp_cnt t = lp_access_hp_cnt s"
    and "pm_cnt s = 0" and "pm_depth 0 bs = Some k"
  shows "\<exists>t'. pm_steps d bs t = Some t' \<and>
    (\<forall>s'. mem s' = mem t' \<and> lp_access_hp_cnt s' = lp_access_hp_cnt s \<longrightarrow>
       esp_amp_system_pm_maincore_check_ls_ctrl s' = (0 < k)) \<and>
    (\<forall>x. x \<noteq> lp_access_hp_cnt s \<longrightarrow> mem t' x = mem s x)"
proof -
  have "unat (pm_cnt t) = 0" using assms(3-5) by (simp add: pm_cnt_def)
  from pm_steps_depth [OF assms(1,2) this assms(6)] assms(3,4) obtain t' where t': "pm_steps d bs t = Some t'"
    "unat (pm_cnt t') = k" "lp_access_hp_cnt t' = lp_access_hp_cnt s" "\<forall>x. x \<noteq> lp_access_hp_cnt s \<longrightarrow> mem t' x = mem s x"
    by auto
  then show ?thesis
    by (auto simp: esp_amp_system_pm_maincore_check_ls_ctrl_def pm_cnt_def word_less_nat_alt)
qed

theorem pm_light_sleep_prevented_witness:
  "\<exists>t'. pm_steps ((demo_config False)\<lparr>AUTO_LIGHT_SLEEP_SUPPORT := True\<rparr>) [True, True, False] demo_core = Some t' \<and>
    esp_amp_system_pm_maincore_check_ls_ctrl (demo_core\<lparr>mem := mem t'\<rparr>)"
proof -
  let ?d = "(demo_config False)\<lparr>AUTO_LIGHT_SLEEP_SUPPORT := True\<rparr>"
  have h: "port_ok ?d" "pm_active ?d" "pm_cnt demo_core = 0" "pm_depth 0 [True, True, False] = Some 1"
    by (simp_all add: port_ok_def pm_active_def pm_cnt_def demo_core_def load8_def demo_config_def)
  from pm_light_sleep_prevented [OF h(1,2) refl refl h(3,4)] obtain t' where
    "pm_steps ?d [True, True, False] demo_core = Some t'"
    "\<forall>s' :: core. mem s' = mem t' \<and> lp_access_hp_cnt s' = lp_access_hp_cnt demo_core \<longrightarrow>
       esp_amp_system_pm_maincore_check_ls_ctrl s' = (0 < (1 :: nat))" by blast
  then show ?thesis by simp
qed

end
