(* ===== verification/Amp_Sw_Intr.thy ===== *)
theory Amp_Sw_Intr
  imports Amp_Pm
begin

text \<open>
  Software interrupts, src/components/esp_amp/src/esp_amp_sw_intr.c: a table of handlers per core,
  one word of pending bits per core in shared memory, and the interrupt service routine that takes
  all pending bits atomically and runs every handler registered for one of them.
\<close>

subsection \<open>State\<close>

text \<open>
  A handler is a function pointer (\<open>None\<close> is \<open>NULL\<close>). The handler table is a static array of the
  component; it extends the state of the core.
\<close>

record 'f sw_intr_handler_tbl =
  intr_id :: u32
  handler :: "'f option"
  arg :: ptr

record 'f amp_core = core +
  sw_intr_handlers :: "'f sw_intr_handler_tbl list"

type_synonym ('f, 'z) amp = "('f, 'z) amp_core_scheme"
type_synonym ('f, 'z) amp_config = "('f, 'z) amp_core_ext config"

text \<open>Calling a function pointer on an argument; \<open>None\<close> is a call that does not return.\<close>

type_synonym ('f, 'z) call = "'f \<Rightarrow> ptr \<Rightarrow> ('f, 'z) amp \<Rightarrow> (int \<times> ('f, 'z) amp) option"

definition SW_INTR_ID_MAX :: u32 where "SW_INTR_ID_MAX = 31"
definition SW_INTR_RESERVED_ID_SYS_SVC :: u32 where "SW_INTR_RESERVED_ID_SYS_SVC = 27"
definition SW_INTR_RESERVED_ID_PANIC :: u32 where "SW_INTR_RESERVED_ID_PANIC = 28"
definition SW_INTR_RESERVED_ID_RPMSG :: u32 where "SW_INTR_RESERVED_ID_RPMSG = 29"
definition SW_INTR_RESERVED_ID_EVENT :: u32 where "SW_INTR_RESERVED_ID_EVENT = 30"

definition BIT :: "u32 \<Rightarrow> u32" where
  "BIT n = push_bit (unat n) 1"

definition ESP_AMP_SW_INTR_BIT_ADDR :: "'z config \<Rightarrow> ptr" where
  "ESP_AMP_SW_INTR_BIT_ADDR c = ESP_AMP_HP_SHARED_MEM_START c"

text \<open>The word of pending bits of the own core and of the peer core.\<close>

definition own_sw_intr_st :: "'z config \<Rightarrow> ptr" where
  "own_sw_intr_st c =
     (if IS_MAIN_CORE c then ESP_AMP_SW_INTR_BIT_ADDR c else ESP_AMP_SW_INTR_BIT_ADDR c + 4)"

definition peer_sw_intr_st :: "'z config \<Rightarrow> ptr" where
  "peer_sw_intr_st c =
     (if IS_MAIN_CORE c then ESP_AMP_SW_INTR_BIT_ADDR c + 4 else ESP_AMP_SW_INTR_BIT_ADDR c)"

subsection \<open>Handler table\<close>

fun find_avail_slot :: "'f sw_intr_handler_tbl list \<Rightarrow> nat" where
  "find_avail_slot [] = 0"
| "find_avail_slot (h # hs) = (if handler h = None then 0 else Suc (find_avail_slot hs))"

definition esp_amp_sw_intr_add_handler ::
    "('f, 'z) amp_config \<Rightarrow> u32 \<Rightarrow> 'f option \<Rightarrow> ptr \<Rightarrow> ('f, 'z) amp \<Rightarrow>
     (int \<times> ('f, 'z) amp) option" where
  "esp_amp_sw_intr_add_handler c iid h a s =
     (if SW_INTR_ID_MAX < iid then None
      else let s1 = esp_amp_env_enter_critical c s;
               avail_slot = find_avail_slot (sw_intr_handlers s1);
               (ret, s2) =
                 (if avail_slot \<noteq> length (sw_intr_handlers s1)
                  then (0, s1\<lparr>sw_intr_handlers := (sw_intr_handlers s1)
                                [avail_slot := \<lparr>intr_id = iid, handler = h, arg = a\<rparr>]\<rparr>)
                  else (-1, s1))
           in Some (ret, esp_amp_env_exit_critical c s2))"

definition delete_matching ::
    "u32 \<Rightarrow> 'f option \<Rightarrow> 'f sw_intr_handler_tbl \<Rightarrow> 'f sw_intr_handler_tbl" where
  "delete_matching iid h e =
     (if intr_id e = iid \<and> handler e = h then e\<lparr>handler := None\<rparr> else e)"

definition esp_amp_sw_intr_delete_handler ::
    "('f, 'z) amp_config \<Rightarrow> u32 \<Rightarrow> 'f option \<Rightarrow> ('f, 'z) amp \<Rightarrow> ('f, 'z) amp option" where
  "esp_amp_sw_intr_delete_handler c iid h s =
     (if SW_INTR_ID_MAX < iid then None
      else let s1 = esp_amp_env_enter_critical c s;
               s2 = s1\<lparr>sw_intr_handlers := map (delete_matching iid h) (sw_intr_handlers s1)\<rparr>
           in Some (esp_amp_env_exit_critical c s2))"

subsection \<open>Trigger\<close>

definition esp_amp_sw_intr_trigger ::
    "'z config \<Rightarrow> u32 \<Rightarrow> 'z core_scheme \<Rightarrow> 'z core_scheme option" where
  "esp_amp_sw_intr_trigger c iid s =
     (if SW_INTR_ID_MAX < iid \<or> ESP_AMP_SW_INTR_BIT_ADDR c = NULL then None
      else let s1 = PM_SKIP_LIGHT_SLEEP_ENTER c s;
               a = peer_sw_intr_st c;
               s2 = s1\<lparr>mem := store32 (mem s1) a (load32 (mem s1) a OR BIT iid)\<rparr>;
               s3 = esp_amp_platform_sw_intr_trigger c s2
           in PM_SKIP_LIGHT_SLEEP_EXIT c s3)"

subsection \<open>Initialisation\<close>

text \<open>\<open>esp_intr_alloc\<close> of the ESP-IDF is only called on maincore; its result is a parameter.\<close>

definition esp_amp_platform_sw_intr_install :: "'z config \<Rightarrow> int \<Rightarrow> int" where
  "esp_amp_platform_sw_intr_install c esp_intr_alloc = (if IS_MAIN_CORE c then esp_intr_alloc else 0)"

definition esp_amp_platform_intr_enable :: "'z core_scheme \<Rightarrow> 'z core_scheme" where
  "esp_amp_platform_intr_enable s = s\<lparr>mstatus := mstatus s OR MSTATUS_MIE\<rparr>"

definition esp_amp_sw_intr_init ::
    "'z config \<Rightarrow> int \<Rightarrow> 'z core_scheme \<Rightarrow> int \<times> 'z core_scheme" where
  "esp_amp_sw_intr_init c esp_intr_alloc s =
     (let a = ESP_AMP_SW_INTR_BIT_ADDR c
      in if a = NULL then (-1, s)
         else let s1 = (if IS_MAIN_CORE c
                        then s\<lparr>mem := store32 (store32 (mem s) a 0) (a + 4) 0\<rparr> else s);
                  ret = esp_amp_platform_sw_intr_install c esp_intr_alloc
              in if ret = 0
                 then let s2 = esp_amp_platform_sw_intr_enable c s1
                      in (ret, if IS_ENV_BM c then esp_amp_platform_intr_enable s2 else s2)
                 else (ret, s1))"

subsection \<open>The service routine\<close>

text \<open>
  The peer runs concurrently and sets bits of the own pending word by atomic OR. \<open>peer k\<close> is what
  it has set between the compare-and-exchange attempts \<open>k - 1\<close> and \<open>k\<close>, and whether attempt \<open>k\<close> of
  the weak compare-and-exchange fails spuriously.

  \<open>cas_take\<close> is the loop \<open>while (!atomic_compare_exchange_weak(st, &unprocessed, 0));\<close>. It
  returns the bits taken and the number of the next attempt.
\<close>

type_synonym interference = "nat \<Rightarrow> u32 \<times> bool"

partial_function (option) cas_take ::
    "interference \<Rightarrow> ptr \<Rightarrow> memory \<Rightarrow> nat \<Rightarrow> u32 \<Rightarrow> (u32 \<times> memory \<times> nat) option" where
  "cas_take peer st m k unprocessed =
     (let m1 = store32 m st (load32 m st OR fst (peer k));
          cur = load32 m1 st
      in if cur = unprocessed \<and> \<not> snd (peer k) then Some (unprocessed, store32 m1 st 0, k + 1)
         else cas_take peer st m1 (k + 1) cur)"

text \<open>
  One pass of the \<open>for\<close> loop. The table is read anew for every index, since a handler may change
  it. \<open>n\<close> is the number of entries left.
\<close>

fun run_handlers ::
    "('f, 'z) call \<Rightarrow> u32 \<Rightarrow> nat \<Rightarrow> nat \<Rightarrow> bool \<times> ('f, 'z) amp \<Rightarrow>
     (bool \<times> ('f, 'z) amp) option" where
  "run_handlers call unprocessed i 0 (need_yield, s) = Some (need_yield, s)"
| "run_handlers call unprocessed i (Suc n) (need_yield, s) =
     (let e = sw_intr_handlers s ! i
      in if unprocessed AND BIT (intr_id e) \<noteq> 0
         then (case handler e of
                 Some h \<Rightarrow> do {
                   (r, s') \<leftarrow> call h (arg e) s;
                   run_handlers call unprocessed (Suc i) n (need_yield \<or> r \<noteq> 0, s')
                 }
               | None \<Rightarrow> run_handlers call unprocessed (Suc i) n (need_yield, s))
         else run_handlers call unprocessed (Suc i) n (need_yield, s))"

text \<open>
  The outer loop. Beside the state it returns the values \<open>unprocessed\<close> had on entry to each
  iteration, which the code does not keep and the statements below speak about.
\<close>

partial_function (option) process ::
    "('f, 'z) call \<Rightarrow> interference \<Rightarrow> nat \<Rightarrow> ptr \<Rightarrow> nat \<Rightarrow> u32 \<Rightarrow> bool \<times> ('f, 'z) amp \<Rightarrow>
     (u32 list \<times> nat \<times> bool \<times> ('f, 'z) amp) option" where
  "process call peer len st k unprocessed ys =
     (if unprocessed = 0 then Some ([], k, ys)
      else do {
        (y, s) \<leftarrow> run_handlers call unprocessed 0 len ys;
        (u, m, k') \<leftarrow> cas_take peer st (mem s) k 0;
        (us, r) \<leftarrow> process call peer len st k' u (y, s\<lparr>mem := m\<rparr>);
        Some (unprocessed # us, r)
      })"

text \<open>
  The result holds the taken bits per iteration, the number of compare-and-exchange attempts, the
  argument of \<open>portYIELD_FROM_ISR\<close> (FreeRTOS only) and the state.
\<close>

definition esp_amp_sw_intr_handler ::
    "('f, 'z) call \<Rightarrow> interference \<Rightarrow> ('f, 'z) amp_config \<Rightarrow> ('f, 'z) amp \<Rightarrow>
     (u32 list \<times> nat \<times> bool \<times> ('f, 'z) amp) option" where
  "esp_amp_sw_intr_handler call peer c s =
     (let s1 = PM_SKIP_LIGHT_SLEEP_ENTER c s
      in do {
        (u, m, k) \<leftarrow> cas_take peer (own_sw_intr_st c) (mem s1) 0 0;
        (us, k', y, s2) \<leftarrow> process call peer (length (sw_intr_handlers s1)) (own_sw_intr_st c) k u
                              (False, s1\<lparr>mem := m\<rparr>);
        s3 \<leftarrow> PM_SKIP_LIGHT_SLEEP_EXIT c s2;
        Some (us, k', y, s3)
      })"

text \<open>The entry points of the interrupt: acknowledge the line first, then serve.\<close>

definition pmu_sw_intr_handler ::
    "('f, 'z) call \<Rightarrow> interference \<Rightarrow> ('f, 'z) amp_config \<Rightarrow> ('f, 'z) amp \<Rightarrow>
     (u32 list \<times> nat \<times> bool \<times> ('f, 'z) amp) option" where
  "pmu_sw_intr_handler call peer c s =
     (let is_sw_intr = (main_sw_intr s \<and> sw_intr_ena s);
          s1 = esp_amp_platform_sw_intr_clear c s
      in if is_sw_intr then esp_amp_sw_intr_handler call peer c s1 else Some ([], 0, False, s1))"

definition ulp_lp_core_lp_pmu_intr_handler ::
    "('f, 'z) call \<Rightarrow> interference \<Rightarrow> ('f, 'z) amp_config \<Rightarrow> ('f, 'z) amp \<Rightarrow>
     (u32 list \<times> nat \<times> bool \<times> ('f, 'z) amp) option" where
  "ulp_lp_core_lp_pmu_intr_handler call peer c s =
     esp_amp_sw_intr_handler call peer c (esp_amp_platform_sw_intr_clear c s)"

definition intmtx_sw_intr_handler ::
    "('f, 'z) call \<Rightarrow> interference \<Rightarrow> ('f, 'z) amp_config \<Rightarrow> ('f, 'z) amp \<Rightarrow>
     (u32 list \<times> nat \<times> bool \<times> ('f, 'z) amp) option" where
  "intmtx_sw_intr_handler call peer c s =
     (let is_sw_intr = (if IS_MAIN_CORE c then main_sw_intr s else sub_sw_intr s);
          s1 = esp_amp_platform_sw_intr_clear c s
      in if is_sw_intr then esp_amp_sw_intr_handler call peer c s1 else Some ([], 0, False, s1))"

subsection \<open>Taking the pending bits\<close>

text \<open>All bits the peer sets at the attempts from \<open>k\<close> to before \<open>k'\<close>.\<close>

fun peer_bits :: "interference \<Rightarrow> nat \<Rightarrow> nat \<Rightarrow> u32" where
  "peer_bits peer k 0 = 0"
| "peer_bits peer k (Suc k') = (if k \<le> k' then peer_bits peer k k' OR fst (peer k') else 0)"

lemma peer_bits_self [simp]: "peer_bits peer k k = 0"
  by (cases k) simp_all

lemma peer_bits_first:
  "k < k' \<Longrightarrow> peer_bits peer k k' = fst (peer k) OR peer_bits peer (Suc k) k'"
proof (induction k')
  case (Suc k')
  then show ?case
  proof (cases "k = k'")
    case False
    with Suc have "k < k'" by simp
    with Suc show ?thesis by (simp add: or.assoc)
  qed simp
qed simp

lemma peer_bits_split:
  "k \<le> l \<Longrightarrow> l \<le> k' \<Longrightarrow> peer_bits peer k k' = peer_bits peer k l OR peer_bits peer l k'"
proof (induction k')
  case (Suc k')
  then show ?case by (cases "l = Suc k'") (auto simp: or.assoc le_Suc_eq)
qed simp

text \<open>The peer is quiet from attempt \<open>K\<close> on.\<close>

definition quiet_from :: "nat \<Rightarrow> interference \<Rightarrow> bool" where
  "quiet_from K peer \<longleftrightarrow> (\<forall>k \<ge> K. peer k = (0, False))"

lemma cas_take_sound:
  "cas_take peer st m k u0 = Some r \<Longrightarrow>
   k < snd (snd r) \<and> fst r = load32 m st OR peer_bits peer k (snd (snd r)) \<and>
   fst (snd r) = store32 m st 0"
proof (induction rule: cas_take.raw_induct [rotated, consumes 1])
  case (1 rec peer st m k u0 r)
  let ?m = "store32 m st (load32 m st OR fst (peer k))"
  show ?case
  proof (cases "load32 m st OR fst (peer k) = u0 \<and> \<not> snd (peer k)")
    case True
    with 1(2) have "r = (u0, store32 ?m st 0, k + 1)" by simp
    with True show ?thesis by simp
  next
    case False
    with 1(2) have "rec peer st ?m (k + 1) (load32 ?m st) = Some r" by (simp add: Let_def)
    from 1(1) [OF this] show ?thesis by (simp add: peer_bits_first or.assoc)
  qed
qed

lemma cas_take_quiet:
  assumes "quiet_from K peer" and "K \<le> k"
  shows "\<exists>r. cas_take peer st m k u0 = Some r"
proof -
  have "peer k = (0, False)" "peer (k + 1) = (0, False)" using assms by (simp_all add: quiet_from_def)
  then show ?thesis
    by (simp add: cas_take.simps [of peer st m k] cas_take.simps [of peer st _ "Suc k"] Let_def)
qed

lemma cas_take_returns:
  assumes "quiet_from K peer"
  shows "\<exists>r. cas_take peer st m k u0 = Some r"
proof (induction "K - k" arbitrary: k m u0)
  case 0
  then show ?case using cas_take_quiet [OF assms] by simp
next
  case (Suc n)
  then have "\<exists>r. cas_take peer st m' (k + 1) u = Some r" for m' u by simp
  then show ?case by (subst cas_take.simps) (simp add: Let_def)
qed

subsection \<open>One pass over the table\<close>

text \<open>
  The entries a pass serves, in table order, when the handlers leave the table alone: those with a
  handler whose bit is among the bits taken.
\<close>

definition served :: "u32 \<Rightarrow> 'f sw_intr_handler_tbl list \<Rightarrow> ('f \<times> ptr) list" where
  "served u tbl = [(the (handler e), arg e). e \<leftarrow> tbl, u AND BIT (intr_id e) \<noteq> 0 \<and> handler e \<noteq> None]"

fun call_all ::
    "('f, 'z) call \<Rightarrow> ('f \<times> ptr) list \<Rightarrow> bool \<times> ('f, 'z) amp \<Rightarrow> (bool \<times> ('f, 'z) amp) option" where
  "call_all call [] ys = Some ys"
| "call_all call ((h, a) # hs) (y, s) = do {
     (r, s') \<leftarrow> call h a s;
     call_all call hs (y \<or> r \<noteq> 0, s')
   }"

definition keeps_table :: "('f, 'z) call \<Rightarrow> bool" where
  "keeps_table call \<longleftrightarrow>
     (\<forall>h a s r s'. call h a s = Some (r, s') \<longrightarrow> sw_intr_handlers s' = sw_intr_handlers s)"

lemma run_handlers_served:
  assumes "keeps_table call" and "sw_intr_handlers s = tbl" and "i + n = length tbl"
  shows "run_handlers call u i n (y, s) = call_all call (served u (drop i tbl)) (y, s)"
  using assms(2,3)
proof (induction n arbitrary: i y s)
  case 0
  then show ?case by (simp add: served_def)
next
  case (Suc n)
  let ?e = "tbl ! i"
  have drop: "drop i tbl = ?e # drop (Suc i) tbl" using Suc.prems by (simp add: Cons_nth_drop_Suc)
  have ih: "run_handlers call u (Suc i) n (y', s') = call_all call (served u (drop (Suc i) tbl)) (y', s')"
    if "sw_intr_handlers s' = tbl" for y' s' using Suc that by simp
  have keep: "sw_intr_handlers s' = tbl" if "call h a s = Some (r, s')" for h a r s'
    using that assms(1) Suc.prems(1) by (auto simp: keeps_table_def)
  show ?case
  proof (cases "u AND BIT (intr_id ?e) \<noteq> 0 \<and> handler ?e \<noteq> None")
    case True
    then obtain h where "handler ?e = Some h" by auto
    with True Suc.prems(1) keep show ?thesis
      by (auto simp: Let_def drop served_def ih [unfolded served_def] split: Option.bind_splits)
  next
    case False
    with Suc.prems(1) show ?thesis
      by (auto simp: Let_def drop served_def ih [unfolded served_def] split: option.split)
  qed
qed

subsection \<open>The whole routine\<close>

text \<open>
  What the routine needs of the handlers: they return, and they leave the pending word of their own
  core and the light sleep counter as they found them.
\<close>

definition isr_safe :: "ptr \<Rightarrow> ('f, 'z) call \<Rightarrow> bool" where
  "isr_safe st call \<longleftrightarrow>
     (\<forall>h a s. \<exists>r s'. call h a s = Some (r, s') \<and> load32 (mem s') st = load32 (mem s) st \<and>
        lp_access_hp_cnt s' = lp_access_hp_cnt s \<and> pm_cnt s' = pm_cnt s)"

definition isr_frame :: "ptr \<Rightarrow> ('f, 'z) amp \<Rightarrow> ('f, 'z) amp \<Rightarrow> bool" where
  "isr_frame st s s' \<longleftrightarrow> load32 (mem s') st = load32 (mem s) st \<and>
     lp_access_hp_cnt s' = lp_access_hp_cnt s \<and> pm_cnt s' = pm_cnt s"

lemma run_handlers_safe:
  assumes "isr_safe st call"
  shows "\<exists>y' s'. run_handlers call u i n (y, s) = Some (y', s') \<and> isr_frame st s s'"
proof (induction n arbitrary: i y s)
  case (Suc n)
  show ?case
  proof (cases "u AND BIT (intr_id (sw_intr_handlers s ! i)) \<noteq> 0 \<and>
      handler (sw_intr_handlers s ! i) \<noteq> None")
    case True
    then obtain h where h: "handler (sw_intr_handlers s ! i) = Some h" by auto
    obtain r s1 where "call h (arg (sw_intr_handlers s ! i)) s = Some (r, s1)" "isr_frame st s s1"
      using assms unfolding isr_safe_def isr_frame_def by blast
    with True h Suc.IH [of "Suc i" "y \<or> r \<noteq> 0" s1] show ?thesis
      by (auto simp: Let_def isr_frame_def)
  next
    case False
    with Suc.IH [of "Suc i" y s] show ?thesis by (auto simp: Let_def split: option.split)
  qed
qed (simp add: isr_frame_def)

text \<open>Clearing the pending word does not touch the counter when the two do not overlap.\<close>

lemma pm_cnt_store32:
  "lp_access_hp_cnt s \<notin> span st 4 \<Longrightarrow> pm_cnt (s\<lparr>mem := store32 (mem s) st v\<rparr>) = pm_cnt s"
  by (simp add: pm_cnt_def load8_def store32_outside)

lemma process_returns:
  assumes "isr_safe st call" and "quiet_from K peer"
    and "load32 (mem s) st = 0" and "lp_access_hp_cnt s \<notin> span st 4"
  shows "\<exists>us k' y' s'. process call peer len st k u (y, s) = Some (us, k', y', s') \<and>
    foldr (OR) us 0 = u OR peer_bits peer k k' \<and> k \<le> k' \<and> 0 \<notin> set us \<and> isr_frame st s s'"
  using assms(3,4)
proof (induction "Suc K - k" arbitrary: k u y s rule: less_induct)
  case less
  show ?case
  proof (cases "u = 0")
    case True
    then show ?thesis by (simp add: process.simps isr_frame_def)
  next
    case False
    obtain y1 s1 where run: "run_handlers call u 0 len (y, s) = Some (y1, s1)"
      and f1: "isr_frame st s s1" using run_handlers_safe [OF assms(1)] by blast
    obtain r where take: "cas_take peer st (mem s1) k 0 = Some r"
      using cas_take_returns [OF assms(2)] by blast
    obtain u2 m2 k2 where r: "r = (u2, m2, k2)" by (cases r)
    let ?s2 = "s1\<lparr>mem := m2\<rparr>"
    from cas_take_sound [OF take] r f1 less.prems
    have k2: "k < k2" and u2: "u2 = peer_bits peer k k2" and m2: "m2 = store32 (mem s1) st 0"
      by (simp_all add: isr_frame_def)
    have z: "load32 (mem ?s2) st = 0" and lp: "lp_access_hp_cnt ?s2 \<notin> span st 4"
      and f2: "isr_frame st s1 ?s2"
      using m2 f1 less.prems pm_cnt_store32 [of s1 st 0] by (simp_all add: isr_frame_def)
    have "\<exists>us k' y' s'. process call peer len st k2 u2 (y1, ?s2) = Some (us, k', y', s') \<and>
      foldr (OR) us 0 = u2 OR peer_bits peer k2 k' \<and> k2 \<le> k' \<and> 0 \<notin> set us \<and> isr_frame st ?s2 s'"
    proof (cases "k < Suc K")
      case True
      then show ?thesis using k2 z lp by (intro less.hyps) auto
    next
      case False
      then have quiet: "\<forall>j \<ge> k. fst (peer j) = 0" using assms(2) by (simp add: quiet_from_def)
      have "peer_bits peer k n = 0" for n using quiet by (induction n) auto
      then show ?thesis using u2 by (simp add: process.simps isr_frame_def)
    qed
    then obtain us k' y' s' where rest: "process call peer len st k2 u2 (y1, ?s2) = Some (us, k', y', s')"
      "foldr (OR) us 0 = u2 OR peer_bits peer k2 k'" "k2 \<le> k'" "0 \<notin> set us" "isr_frame st ?s2 s'"
      by blast
    then have "process call peer len st k u (y, s) = Some (u # us, k', y', s')"
      using False run take r by (simp add: process.simps [of call peer len st k])
    moreover have "foldr (OR) (u # us) 0 = u OR peer_bits peer k k'"
      using rest(2,3) u2 k2 by (simp add: peer_bits_split [of k k2 k'])
    ultimately show ?thesis
      using rest(3-5) False k2 f1 f2 by (auto simp: isr_frame_def)
  qed
qed

lemma sw_intr_handlers_more: "core.more s' = core.more s \<Longrightarrow> sw_intr_handlers s' = sw_intr_handlers s"
  by (cases s; cases s') simp

lemma env_table [simp]:
  assumes "port_ok c"
  shows "sw_intr_handlers (esp_amp_env_enter_critical c s) = sw_intr_handlers s"
    "sw_intr_handlers (esp_amp_env_exit_critical c s) = sw_intr_handlers s"
  by (rule sw_intr_handlers_more, simp add: assms)+


lemma pm_frame_table: "pm_frame c s s' \<Longrightarrow> sw_intr_handlers s' = sw_intr_handlers s"
  by (rule sw_intr_handlers_more) (simp add: pm_frame_def)

text \<open>The light sleep counter may be nested once more and does not overlap the given word.\<close>

definition pm_ready :: "'z config \<Rightarrow> ptr \<Rightarrow> nat \<Rightarrow> 'z core_scheme \<Rightarrow> bool" where
  "pm_ready c a n s \<longleftrightarrow> lp_access_hp_cnt s \<notin> span a n \<and> (pm_active c \<longrightarrow> pm_cnt s \<noteq> -1)"

lemma pm_ready_enter:
  assumes "port_ok c" and "pm_ready c a n s"
  shows "agree (span a n) (mem (PM_SKIP_LIGHT_SLEEP_ENTER c s)) (mem s)"
    and "lp_access_hp_cnt (PM_SKIP_LIGHT_SLEEP_ENTER c s) \<notin> span a n"
    and "pm_active c \<Longrightarrow> pm_cnt (PM_SKIP_LIGHT_SLEEP_ENTER c s) \<noteq> 0"
proof -
  note f = pm_enter_frame [OF assms(1), of s]
  show "agree (span a n) (mem (PM_SKIP_LIGHT_SLEEP_ENTER c s)) (mem s)"
    using pm_frame_agree [OF f] assms(2) by (simp add: pm_ready_def)
  show "lp_access_hp_cnt (PM_SKIP_LIGHT_SLEEP_ENTER c s) \<notin> span a n"
    using f assms(2) by (simp add: pm_ready_def pm_frame_def)
  show "pm_cnt (PM_SKIP_LIGHT_SLEEP_ENTER c s) \<noteq> 0" if "pm_active c"
    using pm_enter_cnt [OF assms(1) that] assms(2) that
    by (simp add: pm_ready_def add_eq_0_iff2)
qed

lemma pm_exit_ok:
  assumes "port_ok c" and "pm_active c \<Longrightarrow> pm_cnt s \<noteq> 0"
  obtains s' where "PM_SKIP_LIGHT_SLEEP_EXIT c s = Some s'" "pm_frame c s s'"
proof -
  have "\<exists>s'. PM_SKIP_LIGHT_SLEEP_EXIT c s = Some s'"
    using pm_exit_cnt [OF assms(1)] assms(2) by (cases "pm_active c") auto
  then show thesis using that pm_exit_frame [OF assms(1)] by blast
qed

lemma handler_returns:
  assumes "port_ok c" and st: "st = own_sw_intr_st c" and "isr_safe st call" and "quiet_from K peer"
    and "pm_ready c st 4 s"
  shows "\<exists>us k y s'. esp_amp_sw_intr_handler call peer c s = Some (us, k, y, s') \<and>
    foldr (OR) us 0 = load32 (mem s) st OR peer_bits peer 0 k \<and> 0 \<notin> set us \<and>
    load32 (mem s') st = 0"
proof -
  let ?s1 = "PM_SKIP_LIGHT_SLEEP_ENTER c s"
  note e = pm_ready_enter [OF assms(1,5)]
  obtain r where take: "cas_take peer st (mem ?s1) 0 0 = Some r"
    using cas_take_returns [OF assms(4)] by blast
  obtain u m k where r: "r = (u, m, k)" by (cases r)
  let ?s2 = "?s1\<lparr>mem := m\<rparr>"
  from cas_take_sound [OF take] r have u: "u = load32 (mem ?s1) st OR peer_bits peer 0 k"
    and m: "m = store32 (mem ?s1) st 0" by simp_all
  have ld: "load32 (mem ?s1) st = load32 (mem s) st" by (rule load32_cong [OF e(1)])
  have cnt: "pm_cnt ?s2 = pm_cnt ?s1" unfolding m by (rule pm_cnt_store32 [OF e(2)])
  have "load32 (mem ?s2) st = 0" "lp_access_hp_cnt ?s2 \<notin> span st 4" using m e(2) by simp_all
  from process_returns [OF assms(3,4) this] obtain us k' y s3 where
    p: "process call peer (length (sw_intr_handlers ?s1)) st k u (False, ?s2) = Some (us, k', y, s3)"
    and us: "foldr (OR) us 0 = u OR peer_bits peer k k'" "k \<le> k'" "0 \<notin> set us"
    and f: "isr_frame st ?s2 s3" by blast
  have "pm_cnt s3 \<noteq> 0" if "pm_active c" using f cnt e(3) that by (simp add: isr_frame_def)
  then obtain s4 where x: "PM_SKIP_LIGHT_SLEEP_EXIT c s3 = Some s4" "pm_frame c s3 s4"
    by (rule pm_exit_ok [OF assms(1)])
  have "agree (span st 4) (mem s4) (mem s3)"
    using pm_frame_agree [OF x(2)] f e(2) by (simp add: isr_frame_def)
  then have "load32 (mem s4) st = 0" using load32_cong f m by (fastforce simp: isr_frame_def)
  moreover have "foldr (OR) us 0 = load32 (mem s) st OR peer_bits peer 0 k'"
    using us u ld by (simp add: peer_bits_split [of 0 k k'] or.assoc)
  ultimately show ?thesis
    using take r p x us(3) by (simp add: esp_amp_sw_intr_handler_def Let_def st)
qed

subsection \<open>The table as a map from interrupts to handlers\<close>

lemma served_Cons:
  "served u (e # tbl) =
     (if u AND BIT (intr_id e) \<noteq> 0 \<and> handler e \<noteq> None then [(the (handler e), arg e)] else []) @
     served u tbl"
  by (simp add: served_def)

lemma served_Nil [simp]: "served u [] = []"
  by (simp add: served_def)

lemma find_avail_slot_le: "find_avail_slot tbl \<le> length tbl"
  by (induction tbl) auto

lemma find_avail_slot_full:
  "find_avail_slot tbl = length tbl \<longleftrightarrow> (\<forall>e \<in> set tbl. handler e \<noteq> None)"
  by (induction tbl) auto

lemma served_add:
  assumes "find_avail_slot tbl \<noteq> length tbl"
  shows "\<exists>xs ys. served u tbl = xs @ ys \<and>
    served u (tbl[find_avail_slot tbl := \<lparr>intr_id = i, handler = Some h, arg = a\<rparr>]) =
      xs @ (if u AND BIT i \<noteq> 0 then [(h, a)] else []) @ ys"
  using assms
proof (induction tbl)
  case (Cons e tbl)
  show ?case
  proof (cases "handler e")
    case None
    then show ?thesis
      by - (rule exI [of _ "[]"], rule exI [of _ "served u tbl"], simp add: served_Cons)
  next
    case (Some g)
    with Cons obtain xs ys where "served u tbl = xs @ ys"
      "served u (tbl[find_avail_slot tbl := \<lparr>intr_id = i, handler = Some h, arg = a\<rparr>]) =
        xs @ (if u AND BIT i \<noteq> 0 then [(h, a)] else []) @ ys" by auto
    with Some show ?thesis
      by (intro exI [of _ "(if u AND BIT (intr_id e) \<noteq> 0 then [(g, arg e)] else []) @ xs"]
          exI [of _ ys]) (auto simp: served_Cons)
  qed
qed simp

lemma served_delete:
  "served u (map (delete_matching i h) tbl) =
   served u (filter (\<lambda>e. \<not> (intr_id e = i \<and> handler e = h)) tbl)"
  by (induction tbl) (auto simp: served_Cons delete_matching_def)

subsection \<open>Properties\<close>

lemma and_BIT_iff: "i \<le> SW_INTR_ID_MAX \<Longrightarrow> u AND BIT i \<noteq> 0 \<longleftrightarrow> bit u (unat i)"
proof -
  assume "i \<le> SW_INTR_ID_MAX"
  then have "unat i < 32" by (simp add: SW_INTR_ID_MAX_def word_le_nat_alt)
  then show ?thesis
    by (simp add: BIT_def push_bit_eq_mult and_exp_eq_0_iff_not_bit)
qed

lemma bit_BIT: "i \<le> SW_INTR_ID_MAX \<Longrightarrow> bit (BIT i) j \<longleftrightarrow> j = unat i"
proof -
  assume "i \<le> SW_INTR_ID_MAX"
  then have "unat i < 32" by (simp add: SW_INTR_ID_MAX_def word_le_nat_alt)
  then show ?thesis by (auto simp: BIT_def bit_simps)
qed

lemma bit_foldr_OR: "bit (foldr (OR) us (0::u32)) j \<longleftrightarrow> (\<exists>u \<in> set us. bit u j)"
  by (induction us) (auto simp: bit_simps)

text \<open>The two cores of one system: same memory map, opposite roles.\<close>

definition peers :: "'a config \<Rightarrow> 'b config \<Rightarrow> bool" where
  "peers c d \<longleftrightarrow> IS_MAIN_CORE c = (\<not> IS_MAIN_CORE d) \<and>
     CFG_HP_SHARED_MEM_END c = CFG_HP_SHARED_MEM_END d \<and>
     CFG_HP_SHARED_MEM_SIZE c = CFG_HP_SHARED_MEM_SIZE d"

lemma peers_st: "peers c d \<Longrightarrow> peer_sw_intr_st c = own_sw_intr_st d"
  by (auto simp: peers_def peer_sw_intr_st_def own_sw_intr_st_def ESP_AMP_SW_INTR_BIT_ADDR_def
      ESP_AMP_HP_SHARED_MEM_START_def)

text \<open>The trigger returns exactly when its assertions hold; it sets one bit and raises the line.\<close>

lemma peers_pool:
  assumes "peers c d"
  shows "pool_head c SYS_INFO_CAP_HP = pool_head d SYS_INFO_CAP_HP"
    "pool_end c SYS_INFO_CAP_HP = pool_end d SYS_INFO_CAP_HP"
    "buf_addr c SYS_INFO_CAP_HP i bs = buf_addr d SYS_INFO_CAP_HP i bs"
    "pool_ok c SYS_INFO_CAP_HP m bs \<longleftrightarrow> pool_ok d SYS_INFO_CAP_HP m bs"
  using assms
  by (simp_all add: peers_def pool_head_def pool_end_def ESP_AMP_HP_SHARED_MEM_POOL_START_def
      ESP_AMP_HP_SHARED_MEM_START_def buf_addr_def pool_ok_def)

lemma trigger_effect:
  assumes "port_ok c" and "pm_ready c (peer_sw_intr_st c) 4 s"
    and "i \<le> SW_INTR_ID_MAX" and "ESP_AMP_SW_INTR_BIT_ADDR c \<noteq> NULL"
  shows "\<exists>s'. esp_amp_sw_intr_trigger c i s = Some s' \<and>
    load32 (mem s') (peer_sw_intr_st c) = load32 (mem s) (peer_sw_intr_st c) OR BIT i"
proof -
  let ?a = "peer_sw_intr_st c" and ?s1 = "PM_SKIP_LIGHT_SLEEP_ENTER c s"
  let ?s2 = "?s1\<lparr>mem := store32 (mem ?s1) ?a (load32 (mem ?s1) ?a OR BIT i)\<rparr>"
  let ?s3 = "esp_amp_platform_sw_intr_trigger c ?s2"
  note e = pm_ready_enter [OF assms(1,2)]
  have "pm_cnt ?s3 = pm_cnt ?s1" using pm_cnt_store32 [OF e(2)] by (simp add: pm_cnt_def)
  then have "pm_active c \<Longrightarrow> pm_cnt ?s3 \<noteq> 0" using e(3) by simp
  then obtain s4 where x: "PM_SKIP_LIGHT_SLEEP_EXIT c ?s3 = Some s4" "pm_frame c ?s3 s4"
    by (rule pm_exit_ok [OF assms(1)])
  have "agree (span ?a 4) (mem s4) (mem ?s3)" using pm_frame_agree [OF x(2)] e(2) by simp
  then have "load32 (mem s4) ?a = load32 (mem s) ?a OR BIT i"
    using load32_cong [OF e(1)] by (simp add: load32_cong)
  then show ?thesis
    using assms(3,4) x(1) by (simp add: esp_amp_sw_intr_trigger_def Let_def not_less)
qed


definition demo_amp :: "'f sw_intr_handler_tbl list \<Rightarrow> 'f amp_core" where
  "demo_amp tbl = \<lparr>mem = (\<lambda>_. 0), main_sw_intr = False, sub_sw_intr = False, sw_intr_ena = True,
     mstatus = MSTATUS_MIE, s_critical_nesting = 0, s_old_mstatus = 0, bm_intr_nesting_cnt = 0,
     lp_access_hp_cnt = NULL, sw_intr_handlers = tbl\<rparr>"

lemma demo_st [simp]:
  "ESP_AMP_SW_INTR_BIT_ADDR (demo_config b) = 0x4087a560"
  "own_sw_intr_st (demo_config b) = (if b then 0x4087a560 else 0x4087a564)"
  "peer_sw_intr_st (demo_config b) = (if b then 0x4087a564 else 0x4087a560)"
  by (simp_all add: ESP_AMP_SW_INTR_BIT_ADDR_def ESP_AMP_HP_SHARED_MEM_START_def demo_config_def
      own_sw_intr_st_def peer_sw_intr_st_def ALIGN_DOWN_def)

lemma demo_peers [simp]: "peers (demo_config b) (demo_config (\<not> b))"
  by (simp add: peers_def demo_config_def)

lemma demo_pm [simp]: "\<not> pm_active (demo_config b)"
  by (simp add: pm_active_def)


text \<open>C40. One pass of the service routine calls exactly the registered handlers whose bit was taken,
  each once per table entry and in table order, when the handlers leave the table alone.\<close>

theorem sw_intr_pass_serves:
  assumes "keeps_table call"
  shows "run_handlers call u 0 (length (sw_intr_handlers s)) (y, s) =
    call_all call (served u (sw_intr_handlers s)) (y, s)"
  using run_handlers_served [OF assms refl, of 0 "length (sw_intr_handlers s)" s u y] by simp

theorem sw_intr_pass_serves_witness:
  "run_handlers (\<lambda>h a s. Some (0, s\<lparr>mem := store8 (mem s) a (load8 (mem s) a + h)\<rparr>)) 0x20
      0 2 (False, demo_amp [\<lparr>intr_id = 5, handler = Some 7, arg = 9\<rparr>, \<lparr>intr_id = 4, handler = Some 1, arg = 9\<rparr>]) =
    Some (False, demo_amp [\<lparr>intr_id = 5, handler = Some 7, arg = 9\<rparr>, \<lparr>intr_id = 4, handler = Some 1, arg = 9\<rparr>]
      \<lparr>mem := (\<lambda>_. 0)(9 := 7)\<rparr>)"
proof -
  let ?call = "\<lambda>h a (s :: u8 amp_core). Some (0 :: int, s\<lparr>mem := store8 (mem s) a (load8 (mem s) a + h)\<rparr>)"
  let ?s = "demo_amp [\<lparr>intr_id = 5, handler = Some 7, arg = 9\<rparr>, \<lparr>intr_id = 4, handler = Some 1, arg = 9\<rparr>]"
  have "keeps_table ?call" by (simp add: keeps_table_def)
  note pass = sw_intr_pass_serves [OF this, of "0x20" ?s False]
  have len: "length (sw_intr_handlers ?s) = 2" by (simp add: demo_amp_def)
  show ?thesis
    unfolding pass [unfolded len]
    by (simp add: served_Cons BIT_def demo_amp_def store8_def load8_def)
qed

text \<open>C39. Registering a handler succeeds exactly when a slot is free; it then inserts the handler into
  the sequence the service routine serves for its interrupt, keeps the order of all others, and
  changes nothing else. Removing it takes out exactly the entries with that id and handler.\<close>

theorem sw_intr_table_ops:
  assumes "port_ok c" and "i \<le> SW_INTR_ID_MAX"
  shows "(\<exists>r s'. esp_amp_sw_intr_add_handler c i (Some h) a s = Some (r, s') \<and>
      (r = 0 \<longleftrightarrow> (\<exists>e \<in> set (sw_intr_handlers s). handler e = None)) \<and>
      (r \<noteq> 0 \<longrightarrow> r = -1 \<and> sw_intr_handlers s' = sw_intr_handlers s) \<and>
      (r = 0 \<longrightarrow> (\<forall>u. \<exists>xs ys. served u (sw_intr_handlers s) = xs @ ys \<and>
         served u (sw_intr_handlers s') = xs @ (if bit u (unat i) then [(h, a)] else []) @ ys)) \<and>
      mem s' = mem s) \<and>
    (\<exists>s'. esp_amp_sw_intr_delete_handler c i (Some h) s = Some s' \<and> mem s' = mem s \<and>
      (\<forall>u. served u (sw_intr_handlers s') = served u
         (filter (\<lambda>e. \<not> (intr_id e = i \<and> handler e = Some h)) (sw_intr_handlers s))))"
    (is "?add \<and> ?del")
proof
  show ?add
    using assms served_add [of "sw_intr_handlers s" _ i h a] and_BIT_iff [OF assms(2)]
      find_avail_slot_full [of "sw_intr_handlers s"]
    by (cases "find_avail_slot (sw_intr_handlers s) = length (sw_intr_handlers s)")
      (auto simp: esp_amp_sw_intr_add_handler_def Let_def not_less)
  show ?del
    using assms by (simp add: esp_amp_sw_intr_delete_handler_def Let_def not_less served_delete)
qed

theorem sw_intr_table_ops_witness:
  "\<exists>r s'. esp_amp_sw_intr_add_handler (demo_config True) 5 (Some (1 :: nat)) 9
      (demo_amp [\<lparr>intr_id = 0, handler = None, arg = 0\<rparr>]) = Some (r, s') \<and> r = 0"
  using sw_intr_table_ops [of "demo_config True" 5 "1 :: nat" 9
      "demo_amp [\<lparr>intr_id = 0, handler = None, arg = 0\<rparr>]"]
  by (auto simp: SW_INTR_ID_MAX_def demo_amp_def)

end
