(* ===== verification/Amp_Queue.thy ===== *)
theory Amp_Queue
  imports Amp_Utils Amp_Sw_Intr
begin

text \<open>
  The virtual queue, src/components/esp_amp/src/esp_amp_queue.c and include/esp_amp_queue.h: a ring
  of buffer descriptors in shared memory over which a master core sends buffers to a remote core
  and gets them back. This theory holds the operations; theory Amp_Queue_Ring relates them to an
  abstract queue.
\<close>

subsection \<open>Error codes\<close>

datatype esp_err = ESP_OK | ESP_FAIL | ESP_ERR_NO_MEM | ESP_ERR_INVALID_ARG | ESP_ERR_NOT_FOUND
  | ESP_ERR_NOT_SUPPORTED | ESP_ERR_NOT_FINISHED | ESP_ERR_NOT_ALLOWED | ESP_CODE int

definition esp_err_of_int :: "int \<Rightarrow> esp_err" where
  "esp_err_of_int i = (if i = 0 then ESP_OK else if i = -1 then ESP_FAIL else ESP_CODE i)"

subsection \<open>The queue handle and the descriptors\<close>

record 'f esp_amp_queue =
  desc :: ptr
  qsize :: u16
  free_index :: u16
  used_index :: u16
  max_item_size :: u16
  master :: bool
  callback_fc :: "'f option"
  notify_fc :: "'f option"
  priv_data :: ptr
  free_flip_counter :: u16
  used_flip_counter :: u16

text \<open>\<open>esp_amp_queue_desc_t\<close>: \<open>addr\<close> at offset 0, \<open>len\<close> at 4, \<open>flags\<close> at 6, eight bytes in all.\<close>

definition desc_slot :: "ptr \<Rightarrow> u16 \<Rightarrow> ptr" where
  "desc_slot d i = d + 8 * ucast i"

definition desc_addr :: "ptr \<Rightarrow> memory \<Rightarrow> u16 \<Rightarrow> u32" where
  "desc_addr d m i = load32 m (desc_slot d i)"

definition desc_len :: "ptr \<Rightarrow> memory \<Rightarrow> u16 \<Rightarrow> u16" where
  "desc_len d m i = load16 m (desc_slot d i + 4)"

definition desc_flags :: "ptr \<Rightarrow> memory \<Rightarrow> u16 \<Rightarrow> u16" where
  "desc_flags d m i = load16 m (desc_slot d i + 6)"

definition set_desc_addr :: "ptr \<Rightarrow> memory \<Rightarrow> u16 \<Rightarrow> u32 \<Rightarrow> memory" where
  "set_desc_addr d m i v = store32 m (desc_slot d i) v"

definition set_desc_len :: "ptr \<Rightarrow> memory \<Rightarrow> u16 \<Rightarrow> u16 \<Rightarrow> memory" where
  "set_desc_len d m i v = store16 m (desc_slot d i + 4) v"

definition set_desc_flags :: "ptr \<Rightarrow> memory \<Rightarrow> u16 \<Rightarrow> u16 \<Rightarrow> memory" where
  "set_desc_flags d m i v = store16 m (desc_slot d i + 6) v"

definition ESP_AMP_QUEUE_AVAILABLE_MASK :: "u16 \<Rightarrow> u16" where
  "ESP_AMP_QUEUE_AVAILABLE_MASK b = push_bit 7 b"

definition ESP_AMP_QUEUE_USED_MASK :: "u16 \<Rightarrow> u16" where
  "ESP_AMP_QUEUE_USED_MASK b = push_bit 15 b"

definition ESP_AMP_QUEUE_FLAG_IS_USED :: "u16 \<Rightarrow> u16 \<Rightarrow> bool" where
  "ESP_AMP_QUEUE_FLAG_IS_USED flipCounter flag \<longleftrightarrow>
     ESP_AMP_QUEUE_AVAILABLE_MASK 1 AND flag \<noteq> ESP_AMP_QUEUE_AVAILABLE_MASK flipCounter \<and>
     ESP_AMP_QUEUE_USED_MASK 1 AND flag \<noteq> ESP_AMP_QUEUE_USED_MASK flipCounter"

definition ESP_AMP_QUEUE_FLAG_IS_AVAILABLE :: "u16 \<Rightarrow> u16 \<Rightarrow> bool" where
  "ESP_AMP_QUEUE_FLAG_IS_AVAILABLE flipCounter flag \<longleftrightarrow>
     ESP_AMP_QUEUE_AVAILABLE_MASK 1 AND flag = ESP_AMP_QUEUE_AVAILABLE_MASK flipCounter \<and>
     ESP_AMP_QUEUE_USED_MASK 1 AND flag \<noteq> ESP_AMP_QUEUE_USED_MASK flipCounter"

text \<open>\<open>counter = !counter\<close>.\<close>

definition flip :: "u16 \<Rightarrow> u16" where
  "flip x = (if x = 0 then 1 else 0)"

text \<open>\<open>q_idx == queue->size - 1\<close>, where C computes in \<open>int\<close>.\<close>

definition last_slot :: "'f esp_amp_queue \<Rightarrow> u16 \<Rightarrow> bool" where
  "last_slot queue q_idx \<longleftrightarrow> uint q_idx = uint (qsize queue) - 1"

subsection \<open>Sending and receiving\<close>

text \<open>
  Results: \<open>None\<close> when an assertion fails (light sleep counter) or a callback does not return.
\<close>

definition esp_amp_queue_send_try ::
    "('f \<Rightarrow> ptr \<Rightarrow> 'z core_scheme \<Rightarrow> (int \<times> 'z core_scheme) option) \<Rightarrow> 'z config \<Rightarrow>
     'f esp_amp_queue \<Rightarrow> ptr \<Rightarrow> u16 \<Rightarrow> 'z core_scheme \<Rightarrow>
     (esp_err \<times> 'f esp_amp_queue \<times> 'z core_scheme) option" where
  "esp_amp_queue_send_try call c queue data sz s =
     do {
       (ret, queue', s') \<leftarrow>
         (if \<not> master queue then Some (ESP_ERR_NOT_SUPPORTED, queue, s)
          else if used_index queue = free_index queue then Some (ESP_ERR_NOT_ALLOWED, queue, s)
          else if max_item_size queue < sz then Some (ESP_ERR_NO_MEM, queue, s)
          else let q_idx = used_index queue AND (qsize queue - 1);
                   flags = desc_flags (desc queue) (mem s) q_idx
               in if \<not> ESP_AMP_QUEUE_FLAG_IS_USED (used_flip_counter queue) flags
                  then Some (ESP_ERR_NOT_ALLOWED, queue, s)
                  else let m1 = set_desc_addr (desc queue) (mem s) q_idx data;
                           m2 = set_desc_len (desc queue) m1 q_idx sz;
                           q1 = queue\<lparr>used_index := used_index queue + 1\<rparr>;
                           m3 = set_desc_flags (desc queue) m2 q_idx
                                  (desc_flags (desc queue) m2 q_idx XOR ESP_AMP_QUEUE_AVAILABLE_MASK 1);
                           q2 = (if last_slot queue q_idx
                                 then q1\<lparr>used_flip_counter := flip (used_flip_counter q1)\<rparr> else q1);
                           s1 = s\<lparr>mem := m3\<rparr>
                       in (case notify_fc q2 of
                             None \<Rightarrow> Some (ESP_OK, q2, s1)
                           | Some f \<Rightarrow> do {
                               (r, s2) \<leftarrow> call f (priv_data q2) s1;
                               Some (esp_err_of_int r, q2, s2)
                             }));
       s'' \<leftarrow> PM_SKIP_LIGHT_SLEEP_EXIT c s';
       Some (ret, queue', s'')
     }"

definition esp_amp_queue_recv_try ::
    "'z config \<Rightarrow> 'f esp_amp_queue \<Rightarrow> 'z core_scheme \<Rightarrow>
     (esp_err \<times> ptr \<times> u16 \<times> 'f esp_amp_queue \<times> 'z core_scheme) option" where
  "esp_amp_queue_recv_try c queue s =
     (if master queue then Some (ESP_ERR_NOT_SUPPORTED, NULL, 0, queue, s)
      else let q_idx = free_index queue AND (qsize queue - 1);
               flags = desc_flags (desc queue) (mem s) q_idx
           in if \<not> ESP_AMP_QUEUE_FLAG_IS_AVAILABLE (free_flip_counter queue) flags
              then Some (ESP_ERR_NOT_FOUND, NULL, 0, queue, s)
              else let s1 = PM_SKIP_LIGHT_SLEEP_ENTER c s;
                       buffer = desc_addr (desc queue) (mem s1) q_idx;
                       sz = desc_len (desc queue) (mem s1) q_idx;
                       q1 = queue\<lparr>free_index := free_index queue + 1\<rparr>;
                       q2 = (if last_slot queue q_idx
                             then q1\<lparr>free_flip_counter := flip (free_flip_counter q1)\<rparr> else q1)
                   in Some (ESP_OK, buffer, sz, q2, s1))"

definition esp_amp_queue_alloc_try ::
    "'z config \<Rightarrow> 'f esp_amp_queue \<Rightarrow> u16 \<Rightarrow> 'z core_scheme \<Rightarrow>
     (esp_err \<times> ptr \<times> 'f esp_amp_queue \<times> 'z core_scheme) option" where
  "esp_amp_queue_alloc_try c queue sz s =
     (let s1 = PM_SKIP_LIGHT_SLEEP_ENTER c s;
          (ret, buffer, queue') =
            (if \<not> master queue then (ESP_ERR_NOT_SUPPORTED, NULL, queue)
             else if max_item_size queue < sz then (ESP_ERR_NO_MEM, NULL, queue)
             else let q_idx = free_index queue AND (qsize queue - 1);
                      flags = desc_flags (desc queue) (mem s1) q_idx
                  in if \<not> ESP_AMP_QUEUE_FLAG_IS_USED (free_flip_counter queue) flags
                     then (ESP_ERR_NOT_FOUND, NULL, queue)
                     else let q1 = queue\<lparr>free_index := free_index queue + 1\<rparr>
                          in (ESP_OK, desc_addr (desc queue) (mem s1) q_idx,
                              if last_slot queue q_idx
                              then q1\<lparr>free_flip_counter := flip (free_flip_counter q1)\<rparr> else q1))
      in if ret \<noteq> ESP_OK
         then do { s2 \<leftarrow> PM_SKIP_LIGHT_SLEEP_EXIT c s1; Some (ret, buffer, queue', s2) }
         else Some (ret, buffer, queue', s1))"

definition esp_amp_queue_free_try ::
    "'z config \<Rightarrow> 'f esp_amp_queue \<Rightarrow> ptr \<Rightarrow> 'z core_scheme \<Rightarrow>
     (esp_err \<times> 'f esp_amp_queue \<times> 'z core_scheme) option" where
  "esp_amp_queue_free_try c queue buffer s =
     do {
       let (ret, queue', s') =
         (if master queue then (ESP_ERR_NOT_SUPPORTED, queue, s)
          else if used_index queue = free_index queue then (ESP_ERR_NOT_ALLOWED, queue, s)
          else let q_idx = used_index queue AND (qsize queue - 1);
                   flags = desc_flags (desc queue) (mem s) q_idx
               in if \<not> ESP_AMP_QUEUE_FLAG_IS_AVAILABLE (used_flip_counter queue) flags
                  then (ESP_ERR_NOT_ALLOWED, queue, s)
                  else let m1 = set_desc_addr (desc queue) (mem s) q_idx buffer;
                           m2 = set_desc_len (desc queue) m1 q_idx (max_item_size queue);
                           q1 = queue\<lparr>used_index := used_index queue + 1\<rparr>;
                           m3 = set_desc_flags (desc queue) m2 q_idx
                                  (desc_flags (desc queue) m2 q_idx XOR ESP_AMP_QUEUE_USED_MASK 1);
                           q2 = (if last_slot queue q_idx
                                 then q1\<lparr>used_flip_counter := flip (used_flip_counter q1)\<rparr> else q1)
                       in (ESP_OK, q2, s\<lparr>mem := m3\<rparr>));
       s'' \<leftarrow> PM_SKIP_LIGHT_SLEEP_EXIT c s';
       Some (ret, queue', s'')
     }"

subsection \<open>Setting up a queue\<close>

text \<open>
  \<open>esp_amp_queue_conf_t\<close> in shared memory: \<open>queue_size\<close> at offset 0, \<open>max_queue_item_size\<close> at 2,
  \<open>queue_buffer\<close> at 4, \<open>queue_desc\<close> at 8.
\<close>

definition conf_queue_size :: "memory \<Rightarrow> ptr \<Rightarrow> u16" where
  "conf_queue_size m conf = load16 m conf"

definition conf_max_queue_item_size :: "memory \<Rightarrow> ptr \<Rightarrow> u16" where
  "conf_max_queue_item_size m conf = load16 m (conf + 2)"

definition conf_queue_desc :: "memory \<Rightarrow> ptr \<Rightarrow> ptr" where
  "conf_queue_desc m conf = load32 m (conf + 8)"

definition sizeof_queue_conf :: u32 where "sizeof_queue_conf = 12"
definition sizeof_queue_desc :: u32 where "sizeof_queue_desc = 8"

lemma u16_suc: "x < y \<Longrightarrow> unat (x + 1) = Suc (unat x)" for x y :: u16
proof -
  assume "x < y"
  then have "unat x + 1 < 65536" using unat_lt_16 [of y] unfolding word_less_nat_alt by linarith
  then show ?thesis by (simp add: unat_word_ariths)
qed

text \<open>The loop body reads \<open>queue_size\<close> and \<open>queue_desc\<close> from the configuration every time.\<close>

function init_buffer_loop :: "ptr \<Rightarrow> u16 \<Rightarrow> u16 \<Rightarrow> ptr \<Rightarrow> memory \<Rightarrow> memory" where
  "init_buffer_loop conf queue_item_size desc_idx queue_buffer m =
     (if desc_idx < conf_queue_size m conf then
        let m1 = set_desc_addr (conf_queue_desc m conf) m desc_idx queue_buffer;
            m2 = set_desc_flags (conf_queue_desc m1 conf) m1 desc_idx 0;
            m3 = set_desc_len (conf_queue_desc m2 conf) m2 desc_idx queue_item_size
        in init_buffer_loop conf queue_item_size (desc_idx + 1)
             (queue_buffer + ucast queue_item_size) m3
      else m)"
  by pat_completeness auto

termination
proof (relation "measure (\<lambda>(_, _, i, _, _). 65536 - unat i)")
  fix conf :: ptr and isz :: u16 and i :: u16 and b :: ptr and m m1 m2 m3
  assume "i < conf_queue_size m conf"
  then have "65536 - unat (i + 1) < 65536 - unat i"
    using u16_suc unat_lt_16 [of i] by (metis Suc_leI diff_less_mono2 lessI)
  then show "((conf, isz, i + 1, b + ucast isz, m3), (conf, isz, i, b, m)) \<in>
      measure (\<lambda>(_, _, i, _, _). 65536 - unat i)"
    by simp
qed simp

declare init_buffer_loop.simps [simp del]

definition esp_amp_queue_init_buffer ::
    "'z config \<Rightarrow> ptr \<Rightarrow> u16 \<Rightarrow> u16 \<Rightarrow> ptr \<Rightarrow> ptr \<Rightarrow> 'z core_scheme \<Rightarrow>
     (esp_err \<times> 'z core_scheme) option" where
  "esp_amp_queue_init_buffer c queue_conf queue_len queue_item_size queue_desc queue_buffer s =
     (let s1 = PM_SKIP_LIGHT_SLEEP_ENTER c s;
          m1 = store16 (mem s1) queue_conf queue_len;
          m2 = store16 m1 (queue_conf + 2) queue_item_size;
          m3 = store32 m2 (queue_conf + 8) queue_desc;
          m4 = store32 m3 (queue_conf + 4) queue_buffer;
          m5 = init_buffer_loop queue_conf queue_item_size 0 queue_buffer m4
      in do {
        s2 \<leftarrow> PM_SKIP_LIGHT_SLEEP_EXIT c (s1\<lparr>mem := m5\<rparr>);
        Some (ESP_OK, s2)
      })"

definition esp_amp_queue_create ::
    "'z config \<Rightarrow> ptr \<Rightarrow> 'f option \<Rightarrow> ptr \<Rightarrow> bool \<Rightarrow> 'z core_scheme \<Rightarrow>
     (esp_err \<times> 'f esp_amp_queue \<times> 'z core_scheme) option" where
  "esp_amp_queue_create c queue_conf cb_func priv is_master s =
     (let s1 = PM_SKIP_LIGHT_SLEEP_ENTER c s;
          queue = \<lparr>desc = conf_queue_desc (mem s1) queue_conf,
                   qsize = conf_queue_size (mem s1) queue_conf,
                   free_index = 0, used_index = 0,
                   max_item_size = conf_max_queue_item_size (mem s1) queue_conf,
                   master = is_master,
                   callback_fc = (if is_master then None else cb_func),
                   notify_fc = (if is_master then cb_func else None),
                   priv_data = priv, free_flip_counter = 1, used_flip_counter = 1\<rparr>
      in do {
        s2 \<leftarrow> PM_SKIP_LIGHT_SLEEP_EXIT c s1;
        Some (ESP_OK, queue, s2)
      })"

text \<open>
  Maincore places the queue in shared memory. \<open>clz\<close> is the compiler's \<open>__builtin_clz\<close>. The size
  is computed in 32 bits and cut to 16 by the call of the allocator. On error the queue handle is
  not written, which is the result \<open>None\<close> in place of the handle.
\<close>

definition esp_amp_queue_main_init ::
    "(u32 \<Rightarrow> nat) \<Rightarrow> 'z config \<Rightarrow> u16 \<Rightarrow> u16 \<Rightarrow> 'f option \<Rightarrow> ptr \<Rightarrow> bool \<Rightarrow> u16 \<Rightarrow>
     'z core_scheme \<Rightarrow> (esp_err \<times> 'f esp_amp_queue option \<times> 'z core_scheme) option" where
  "esp_amp_queue_main_init clz c queue_len queue_item_size cb_func priv is_master sysinfo_id s =
     (let aligned_queue_len = get_power_len clz queue_len;
          aligned_queue_item_size = get_aligned_size queue_item_size;
          data_size = ucast aligned_queue_item_size * ucast aligned_queue_len;
          desc_size = sizeof_queue_desc * ucast aligned_queue_len;
          set_up = (\<lambda>vq_config vq_desc vq_data_buffer s. do {
            (_, s1) \<leftarrow> esp_amp_queue_init_buffer c vq_config aligned_queue_len
                         aligned_queue_item_size vq_desc vq_data_buffer s;
            (_, queue, s2) \<leftarrow> esp_amp_queue_create c vq_config cb_func priv is_master s1;
            Some (ESP_OK, Some queue, s2)
          })
      in if aligned_queue_len = 0 \<or> aligned_queue_item_size = 0
         then Some (ESP_ERR_INVALID_ARG, None, s)
         else if AUTO_LIGHT_SLEEP_SUPPORT c \<and> is_master then do {
           (vq_hp_buffer, s1) \<leftarrow> esp_amp_sys_info_alloc c sysinfo_id
              (ucast (sizeof_queue_conf + data_size)) SYS_INFO_CAP_HP s;
           if vq_hp_buffer = NULL then Some (ESP_ERR_NO_MEM, None, s1)
           else do {
             (vq_rtc_buffer, s2) \<leftarrow> esp_amp_sys_info_alloc c sysinfo_id
                (ucast desc_size) SYS_INFO_CAP_RTC s1;
             if vq_rtc_buffer = NULL then Some (ESP_ERR_NO_MEM, None, s2)
             else set_up vq_hp_buffer vq_rtc_buffer (vq_hp_buffer + sizeof_queue_conf) s2
           }
         } else do {
           (vq_buffer, s1) \<leftarrow> esp_amp_sys_info_alloc c sysinfo_id
              (ucast (sizeof_queue_conf + desc_size + data_size)) SYS_INFO_CAP_HP s;
           if vq_buffer = NULL then Some (ESP_ERR_NO_MEM, None, s1)
           else set_up vq_buffer (vq_buffer + sizeof_queue_conf)
                  (vq_buffer + sizeof_queue_conf + desc_size) s1
         })"

definition esp_amp_queue_sub_init ::
    "'z config \<Rightarrow> 'f option \<Rightarrow> ptr \<Rightarrow> bool \<Rightarrow> u16 \<Rightarrow> 'z core_scheme \<Rightarrow>
     (esp_err \<times> 'f esp_amp_queue option \<times> 'z core_scheme) option" where
  "esp_amp_queue_sub_init c cb_func priv is_master sysinfo_id s =
     do {
       (vq_buffer, _) \<leftarrow> esp_amp_sys_info_get c sysinfo_id SYS_INFO_CAP_HP s;
       if vq_buffer = NULL then Some (ESP_ERR_NOT_FOUND, None, s)
       else do {
         (_, queue, s1) \<leftarrow> esp_amp_queue_create c vq_buffer cb_func priv is_master s;
         Some (ESP_OK, Some queue, s1)
       }
     }"

definition esp_amp_queue_intr_enable ::
    "('f, 'z) amp_config \<Rightarrow> 'f esp_amp_queue \<Rightarrow> u32 \<Rightarrow> ('f, 'z) amp \<Rightarrow>
     (esp_err \<times> ('f, 'z) amp) option" where
  "esp_amp_queue_intr_enable c queue sw_intr_id s =
     (let s1 = PM_SKIP_LIGHT_SLEEP_ENTER c s
      in do {
        (ret, s2) \<leftarrow>
          (if master queue then Some (ESP_ERR_NOT_SUPPORTED, s1)
           else do {
             (r, s') \<leftarrow> esp_amp_sw_intr_add_handler c sw_intr_id (callback_fc queue)
                           (priv_data queue) s1;
             Some (if r \<noteq> 0 then ESP_ERR_NOT_FINISHED else ESP_OK, s')
           });
        s3 \<leftarrow> PM_SKIP_LIGHT_SLEEP_EXIT c s2;
        Some (ret, s3)
      })"

end
