(* ===== verification/Amp_Queue_Ring.thy ===== *)
theory Amp_Queue_Ring
  imports Amp_Queue
begin

text \<open>
  The ring of descriptors refines an abstract queue: a FIFO of free buffers, a FIFO of messages, and
  the numbers of buffers each side holds. Ghost counters of the four operations link the two; the
  sixteen bit indices, the flip counters and the two flag bits of each slot are functions of them.
\<close>

subsection \<open>The descriptor array\<close>

text \<open>What the ring needs of its storage: independent fields, for any two slot numbers.\<close>

locale desc_array =
  fixes rd_addr :: "'m \<Rightarrow> u16 \<Rightarrow> u32" and rd_len rd_flags :: "'m \<Rightarrow> u16 \<Rightarrow> u16"
    and wr_addr :: "'m \<Rightarrow> u16 \<Rightarrow> u32 \<Rightarrow> 'm" and wr_len wr_flags :: "'m \<Rightarrow> u16 \<Rightarrow> u16 \<Rightarrow> 'm"
  assumes addr_laws: "rd_addr (wr_addr m i a) j = (if i = j then a else rd_addr m j)"
      "rd_addr (wr_len m i v) j = rd_addr m j" "rd_addr (wr_flags m i v) j = rd_addr m j"
    and len_laws: "rd_len (wr_addr m i a) j = rd_len m j"
      "rd_len (wr_len m i v) j = (if i = j then v else rd_len m j)"
      "rd_len (wr_flags m i v) j = rd_len m j"
    and flags_laws: "rd_flags (wr_addr m i a) j = rd_flags m j"
      "rd_flags (wr_len m i v) j = rd_flags m j"
      "rd_flags (wr_flags m i v) j = (if i = j then v else rd_flags m j)"
begin

text \<open>Publishing a slot: address and length first, then the toggled flag.\<close>

lemma publish_read:
  defines "pub m i a v fl \<equiv> wr_flags (wr_len (wr_addr m i a) i v) i
    (rd_flags (wr_len (wr_addr m i a) i v) i XOR fl)"
  shows "rd_addr (pub m i a v fl) j = (if i = j then a else rd_addr m j)"
    "rd_len (pub m i a v fl) j = (if i = j then v else rd_len m j)"
    "rd_flags (pub m i a v fl) j = (if i = j then rd_flags m j XOR fl else rd_flags m j)"
  by (simp_all add: pub_def addr_laws len_laws flags_laws)

end

lemma slot_disj:
  assumes "i \<noteq> j"
  shows "disj (desc_slot d i) 8 (desc_slot d j) 8"
proof -
  have far: "8 \<le> unat (8 * ucast y - 8 * ucast x :: u32)" if "x \<noteq> y" for x y :: u16
  proof -
    have "unat (8 * ucast z :: u32) = 8 * unat z" for z :: u16
    proof -
      have "8 * unat z < 4294967296" using unat_lt_16 [of z] by linarith
      then show ?thesis by (simp add: unat_word_ariths)
    qed
    moreover have "unat x \<noteq> unat y" using that by (simp add: word_unat_eq_iff)
    ultimately show ?thesis
      using unat_lt_16 [of x] unfolding unat_sub_if' by (simp del: unat_lt_16) linarith
  qed
  show ?thesis using far [OF assms] far [OF assms [symmetric]] by (simp add: disj_def desc_slot_def)
qed

lemma slot_fields_disj:
  assumes "i \<noteq> j" and "o1 + n \<le> 8" and "o2 + k \<le> 8" and "0 < n" and "0 < k"
  shows "disj (desc_slot d i + word_of_nat o1) n (desc_slot d j + word_of_nat o2) k"
  using slot_disj [OF assms(1), of d] assms(2-)
  by (elim disj_sub) (simp_all add: unat_of_nat32)

lemmas slot_fields_disj_simps [simp] =
  slot_fields_disj [where ?o1.0 = 0 and ?o2.0 = 0, simplified]
  slot_fields_disj [where ?o1.0 = 0 and ?o2.0 = 4, simplified]
  slot_fields_disj [where ?o1.0 = 0 and ?o2.0 = 6, simplified]
  slot_fields_disj [where ?o1.0 = 4 and ?o2.0 = 0, simplified]
  slot_fields_disj [where ?o1.0 = 4 and ?o2.0 = 4, simplified]
  slot_fields_disj [where ?o1.0 = 4 and ?o2.0 = 6, simplified]
  slot_fields_disj [where ?o1.0 = 6 and ?o2.0 = 0, simplified]
  slot_fields_disj [where ?o1.0 = 6 and ?o2.0 = 4, simplified]
  slot_fields_disj [where ?o1.0 = 6 and ?o2.0 = 6, simplified]

lemma slot_same_disj [simp]:
  "disj (desc_slot d i) 4 (desc_slot d i + 4) 2" "disj (desc_slot d i) 4 (desc_slot d i + 6) 2"
  "disj (desc_slot d i + 4) 2 (desc_slot d i) 4" "disj (desc_slot d i + 6) 2 (desc_slot d i) 4"
  "disj (desc_slot d i + 4) 2 (desc_slot d i + 6) 2" "disj (desc_slot d i + 6) 2 (desc_slot d i + 4) 2"
  by (simp_all add: disj_def)

lemmas desc_defs = desc_addr_def desc_len_def desc_flags_def set_desc_addr_def set_desc_len_def
  set_desc_flags_def

interpretation dr: desc_array "desc_addr d" "desc_len d" "desc_flags d"
    "set_desc_addr d" "set_desc_len d" "set_desc_flags d" for d
proof
  fix m and i j :: u16 and a :: u32 and v :: u16
  have "i = j \<or> j \<noteq> i" by blast
  then show "desc_addr d (set_desc_addr d m i a) j = (if i = j then a else desc_addr d m j)"
    "desc_addr d (set_desc_len d m i v) j = desc_addr d m j"
    "desc_addr d (set_desc_flags d m i v) j = desc_addr d m j"
    "desc_len d (set_desc_addr d m i a) j = desc_len d m j"
    "desc_len d (set_desc_len d m i v) j = (if i = j then v else desc_len d m j)"
    "desc_len d (set_desc_flags d m i v) j = desc_len d m j"
    "desc_flags d (set_desc_addr d m i a) j = desc_flags d m j"
    "desc_flags d (set_desc_len d m i v) j = desc_flags d m j"
    "desc_flags d (set_desc_flags d m i v) j = (if i = j then v else desc_flags d m j)"
    by (elim disjE; simp add: desc_defs mem_simps)+
qed

subsection \<open>Counting operations per slot\<close>

text \<open>Of the first \<open>u\<close> operations, those that hit slot \<open>i\<close> of a ring of \<open>n\<close> slots.\<close>

definition hits :: "nat \<Rightarrow> nat \<Rightarrow> nat \<Rightarrow> nat" where
  "hits n u i = (u + n - 1 - i) div n"

lemma hits_zero: "i < n \<Longrightarrow> hits n 0 i = 0"
  by (simp add: hits_def)

lemma div_eqI: "x = r * n + y \<Longrightarrow> y < n \<Longrightarrow> x div n = r" for n :: nat
  by simp

lemma div_mod_cases:
  assumes "0 < (n :: nat)"
  obtains r i where "f = r * n + i" "i < n" "f div n = r" "f mod n = i"
proof
  show "f = f div n * n + f mod n" "f mod n < n" using assms by simp_all
qed simp_all

lemma hits_behind:
  assumes "0 < n" and "u \<le> f" and "f \<le> u + n"
  shows "hits n u (f mod n) = (if f = u + n then f div n - 1 else f div n)"
proof -
  from assms(1) obtain r i where f: "f = r * n + i" and i: "i < n" "f mod n = i" and r: "f div n = r"
    by (rule div_mod_cases)
  show ?thesis
  proof (cases "f = u + n")
    case True
    then obtain r' where r': "r = Suc r'" using f i(1) by (cases r) auto
    then have "u + n - 1 - i = r' * n + (n - 1)" using True f i(1) by simp
    then have "(u + n - 1 - i) div n = r'" by (rule div_eqI) (use assms(1) in simp)
    then show ?thesis using True r r' i by (simp add: hits_def)
  next
    case False
    have "u + n - 1 - i = r * n + (n - 1 - (f - u))" "n - 1 - (f - u) < n"
      using f i(1) False assms by linarith+
    then have "(u + n - 1 - i) div n = r" by (rule div_eqI)
    then show ?thesis using False r i by (simp add: hits_def)
  qed
qed

lemma hits_ahead:
  assumes "0 < n" and "f \<le> u" and "u \<le> f + n"
  shows "hits n u (f mod n) = f div n + (if f < u then 1 else 0)"
proof -
  from assms(1) obtain r i where f: "f = r * n + i" and i: "i < n" "f mod n = i" and r: "f div n = r"
    by (rule div_mod_cases)
  show ?thesis
  proof (cases "f < u")
    case True
    have "u + n - 1 - i = Suc r * n + (u - f - 1)" "u - f - 1 < n"
      using f i(1) True assms by auto
    then have "(u + n - 1 - i) div n = Suc r" by (rule div_eqI)
    then show ?thesis using True r i by (simp add: hits_def)
  next
    case False
    then have "u + n - 1 - i = r * n + (n - 1)" using f i(1) assms(2) by linarith
    then have "(u + n - 1 - i) div n = r" by (rule div_eqI) (use assms(1) in simp)
    then show ?thesis using False r i by (simp add: hits_def)
  qed
qed

lemma hits_Suc:
  assumes "i < n"
  shows "hits n (Suc u) i = hits n u i + (if u mod n = i then 1 else 0)"
proof -
  have "0 < n" using assms by simp
  then obtain r j where u: "u = r * n + j" and j: "j < n" "u mod n = j" by (rule div_mod_cases)
  have hits: "hits n x i = k" if "x + n - 1 - i = k * n + y" "y < n" for x k y
    unfolding hits_def using that by (rule div_eqI)
  consider "j < i" | "j = i" | "i < j" by linarith
  then show ?thesis
  proof cases
    case 1
    then have "hits n u i = r" using u assms by (intro hits [of _ _ "j + n - 1 - i"]) auto
    moreover have "hits n (Suc u) i = r" using u assms 1 by (intro hits [of _ _ "j + n - i"]) auto
    ultimately show ?thesis using 1 j by simp
  next
    case 2
    then have "hits n u i = r" using u assms by (intro hits [of _ _ "n - 1"]) auto
    moreover have "hits n (Suc u) i = Suc r" using u assms 2 by (intro hits [of _ _ 0]) auto
    ultimately show ?thesis using 2 j by simp
  next
    case 3
    then have "hits n u i = Suc r" using u assms j by (intro hits [of _ _ "j - 1 - i"]) auto
    moreover have "hits n (Suc u) i = Suc r" using u assms 3 j by (intro hits [of _ _ "j - i"]) auto
    ultimately show ?thesis using 3 j by simp
  qed
qed

subsection \<open>Indices, flip counters and flags\<close>

definition ring_size :: "nat \<Rightarrow> bool" where
  "ring_size n \<longleftrightarrow> (\<exists>k \<le> 15. n = 2 ^ k)"

definition flip_at :: "nat \<Rightarrow> nat \<Rightarrow> u16" where
  "flip_at n u = (if even (u div n) then 1 else 0)"

lemma ring_size_bounds:
  assumes "ring_size n"
  shows "0 < n" "n \<le> 32768"
proof -
  from assms obtain k where k: "k \<le> 15" "n = 2 ^ k" by (auto simp: ring_size_def)
  then have "n \<le> 2 ^ 15" using power_increasing [of k 15 "2::nat"] by simp
  then show "0 < n" "n \<le> 32768" using k by simp_all
qed

lemma ring_index:
  assumes "ring_size n"
  shows "(word_of_nat u :: u16) AND (word_of_nat n - 1) = word_of_nat (u mod n)"
proof -
  from assms obtain k where "k \<le> 15" "n = 2 ^ k" by (auto simp: ring_size_def)
  then have "(word_of_nat n - 1 :: u16) = mask k" by (simp add: mask_eq_exp_minus_1)
  then have "(word_of_nat u :: u16) AND (word_of_nat n - 1) = take_bit k (word_of_nat u)"
    by (simp add: take_bit_eq_mask)
  also have "\<dots> = word_of_nat (u mod n)" using \<open>n = 2 ^ k\<close>
    by (simp only: take_bit_of_nat) (simp add: take_bit_eq_mod)
  finally show ?thesis .
qed

lemma uint_of_nat16: "x < 65536 \<Longrightarrow> uint (word_of_nat x :: u16) = int x"
  using arg_cong [OF unat_of_nat16, of x int] by simp

lemma ring_last_slot:
  assumes "ring_size n" and "qsize q = word_of_nat n"
  shows "last_slot q (word_of_nat (u mod n)) \<longleftrightarrow> Suc (u mod n) = n"
proof -
  note n = ring_size_bounds [OF assms(1)]
  have "u mod n < n" using n by simp
  then have "uint (word_of_nat (u mod n) :: u16) = int (u mod n)" "uint (word_of_nat n :: u16) = int n"
    using n by (intro uint_of_nat16; linarith)+
  then show ?thesis using n assms(2) by (auto simp: last_slot_def)
qed

lemma flip_at_Suc:
  "0 < n \<Longrightarrow> flip_at n (Suc u) = (if Suc (u mod n) = n then flip (flip_at n u) else flip_at n u)"
  by (simp add: flip_at_def flip_def div_Suc mod_Suc)

lemma ring_index_eq:
  assumes "ring_size n" and "u \<le> f" and "f \<le> u + n"
  shows "(word_of_nat u :: u16) = word_of_nat f \<longleftrightarrow> u = f"
proof
  assume "(word_of_nat u :: u16) = word_of_nat f"
  then have "f mod 65536 = u mod 65536" by (simp add: word_of_nat_eq_iff take_bit_eq_mod)
  then have "65536 dvd f - u" using assms(2) by (simp add: mod_eq_dvd_iff_nat)
  moreover have "f - u < 65536" using assms(3) ring_size_bounds [OF assms(1)] by linarith
  ultimately have "f - u = 0" by (metis dvd_imp_le not_gr0 not_le)
  then show "u = f" using assms(2) by simp
qed simp

lemma mask_bit:
  assumes "k < 16"
  shows "push_bit k 1 AND fl = push_bit k (if b then 1 else 0 :: u16) \<longleftrightarrow> (bit fl k \<longleftrightarrow> b)"
proof -
  have "push_bit k 1 AND fl = (if bit fl k then push_bit k 1 else 0)"
    by (rule bit_word_eqI) (auto simp: bit_simps)
  moreover have "push_bit k (1 :: u16) \<noteq> 0"
  proof
    assume "push_bit k (1 :: u16) = 0"
    then have "bit (push_bit k (1 :: u16)) k = bit (0 :: u16) k" by (rule arg_cong)
    then show False using assms by (simp add: bit_simps)
  qed
  ultimately show ?thesis by auto
qed

lemma mask_tests:
  "ESP_AMP_QUEUE_AVAILABLE_MASK 1 AND fl = ESP_AMP_QUEUE_AVAILABLE_MASK (flip_at n u) \<longleftrightarrow>
     (bit fl 7 \<longleftrightarrow> even (u div n))"
  "ESP_AMP_QUEUE_USED_MASK 1 AND fl = ESP_AMP_QUEUE_USED_MASK (flip_at n u) \<longleftrightarrow>
     (bit fl 15 \<longleftrightarrow> even (u div n))"
  unfolding ESP_AMP_QUEUE_AVAILABLE_MASK_def ESP_AMP_QUEUE_USED_MASK_def flip_at_def
  by (rule mask_bit, simp)+

lemma flag_tests:
  "ESP_AMP_QUEUE_FLAG_IS_USED (flip_at n u) fl \<longleftrightarrow>
     (bit fl 7 \<longleftrightarrow> odd (u div n)) \<and> (bit fl 15 \<longleftrightarrow> odd (u div n))"
  "ESP_AMP_QUEUE_FLAG_IS_AVAILABLE (flip_at n u) fl \<longleftrightarrow>
     (bit fl 7 \<longleftrightarrow> even (u div n)) \<and> (bit fl 15 \<longleftrightarrow> odd (u div n))"
  by (auto simp: ESP_AMP_QUEUE_FLAG_IS_USED_def ESP_AMP_QUEUE_FLAG_IS_AVAILABLE_def mask_tests)

lemma toggle_bits:
  "bit (fl XOR ESP_AMP_QUEUE_AVAILABLE_MASK 1) 7 \<longleftrightarrow> \<not> bit fl 7"
  "bit (fl XOR ESP_AMP_QUEUE_AVAILABLE_MASK 1) 15 \<longleftrightarrow> bit fl 15"
  "bit (fl XOR ESP_AMP_QUEUE_USED_MASK 1) 7 \<longleftrightarrow> bit fl 7"
  "bit (fl XOR ESP_AMP_QUEUE_USED_MASK 1) 15 \<longleftrightarrow> \<not> bit fl 15"
  by (simp_all add: ESP_AMP_QUEUE_AVAILABLE_MASK_def ESP_AMP_QUEUE_USED_MASK_def bit_simps)

subsection \<open>The invariant\<close>

text \<open>How often each operation has succeeded so far.\<close>

record ghost =
  allocs :: nat
  sends :: nat
  recvs :: nat
  frees :: nat

definition ring_counts :: "nat \<Rightarrow> ghost \<Rightarrow> bool" where
  "ring_counts n g \<longleftrightarrow> frees g \<le> recvs g \<and> recvs g \<le> sends g \<and> sends g \<le> allocs g \<and>
     allocs g \<le> frees g + n"

definition side :: "nat \<Rightarrow> ptr \<Rightarrow> u16 \<Rightarrow> nat \<Rightarrow> nat \<Rightarrow> 'f esp_amp_queue \<Rightarrow> bool" where
  "side n d mx f u q \<longleftrightarrow> desc q = d \<and> qsize q = word_of_nat n \<and> max_item_size q = mx \<and>
     free_index q = word_of_nat f \<and> used_index q = word_of_nat u \<and>
     free_flip_counter q = flip_at n f \<and> used_flip_counter q = flip_at n u"

definition ring_flags :: "nat \<Rightarrow> ptr \<Rightarrow> memory \<Rightarrow> ghost \<Rightarrow> bool" where
  "ring_flags n d m g \<longleftrightarrow> (\<forall>i < n.
     (bit (desc_flags d m (word_of_nat i)) 7 \<longleftrightarrow> odd (hits n (sends g) i)) \<and>
     (bit (desc_flags d m (word_of_nat i)) 15 \<longleftrightarrow> odd (hits n (frees g) i)))"

definition queue_ok ::
    "nat \<Rightarrow> ptr \<Rightarrow> u16 \<Rightarrow> ghost \<Rightarrow> 'f esp_amp_queue \<Rightarrow> 'g esp_amp_queue \<Rightarrow> memory \<Rightarrow> bool" where
  "queue_ok n d mx g qm qr m \<longleftrightarrow> ring_size n \<and> ring_counts n g \<and>
     side n d mx (allocs g) (sends g) qm \<and> master qm \<and>
     side n d mx (recvs g) (frees g) qr \<and> \<not> master qr \<and> ring_flags n d m g"

text \<open>The four decisions of the code, in terms of the counters.\<close>

lemma flag_decisions:
  assumes "ring_size n" and "ring_counts n g" and "ring_flags n d m g"
  shows "ESP_AMP_QUEUE_FLAG_IS_USED (flip_at n (allocs g))
        (desc_flags d m (word_of_nat (allocs g mod n))) \<longleftrightarrow> allocs g < frees g + n" (is ?alloc)
    and "sends g < allocs g \<Longrightarrow> ESP_AMP_QUEUE_FLAG_IS_USED (flip_at n (sends g))
        (desc_flags d m (word_of_nat (sends g mod n)))"
    and "ESP_AMP_QUEUE_FLAG_IS_AVAILABLE (flip_at n (recvs g))
        (desc_flags d m (word_of_nat (recvs g mod n))) \<longleftrightarrow> recvs g < sends g" (is ?recv)
    and "frees g < recvs g \<Longrightarrow> ESP_AMP_QUEUE_FLAG_IS_AVAILABLE (flip_at n (frees g))
        (desc_flags d m (word_of_nat (frees g mod n)))"
proof -
  have n: "0 < n" using ring_size_bounds [OF assms(1)] by simp
  note c = assms(2) [unfolded ring_counts_def]
  have bits: "bit (desc_flags d m (word_of_nat (u mod n))) 7 \<longleftrightarrow> odd (hits n (sends g) (u mod n))"
    "bit (desc_flags d m (word_of_nat (u mod n))) 15 \<longleftrightarrow> odd (hits n (frees g) (u mod n))" for u
    using assms(3) n by (simp_all add: ring_flags_def)
  note behind = hits_behind [OF n] and ahead = hits_ahead [OF n]
  have pos: "0 < f div n" if "f = u + n" for f u using that n by (simp add: div_greater_zero_iff)
  show ?alloc
    using c pos [of "allocs g" "frees g"]
      behind [of "sends g" "allocs g"] behind [of "frees g" "allocs g"]
    by (auto simp: flag_tests bits)
  show "ESP_AMP_QUEUE_FLAG_IS_USED (flip_at n (sends g)) (desc_flags d m (word_of_nat (sends g mod n)))"
    if "sends g < allocs g"
    using c that behind [of "sends g" "sends g"] behind [of "frees g" "sends g"]
    by (auto simp: flag_tests bits n)
  show ?recv
    using c ahead [of "recvs g" "sends g"] behind [of "frees g" "recvs g"]
    by (auto simp: flag_tests bits)
  show "ESP_AMP_QUEUE_FLAG_IS_AVAILABLE (flip_at n (frees g)) (desc_flags d m (word_of_nat (frees g mod n)))"
    if "frees g < recvs g"
    using c that ahead [of "frees g" "sends g"] behind [of "frees g" "frees g"]
    by (auto simp: flag_tests bits n)
qed

subsection \<open>The abstract queue\<close>

text \<open>
  \<open>free_bufs\<close>: buffers the master can allocate, next one first. \<open>msgs\<close>: sent and not yet received,
  oldest first. \<open>held_m\<close> and \<open>held_r\<close>: how many buffers master and remote hold.
\<close>

record aqueue =
  free_bufs :: "ptr list"
  msgs :: "(ptr \<times> u16) list"
  held_m :: nat
  held_r :: nat

fun aq_alloc :: "u16 \<Rightarrow> u16 \<Rightarrow> aqueue \<Rightarrow> esp_err \<times> ptr \<times> aqueue" where
  "aq_alloc mx sz a =
     (if mx < sz then (ESP_ERR_NO_MEM, NULL, a)
      else case free_bufs a of
             [] \<Rightarrow> (ESP_ERR_NOT_FOUND, NULL, a)
           | b # bs \<Rightarrow> (ESP_OK, b, a\<lparr>free_bufs := bs, held_m := Suc (held_m a)\<rparr>))"

fun aq_send :: "u16 \<Rightarrow> ptr \<Rightarrow> u16 \<Rightarrow> aqueue \<Rightarrow> esp_err \<times> aqueue" where
  "aq_send mx data sz a =
     (if held_m a = 0 then (ESP_ERR_NOT_ALLOWED, a)
      else if mx < sz then (ESP_ERR_NO_MEM, a)
      else (ESP_OK, a\<lparr>msgs := msgs a @ [(data, sz)], held_m := held_m a - 1\<rparr>))"

fun aq_recv :: "aqueue \<Rightarrow> esp_err \<times> ptr \<times> u16 \<times> aqueue" where
  "aq_recv a =
     (case msgs a of
        [] \<Rightarrow> (ESP_ERR_NOT_FOUND, NULL, 0, a)
      | (b, sz) # ms \<Rightarrow> (ESP_OK, b, sz, a\<lparr>msgs := ms, held_r := Suc (held_r a)\<rparr>))"

fun aq_free :: "ptr \<Rightarrow> aqueue \<Rightarrow> esp_err \<times> aqueue" where
  "aq_free b a =
     (if held_r a = 0 then (ESP_ERR_NOT_ALLOWED, a)
      else (ESP_OK, a\<lparr>free_bufs := free_bufs a @ [b], held_r := held_r a - 1\<rparr>))"

definition slot_addr :: "nat \<Rightarrow> ptr \<Rightarrow> memory \<Rightarrow> nat \<Rightarrow> ptr" where
  "slot_addr n d m x = desc_addr d m (word_of_nat (x mod n))"

definition slot_len :: "nat \<Rightarrow> ptr \<Rightarrow> memory \<Rightarrow> nat \<Rightarrow> u16" where
  "slot_len n d m x = desc_len d m (word_of_nat (x mod n))"

definition abs_queue :: "nat \<Rightarrow> ptr \<Rightarrow> memory \<Rightarrow> ghost \<Rightarrow> aqueue" where
  "abs_queue n d m g =
     \<lparr>free_bufs = map (slot_addr n d m) [allocs g..<frees g + n],
      msgs = map (\<lambda>x. (slot_addr n d m x, slot_len n d m x)) [recvs g..<sends g],
      held_m = allocs g - sends g, held_r = recvs g - frees g\<rparr>"

text \<open>The refinement relation.\<close>

definition refines ::
    "nat \<Rightarrow> ptr \<Rightarrow> u16 \<Rightarrow> aqueue \<Rightarrow> 'f esp_amp_queue \<Rightarrow> 'g esp_amp_queue \<Rightarrow> memory \<Rightarrow> bool" where
  "refines n d mx a qm qr m \<longleftrightarrow> (\<exists>g. queue_ok n d mx g qm qr m \<and> a = abs_queue n d m g)"

definition ring :: "ptr \<Rightarrow> nat \<Rightarrow> ptr set" where
  "ring d n = span d (8 * n)"

lemma desc_fields_cong:
  assumes "agree (ring d n) m m'" and "i < n" and "n \<le> 32768"
  shows "desc_addr d m (word_of_nat i) = desc_addr d m' (word_of_nat i)"
    "desc_len d m (word_of_nat i) = desc_len d m' (word_of_nat i)"
    "desc_flags d m (word_of_nat i) = desc_flags d m' (word_of_nat i)"
proof -
  have "unat (8 * ucast (word_of_nat i :: u16) :: u32) = 8 * i"
    using assms(2,3) by (simp add: unat_word_ariths unat_of_nat16)
  then have off: "unat (desc_slot d (word_of_nat i) - d) = 8 * i" by (simp add: desc_slot_def)
  have sub: "span (desc_slot d (word_of_nat i) + word_of_nat o1) k \<subseteq> ring d n"
    if "o1 + k \<le> 8" for o1 k
  proof -
    have "span (desc_slot d (word_of_nat i) + word_of_nat o1) k \<subseteq> span (desc_slot d (word_of_nat i)) 8"
      using that by (intro span_sub) (simp add: unat_of_nat32)
    also have "\<dots> \<subseteq> ring d n" unfolding ring_def using off assms(2) by (intro span_sub) simp
    finally show ?thesis .
  qed
  show "desc_addr d m (word_of_nat i) = desc_addr d m' (word_of_nat i)"
    "desc_len d m (word_of_nat i) = desc_len d m' (word_of_nat i)"
    "desc_flags d m (word_of_nat i) = desc_flags d m' (word_of_nat i)"
    unfolding desc_addr_def desc_len_def desc_flags_def
    using sub [of 0 4] sub [of 4 2] sub [of 6 2] assms(1)
    by (auto intro!: load32_cong load16_cong elim: agree_mono)
qed

lemma refines_cong:
  assumes "refines n d mx a qm qr m" and "agree (ring d n) m m'"
  shows "refines n d mx a qm qr m'"
proof -
  from assms(1) obtain g where ok: "queue_ok n d mx g qm qr m" and a: "a = abs_queue n d m g"
    by (auto simp: refines_def)
  then have n: "ring_size n" by (simp add: queue_ok_def)
  note b = ring_size_bounds [OF n]
  note c = desc_fields_cong [OF assms(2) _ b(2)]
  have "ring_flags n d m' g" using ok c(3) by (simp add: queue_ok_def ring_flags_def)
  moreover have "slot_addr n d m' x = slot_addr n d m x" "slot_len n d m' x = slot_len n d m x" for x
    using c(1,2) [of "x mod n"] b(1) by (simp_all add: slot_addr_def slot_len_def)
  ultimately show ?thesis
    using ok a by (auto simp: refines_def queue_ok_def abs_queue_def intro!: exI [of _ g])
qed

lemma of_nat16_inj:
  "i < 65536 \<Longrightarrow> j < 65536 \<Longrightarrow> (word_of_nat i :: u16) = word_of_nat j \<longleftrightarrow> i = j"
  by (metis unat_of_nat16)

lemma slot_neq:
  assumes "ring_size n" and "x < y" and "y < x + n"
  shows "(word_of_nat (x mod n) :: u16) \<noteq> word_of_nat (y mod n)"
proof
  note b = ring_size_bounds [OF assms(1)]
  assume "(word_of_nat (x mod n) :: u16) = word_of_nat (y mod n)"
  then have "unat (word_of_nat (x mod n) :: u16) = unat (word_of_nat (y mod n) :: u16)" by simp
  moreover have "x mod n < 65536" "y mod n < 65536"
    using b mod_less_divisor [of n x] mod_less_divisor [of n y] by linarith+
  ultimately have "y mod n = x mod n" by (simp add: unat_of_nat16)
  then have "n dvd y - x" using assms(2) by (simp add: mod_eq_dvd_iff_nat)
  then show False using assms(2,3) by (auto dest!: dvd_imp_le)
qed

subsection \<open>One step of the ring\<close>

lemma side_advance_free:
  assumes "ring_size n" and "side n d mx f u q" and "i = word_of_nat (f mod n)"
  shows "side n d mx (Suc f) u
    (if last_slot q i
     then q\<lparr>free_index := free_index q + 1, free_flip_counter := flip (free_flip_counter q)\<rparr>
     else q\<lparr>free_index := free_index q + 1\<rparr>)"
  using assms ring_last_slot [OF assms(1), of q f] ring_size_bounds(1) [OF assms(1)]
  by (auto simp: side_def flip_at_Suc)

lemma side_advance_used:
  assumes "ring_size n" and "side n d mx f u q" and "i = word_of_nat (u mod n)"
  shows "side n d mx f (Suc u)
    (if last_slot q i
     then q\<lparr>used_index := used_index q + 1, used_flip_counter := flip (used_flip_counter q)\<rparr>
     else q\<lparr>used_index := used_index q + 1\<rparr>)"
  using assms ring_last_slot [OF assms(1), of q u] ring_size_bounds(1) [OF assms(1)]
  by (auto simp: side_def flip_at_Suc)

text \<open>The memory after publishing slot \<open>x mod n\<close>.\<close>

definition published :: "ptr \<Rightarrow> memory \<Rightarrow> u16 \<Rightarrow> u32 \<Rightarrow> u16 \<Rightarrow> u16 \<Rightarrow> memory" where
  "published d m i a v fl =
     set_desc_flags d (set_desc_len d (set_desc_addr d m i a) i v) i
       (desc_flags d (set_desc_len d (set_desc_addr d m i a) i v) i XOR fl)"

lemmas published_read = dr.publish_read [folded published_def]

lemma published_slots:
  assumes "ring_size n" and "i = word_of_nat (x mod n)"
  shows "slot_addr n d (published d m i a v fl) x = a" "slot_len n d (published d m i a v fl) x = v"
    and "x < y \<and> y < x + n \<or> y < x \<and> x < y + n \<Longrightarrow>
      slot_addr n d (published d m i a v fl) y = slot_addr n d m y \<and>
      slot_len n d (published d m i a v fl) y = slot_len n d m y"
  using slot_neq [OF assms(1), of x y] slot_neq [OF assms(1), of y x] assms(2)
  by (auto simp: slot_addr_def slot_len_def published_read)

lemma published_map:
  assumes "ring_size n" and "i = word_of_nat (x mod n)"
    and "\<And>y. l \<le> y \<Longrightarrow> y < h \<Longrightarrow> x < y \<and> y < x + n \<or> y < x \<and> x < y + n"
  shows "map (slot_addr n d (published d m i a v fl)) [l..<h] = map (slot_addr n d m) [l..<h]"
    and "map (\<lambda>y. (slot_addr n d (published d m i a v fl) y, slot_len n d (published d m i a v fl) y)) [l..<h]
      = map (\<lambda>y. (slot_addr n d m y, slot_len n d m y)) [l..<h]"
  using published_slots(3) [OF assms(1,2)] assms(3) by auto

lemma published_flags:
  assumes "ring_size n" and "j < n" and "x mod n = i"
  shows "desc_flags d (published d m (word_of_nat i) a v fl) (word_of_nat j) =
    (if i = j then desc_flags d m (word_of_nat j) XOR fl else desc_flags d m (word_of_nat j))"
proof -
  have "i < n" using assms ring_size_bounds by auto
  then have "(word_of_nat i :: u16) = word_of_nat j \<longleftrightarrow> i = j"
    using assms(2) ring_size_bounds(2) [OF assms(1)] by (intro of_nat16_inj) linarith+
  then show ?thesis by (simp add: published_read)
qed

lemma ring_flags_send:
  assumes "ring_size n" and "ring_flags n d m g" and "i = word_of_nat (sends g mod n)"
  shows "ring_flags n d (published d m i a v (ESP_AMP_QUEUE_AVAILABLE_MASK 1)) (g\<lparr>sends := Suc (sends g)\<rparr>)"
  using assms published_flags [OF assms(1) _ refl, of _ d m "sends g"]
  by (auto simp: ring_flags_def hits_Suc toggle_bits)

lemma ring_flags_free:
  assumes "ring_size n" and "ring_flags n d m g" and "i = word_of_nat (frees g mod n)"
  shows "ring_flags n d (published d m i a v (ESP_AMP_QUEUE_USED_MASK 1)) (g\<lparr>frees := Suc (frees g)\<rparr>)"
  using assms published_flags [OF assms(1) _ refl, of _ d m "frees g"]
  by (auto simp: ring_flags_def hits_Suc toggle_bits)

lemma abs_alloc:
  assumes "ring_counts n g" and "allocs g < frees g + n"
  shows "abs_queue n d m (g\<lparr>allocs := Suc (allocs g)\<rparr>) =
      (abs_queue n d m g)\<lparr>free_bufs := tl (free_bufs (abs_queue n d m g)),
                          held_m := Suc (held_m (abs_queue n d m g))\<rparr>"
    and "free_bufs (abs_queue n d m g) =
      slot_addr n d m (allocs g) # tl (free_bufs (abs_queue n d m g))"
  using assms by (simp_all add: abs_queue_def ring_counts_def upt_conv_Cons Suc_diff_le)

lemma abs_recv:
  assumes "ring_counts n g" and "recvs g < sends g"
  shows "abs_queue n d m (g\<lparr>recvs := Suc (recvs g)\<rparr>) =
      (abs_queue n d m g)\<lparr>msgs := tl (msgs (abs_queue n d m g)),
                          held_r := Suc (held_r (abs_queue n d m g))\<rparr>"
    and "msgs (abs_queue n d m g) =
      (slot_addr n d m (recvs g), slot_len n d m (recvs g)) # tl (msgs (abs_queue n d m g))"
  using assms by (simp_all add: abs_queue_def ring_counts_def upt_conv_Cons Suc_diff_le)

lemma abs_send:
  assumes "ring_size n" "ring_counts n g" "sends g < allocs g" "i = word_of_nat (sends g mod n)"
  shows "abs_queue n d (published d m i a v fl) (g\<lparr>sends := Suc (sends g)\<rparr>) =
    (abs_queue n d m g)\<lparr>msgs := msgs (abs_queue n d m g) @ [(a, v)],
                        held_m := held_m (abs_queue n d m g) - 1\<rparr>"
proof -
  note c = assms(2) [unfolded ring_counts_def]
  have "map (slot_addr n d (published d m i a v fl)) [allocs g..<frees g + n] =
      map (slot_addr n d m) [allocs g..<frees g + n]"
    using c assms(3) by (intro published_map(1) [OF assms(1,4)]) linarith
  moreover have "map (\<lambda>y. (slot_addr n d (published d m i a v fl) y, slot_len n d (published d m i a v fl) y))
        [recvs g..<sends g] = map (\<lambda>y. (slot_addr n d m y, slot_len n d m y)) [recvs g..<sends g]"
    using c assms(3) by (intro published_map(2) [OF assms(1,4)]) linarith
  ultimately show ?thesis
    using c published_slots(1,2) [OF assms(1,4)] by (simp add: abs_queue_def)
qed

lemma abs_free:
  assumes "ring_size n" "ring_counts n g" "frees g < recvs g" "i = word_of_nat (frees g mod n)"
  shows "abs_queue n d (published d m i a v fl) (g\<lparr>frees := Suc (frees g)\<rparr>) =
    (abs_queue n d m g)\<lparr>free_bufs := free_bufs (abs_queue n d m g) @ [a],
                        held_r := held_r (abs_queue n d m g) - 1\<rparr>"
proof -
  note c = assms(2) [unfolded ring_counts_def]
  have i: "i = word_of_nat ((frees g + n) mod n)" using assms(4) by simp
  have "map (slot_addr n d (published d m i a v fl)) [allocs g..<frees g + n] =
      map (slot_addr n d m) [allocs g..<frees g + n]"
    using c assms(3) by (intro published_map(1) [OF assms(1,4)]) linarith
  moreover have "map (\<lambda>y. (slot_addr n d (published d m i a v fl) y, slot_len n d (published d m i a v fl) y))
        [recvs g..<sends g] = map (\<lambda>y. (slot_addr n d m y, slot_len n d m y)) [recvs g..<sends g]"
    using c assms(3) by (intro published_map(2) [OF assms(1,4)]) linarith
  ultimately show ?thesis
    using c published_slots(1) [OF assms(1) i] by (simp add: abs_queue_def)
qed

subsection \<open>Refinement of the operations\<close>

lemma ring_pm:
  assumes "port_ok c" and "pm_ready c d (8 * n) s"
  shows "agree (ring d n) (mem s) (mem (PM_SKIP_LIGHT_SLEEP_ENTER c s))"
  using pm_ready_enter(1) [OF assms] by (simp add: agree_def ring_def)

lemma alloc_refines:
  assumes ref: "refines n d mx a qm qr (mem s)" and "port_ok c" and "pm_ready c d (8 * n) s"
  shows "\<exists>ret b qm' s' a'. esp_amp_queue_alloc_try c qm sz s = Some (ret, b, qm', s') \<and>
    aq_alloc mx sz a = (ret, b, a') \<and> refines n d mx a' qm' qr (mem s')"
proof -
  let ?s1 = "PM_SKIP_LIGHT_SLEEP_ENTER c s"
  have "refines n d mx a qm qr (mem ?s1)" using refines_cong [OF ref ring_pm [OF assms(2,3)]] .
  then obtain g where ok: "queue_ok n d mx g qm qr (mem ?s1)" and a: "a = abs_queue n d (mem ?s1) g"
    by (auto simp: refines_def)
  then have n: "ring_size n" and c: "ring_counts n g" and f: "ring_flags n d (mem ?s1) g"
    and m: "side n d mx (allocs g) (sends g) qm" "master qm" by (simp_all add: queue_ok_def)
  let ?i = "word_of_nat (allocs g mod n) :: u16"
  have idx: "free_index qm AND (qsize qm - 1) = ?i" using ring_index [OF n] m(1) by (simp add: side_def)
  note dec = flag_decisions(1) [OF n c f]
  have q: "desc qm = d" "max_item_size qm = mx" "free_flip_counter qm = flip_at n (allocs g)"
    using m by (simp_all add: side_def)
  obtain s2 where x: "PM_SKIP_LIGHT_SLEEP_EXIT c ?s1 = Some s2" "pm_frame c ?s1 s2"
    using pm_exit_ok [OF assms(2)] pm_ready_enter(3) [OF assms(2,3)] by metis
  have "agree (ring d n) (mem ?s1) (mem s2)"
    using pm_ready_enter(2) [OF assms(2,3)]
    by (intro agree_sym [OF pm_frame_agree [OF x(2)]]) (simp add: ring_def)
  then have undone: "refines n d mx a qm qr (mem s2)"
    using refines_cong [of n d mx a qm qr "mem ?s1"] ok a by (auto simp: refines_def)
  show ?thesis
  proof (cases "mx < sz \<or> \<not> allocs g < frees g + n")
    case True
    then have "free_bufs a = []" if "\<not> mx < sz" using that a c by (simp add: abs_queue_def ring_counts_def)
    then show ?thesis
      using True x undone m(2) by (auto simp: esp_amp_queue_alloc_try_def Let_def idx q dec)
  next
    case False
    then have fits: "\<not> mx < sz" and lt: "allocs g < frees g + n" by simp_all
    let ?g = "g\<lparr>allocs := Suc (allocs g)\<rparr>"
    let ?q = "if last_slot qm ?i
      then qm\<lparr>free_index := free_index qm + 1, free_flip_counter := flip (free_flip_counter qm)\<rparr>
      else qm\<lparr>free_index := free_index qm + 1\<rparr>"
    have "queue_ok n d mx ?g ?q qr (mem ?s1)"
      using ok side_advance_free [OF n m(1) refl] lt
      by (auto simp: queue_ok_def ring_counts_def ring_flags_def)
    moreover have "esp_amp_queue_alloc_try c qm sz s = Some (ESP_OK, slot_addr n d (mem ?s1) (allocs g), ?q, ?s1)"
      using fits lt m(2) by (simp add: esp_amp_queue_alloc_try_def Let_def idx q dec slot_addr_def)
    ultimately show ?thesis
      using abs_alloc [OF c lt, of d "mem ?s1"] fits a
      by (auto simp: refines_def split: list.split)
  qed
qed

lemma recv_refines:
  assumes ref: "refines n d mx a qm qr (mem s)" and "port_ok c" and "pm_ready c d (8 * n) s"
  shows "\<exists>ret b sz qr' s' a'. esp_amp_queue_recv_try c qr s = Some (ret, b, sz, qr', s') \<and>
    aq_recv a = (ret, b, sz, a') \<and> refines n d mx a' qm qr' (mem s')"
proof -
  let ?s1 = "PM_SKIP_LIGHT_SLEEP_ENTER c s"
  obtain g where ok: "queue_ok n d mx g qm qr (mem s)" and a: "a = abs_queue n d (mem s) g"
    using ref by (auto simp: refines_def)
  then have n: "ring_size n" and c: "ring_counts n g" and f: "ring_flags n d (mem s) g"
    and m: "side n d mx (recvs g) (frees g) qr" "\<not> master qr" by (simp_all add: queue_ok_def)
  let ?i = "word_of_nat (recvs g mod n) :: u16"
  have idx: "free_index qr AND (qsize qr - 1) = ?i" using ring_index [OF n] m(1) by (simp add: side_def)
  note dec = flag_decisions(3) [OF n c f]
  have q: "desc qr = d" "free_flip_counter qr = flip_at n (recvs g)" using m by (simp_all add: side_def)
  show ?thesis
  proof (cases "recvs g < sends g")
    case False
    then have "msgs a = []" using a by (simp add: abs_queue_def)
    then show ?thesis
      using False ref m(2) by (auto simp: esp_amp_queue_recv_try_def Let_def idx q dec)
  next
    case True
    let ?g = "g\<lparr>recvs := Suc (recvs g)\<rparr>"
    let ?q = "if last_slot qr ?i
      then qr\<lparr>free_index := free_index qr + 1, free_flip_counter := flip (free_flip_counter qr)\<rparr>
      else qr\<lparr>free_index := free_index qr + 1\<rparr>"
    have "queue_ok n d mx ?g qm ?q (mem s)"
      using ok side_advance_free [OF n m(1) refl] True
      by (auto simp: queue_ok_def ring_counts_def ring_flags_def)
    then have "refines n d mx (abs_queue n d (mem s) ?g) qm ?q (mem s)" by (auto simp: refines_def)
    then have ref': "refines n d mx (abs_queue n d (mem s) ?g) qm ?q (mem ?s1)"
      by (rule refines_cong) (rule ring_pm [OF assms(2,3)])
    have "recvs g mod n < n" using ring_size_bounds [OF n] by simp
    note same = desc_fields_cong [OF ring_pm [OF assms(2,3)] this ring_size_bounds(2) [OF n]]
    have "esp_amp_queue_recv_try c qr s = Some (ESP_OK, slot_addr n d (mem s) (recvs g),
        slot_len n d (mem s) (recvs g), ?q, ?s1)"
      using True m(2) same(1,2)
      by (simp add: esp_amp_queue_recv_try_def Let_def idx q dec slot_addr_def slot_len_def)
    then show ?thesis
      using abs_recv [OF c True, of d "mem s"] a ref' by (auto split: list.split)
  qed
qed

text \<open>
  Sending releases the light sleep lock that \<open>alloc\<close> took, freeing the one that \<open>recv\<close> took: the
  counter is above zero and outside the ring.
\<close>

definition pm_held :: "'z config \<Rightarrow> ptr \<Rightarrow> nat \<Rightarrow> 'z core_scheme \<Rightarrow> bool" where
  "pm_held c d n s \<longleftrightarrow> lp_access_hp_cnt s \<notin> ring d n \<and> (pm_active c \<longrightarrow> pm_cnt s \<noteq> 0)"

text \<open>The notify callback returns and leaves the ring and the counter alone.\<close>

definition notify_ok ::
    "('f \<Rightarrow> ptr \<Rightarrow> 'z core_scheme \<Rightarrow> (int \<times> 'z core_scheme) option) \<Rightarrow> 'z config \<Rightarrow> ptr \<Rightarrow> nat \<Rightarrow>
     'f esp_amp_queue \<Rightarrow> bool" where
  "notify_ok call c d n q \<longleftrightarrow> (\<forall>f s. notify_fc q = Some f \<longrightarrow>
     (\<exists>r s'. call f (priv_data q) s = Some (r, s') \<and> agree (ring d n) (mem s) (mem s') \<and>
        lp_access_hp_cnt s' = lp_access_hp_cnt s \<and> (pm_active c \<longrightarrow> pm_cnt s' = pm_cnt s)))"

lemma published_outside:
  assumes "x \<notin> ring d n" and "i < n" and "n \<le> 32768"
  shows "published d m (word_of_nat i) a v fl x = m x"
proof -
  let ?d = "desc_slot d (word_of_nat i)"
  have "unat (8 * ucast (word_of_nat i :: u16) :: u32) = 8 * i"
    using assms(2,3) by (simp add: unat_word_ariths unat_of_nat16)
  then have "span ?d 8 \<subseteq> ring d n"
    unfolding ring_def using assms(2) by (intro span_sub) (simp add: desc_slot_def)
  then have "x \<notin> span ?d 4" "x \<notin> span (?d + 4) 2" "x \<notin> span (?d + 6) 2"
    using assms(1) span_sub [of ?d ?d 4 8] span_sub [of "?d + 4" ?d 2 8] span_sub [of "?d + 6" ?d 2 8]
    by auto
  then show ?thesis
    by (simp add: published_def set_desc_addr_def set_desc_len_def set_desc_flags_def
        store16_outside store32_outside)
qed

lemma pm_held_exit:
  assumes "port_ok c" and "pm_held c d n s"
  obtains s' where "PM_SKIP_LIGHT_SLEEP_EXIT c s = Some s'" "agree (ring d n) (mem s) (mem s')"
proof -
  have "pm_active c \<Longrightarrow> pm_cnt s \<noteq> 0" using assms(2) by (simp add: pm_held_def)
  then obtain s' where x: "PM_SKIP_LIGHT_SLEEP_EXIT c s = Some s'" "pm_frame c s s'"
    by (rule pm_exit_ok [OF assms(1)])
  have "agree (ring d n) (mem s) (mem s')"
    using assms(2) by (intro agree_sym [OF pm_frame_agree [OF x(2)]]) (simp add: pm_held_def)
  then show thesis using that x by blast
qed

lemma pm_held_published:
  assumes "pm_held c d n s" and "i < n" and "n \<le> 32768"
  shows "pm_held c d n (s\<lparr>mem := published d (mem s) (word_of_nat i) a v fl\<rparr>)"
  using assms published_outside [of "lp_access_hp_cnt s" d n i]
  by (simp add: pm_held_def pm_cnt_def load8_def)

lemma free_refines:
  assumes ref: "refines n d mx a qm qr (mem s)" and "port_ok c" and "pm_held c d n s"
  shows "\<exists>ret qr' s' a'. esp_amp_queue_free_try c qr b s = Some (ret, qr', s') \<and>
    aq_free b a = (ret, a') \<and> refines n d mx a' qm qr' (mem s')"
proof -
  obtain g where ok: "queue_ok n d mx g qm qr (mem s)" and a: "a = abs_queue n d (mem s) g"
    using ref by (auto simp: refines_def)
  then have n: "ring_size n" and c: "ring_counts n g" and f: "ring_flags n d (mem s) g"
    and m: "side n d mx (recvs g) (frees g) qr" "\<not> master qr" by (simp_all add: queue_ok_def)
  let ?i = "word_of_nat (frees g mod n) :: u16"
  have idx: "used_index qr AND (qsize qr - 1) = ?i" using ring_index [OF n] m(1) by (simp add: side_def)
  have eq: "used_index qr = free_index qr \<longleftrightarrow> frees g = recvs g"
    using ring_index_eq [OF n, of "frees g" "recvs g"] c m(1) by (simp add: side_def ring_counts_def)
  have q: "desc qr = d" "max_item_size qr = mx" "used_flip_counter qr = flip_at n (frees g)"
    using m by (simp_all add: side_def)
  show ?thesis
  proof (cases "frees g = recvs g")
    case True
    obtain s' where x: "PM_SKIP_LIGHT_SLEEP_EXIT c s = Some s'" "agree (ring d n) (mem s) (mem s')"
      by (rule pm_held_exit [OF assms(2,3)])
    have "held_r a = 0" using True a by (simp add: abs_queue_def)
    then show ?thesis
      using True x refines_cong [OF ref x(2)] m(2) by (auto simp: esp_amp_queue_free_try_def eq)
  next
    case False
    then have lt: "frees g < recvs g" using c by (simp add: ring_counts_def)
    let ?m = "published d (mem s) ?i b mx (ESP_AMP_QUEUE_USED_MASK 1)"
    let ?g = "g\<lparr>frees := Suc (frees g)\<rparr>"
    let ?q = "if last_slot qr ?i
      then qr\<lparr>used_index := used_index qr + 1, used_flip_counter := flip (used_flip_counter qr)\<rparr>
      else qr\<lparr>used_index := used_index qr + 1\<rparr>"
    have "queue_ok n d mx ?g qm ?q ?m"
      using ok side_advance_used [OF n m(1) refl] lt ring_flags_free [OF n f refl]
      by (auto simp: queue_ok_def ring_counts_def)
    then have ref': "refines n d mx (abs_queue n d ?m ?g) qm ?q ?m" by (auto simp: refines_def)
    have held: "pm_held c d n (s\<lparr>mem := ?m\<rparr>)"
      using ring_size_bounds [OF n] assms(3) by (intro pm_held_published) simp_all
    obtain s' where x: "PM_SKIP_LIGHT_SLEEP_EXIT c (s\<lparr>mem := ?m\<rparr>) = Some s'" "agree (ring d n) ?m (mem s')"
      using pm_held_exit [OF assms(2) held] by (metis core.select_convs(1) core.surjective core.update_convs(1))
    have "esp_amp_queue_free_try c qr b s = Some (ESP_OK, ?q, s')"
      using False flag_decisions(4) [OF n c f lt] m(2) x(1)
      by (simp add: esp_amp_queue_free_try_def Let_def eq idx q published_def)
    moreover have "held_r a \<noteq> 0" using a lt by (simp add: abs_queue_def)
    then have "aq_free b a = (ESP_OK, abs_queue n d ?m ?g)"
      unfolding abs_free [OF n c lt refl] a by simp
    ultimately show ?thesis using refines_cong [OF ref' x(2)] by blast
  qed
qed

lemma notify_runs:
  assumes "notify_ok call c d n q" and "pm_held c d n s"
  obtains r s1 where "(case notify_fc q of None \<Rightarrow> Some (ESP_OK, s)
      | Some h \<Rightarrow> map_option (\<lambda>(r, s2). (esp_err_of_int r, s2)) (call h (priv_data q) s)) = Some (r, s1)"
    "agree (ring d n) (mem s) (mem s1)" "pm_held c d n s1" "notify_fc q = None \<longrightarrow> r = ESP_OK"
proof (cases "notify_fc q")
  case None
  then show thesis using that assms(2) by simp
next
  case (Some h)
  then obtain r s1 where "call h (priv_data q) s = Some (r, s1)" "agree (ring d n) (mem s) (mem s1)"
    "lp_access_hp_cnt s1 = lp_access_hp_cnt s" "pm_active c \<longrightarrow> pm_cnt s1 = pm_cnt s"
    using assms(1) [unfolded notify_ok_def, rule_format, of h s] by auto
  then show thesis using that Some assms(2) by (simp add: pm_held_def)
qed

lemma send_refines:
  assumes ref: "refines n d mx a qm qr (mem s)" and "port_ok c" and "pm_held c d n s"
    and "notify_ok call c d n qm"
  shows "\<exists>ret qm' s' a' r. esp_amp_queue_send_try call c qm b sz s = Some (ret, qm', s') \<and>
    aq_send mx b sz a = (r, a') \<and> refines n d mx a' qm' qr (mem s') \<and>
    (r = ESP_OK \<and> notify_fc qm \<noteq> None \<or> ret = r)"
proof -
  obtain g where ok: "queue_ok n d mx g qm qr (mem s)" and a: "a = abs_queue n d (mem s) g"
    using ref by (auto simp: refines_def)
  then have n: "ring_size n" and c: "ring_counts n g" and f: "ring_flags n d (mem s) g"
    and m: "side n d mx (allocs g) (sends g) qm" "master qm" by (simp_all add: queue_ok_def)
  let ?i = "word_of_nat (sends g mod n) :: u16"
  have idx: "used_index qm AND (qsize qm - 1) = ?i" using ring_index [OF n] m(1) by (simp add: side_def)
  have eq: "used_index qm = free_index qm \<longleftrightarrow> sends g = allocs g"
    using ring_index_eq [OF n, of "sends g" "allocs g"] c m(1) by (simp add: side_def ring_counts_def)
  have q: "desc qm = d" "max_item_size qm = mx" "used_flip_counter qm = flip_at n (sends g)"
    using m by (simp_all add: side_def)
  show ?thesis
  proof (cases "sends g = allocs g \<or> mx < sz")
    case True
    obtain s' where x: "PM_SKIP_LIGHT_SLEEP_EXIT c s = Some s'" "agree (ring d n) (mem s) (mem s')"
      by (rule pm_held_exit [OF assms(2,3)])
    have "held_m a = 0 \<longleftrightarrow> sends g = allocs g" using c a by (auto simp: abs_queue_def ring_counts_def)
    then show ?thesis
      using True x refines_cong [OF ref x(2)] m(2) by (auto simp: esp_amp_queue_send_try_def eq q)
  next
    case False
    then have lt: "sends g < allocs g" and fits: "\<not> mx < sz" using c by (simp_all add: ring_counts_def)
    let ?m = "published d (mem s) ?i b sz (ESP_AMP_QUEUE_AVAILABLE_MASK 1)"
    let ?s = "s\<lparr>mem := ?m\<rparr>"
    let ?g = "g\<lparr>sends := Suc (sends g)\<rparr>"
    let ?q = "if last_slot qm ?i
      then qm\<lparr>used_index := used_index qm + 1, used_flip_counter := flip (used_flip_counter qm)\<rparr>
      else qm\<lparr>used_index := used_index qm + 1\<rparr>"
    have "queue_ok n d mx ?g ?q qr ?m"
      using ok side_advance_used [OF n m(1) refl] lt ring_flags_send [OF n f refl]
      by (auto simp: queue_ok_def ring_counts_def)
    then have ref': "refines n d mx (abs_queue n d ?m ?g) ?q qr ?m" by (auto simp: refines_def)
    have held: "pm_held c d n ?s"
      using ring_size_bounds [OF n] assms(3) by (intro pm_held_published) simp_all
    obtain r s1 where nf: "(case notify_fc qm of None \<Rightarrow> Some (ESP_OK, ?s)
        | Some h \<Rightarrow> map_option (\<lambda>(r, s2). (esp_err_of_int r, s2)) (call h (priv_data qm) ?s)) = Some (r, s1)"
      and keep: "agree (ring d n) ?m (mem s1)" "pm_held c d n s1" "notify_fc qm = None \<longrightarrow> r = ESP_OK"
      by (rule notify_runs [OF assms(4) held]) simp
    obtain s2 where x: "PM_SKIP_LIGHT_SLEEP_EXIT c s1 = Some s2" "agree (ring d n) (mem s1) (mem s2)"
      by (rule pm_held_exit [OF assms(2) keep(2)])
    have "notify_fc ?q = notify_fc qm" "priv_data ?q = priv_data qm" by simp_all
    then have "esp_amp_queue_send_try call c qm b sz s = Some (r, ?q, s2)"
      using False fits flag_decisions(2) [OF n c f lt] m(2) x(1) nf
      by (auto simp: esp_amp_queue_send_try_def Let_def eq idx q published_def split: option.splits)
    moreover have "held_m a \<noteq> 0" using a lt by (simp add: abs_queue_def)
    then have "aq_send mx b sz a = (ESP_OK, abs_queue n d ?m ?g)"
      unfolding abs_send [OF n c lt refl] a using fits by simp
    ultimately show ?thesis
      using refines_cong [OF ref' agree_trans [OF keep(1) x(2)]] keep(3) by blast
  qed
qed

end
