(* ===== verification/Amp_Queue_Life.thy ===== *)
theory Amp_Queue_Life
  imports Amp_Arith64 Amp_Queue_Ring "HOL-Library.Multiset"
begin

text \<open>
  The life of a virtual queue: filling the descriptors makes the handles of both cores refine the abstract
  queue with all buffers free, and any interleaving of the operations of master and remote keeps every
  buffer in exactly one place. Which memory a queue is laid out in is the topic of Amp_Queue_Setup.
\<close>

subsection \<open>Filling the descriptors\<close>

lemma conf_cong:
  assumes "agree (span conf 12) m m'"
  shows "conf_queue_size m conf = conf_queue_size m' conf"
    "conf_max_queue_item_size m conf = conf_max_queue_item_size m' conf"
    "conf_queue_desc m conf = conf_queue_desc m' conf"
  unfolding conf_queue_size_def conf_max_queue_item_size_def conf_queue_desc_def
  using assms span_sub [of conf conf 2 12] span_sub [of "conf + 2" conf 2 12]
    span_sub [of "conf + 8" conf 4 12]
  by (auto intro!: load16_cong load32_cong elim: agree_mono)

lemma slot_span:
  assumes "i < n" and "n \<le> 32768"
  shows "span (desc_slot d (word_of_nat i)) 8 \<subseteq> ring d n"
proof -
  have "unat (8 * ucast (word_of_nat i :: u16) :: u32) = 8 * i"
    using assms by (simp add: unat_word_ariths unat_of_nat16)
  then show ?thesis
    unfolding ring_def using assms(1) by (intro span_sub) (simp add: desc_slot_def)
qed

lemma set_desc_frame:
  assumes "span (desc_slot d i) 8 \<inter> A = {}"
  shows "agree A (set_desc_addr d m i v) m" "agree A (set_desc_len d m i w) m"
    "agree A (set_desc_flags d m i w) m"
proof -
  have "span (desc_slot d i) 4 \<inter> A = {}" "span (desc_slot d i + 4) 2 \<inter> A = {}"
    "span (desc_slot d i + 6) 2 \<inter> A = {}"
    by (rule span_Un_sub [OF _ assms], simp)+
  then show "agree A (set_desc_addr d m i v) m" "agree A (set_desc_len d m i w) m"
    "agree A (set_desc_flags d m i w) m"
    unfolding set_desc_addr_def set_desc_len_def set_desc_flags_def
    by (simp_all add: agree_store32 agree_store16)
qed

text \<open>One iteration, when configuration and descriptors do not overlap.\<close>

definition filled :: "ptr \<Rightarrow> memory \<Rightarrow> u16 \<Rightarrow> ptr \<Rightarrow> u16 \<Rightarrow> memory" where
  "filled d m i b isz = set_desc_len d (set_desc_flags d (set_desc_addr d m i b) i 0) i isz"

lemma filled_read:
  "desc_addr d (filled d m i b isz) j = (if i = j then b else desc_addr d m j)"
  "desc_len d (filled d m i b isz) j = (if i = j then isz else desc_len d m j)"
  "desc_flags d (filled d m i b isz) j = (if i = j then 0 else desc_flags d m j)"
  by (simp_all add: filled_def dr.addr_laws dr.len_laws dr.flags_laws)

lemma filled_frame: "span (desc_slot d i) 8 \<inter> A = {} \<Longrightarrow> agree A (filled d m i b isz) m"
  unfolding filled_def
  by (rule agree_trans [OF set_desc_frame(2) agree_trans [OF set_desc_frame(3) set_desc_frame(1)]])

lemma init_loop_step:
  assumes "span conf 12 \<inter> ring d n = {}" and "conf_queue_desc m conf = d"
    and "conf_queue_size m conf = word_of_nat n" and "n \<le> 32768" and "j < n"
  shows "init_buffer_loop conf isz (word_of_nat j) b m =
      init_buffer_loop conf isz (word_of_nat (Suc j)) (b + ucast isz) (filled d m (word_of_nat j) b isz)"
    and "agree (- ring d n) (filled d m (word_of_nat j) b isz) m"
proof -
  let ?i = "word_of_nat j :: u16"
  let ?m1 = "set_desc_addr d m ?i b"
  let ?m2 = "set_desc_flags d ?m1 ?i 0"
  have sub: "span (desc_slot d ?i) 8 \<subseteq> ring d n" using slot_span [OF assms(5,4)] .
  then have out: "span (desc_slot d ?i) 8 \<inter> - ring d n = {}" by blast
  then show "agree (- ring d n) (filled d m ?i b isz) m" by (rule filled_frame)
  have conf: "span (desc_slot d ?i) 8 \<inter> span conf 12 = {}" using sub assms(1) by blast
  have d1: "conf_queue_desc ?m1 conf = d"
    using conf_cong(3) [OF set_desc_frame(1) [OF conf]] assms(2) by simp
  have d2: "conf_queue_desc ?m2 conf = d"
    using conf_cong(3) [OF set_desc_frame(3) [OF conf]] d1 by simp
  have "?i < conf_queue_size m conf"
    using assms(3-5) by (simp add: word_less_nat_alt unat_of_nat16)
  then show "init_buffer_loop conf isz ?i b m =
      init_buffer_loop conf isz (word_of_nat (Suc j)) (b + ucast isz) (filled d m ?i b isz)"
    by (simp add: init_buffer_loop.simps [of conf isz ?i] Let_def assms(2) d1 d2 filled_def add.commute)
qed

definition fills :: "ptr \<Rightarrow> nat \<Rightarrow> nat \<Rightarrow> ptr \<Rightarrow> u16 \<Rightarrow> memory \<Rightarrow> memory \<Rightarrow> bool" where
  "fills d n j b isz m m' \<longleftrightarrow> agree (- ring d n) m' m \<and> (\<forall>i < n.
     desc_addr d m' (word_of_nat i) =
       (if j \<le> i then b + word_of_nat (i * unat isz) else desc_addr d m (word_of_nat i)) \<and>
     desc_len d m' (word_of_nat i) = (if j \<le> i then isz else desc_len d m (word_of_nat i)) \<and>
     desc_flags d m' (word_of_nat i) = (if j \<le> i then 0 else desc_flags d m (word_of_nat i)))"

lemma init_loop_fills:
  assumes "span conf 12 \<inter> ring d n = {}" and "conf_queue_desc m conf = d"
    and "conf_queue_size m conf = word_of_nat n" and "n \<le> 32768" and "j \<le> n"
  shows "fills d n j b isz m
    (init_buffer_loop conf isz (word_of_nat j) (b + word_of_nat (j * unat isz)) m)"
  using assms(2-5)
proof (induction "n - j" arbitrary: j m)
  case 0
  then have "j = n" by simp
  with 0 show ?case by (simp add: fills_def init_buffer_loop.simps [of conf isz "word_of_nat n"])
next
  case (Suc x)
  then have j: "j < n" by simp
  let ?b = "b + word_of_nat (j * unat isz)"
  let ?m = "filled d m (word_of_nat j) ?b isz"
  note step = init_loop_step [OF assms(1) Suc.prems(1,2,3) j, where isz = isz and b = ?b]
  have "agree (span conf 12) ?m m" by (rule agree_mono [OF step(2)]) (use assms(1) in blast)
  from conf_cong [OF this] Suc.prems
  have c: "conf_queue_desc ?m conf = d" "conf_queue_size ?m conf = word_of_nat n" by simp_all
  have b: "?b + ucast isz = b + word_of_nat (Suc j * unat isz)" by (simp add: algebra_simps)
  have inj: "(word_of_nat j :: u16) = word_of_nat i \<longleftrightarrow> j = i" if "i < n" for i
    using that j Suc.prems(3) by (intro of_nat16_inj) linarith+
  define m' where "m' = init_buffer_loop conf isz (word_of_nat (Suc j)) (b + word_of_nat (Suc j * unat isz)) ?m"
  have ih: "fills d n (Suc j) b isz ?m m'"
    unfolding m'_def using Suc.hyps(2) Suc.prems(3) j c by (intro Suc.hyps(1)) simp_all
  have read: "desc_addr d ?m (word_of_nat i) = (if j = i then b + word_of_nat (i * unat isz) else desc_addr d m (word_of_nat i))"
    "desc_len d ?m (word_of_nat i) = (if j = i then isz else desc_len d m (word_of_nat i))"
    "desc_flags d ?m (word_of_nat i) = (if j = i then 0 else desc_flags d m (word_of_nat i))"
    if "i < n" for i using inj [OF that] by (auto simp: filled_read)
  have "agree (- ring d n) m' m" using ih step(2) by (auto simp: fills_def intro: agree_trans)
  moreover have le: "j \<le> i \<longleftrightarrow> i = j \<or> Suc j \<le> i" for i by auto
  ultimately show ?case
    unfolding step(1) b m'_def [symmetric] fills_def le using ih [unfolded fills_def] read by simp
qed

subsection \<open>The initial queue\<close>

definition initial_queue :: "nat \<Rightarrow> ptr \<Rightarrow> u16 \<Rightarrow> aqueue" where
  "initial_queue n b isz =
     \<lparr>free_bufs = map (\<lambda>i. b + word_of_nat (i * unat isz)) [0..<n], msgs = [], held_m = 0, held_r = 0\<rparr>"

lemma initial_refines:
  assumes "ring_size n" and "fills d n 0 b isz m0 m"
    and "side n d isz 0 0 qm" "master qm" "side n d isz 0 0 qr" "\<not> master qr"
  shows "refines n d isz (initial_queue n b isz) qm qr m"
proof -
  let ?g = "\<lparr>allocs = 0, sends = 0, recvs = 0, frees = 0\<rparr>"
  have "ring_flags n d m ?g" using assms(2) by (simp add: ring_flags_def fills_def hits_zero)
  then have "queue_ok n d isz ?g qm qr m" using assms by (simp add: queue_ok_def ring_counts_def)
  moreover have "initial_queue n b isz = abs_queue n d m ?g"
    using assms(2) by (simp add: initial_queue_def abs_queue_def slot_addr_def fills_def)
  ultimately show ?thesis by (auto simp: refines_def)
qed

lemma init_buffer_effect:
  assumes "\<not> pm_active c" and "span conf 12 \<inter> ring d n = {}" and "n \<le> 32768"
  shows "\<exists>m. esp_amp_queue_init_buffer c conf (word_of_nat n) isz d b s = Some (ESP_OK, s\<lparr>mem := m\<rparr>) \<and>
    (\<exists>m0. fills d n 0 b isz m0 m) \<and> agree (- (span conf 12 \<union> ring d n)) m (mem s) \<and>
    conf_queue_size m conf = word_of_nat n \<and> conf_max_queue_item_size m conf = isz \<and>
    conf_queue_desc m conf = d"
proof -
  let ?m4 = "store32 (store32 (store16 (store16 (mem s) conf (word_of_nat n)) (conf + 2) isz)
      (conf + 8) d) (conf + 4) b"
  let ?m = "init_buffer_loop conf isz 0 b ?m4"
  have conf4: "conf_queue_size ?m4 conf = word_of_nat n" "conf_max_queue_item_size ?m4 conf = isz"
    "conf_queue_desc ?m4 conf = d"
    by (simp_all add: conf_queue_size_def conf_max_queue_item_size_def conf_queue_desc_def mem_simps disj_def)
  have f: "fills d n 0 b isz ?m4 ?m"
    using init_loop_fills [OF assms(2) conf4(3,1) assms(3), of 0 b isz] by simp
  have fr: "agree (- ring d n) ?m ?m4" using f by (rule fills_def [THEN iffD1, THEN conjunct1])
  then have "agree (span conf 12) ?m ?m4" by (rule agree_mono) (use assms(2) in blast)
  note conf = conf_cong [OF this, unfolded conf4]
  let ?A = "- (span conf 12 \<union> ring d n)"
  have "span conf 12 \<inter> ?A = {}" by blast
  then have "span conf 2 \<inter> ?A = {}" "span (conf + 2) 2 \<inter> ?A = {}" "span (conf + 8) 4 \<inter> ?A = {}"
    "span (conf + 4) 4 \<inter> ?A = {}"
    by (rule span_Un_sub [rotated], simp)+
  then have "agree ?A ?m4 (mem s)" by (intro frame_intros agree_refl)
  moreover have "agree ?A ?m ?m4" by (rule agree_mono [OF fr]) blast
  ultimately have "agree ?A ?m (mem s)" by (rule agree_trans [rotated])
  then show ?thesis
    using assms(1) f conf
    by (intro exI [of _ ?m] conjI exI [of _ ?m4]) (simp_all add: esp_amp_queue_init_buffer_def Let_def)
qed

subsection \<open>Any interleaving of both sides\<close>

text \<open>
  Master and remote run on their own cores and share the memory \<open>m\<close>; every step takes a core state
  with that memory. \<open>hm\<close> and \<open>hr\<close> are the buffers master and remote hold, \<open>sent\<close> and \<open>rcvd\<close> the
  messages sent and received so far. A client sends a buffer it holds and frees a buffer it holds;
  otherwise the order of steps, failing calls included, is arbitrary. The last rule allows any
  change of memory outside the ring, such as filling a buffer.
\<close>

inductive queue_run ::
    "('f \<Rightarrow> ptr \<Rightarrow> 'z core_scheme \<Rightarrow> (int \<times> 'z core_scheme) option) \<Rightarrow> 'z config \<Rightarrow> 'z config \<Rightarrow>
     nat \<Rightarrow> ptr \<Rightarrow> ptr \<Rightarrow> u16 \<Rightarrow> memory \<Rightarrow> 'f esp_amp_queue \<Rightarrow> 'f esp_amp_queue \<Rightarrow>
     ptr list \<Rightarrow> ptr list \<Rightarrow> (ptr \<times> u16) list \<Rightarrow> (ptr \<times> u16) list \<Rightarrow> bool"
  for call cm cr n d base mx where
  start: "refines n d mx (initial_queue n base mx) qm qr m \<Longrightarrow> notify_ok call cm d n qm \<Longrightarrow>
    queue_run call cm cr n d base mx m qm qr [] [] [] []"
| alloc: "queue_run call cm cr n d base mx (mem s) qm qr hm hr sent rcvd \<Longrightarrow>
    pm_ready cm d (8 * n) s \<Longrightarrow>
    esp_amp_queue_alloc_try cm qm sz s = Some (ret, b, qm', s') \<Longrightarrow>
    queue_run call cm cr n d base mx (mem s') qm' qr (if ret = ESP_OK then hm @ [b] else hm) hr sent rcvd"
| send: "queue_run call cm cr n d base mx (mem s) qm qr hm hr sent rcvd \<Longrightarrow>
    pm_held cm d n s \<Longrightarrow> b \<in> set hm \<Longrightarrow>
    esp_amp_queue_send_try call cm qm b sz s = Some (ret, qm', s') \<Longrightarrow>
    queue_run call cm cr n d base mx (mem s') qm' qr (if sz \<le> mx then remove1 b hm else hm) hr
      (if sz \<le> mx then sent @ [(b, sz)] else sent) rcvd"
| recv: "queue_run call cm cr n d base mx (mem s) qm qr hm hr sent rcvd \<Longrightarrow>
    pm_ready cr d (8 * n) s \<Longrightarrow>
    esp_amp_queue_recv_try cr qr s = Some (ret, b, sz, qr', s') \<Longrightarrow>
    queue_run call cm cr n d base mx (mem s') qm qr' hm (if ret = ESP_OK then hr @ [b] else hr) sent
      (if ret = ESP_OK then rcvd @ [(b, sz)] else rcvd)"
| free: "queue_run call cm cr n d base mx (mem s) qm qr hm hr sent rcvd \<Longrightarrow>
    pm_held cr d n s \<Longrightarrow> b \<in> set hr \<Longrightarrow>
    esp_amp_queue_free_try cr qr b s = Some (ret, qr', s') \<Longrightarrow>
    queue_run call cm cr n d base mx (mem s') qm qr' hm (remove1 b hr) sent rcvd"
| elsewhere: "queue_run call cm cr n d base mx m qm qr hm hr sent rcvd \<Longrightarrow>
    agree (ring d n) m m' \<Longrightarrow> queue_run call cm cr n d base mx m' qm qr hm hr sent rcvd"

definition all_bufs :: "nat \<Rightarrow> ptr \<Rightarrow> u16 \<Rightarrow> ptr list" where
  "all_bufs n base mx = map (\<lambda>i. base + word_of_nat (i * unat mx)) [0..<n]"

definition run_inv ::
    "nat \<Rightarrow> ptr \<Rightarrow> u16 \<Rightarrow> aqueue \<Rightarrow> ptr list \<Rightarrow> ptr list \<Rightarrow> (ptr \<times> u16) list \<Rightarrow> (ptr \<times> u16) list \<Rightarrow> bool" where
  "run_inv n base mx a hm hr sent rcvd \<longleftrightarrow> held_m a = length hm \<and> held_r a = length hr \<and>
     sent = rcvd @ msgs a \<and>
     mset (free_bufs a) + mset hm + mset (map fst (msgs a)) + mset hr = mset (all_bufs n base mx)"

text \<open>The abstract operations keep the invariant when the client keeps the discipline.\<close>

lemma run_inv_alloc:
  assumes "run_inv n base mx a hm hr sent rcvd" and "aq_alloc mx sz a = (ret, b, a')"
  shows "run_inv n base mx a' (if ret = ESP_OK then hm @ [b] else hm) hr sent rcvd"
  using assms by (auto simp: run_inv_def split: if_splits list.splits)

lemma run_inv_send:
  assumes "run_inv n base mx a hm hr sent rcvd" and "aq_send mx b sz a = (ret, a')" and "b \<in> set hm"
  shows "run_inv n base mx a' (if sz \<le> mx then remove1 b hm else hm) hr
    (if sz \<le> mx then sent @ [(b, sz)] else sent) rcvd"
proof -
  have "mset hm = add_mset b (mset (remove1 b hm))" using assms(3) by simp
  moreover have "hm \<noteq> []" using assms(3) by auto
  ultimately show ?thesis
    using assms by (auto simp: run_inv_def length_remove1 split: if_splits)
qed

lemma run_inv_recv:
  assumes "run_inv n base mx a hm hr sent rcvd" and "aq_recv a = (ret, b, sz, a')"
  shows "run_inv n base mx a' hm (if ret = ESP_OK then hr @ [b] else hr) sent
    (if ret = ESP_OK then rcvd @ [(b, sz)] else rcvd)"
  using assms by (auto simp: run_inv_def split: if_splits list.splits)

lemma run_inv_free:
  assumes "run_inv n base mx a hm hr sent rcvd" and "aq_free b a = (ret, a')" and "b \<in> set hr"
  shows "run_inv n base mx a' hm (remove1 b hr) sent rcvd"
proof -
  have "mset hr = add_mset b (mset (remove1 b hr))" using assms(3) by simp
  moreover have "hr \<noteq> []" using assms(3) by auto
  ultimately show ?thesis using assms by (auto simp: run_inv_def length_remove1 split: if_splits)
qed

lemma notify_ok_cong:
  "notify_fc q' = notify_fc q \<Longrightarrow> priv_data q' = priv_data q \<Longrightarrow> notify_ok call c d n q = notify_ok call c d n q'"
  by (simp add: notify_ok_def)

lemma alloc_try_handle:
  "esp_amp_queue_alloc_try c q sz s = Some (ret, b, q', s') \<Longrightarrow>
   notify_fc q' = notify_fc q \<and> priv_data q' = priv_data q"
  by (auto simp: esp_amp_queue_alloc_try_def Let_def split: if_splits Option.bind_splits)

lemma send_try_handle:
  "esp_amp_queue_send_try call c q b sz s = Some (ret, q', s') \<Longrightarrow>
   notify_fc q' = notify_fc q \<and> priv_data q' = priv_data q"
  by (auto simp: esp_amp_queue_send_try_def Let_def split: if_splits Option.bind_splits option.splits)

text \<open>The refinement lemmas as elimination rules for a given result.\<close>

lemma alloc_result:
  assumes "refines n d mx a qm qr (mem s)" "port_ok c" "pm_ready c d (8 * n) s"
    and "esp_amp_queue_alloc_try c qm sz s = Some (ret, b, qm', s')"
  obtains a' where "aq_alloc mx sz a = (ret, b, a')" "refines n d mx a' qm' qr (mem s')"
  using alloc_refines [OF assms(1-3), of sz] assms(4) by fastforce

lemma send_result:
  assumes "refines n d mx a qm qr (mem s)" "port_ok c" "pm_held c d n s" "notify_ok call c d n qm"
    and "esp_amp_queue_send_try call c qm b sz s = Some (ret, qm', s')"
  obtains r a' where "aq_send mx b sz a = (r, a')" "refines n d mx a' qm' qr (mem s')"
  using send_refines [OF assms(1-4), of b sz] assms(5) by fastforce

lemma recv_result:
  assumes "refines n d mx a qm qr (mem s)" "port_ok c" "pm_ready c d (8 * n) s"
    and "esp_amp_queue_recv_try c qr s = Some (ret, b, sz, qr', s')"
  obtains a' where "aq_recv a = (ret, b, sz, a')" "refines n d mx a' qm qr' (mem s')"
  using recv_refines [OF assms(1-3)] assms(4) by fastforce

lemma free_result:
  assumes "refines n d mx a qm qr (mem s)" "port_ok c" "pm_held c d n s"
    and "esp_amp_queue_free_try c qr b s = Some (ret, qr', s')"
  obtains a' where "aq_free b a = (ret, a')" "refines n d mx a' qm qr' (mem s')"
  using free_refines [OF assms(1-3), of b] assms(4) by fastforce

lemma queue_run_inv:
  assumes "queue_run call cm cr n d base mx m qm qr hm hr sent rcvd" and "port_ok cm" and "port_ok cr"
  shows "\<exists>a. refines n d mx a qm qr m \<and> notify_ok call cm d n qm \<and> run_inv n base mx a hm hr sent rcvd"
  using assms(1)
proof induction
  case (start qm qr m)
  then show ?case
    by (intro exI [of _ "initial_queue n base mx"])
      (simp add: run_inv_def initial_queue_def all_bufs_def)
next
  case (alloc s qm qr hm hr sent rcvd sz ret b qm' s')
  then obtain a where a: "refines n d mx a qm qr (mem s)" "notify_ok call cm d n qm"
    "run_inv n base mx a hm hr sent rcvd" by blast
  obtain a' where "aq_alloc mx sz a = (ret, b, a')" "refines n d mx a' qm' qr (mem s')"
    by (rule alloc_result [OF a(1) assms(2) alloc.hyps(2,3)])
  moreover have "notify_ok call cm d n qm'"
    using alloc_try_handle [OF alloc.hyps(3)] a(2) notify_ok_cong by blast
  ultimately show ?case using run_inv_alloc [OF a(3)] by blast
next
  case (send s qm qr hm hr sent rcvd b sz ret qm' s')
  then obtain a where a: "refines n d mx a qm qr (mem s)" "notify_ok call cm d n qm"
    "run_inv n base mx a hm hr sent rcvd" by blast
  obtain r a' where "aq_send mx b sz a = (r, a')" "refines n d mx a' qm' qr (mem s')"
    by (rule send_result [OF a(1) assms(2) send.hyps(2) a(2) send.hyps(4)])
  moreover have "notify_ok call cm d n qm'"
    using send_try_handle [OF send.hyps(4)] a(2) notify_ok_cong by blast
  ultimately show ?case using run_inv_send [OF a(3) _ send.hyps(3)] by blast
next
  case (recv s qm qr hm hr sent rcvd ret b sz qr' s')
  then obtain a where a: "refines n d mx a qm qr (mem s)" "notify_ok call cm d n qm"
    "run_inv n base mx a hm hr sent rcvd" by blast
  obtain a' where "aq_recv a = (ret, b, sz, a')" "refines n d mx a' qm qr' (mem s')"
    by (rule recv_result [OF a(1) assms(3) recv.hyps(2,3)])
  then show ?case using a(2) run_inv_recv [OF a(3)] by blast
next
  case (free s qm qr hm hr sent rcvd b ret qr' s')
  then obtain a where a: "refines n d mx a qm qr (mem s)" "notify_ok call cm d n qm"
    "run_inv n base mx a hm hr sent rcvd" by blast
  obtain a' where "aq_free b a = (ret, a')" "refines n d mx a' qm qr' (mem s')"
    by (rule free_result [OF a(1) assms(3) free.hyps(2,4)])
  then show ?case using a(2) run_inv_free [OF a(3) _ free.hyps(3)] by blast
next
  case (elsewhere m qm qr hm hr sent rcvd m')
  then show ?case using refines_cong by blast
qed

subsection \<open>A sample queue\<close>

definition demo_queue :: "bool \<Rightarrow> nat esp_amp_queue" where
  "demo_queue b = \<lparr>desc = 0x1000, qsize = 2, free_index = 0, used_index = 0, max_item_size = 16,
     master = b, callback_fc = None, notify_fc = None, priv_data = NULL,
     free_flip_counter = 1, used_flip_counter = 1\<rparr>"

definition demo_ring :: memory where
  "demo_ring = filled 0x1000 (filled 0x1000 (\<lambda>_. 0) 0 0x2000 16) 1 0x2010 16"

lemma demo_fills: "fills 0x1000 2 0 0x2000 16 (\<lambda>_. 0) demo_ring"
proof -
  have "span (desc_slot 0x1000 (word_of_nat i)) 8 \<inter> - ring 0x1000 2 = {}" if "i < 2" for i
    using slot_span [OF that, of "0x1000"] by auto
  from this [of 0] this [of 1] have "agree (- ring 0x1000 2) demo_ring (\<lambda>_. 0)"
    unfolding demo_ring_def by (intro agree_trans [OF filled_frame filled_frame]) simp_all
  then show ?thesis
    by (auto simp: fills_def demo_ring_def filled_read less_2_cases_iff)
qed

lemma demo_refines:
  "refines 2 0x1000 16 (initial_queue 2 0x2000 16) (demo_queue True) (demo_queue False) demo_ring"
proof (rule initial_refines [OF _ demo_fills])
  show "ring_size 2" unfolding ring_size_def by (intro exI [of _ 1]) simp
qed (simp_all add: demo_queue_def side_def flip_at_def)

lemma demo_run:
  "queue_run (\<lambda>f p s. None) (demo_config True) (demo_config False) 2 0x1000 0x2000 16
     demo_ring (demo_queue True) (demo_queue False) [] [] [] []"
  by (rule queue_run.start [OF demo_refines]) (simp add: notify_ok_def demo_queue_def)

definition demo_state :: core where
  "demo_state = demo_core\<lparr>mem := demo_ring\<rparr>"

lemma demo_state_simps [simp]: "mem demo_state = demo_ring" "lp_access_hp_cnt demo_state = NULL"
  by (simp_all add: demo_state_def demo_core_def)

lemma demo_pm_ready [simp]: "pm_ready (demo_config b) 0x1000 16 demo_state" "pm_held (demo_config b) 0x1000 2 demo_state"
  by (simp_all add: pm_ready_def pm_held_def ring_def in_span_iff)

subsection \<open>Properties\<close>

text \<open>C1. The queue operations refine the abstract queue, on every branch: from related states each of
  the four operations returns exactly the code, the buffer and the size the abstract operation
  returns and leads to related states; only the code of a successful send may instead come from
  the notify callback.\<close>

theorem queue_ops_refine:
  assumes "refines n d mx a qm qr (mem s)" and "port_ok c"
  shows "(pm_ready c d (8 * n) s \<longrightarrow>
      (\<exists>ret b qm' s' a'. esp_amp_queue_alloc_try c qm sz s = Some (ret, b, qm', s') \<and>
        aq_alloc mx sz a = (ret, b, a') \<and> refines n d mx a' qm' qr (mem s'))) \<and>
    (pm_held c d n s \<and> notify_ok call c d n qm \<longrightarrow>
      (\<exists>ret qm' s' a' r. esp_amp_queue_send_try call c qm buf sz s = Some (ret, qm', s') \<and>
        aq_send mx buf sz a = (r, a') \<and> refines n d mx a' qm' qr (mem s') \<and>
        (r = ESP_OK \<and> notify_fc qm \<noteq> None \<or> ret = r))) \<and>
    (pm_ready c d (8 * n) s \<longrightarrow>
      (\<exists>ret b l qr' s' a'. esp_amp_queue_recv_try c qr s = Some (ret, b, l, qr', s') \<and>
        aq_recv a = (ret, b, l, a') \<and> refines n d mx a' qm qr' (mem s'))) \<and>
    (pm_held c d n s \<longrightarrow>
      (\<exists>ret qr' s' a'. esp_amp_queue_free_try c qr buf s = Some (ret, qr', s') \<and>
        aq_free buf a = (ret, a') \<and> refines n d mx a' qm qr' (mem s')))"
  using alloc_refines [OF assms, of sz] send_refines [OF assms, of call buf sz]
    recv_refines [OF assms] free_refines [OF assms, of buf]
  by blast

theorem queue_ops_refine_witness:
  "(\<exists>qm s' a'. esp_amp_queue_alloc_try (demo_config True) (demo_queue True) 10 demo_state = Some (ESP_OK, 0x2000, qm, s') \<and>
      refines 2 0x1000 16 a' qm (demo_queue False) (mem s')) \<and>
   (\<exists>qr s'. esp_amp_queue_recv_try (demo_config False) (demo_queue False) demo_state = Some (ESP_ERR_NOT_FOUND, NULL, 0, qr, s'))"
proof -
  have ref: "refines 2 0x1000 16 (initial_queue 2 0x2000 16) (demo_queue True) (demo_queue False) (mem demo_state)"
    using demo_refines by simp
  have list: "free_bufs (initial_queue 2 0x2000 16) = [0x2000, 0x2010]" "msgs (initial_queue 2 0x2000 16) = []"
    by (simp_all add: initial_queue_def upt_rec)
  have "\<exists>qm s' a'. esp_amp_queue_alloc_try (demo_config True) (demo_queue True) 10 demo_state = Some (ESP_OK, 0x2000, qm, s') \<and>
      refines 2 0x1000 16 a' qm (demo_queue False) (mem s')"
    using queue_ops_refine [OF ref, of "demo_config True" 10 "\<lambda>f p s. None" NULL, THEN conjunct1]
    by (auto simp: list)
  moreover have "\<exists>qr s'. esp_amp_queue_recv_try (demo_config False) (demo_queue False) demo_state =
      Some (ESP_ERR_NOT_FOUND, NULL, 0, qr, s')"
    using queue_ops_refine [OF ref, of "demo_config False" 10 "\<lambda>f p s. None" NULL,
        THEN conjunct2, THEN conjunct2, THEN conjunct1]
    by (auto simp: list)
  ultimately show ?thesis by blast
qed





end
