(* ===== verification/Amp_Queue_Setup.thy ===== *)
theory Amp_Queue_Setup
  imports Amp_Queue_Life
begin

text \<open>
  Setting up virtual queues, src/components/esp_amp/src/esp_amp_queue.c: maincore allocates and fills the
  memory of a queue (esp_amp_queue_main_init) and subcore attaches to it (esp_amp_queue_sub_init). A queue
  is one block of HP memory, or, when maincore is its master and automatic light sleep is configured, a
  block of HP memory for configuration and buffers and one of RTC memory for the descriptors.
\<close>

subsection \<open>Two pools\<close>

definition pool_area :: "'z config \<Rightarrow> sys_info_cap \<Rightarrow> ptr set" where
  "pool_area c cap = {a. unat (pool_head c cap) \<le> unat a \<and> unat a < unat (pool_end c cap)}"

lemma areas_apart:
  assumes "mem_map_ok c" and "SUBCORE_TYPE_LP_CORE c" and "cap \<noteq> cap'"
  shows "pool_area c cap \<inter> pool_area c cap' = {}"
  using assms by (cases cap; cases cap') (auto simp: mem_map_ok_def pool_area_def)

lemma hdrs_in_area:
  assumes "pool_ok c cap m bs"
  shows "hdrs (pool_head c cap) (root_block # bs) \<subseteq> pool_area c cap"
proof
  fix x assume x: "x \<in> hdrs (pool_head c cap) (root_block # bs)"
  have "unat (pool_head c cap) + extent (root_block # bs) \<le> unat (pool_end c cap)"
    "unat (pool_head c cap) + extent (root_block # bs) < 4294967296"
    using assms by (simp_all add: pool_ok_def)
  with hdrs_bounds [OF x] show "x \<in> pool_area c cap" by (simp add: pool_area_def)
qed

lemma buffer_in_area:
  assumes "pool_ok c cap m bs" and "map_of bs i = Some sz"
  shows "span (buf_addr c cap i bs) (unat sz) \<subseteq> pool_area c cap"
proof
  fix x assume x: "x \<in> span (buf_addr c cap i bs) (unat sz)"
  note b = buf_addr_bounds(1,2) [OF assms]
  have "unat (pool_end c cap) < 4294836224" using assms(1) by (simp add: pool_ok_def)
  with b x show "x \<in> pool_area c cap"
    using in_span_nowrap [of "buf_addr c cap i bs" "unat sz" x] by (simp add: pool_area_def)
qed

lemma alloc_outside_area:
  assumes ok: "pool_ok c cap (mem s) bs" and a: "esp_amp_sys_info_alloc c i sz cap s = Some (p, s')"
  shows "agree (- pool_area c cap) (mem s') (mem s)"
proof (cases "i \<in> fst ` set bs \<or> \<not> block_fits c cap bs sz")
  case False
  note b = pool_ok_bounds [OF ok]
  have lim: "unat (pool_end c cap) < 4294836224" using ok by (simp add: pool_ok_def)
  have fit: "unat (new_hdr c cap bs) + 8 \<le> unat (pool_end c cap)"
    using False b(1) stride_bounds(1) [of sz] by (simp add: block_fits_def)
  have l4: "unat (last_hdr c cap bs + 4) = unat (last_hdr c cap bs) + 4" using b(3) fit lim by (intro unat_add_numeral) linarith
  have "span (last_hdr c cap bs + 4) 4 \<subseteq> pool_area c cap" "span (new_hdr c cap bs) 8 \<subseteq> pool_area c cap"
    using b l4 fit lim
      in_span_nowrap [of "last_hdr c cap bs + 4" 4] in_span_nowrap [of "new_hdr c cap bs" 8]
    by (auto simp: pool_area_def)
  then have "agree (- pool_area c cap) (alloc_mem (mem s) (last_hdr c cap bs) (new_hdr c cap bs) (i, sz)) (mem s)"
    by (intro alloc_mem_frame) auto
  then show ?thesis using a False alloc_pool_eq [OF ok, of i sz] by auto
qed (use a alloc_pool_eq [OF ok, of i sz] in auto)

text \<open>A pool is not affected by writes to its buffers and to memory outside of it.\<close>

lemma pool_ok_writes:
  assumes ok: "pool_ok c cap m bs" and i: "map_of bs i = Some sz"
    and W: "W \<inter> pool_area c cap \<subseteq> span (buf_addr c cap i bs) (unat sz)" and ag: "agree (- W) m' m"
  shows "pool_ok c cap m' bs"
proof (rule pool_ok_cong [OF ok])
  have "x \<notin> W" if "x \<in> hdrs (pool_head c cap) (root_block # bs)" for x
    using that buffer_not_pool_hdr [OF ok i, of x] W hdrs_in_area [OF ok] by blast
  then show "agree (hdrs (pool_head c cap) (root_block # bs)) m m'"
    by (intro agree_sym [OF agree_mono [OF ag]]) auto
qed

lemma pool_ok_elsewhere:
  assumes "pool_ok c cap m bs" and "agree (pool_area c cap) m' m"
  shows "pool_ok c cap m' bs"
  using pool_ok_cong [OF assms(1) agree_sym [OF agree_mono [OF assms(2) hdrs_in_area [OF assms(1)]]]] .

text \<open>Allocating a block: its place, and what is known of it.\<close>

lemma block_placed:
  assumes ok: "pool_ok c cap (mem s) bs" and i: "i \<notin> fst ` set bs" and fits: "block_fits c cap bs sz"
    and p: "p = buf_after c cap bs"
  obtains s1 where "esp_amp_sys_info_alloc c i sz cap s = Some (p, s1)" "pool_ok c cap (mem s1) (bs @ [(i, sz)])"
    "p = buf_addr c cap i (bs @ [(i, sz)])" "p \<noteq> NULL" "unat p + unat sz < 4294967296"
    "map_of (bs @ [(i, sz)]) i = Some sz" "agree (- pool_area c cap) (mem s1) (mem s)" "\<forall>m. s1\<lparr>mem := m\<rparr> = s\<lparr>mem := m\<rparr>"
proof -
  let ?bs = "bs @ [(i, sz)]"
  have pa: "p = buf_addr c cap i ?bs" using p buf_addr_snoc [OF i] by metis
  obtain s1 where a: "esp_amp_sys_info_alloc c i sz cap s = Some (p, s1)" and ok1: "pool_ok c cap (mem s1) ?bs"
    using sys_info.alloc_done [OF ok i fits] pa by metis
  have look: "map_of ?bs i = Some sz" using i by (simp add: map_add_def map_of_eq_None_iff [THEN iffD2])
  have "unat p + unat sz < 4294967296" using buf_addr_bounds(2) [OF ok1 look] ok1 pa by (simp add: pool_ok_def)
  moreover have "p \<noteq> NULL" using sys_info.place_nonnull [OF ok1, of i] pa by simp
  moreover have "\<forall>m. s1\<lparr>mem := m\<rparr> = s\<lparr>mem := m\<rparr>" using a i fits alloc_pool_eq [OF ok, of i sz] by auto
  ultimately show thesis using that a ok1 pa look alloc_outside_area [OF ok a] by blast
qed

text \<open>A block in each pool, under the same id.\<close>

lemma two_blocks_placed:
  assumes hpool: "pool_ok c SYS_INFO_CAP_HP (mem s) bs" "i \<notin> fst ` set bs" "block_fits c SYS_INFO_CAP_HP bs sz"
    and rpool: "pool_ok c SYS_INFO_CAP_RTC (mem s) rs" "i \<notin> fst ` set rs" "block_fits c SYS_INFO_CAP_RTC rs rz"
    and map: "mem_map_ok c" and p: "p = buf_after c SYS_INFO_CAP_HP bs" and r: "r = buf_after c SYS_INFO_CAP_RTC rs"
  obtains s1 s2 where "esp_amp_sys_info_alloc c i sz SYS_INFO_CAP_HP s = Some (p, s1)"
    "esp_amp_sys_info_alloc c i rz SYS_INFO_CAP_RTC s1 = Some (r, s2)"
    "pool_ok c SYS_INFO_CAP_HP (mem s2) (bs @ [(i, sz)])" "pool_ok c SYS_INFO_CAP_RTC (mem s2) (rs @ [(i, rz)])"
    "p = buf_addr c SYS_INFO_CAP_HP i (bs @ [(i, sz)])" "r = buf_addr c SYS_INFO_CAP_RTC i (rs @ [(i, rz)])"
    "p \<noteq> NULL" "r \<noteq> NULL" "unat p + unat sz < 4294967296" "map_of (bs @ [(i, sz)]) i = Some sz" "map_of (rs @ [(i, rz)]) i = Some rz"
    "span p (unat sz) \<subseteq> pool_area c SYS_INFO_CAP_HP" "span r (unat rz) \<inter> pool_area c SYS_INFO_CAP_HP = {}"
    "span p (unat sz) \<inter> pool_area c SYS_INFO_CAP_RTC = {}" "\<forall>m. s2\<lparr>mem := m\<rparr> = s\<lparr>mem := m\<rparr>"
proof -
  let ?hp = SYS_INFO_CAP_HP and ?rtc = SYS_INFO_CAP_RTC and ?H = "bs @ [(i, sz)]" and ?R = "rs @ [(i, rz)]"
  have "SUBCORE_TYPE_LP_CORE c" using rpool(1) by (simp add: pool_ok_def)
  then have away: "pool_area c ?hp \<inter> pool_area c ?rtc = {}" by (intro areas_apart [OF map]) simp_all
  obtain s1 where a: "esp_amp_sys_info_alloc c i sz ?hp s = Some (p, s1)" and ok1: "pool_ok c ?hp (mem s1) ?H"
    and pa: "p = buf_addr c ?hp i ?H" "p \<noteq> NULL" "unat p + unat sz < 4294967296"
    and look: "map_of ?H i = Some sz" and ag1: "agree (- pool_area c ?hp) (mem s1) (mem s)"
    and s1: "\<forall>m. s1\<lparr>mem := m\<rparr> = s\<lparr>mem := m\<rparr>"
    by (rule block_placed [OF hpool p])
  have rok: "pool_ok c ?rtc (mem s1) rs" using away by (intro pool_ok_elsewhere [OF rpool(1)] agree_mono [OF ag1]) auto
  obtain s2 where a2: "esp_amp_sys_info_alloc c i rz ?rtc s1 = Some (r, s2)" and rok2: "pool_ok c ?rtc (mem s2) ?R"
    and ra: "r = buf_addr c ?rtc i ?R" "r \<noteq> NULL"
    and rlook: "map_of ?R i = Some rz" and ag2: "agree (- pool_area c ?rtc) (mem s2) (mem s1)"
    and s2: "\<forall>m. s2\<lparr>mem := m\<rparr> = s1\<lparr>mem := m\<rparr>"
    by (rule block_placed [OF rok rpool(2,3) r])
  have ok2: "pool_ok c ?hp (mem s2) ?H" using away by (intro pool_ok_elsewhere [OF ok1] agree_mono [OF ag2]) auto
  have "span p (unat sz) \<subseteq> pool_area c ?hp" "span r (unat rz) \<subseteq> pool_area c ?rtc"
    using buffer_in_area [OF ok1 look] buffer_in_area [OF rok2 rlook] pa(1) ra(1) by simp_all
  moreover from this away have "span r (unat rz) \<inter> pool_area c ?hp = {}" "span p (unat sz) \<inter> pool_area c ?rtc = {}" by blast+
  ultimately show thesis using that a a2 ok2 rok2 pa ra look rlook s1 s2 by simp
qed

subsection \<open>The memory of a queue\<close>

text \<open>A queue of \<open>n\<close> buffers of \<open>isz\<close> bytes from \<open>b\<close> on, none of them in use: the configuration at \<open>conf\<close>
  describes it and the descriptors at \<open>d\<close> hold all buffers.\<close>

definition queue_conf :: "nat \<Rightarrow> ptr \<Rightarrow> ptr \<Rightarrow> u16 \<Rightarrow> memory \<Rightarrow> bool" where
  "queue_conf n conf d isz m \<longleftrightarrow> conf_queue_size m conf = word_of_nat n \<and> conf_max_queue_item_size m conf = isz \<and>
     conf_queue_desc m conf = d"

definition queue_home :: "nat \<Rightarrow> ptr \<Rightarrow> ptr \<Rightarrow> ptr \<Rightarrow> u16 \<Rightarrow> memory \<Rightarrow> bool" where
  "queue_home n conf d b isz m \<longleftrightarrow> queue_conf n conf d isz m \<and> fills d n 0 b isz m m"

lemma queue_conf_cong: "agree (span conf 12) m' m \<Longrightarrow> queue_conf n conf d isz m' = queue_conf n conf d isz m"
  by (simp add: queue_conf_def conf_cong [of conf m' m])

lemma queue_home_cong:
  assumes "queue_home n conf d b isz m" and ag: "agree (span conf 12 \<union> ring d n) m m'" and "n \<le> 32768"
  shows "queue_home n conf d b isz m'"
proof -
  have "agree (span conf 12) m m'" "agree (ring d n) m m'" using ag by (auto elim: agree_mono)
  moreover from this(2) have "desc_addr d m (word_of_nat i) = desc_addr d m' (word_of_nat i)"
    "desc_len d m (word_of_nat i) = desc_len d m' (word_of_nat i)"
    "desc_flags d m (word_of_nat i) = desc_flags d m' (word_of_nat i)" if "i < n" for i
    using desc_fields_cong [OF _ that assms(3)] \<open>agree (ring d n) m m'\<close> by blast+
  ultimately show ?thesis using assms(1) queue_conf_cong [of conf m m'] by (simp add: queue_home_def fills_def)
qed

lemma init_buffer_home:
  assumes "\<not> pm_active c" and "span conf 12 \<inter> ring d n = {}" and "n \<le> 32768"
  obtains m where "esp_amp_queue_init_buffer c conf (word_of_nat n) isz d b s = Some (ESP_OK, s\<lparr>mem := m\<rparr>)"
    "queue_home n conf d b isz m" "agree (- (span conf 12 \<union> ring d n)) m (mem s)"
proof -
  from init_buffer_effect [OF assms, of isz b s] obtain m m0 where
    m: "esp_amp_queue_init_buffer c conf (word_of_nat n) isz d b s = Some (ESP_OK, s\<lparr>mem := m\<rparr>)"
      "fills d n 0 b isz m0 m" "agree (- (span conf 12 \<union> ring d n)) m (mem s)"
      "conf_queue_size m conf = word_of_nat n" "conf_max_queue_item_size m conf = isz" "conf_queue_desc m conf = d"
    by blast
  then have "queue_home n conf d b isz m" by (simp add: queue_home_def queue_conf_def fills_def)
  with m that show thesis by blast
qed

text \<open>The handle of one core on a queue that was just created.\<close>

definition fresh_handle :: "nat \<Rightarrow> ptr \<Rightarrow> u16 \<Rightarrow> 'f option \<Rightarrow> ptr \<Rightarrow> bool \<Rightarrow> 'f esp_amp_queue \<Rightarrow> bool" where
  "fresh_handle n d isz cb priv mst q \<longleftrightarrow> side n d isz 0 0 q \<and> master q = mst \<and> priv_data q = priv \<and>
     notify_fc q = (if mst then cb else None) \<and> callback_fc q = (if mst then None else cb)"

text \<open>Either core creates its handle from the configuration. On the subcore the light sleep macros enclose the
  accesses; they leave the memory as it was.\<close>

lemma create_handle:
  assumes home: "queue_conf n conf d isz (mem s)" and ag: "agree (span conf 12) (mem (PM_SKIP_LIGHT_SLEEP_ENTER c s)) (mem s)"
    and ex: "PM_SKIP_LIGHT_SLEEP_EXIT c (PM_SKIP_LIGHT_SLEEP_ENTER c s) = Some s'"
  shows "\<exists>q. esp_amp_queue_create c conf cb priv mst s = Some (ESP_OK, q, s') \<and> fresh_handle n d isz cb priv mst q"
proof -
  let ?m = "mem (PM_SKIP_LIGHT_SLEEP_ENTER c s)"
  have "conf_queue_size ?m conf = word_of_nat n" "conf_max_queue_item_size ?m conf = isz" "conf_queue_desc ?m conf = d"
    using home conf_cong [OF ag] by (simp_all add: queue_conf_def)
  with ex show ?thesis by (simp add: esp_amp_queue_create_def Let_def fresh_handle_def side_def flip_at_def)
qed

lemma create_attach:
  fixes s :: "'z core_scheme"
  assumes home: "queue_conf n conf d isz (mem s)" and pm: "pm_active c \<Longrightarrow> port_ok c" "pm_active c \<Longrightarrow> pm_ready c conf 12 s"
  obtains q s' where "esp_amp_queue_create c conf cb priv mst s = Some (ESP_OK, q, s')" "mem s' = mem s"
    "fresh_handle n d isz cb priv mst q" "pm_frame c s s'"
proof (cases "pm_active c")
  case False
  then show thesis using create_handle [OF home, of c s cb priv mst] that [of _ s] by (auto simp: pm_frame_def)
next
  case True
  let ?s1 = "PM_SKIP_LIGHT_SLEEP_ENTER c s"
  note pc = pm(1) [OF True] and rdy = pm(2) [OF True]
  have f1: "pm_frame c s ?s1" by (rule pm_enter_frame [OF pc])
  have r: "port_ok c \<and> (pm_active c \<longrightarrow> pm_cnt s \<noteq> -1)" using pc rdy by (simp add: pm_ready_def)
  obtain s2 where ex: "PM_SKIP_LIGHT_SLEEP_EXIT c ?s1 = Some s2" and m2: "agree (- {}) (mem s2) (mem s)"
    by (rule pm.bracket [OF r, of "{}" ?s1]) (use f1 in \<open>auto simp: pm_frame_def\<close>)
  have m: "mem s2 = mem s" using m2 by (auto simp: agree_def)
  have "pm_frame c s s2"
    using f1 pm_exit_frame [OF pc ex] True by (auto simp: pm_frame_def m)
  with create_handle [OF home pm_ready_enter(1) [OF pc rdy] ex, of cb priv mst] m show thesis by (auto intro: that)
qed

lemma home_refines:
  assumes "queue_home n conf d b isz m" and "ring_size n"
    and "fresh_handle n d isz cb priv True qm" and "fresh_handle n d isz cb' priv' False qr"
  shows "refines n d isz (initial_queue n b isz) qm qr m"
  using initial_refines [of n d b isz m m qm qr] assms by (simp add: queue_home_def fresh_handle_def)

subsection \<open>Maincore creates a queue\<close>

text \<open>The descriptors are apart from configuration and buffers only if maincore, as the master, is the one
  that works on them most and may sleep in between.\<close>

definition split_queue :: "'z config \<Rightarrow> bool \<Rightarrow> bool" where
  "split_queue c is_master \<longleftrightarrow> AUTO_LIGHT_SLEEP_SUPPORT c \<and> is_master"

definition queue_hp_bytes :: "bool \<Rightarrow> nat \<Rightarrow> u16 \<Rightarrow> nat" where
  "queue_hp_bytes split n isz = (if split then 12 + unat isz * n else 12 + 8 * n + unat isz * n)"

definition queue_descs :: "bool \<Rightarrow> ptr \<Rightarrow> ptr \<Rightarrow> ptr" where
  "queue_descs split hp rtc = (if split then rtc else hp + 12)"

definition queue_bufs :: "bool \<Rightarrow> ptr \<Rightarrow> nat \<Rightarrow> ptr" where
  "queue_bufs split hp n = (if split then hp + 12 else hp + 12 + 8 * word_of_nat n)"

lemma power_len_exact:
  assumes "clz_spec clz" and "unat len = 2 ^ j" and "1 \<le> j" and "j \<le> 15"
  shows "get_power_len clz len = len"
proof -
  have "2 ^ 1 \<le> (2 :: nat) ^ j" "(2 :: nat) ^ j \<le> 2 ^ 15" using assms(3,4) by (simp_all only: power_increasing_iff)
  then obtain k where k: "unat (get_power_len clz len) = 2 ^ k" "unat len \<le> 2 ^ k" "(2 :: nat) ^ k < 2 * unat len"
    using get_power_len_bits [OF assms(1), of len] assms(2) by auto
  from k(2,3) have "j \<le> k" "k < Suc j" unfolding assms(2) power_Suc [symmetric] by (simp_all only: power_increasing_iff power_strict_increasing_iff)
  then have "k = j" by simp
  then show ?thesis using k(1) assms(2) by (simp add: word_unat_eq_iff)
qed

lemma size_cut:
  assumes "k < 65536"
  shows "ucast (word_of_nat k :: u32) = (word_of_nat k :: u16)"
  using assms by (intro word_unat_eq_iff [THEN iffD2])
    (simp add: unsigned_ucast_eq unat_of_nat32 unat_of_nat16 take_bit_nat_eq_self)

text \<open>The size the code computes for each block, when it fits sixteen bits.\<close>

lemma queue_bytes:
  assumes "12 + 8 * unat len + unat isz * unat len < 65536"
  shows "ucast (sizeof_queue_conf + sizeof_queue_desc * ucast len + ucast isz * ucast len :: u32) =
    (word_of_nat (12 + 8 * unat len + unat isz * unat len) :: u16)"
proof -
  have "(sizeof_queue_conf + sizeof_queue_desc * ucast len + ucast isz * ucast len :: u32) =
      word_of_nat (12 + 8 * unat len + unat isz * unat len)"
    by (simp add: sizeof_queue_conf_def sizeof_queue_desc_def)
  then show ?thesis using size_cut [OF assms] by (simp only:)
qed

lemma split_bytes:
  assumes "12 + unat isz * unat len < 65536" and "8 * unat len < 65536"
  shows "ucast (sizeof_queue_conf + ucast isz * ucast len :: u32) = (word_of_nat (12 + unat isz * unat len) :: u16)"
    and "ucast (sizeof_queue_desc * ucast len :: u32) = (word_of_nat (8 * unat len) :: u16)"
proof -
  have "(sizeof_queue_conf + ucast isz * ucast len :: u32) = word_of_nat (12 + unat isz * unat len)"
    "(sizeof_queue_desc * ucast len :: u32) = word_of_nat (8 * unat len)"
    by (simp_all add: sizeof_queue_conf_def sizeof_queue_desc_def)
  then show "ucast (sizeof_queue_conf + ucast isz * ucast len :: u32) = (word_of_nat (12 + unat isz * unat len) :: u16)"
    "ucast (sizeof_queue_desc * ucast len :: u32) = (word_of_nat (8 * unat len) :: u16)"
    using size_cut [OF assms(1)] size_cut [OF assms(2)] by (simp_all only:)
qed

text \<open>One block: configuration and descriptors follow each other in it.\<close>

lemma joint_layout:
  assumes "unat p + (12 + 8 * n + k) < 4294967296" and "0 < n"
  shows "span p 12 \<inter> ring (p + 12) n = {}"
    and "span p 12 \<union> ring (p + 12) n \<subseteq> span p (12 + 8 * n + k)"
proof -
  have p12: "unat (p + 12) = unat p + 12" using assms by (intro unat_add_numeral) linarith
  show "span p 12 \<inter> ring (p + 12) n = {}"
    unfolding ring_def using assms p12 by (intro disj_nowrap) linarith+
  have "ring (p + 12) n \<subseteq> span p (12 + 8 * n + k)" "span p 12 \<subseteq> span p (12 + 8 * n + k)"
    unfolding ring_def by (rule span_sub, simp)+
  then show "span p 12 \<union> ring (p + 12) n \<subseteq> span p (12 + 8 * n + k)" by simp
qed

text \<open>What maincore leaves behind: the queue in memory \<open>m\<close> and its own handle.\<close>

definition queue_made ::
    "bool \<Rightarrow> nat \<Rightarrow> u16 \<Rightarrow> ptr \<Rightarrow> ptr \<Rightarrow> 'f option \<Rightarrow> ptr \<Rightarrow> bool \<Rightarrow> 'f esp_amp_queue \<Rightarrow> memory \<Rightarrow> bool" where
  "queue_made split n isz hp rtc cb priv b q m \<longleftrightarrow>
     queue_home n hp (queue_descs split hp rtc) (queue_bufs split hp n) isz m \<and>
     fresh_handle n (queue_descs split hp rtc) isz cb priv b q"

lemma main_init_joint:
  assumes pool: "pool_ok c SYS_INFO_CAP_HP (mem s) bs" "i \<notin> fst ` set bs" and pm: "\<not> split_queue c b" "\<not> pm_active c"
    and len: "len' = get_power_len clz len" "ring_size (unat len')"
    and isz: "isz = get_aligned_size item" "isz \<noteq> 0"
    and bytes: "bytes = queue_hp_bytes False (unat len') isz" "bytes < 65536"
    and fits: "block_fits c SYS_INFO_CAP_HP bs (word_of_nat bytes)"
    and p: "p = buf_after c SYS_INFO_CAP_HP bs"
  shows "\<exists>q m. esp_amp_queue_main_init clz c len item cb priv b i s = Some (ESP_OK, Some q, s\<lparr>mem := m\<rparr>) \<and>
    queue_made False (unat len') isz p NULL cb priv b q m \<and>
    pool_ok c SYS_INFO_CAP_HP m (bs @ [(i, word_of_nat bytes)]) \<and>
    agree (- pool_area c SYS_INFO_CAP_HP) m (mem s) \<and>
    p = buf_addr c SYS_INFO_CAP_HP i (bs @ [(i, word_of_nat bytes)]) \<and> p \<noteq> NULL"
proof -
  let ?n = "unat len'" and ?sz = "word_of_nat bytes :: u16" and ?hp = SYS_INFO_CAP_HP
  have n: "0 < ?n" "?n \<le> 32768" using ring_size_bounds [OF len(2)] by simp_all
  have bts: "bytes = 12 + 8 * ?n + unat isz * ?n" using bytes(1) by (simp add: queue_hp_bytes_def)
  have szt: "unat ?sz = bytes" using bytes(2) by (rule unat_of_nat16)
  obtain s1 where a: "esp_amp_sys_info_alloc c i ?sz ?hp s = Some (p, s1)" and ok1: "pool_ok c ?hp (mem s1) (bs @ [(i, ?sz)])"
    and pa: "p = buf_addr c ?hp i (bs @ [(i, ?sz)])" and nn: "p \<noteq> NULL" and top: "unat p + unat ?sz < 4294967296"
    and look: "map_of (bs @ [(i, ?sz)]) i = Some ?sz" and ag1: "agree (- pool_area c ?hp) (mem s1) (mem s)"
    and s1: "\<forall>m. s1\<lparr>mem := m\<rparr> = s\<lparr>mem := m\<rparr>"
    by (rule block_placed [OF pool fits p])
  have top12: "unat p + (12 + 8 * ?n + unat isz * ?n) < 4294967296" using top szt bts by simp
  note lay = joint_layout [OF top12 n(1)]
  obtain m where ib: "esp_amp_queue_init_buffer c p (word_of_nat ?n) isz (p + 12) (p + 12 + 8 * ucast len') s1 = Some (ESP_OK, s1\<lparr>mem := m\<rparr>)"
    and home: "queue_home ?n p (p + 12) (p + 12 + 8 * ucast len') isz m" and fr: "agree (- (span p 12 \<union> ring (p + 12) ?n)) m (mem s1)"
    by (rule init_buffer_home [OF pm(2) lay(1) n(2)])
  have sub: "span p 12 \<union> ring (p + 12) ?n \<subseteq> span p (unat ?sz)" using lay(2) unfolding szt by (simp only: bts)
  then have ok2: "pool_ok c ?hp m (bs @ [(i, ?sz)])" using pa by (intro pool_ok_writes [OF ok1 look _ fr]) auto
  have "agree (- pool_area c ?hp) m (mem s)"
    using buffer_in_area [OF ok1 look] sub pa by (intro agree_trans [OF agree_mono [OF fr] ag1]) auto
  moreover obtain q s2 where q: "esp_amp_queue_create c p cb priv b (s1\<lparr>mem := m\<rparr>) = Some (ESP_OK, q, s2)"
    "fresh_handle ?n (p + 12) isz cb priv b q" "pm_frame c (s1\<lparr>mem := m\<rparr>) s2"
    by (rule create_attach [of ?n p "p + 12" isz "s1\<lparr>mem := m\<rparr>" c cb priv b]) (use home pm(2) in \<open>simp_all add: queue_home_def\<close>)
  moreover have "s2 = s\<lparr>mem := m\<rparr>" using q(3) s1 pm(2) by (simp add: pm_frame_def)
  moreover have "len' \<noteq> 0" using n(1) by auto
  moreover have "ucast (sizeof_queue_conf + sizeof_queue_desc * ucast len' + ucast isz * ucast len' :: u32) = ?sz"
    using queue_bytes [of len' isz] bytes(2) bts by simp
  ultimately have "esp_amp_queue_main_init clz c len item cb priv b i s = Some (ESP_OK, Some q, s\<lparr>mem := m\<rparr>)"
    "queue_made False ?n isz p NULL cb priv b q m" "agree (- pool_area c ?hp) m (mem s)"
    using isz(2) a nn ib home
    by (simp_all add: esp_amp_queue_main_init_def Let_def len(1) [symmetric] isz(1) [symmetric] if_not_P [OF pm(1) [unfolded split_queue_def]]
        sizeof_queue_conf_def sizeof_queue_desc_def queue_made_def queue_descs_def queue_bufs_def)
  with ok2 pa nn show ?thesis by blast
qed

text \<open>Two blocks: the descriptors are in RTC memory, the rest in HP memory.\<close>

lemma main_init_split:
  assumes hpool: "pool_ok c SYS_INFO_CAP_HP (mem s) bs" "i \<notin> fst ` set bs"
    and rpool: "pool_ok c SYS_INFO_CAP_RTC (mem s) rs" "i \<notin> fst ` set rs"
    and map: "mem_map_ok c" and pm: "split_queue c b" "\<not> pm_active c"
    and len: "len' = get_power_len clz len" "ring_size (unat len')"
    and isz: "isz = get_aligned_size item" "isz \<noteq> 0"
    and bytes: "bytes = queue_hp_bytes True (unat len') isz" "bytes < 65536" "8 * unat len' < 65536"
    and fits: "block_fits c SYS_INFO_CAP_HP bs (word_of_nat bytes)" "block_fits c SYS_INFO_CAP_RTC rs (word_of_nat (8 * unat len'))"
    and p: "p = buf_after c SYS_INFO_CAP_HP bs" and r: "r = buf_after c SYS_INFO_CAP_RTC rs"
  shows "\<exists>q m. esp_amp_queue_main_init clz c len item cb priv b i s = Some (ESP_OK, Some q, s\<lparr>mem := m\<rparr>) \<and>
    queue_made True (unat len') isz p r cb priv b q m \<and>
    pool_ok c SYS_INFO_CAP_HP m (bs @ [(i, word_of_nat bytes)]) \<and>
    pool_ok c SYS_INFO_CAP_RTC m (rs @ [(i, word_of_nat (8 * unat len'))]) \<and>
    p = buf_addr c SYS_INFO_CAP_HP i (bs @ [(i, word_of_nat bytes)]) \<and> p \<noteq> NULL"
proof -
  let ?n = "unat len'" and ?hp = SYS_INFO_CAP_HP and ?rtc = SYS_INFO_CAP_RTC
  let ?sz = "word_of_nat bytes :: u16" and ?rz = "word_of_nat (8 * ?n) :: u16"
  let ?H = "bs @ [(i, ?sz)]" and ?R = "rs @ [(i, ?rz)]"
  have n: "0 < ?n" "?n \<le> 32768" using ring_size_bounds [OF len(2)] by simp_all
  have bts: "bytes = 12 + unat isz * ?n" using bytes(1) by (simp add: queue_hp_bytes_def)
  have sz: "unat ?sz = bytes" "unat ?rz = 8 * ?n" using bytes(2,3) by (intro unat_of_nat16, simp)+
  obtain s1 s2 where a: "esp_amp_sys_info_alloc c i ?sz ?hp s = Some (p, s1)" "esp_amp_sys_info_alloc c i ?rz ?rtc s1 = Some (r, s2)"
    and ok2: "pool_ok c ?hp (mem s2) ?H" "pool_ok c ?rtc (mem s2) ?R" and pa: "p = buf_addr c ?hp i ?H" and ra: "r = buf_addr c ?rtc i ?R"
    and nn: "p \<noteq> NULL" "r \<noteq> NULL" and look: "map_of ?H i = Some ?sz" "map_of ?R i = Some ?rz"
    and area: "span p (unat ?sz) \<subseteq> pool_area c ?hp" "span r (unat ?rz) \<inter> pool_area c ?hp = {}" "span p (unat ?sz) \<inter> pool_area c ?rtc = {}"
    and s2: "\<forall>m. s2\<lparr>mem := m\<rparr> = s\<lparr>mem := m\<rparr>"
    by (rule two_blocks_placed [OF hpool fits(1) rpool fits(2) map p r])
  have rr: "ring r ?n = span r (unat ?rz)" using sz(2) by (simp add: ring_def)
  have "12 \<le> unat ?sz" using sz(1) bts by simp
  then have sub: "span p 12 \<subseteq> span p (unat ?sz)" by (intro span_sub) simp
  have dis: "span p 12 \<inter> ring r ?n = {}" using sub area unfolding rr by blast
  obtain m where ib: "esp_amp_queue_init_buffer c p (word_of_nat ?n) isz r (p + 12) s2 = Some (ESP_OK, s2\<lparr>mem := m\<rparr>)"
    and home: "queue_home ?n p r (p + 12) isz m" and fr: "agree (- (span p 12 \<union> ring r ?n)) m (mem s2)"
    by (rule init_buffer_home [OF pm(2) dis n(2)])
  have hp: "pool_ok c ?hp m ?H" using sub area(2) pa rr by (intro pool_ok_writes [OF ok2(1) look(1) _ fr]) auto
  have rtc: "pool_ok c ?rtc m ?R" using sub area(3) ra rr by (intro pool_ok_writes [OF ok2(2) look(2) _ fr]) auto
  obtain q s3 where q: "esp_amp_queue_create c p cb priv b (s2\<lparr>mem := m\<rparr>) = Some (ESP_OK, q, s3)"
    "fresh_handle ?n r isz cb priv b q" "pm_frame c (s2\<lparr>mem := m\<rparr>) s3"
    by (rule create_attach [of ?n p r isz "s2\<lparr>mem := m\<rparr>" c cb priv b]) (use home pm(2) in \<open>simp_all add: queue_home_def\<close>)
  have "s3 = s\<lparr>mem := m\<rparr>" using q(3) s2 pm(2) by (simp add: pm_frame_def)
  moreover have "len' \<noteq> 0" using n(1) by auto
  moreover note split_bytes [of isz len', folded bts, OF bytes(2,3)]
  ultimately have "esp_amp_queue_main_init clz c len item cb priv b i s = Some (ESP_OK, Some q, s\<lparr>mem := m\<rparr>)"
    "queue_made True ?n isz p r cb priv b q m"
    using isz(2) a nn ib home q
    by (simp_all add: esp_amp_queue_main_init_def Let_def len(1) [symmetric] isz(1) [symmetric] if_P [OF pm(1) [unfolded split_queue_def]]
        sizeof_queue_conf_def sizeof_queue_desc_def queue_made_def queue_descs_def queue_bufs_def)
  with hp rtc pa nn show ?thesis by blast
qed

subsection \<open>Subcore attaches to it\<close>

lemma sub_init_attach:
  assumes made: "queue_made split n isz p r cb priv b q (mem t)" and rs: "ring_size n"
    and ok: "pool_ok d SYS_INFO_CAP_HP (mem t) bs" "map_of bs i = Some sz" "p = buf_addr d SYS_INFO_CAP_HP i bs" "p \<noteq> NULL"
    and pm: "pm_active d \<Longrightarrow> port_ok d" "pm_active d \<Longrightarrow> pm_ready d p 12 t"
  shows "\<exists>qr t'. esp_amp_queue_sub_init d cb' priv' (\<not> b) i t = Some (ESP_OK, Some qr, t') \<and> mem t' = mem t \<and> pm_frame d t t' \<and>
    refines n (queue_descs split p r) isz (initial_queue n (queue_bufs split p n) isz) (if b then q else qr) (if b then qr else q) (mem t')"
proof -
  have home: "queue_home n p (queue_descs split p r) (queue_bufs split p n) isz (mem t)"
    and q: "fresh_handle n (queue_descs split p r) isz cb priv b q"
    using made by (simp_all add: queue_made_def)
  have get: "esp_amp_sys_info_get d i SYS_INFO_CAP_HP t = Some (p, Some sz)" using get_pool_eq [OF ok(1), of i] ok(2,3) by simp
  obtain qr t' where c: "esp_amp_queue_create d p cb' priv' (\<not> b) t = Some (ESP_OK, qr, t')" "mem t' = mem t"
    "fresh_handle n (queue_descs split p r) isz cb' priv' (\<not> b) qr" "pm_frame d t t'"
    by (rule create_attach [OF conjunct1 [OF home [unfolded queue_home_def]] pm, of cb' priv' "\<not> b"])
  have "refines n (queue_descs split p r) isz (initial_queue n (queue_bufs split p n) isz) (if b then q else qr) (if b then qr else q) (mem t')"
    using home_refines [OF home rs] q c(2,3) by (cases b) auto
  moreover have "esp_amp_queue_sub_init d cb' priv' (\<not> b) i t = Some (ESP_OK, Some qr, t')"
    using get ok(4) c(1) by (simp add: esp_amp_queue_sub_init_def)
  ultimately show ?thesis using c(2,4) by blast
qed

subsection \<open>Properties\<close>

text \<open>C4. Setting up a queue works, in both layouts: after maincore created it in shared memory and subcore
  attached to it by its id, in either role, the two handles refine the empty queue whose free list holds
  every buffer once, in order. The length is the next power of two, the item size the next multiple of
  four, and the sizes must fit the sixteen bit size of the allocator. With automatic light sleep and
  maincore as the master the descriptors are in the RTC pool, and the light sleep macros of the subcore
  leave the memory as it was.\<close>

theorem queue_setup_refines:
  assumes "shm_run c SYS_INFO_CAP_HP s bs" "mem_map_ok c" "IS_MAIN_CORE c" "peers c d"
    and "clz_spec clz" "2 \<le> unat len" "unat len \<le> 32768"
    and n: "n = unat (get_power_len clz len)" and isz: "isz = get_aligned_size item" "isz \<noteq> 0"
    and "split = split_queue c b" and "p = buf_after c SYS_INFO_CAP_HP bs" and "r = buf_after c SYS_INFO_CAP_RTC rs"
    and bytes: "queue_hp_bytes split n isz < 65536"
    and "i \<notin> fst ` set bs" "block_fits c SYS_INFO_CAP_HP bs (word_of_nat (queue_hp_bytes split n isz))"
    and "split \<longrightarrow> SUBCORE_TYPE_LP_CORE c \<and> shm_run c SYS_INFO_CAP_RTC s rs \<and> i \<notin> fst ` set rs \<and> 8 * n < 65536 \<and>
      block_fits c SYS_INFO_CAP_RTC rs (word_of_nat (8 * n))"
  shows "\<exists>qm s'. esp_amp_queue_main_init clz c len item cb priv b i s = Some (ESP_OK, Some qm, s') \<and>
    (\<forall>t. mem t = mem s' \<and> (pm_active d \<longrightarrow> port_ok d \<and> pm_ready d p 12 t) \<longrightarrow>
      (\<exists>qr t'. esp_amp_queue_sub_init d cb' priv' (\<not> b) i t = Some (ESP_OK, Some qr, t') \<and> mem t' = mem t \<and>
        refines n (queue_descs split p r) isz (initial_queue n (queue_bufs split p n) isz)
          (if b then qm else qr) (if b then qr else qm) (mem t')))"
proof -
  let ?hp = SYS_INFO_CAP_HP and ?l = "get_power_len clz len" and ?sz = "word_of_nat (queue_hp_bytes split n isz) :: u16"
  have ok: "pool_ok c ?hp (mem s) bs"
    using assms(1-3) by (rule shm_run_pool_ok) (simp add: cap_available_def)
  obtain k where "k \<le> 15" "n = 2 ^ k" using get_power_len_bits [OF assms(5-7)] n by metis
  then have rs: "ring_size n" by (auto simp: ring_size_def)
  have npm: "\<not> pm_active c" using assms(3) by (simp add: pm_active_def)
  have "\<exists>q m. esp_amp_queue_main_init clz c len item cb priv b i s = Some (ESP_OK, Some q, s\<lparr>mem := m\<rparr>) \<and>
    queue_made split n isz p (if split then r else NULL) cb priv b q m \<and> pool_ok c ?hp m (bs @ [(i, ?sz)]) \<and>
    p = buf_addr c ?hp i (bs @ [(i, ?sz)]) \<and> p \<noteq> NULL"
  proof (cases split)
    case True
    with assms(17) have rok: "pool_ok c SYS_INFO_CAP_RTC (mem s) rs" using shm_run_pool_ok [OF _ assms(2,3)] by (simp add: cap_available_def)
    from main_init_split [OF ok assms(15) rok _ assms(2) _ npm refl rs [unfolded n] isz refl _ _ _ _ assms(12,13)] True assms(11,14,16,17)
    show ?thesis by (simp add: n [symmetric]) blast
  next
    case False
    from main_init_joint [OF ok assms(15) _ npm refl rs [unfolded n] isz refl _ _ assms(12)] False assms(11,14,16)
    show ?thesis by (simp add: n [symmetric]) blast
  qed
  then obtain q m where m: "esp_amp_queue_main_init clz c len item cb priv b i s = Some (ESP_OK, Some q, s\<lparr>mem := m\<rparr>)"
    and made: "queue_made split n isz p (if split then r else NULL) cb priv b q m" and ok': "pool_ok c ?hp m (bs @ [(i, ?sz)])"
    and pa: "p = buf_addr c ?hp i (bs @ [(i, ?sz)])" "p \<noteq> NULL" by blast
  have made': "queue_made split n isz p r cb priv b q m" using made by (simp add: queue_made_def queue_descs_def split: if_splits)
  have look: "map_of (bs @ [(i, ?sz)]) i = Some ?sz" using assms(15) by (simp add: map_add_def map_of_eq_None_iff [THEN iffD2])
  have "\<exists>qr t'. esp_amp_queue_sub_init d cb' priv' (\<not> b) i t = Some (ESP_OK, Some qr, t') \<and> mem t' = mem t \<and>
        refines n (queue_descs split p r) isz (initial_queue n (queue_bufs split p n) isz)
          (if b then q else qr) (if b then qr else q) (mem t')"
    if t: "mem t = m" "pm_active d \<longrightarrow> port_ok d \<and> pm_ready d p 12 t" for t
    using sub_init_attach [of split n isz p r cb priv b q t d "bs @ [(i, ?sz)]" i ?sz cb' priv', OF _ rs _ look] made' ok' pa t
      peers_pool(3,4) [OF assms(4)] by auto
  with m show ?thesis by (intro exI [of _ q] exI [of _ "s\<lparr>mem := m\<rparr>"]) simp
qed

text \<open>The sample configuration with automatic light sleep.\<close>

definition sleep_config :: "bool \<Rightarrow> 'z config" where
  "sleep_config b = (demo_config b)\<lparr>AUTO_LIGHT_SLEEP_SUPPORT := True\<rparr>"

lemma sleep_config_simps [simp]:
  "IS_MAIN_CORE (sleep_config b) = b" "SUBCORE_TYPE_LP_CORE (sleep_config b)" "AUTO_LIGHT_SLEEP_SUPPORT (sleep_config b)"
  "port_ok (sleep_config b)" "pm_active (sleep_config b) = (\<not> b)"
  by (simp_all add: sleep_config_def demo_config_def port_ok_def pm_active_def)

lemma sleep_map [simp]:
  "pool_head (sleep_config b) SYS_INFO_CAP_HP = 0x4087a580" "pool_end (sleep_config b) SYS_INFO_CAP_HP = 0x4087e560"
  "pool_head (sleep_config b) SYS_INFO_CAP_RTC = 0x50002800" "pool_end (sleep_config b) SYS_INFO_CAP_RTC = 0x50003000"
  by (simp_all add: sleep_config_def pool_head_def pool_end_def demo_config_def ESP_AMP_HP_SHARED_MEM_POOL_START_def
      ESP_AMP_HP_SHARED_MEM_START_def ESP_AMP_RTC_SHARED_MEM_POOL_START_def
      ESP_AMP_RTC_SHARED_MEM_POOL_SIZE_def ALIGN_DOWN_def ALIGN_UP_def)

lemma sleep_peers: "mem_map_ok (sleep_config b)" "peers (sleep_config b) (demo_config (\<not> b))" "peers (sleep_config b) (sleep_config (\<not> b))"
  by (simp_all add: mem_map_ok_def peers_def) (simp_all add: sleep_config_def demo_config_def)

theorem queue_setup_refines_witness:
  "\<exists>q s' qr t'. esp_amp_queue_main_init clzsi2 (sleep_config True) 4 32 (None :: nat option) NULL True 0xff03
      (snd (esp_amp_sys_info_init (sleep_config True) demo_core)) = Some (ESP_OK, Some q, s') \<and>
    esp_amp_queue_sub_init (demo_config False) (None :: nat option) NULL False 0xff03 s' = Some (ESP_OK, Some qr, t') \<and>
    refines 4 0x50002810 32 (initial_queue 4 0x4087a59c 32) q qr (mem t')"
proof -
  let ?c = "sleep_config True :: unit config" and ?d = "demo_config False :: unit config"
  let ?s = "snd (esp_amp_sys_info_init ?c demo_core)"
  have hyps: "IS_MAIN_CORE ?c" "2 \<le> unat (4 :: u16)" "unat (4 :: u16) \<le> 32768" "True = split_queue ?c True" "(32 :: u16) \<noteq> 0"
    "queue_hp_bytes True 4 32 < 65536" "0xff03 \<notin> fst ` set ([] :: block list)" "peers ?c ?d"
    using sleep_peers(2) [of True] by (simp_all add: split_queue_def queue_hp_bytes_def)
  have size: "4 = unat (get_power_len clzsi2 4)" "32 = get_aligned_size 32"
    using power_len_exact [OF clz_spec_clzsi2, of 4 2] by (simp_all add: get_aligned_size_def Let_def)
  have place: "0x4087a590 = buf_after ?c SYS_INFO_CAP_HP []" "0x50002810 = buf_after ?c SYS_INFO_CAP_RTC []"
    by (simp_all add: buf_after_def)
  have fits: "block_fits ?c SYS_INFO_CAP_HP [] (word_of_nat (queue_hp_bytes True 4 32))"
    by (simp add: block_fits_def stride_def queue_hp_bytes_def)
  have rtc: "True \<longrightarrow> SUBCORE_TYPE_LP_CORE ?c \<and> shm_run ?c SYS_INFO_CAP_RTC ?s [] \<and> 0xff03 \<notin> fst ` set ([] :: block list) \<and>
      8 * 4 < (65536 :: nat) \<and> block_fits ?c SYS_INFO_CAP_RTC [] (word_of_nat (8 * 4))"
    using shm_run.init [where s = demo_core and c = ?c and cap = SYS_INFO_CAP_RTC] by (simp add: block_fits_def stride_def)
  from queue_setup_refines [OF shm_run.init [where s = demo_core] sleep_peers(1) hyps(1,8) clz_spec_clzsi2 hyps(2,3) size hyps(5,4) place hyps(6,7) fits rtc,
      where cb = None and priv = NULL and cb' = None and priv' = NULL]
  obtain q s' where m: "esp_amp_queue_main_init clzsi2 ?c 4 32 (None :: nat option) NULL True 0xff03 ?s = Some (ESP_OK, Some q, s')"
    and at: "\<forall>t :: core. mem t = mem s' \<and> (pm_active ?d \<longrightarrow> port_ok ?d \<and> pm_ready ?d 0x4087a590 12 t) \<longrightarrow>
      (\<exists>qr t'. esp_amp_queue_sub_init ?d (None :: nat option) NULL (\<not> True) 0xff03 t = Some (ESP_OK, Some qr, t') \<and> mem t' = mem t \<and>
        refines 4 (queue_descs True 0x4087a590 0x50002810) 32 (initial_queue 4 (queue_bufs True 0x4087a590 4) 32)
          (if True then q else qr) (if True then qr else q) (mem t'))" by blast
  have "\<not> pm_active ?d" by (simp add: pm_active_def)
  then obtain qr t' where "esp_amp_queue_sub_init ?d (None :: nat option) NULL False 0xff03 s' = Some (ESP_OK, Some qr, t')"
    "refines 4 0x50002810 32 (initial_queue 4 0x4087a59c 32) q qr (mem t')"
    using at [THEN spec, of s'] by (auto simp: queue_descs_def queue_bufs_def)
  with m show ?thesis by blast
qed

end
