(* ===== verification/Amp_Rpmsg.thy ===== *)
theory Amp_Rpmsg
  imports Amp_Queue_Setup
begin

text \<open>
  RPMsg, src/components/esp_amp/src/esp_amp_rpmsg.c and include/esp_amp_rpmsg.h: datagrams between
  numbered endpoints over one virtual queue per direction. An endpoint is a structure supplied by
  the application and chained into a singly linked list of the device.
\<close>

subsection \<open>Devices and endpoints\<close>

record 'e rpmsg_ept =
  rx_cb :: "'e option"
  rx_cb_data :: ptr
  next_ept :: ptr
  addr :: u16

text \<open>
  The device. \<open>ept_mem\<close> is the memory that holds endpoint structures, one per address. The function
  table \<open>queue_ops\<close> is filled once with the four operations of the virtual queue, which the
  definitions below call directly.
\<close>

record ('f, 'e) rpmsg_dev =
  rx_queue :: "'f esp_amp_queue"
  tx_queue :: "'f esp_amp_queue"
  ept_list :: ptr
  ept_mem :: "ptr \<Rightarrow> 'e rpmsg_ept"

text \<open>\<open>esp_amp_rpmsg_t\<close>: source, destination, length and flags, two bytes each, then the data.\<close>

definition msg_src_addr :: "memory \<Rightarrow> ptr \<Rightarrow> u16" where "msg_src_addr m p = load16 m p"
definition msg_dst_addr :: "memory \<Rightarrow> ptr \<Rightarrow> u16" where "msg_dst_addr m p = load16 m (p + 2)"
definition msg_data_len :: "memory \<Rightarrow> ptr \<Rightarrow> u16" where "msg_data_len m p = load16 m (p + 4)"
definition offsetof_msg_data :: u32 where "offsetof_msg_data = 8"
definition ESP_AMP_RPMSG_DATA_DEFAULT :: u16 where "ESP_AMP_RPMSG_DATA_DEFAULT = 0"

definition extend_endpoint_list :: "ptr \<Rightarrow> ('f, 'e) rpmsg_dev \<Rightarrow> ('f, 'e) rpmsg_dev" where
  "extend_endpoint_list new_ept dev =
     (if ept_list dev = NULL
      then dev\<lparr>ept_list := new_ept,
               ept_mem := (ept_mem dev)(new_ept := (ept_mem dev new_ept)\<lparr>next_ept := NULL\<rparr>)\<rparr>
      else dev\<lparr>ept_mem := (ept_mem dev)(new_ept := (ept_mem dev new_ept)\<lparr>next_ept := ept_list dev\<rparr>),
               ept_list := new_ept\<rparr>)"

text \<open>The list walk; \<open>None\<close> when the list is cyclic and the address is not in it.\<close>

partial_function (option) ept_walk :: "(ptr \<Rightarrow> 'e rpmsg_ept) \<Rightarrow> u16 \<Rightarrow> ptr \<Rightarrow> ptr option" where
  "ept_walk em ept_addr p =
     (if p = NULL then Some NULL
      else if addr (em p) = ept_addr then Some p
      else ept_walk em ept_addr (next_ept (em p)))"

definition search_endpoint :: "('f, 'e) rpmsg_dev \<Rightarrow> u16 \<Rightarrow> ptr option" where
  "search_endpoint dev ept_addr =
     (if ept_list dev = NULL then Some NULL else ept_walk (ept_mem dev) ept_addr (ept_list dev))"

definition esp_amp_rpmsg_search_endpoint ::
    "'z config \<Rightarrow> ('f, 'e) rpmsg_dev \<Rightarrow> u16 \<Rightarrow> 'z core_scheme \<Rightarrow> (ptr \<times> 'z core_scheme) option" where
  "esp_amp_rpmsg_search_endpoint c dev ept_addr s = do {
     let s1 = esp_amp_env_enter_critical c s;
     p \<leftarrow> search_endpoint dev ept_addr;
     Some (p, esp_amp_env_exit_critical c s1)
   }"

definition esp_amp_rpmsg_create_endpoint ::
    "'z config \<Rightarrow> u16 \<Rightarrow> 'e option \<Rightarrow> ptr \<Rightarrow> ptr \<Rightarrow> ('f, 'e) rpmsg_dev \<Rightarrow> 'z core_scheme \<Rightarrow>
     (ptr \<times> ('f, 'e) rpmsg_dev \<times> 'z core_scheme) option" where
  "esp_amp_rpmsg_create_endpoint c ept_addr ept_rx_cb ept_rx_cb_data ept_ctx dev s =
     (if ept_ctx = NULL then Some (NULL, dev, s)
      else do {
        let s1 = esp_amp_env_enter_critical c s;
        p \<leftarrow> search_endpoint dev ept_addr;
        if p \<noteq> NULL then Some (NULL, dev, esp_amp_env_exit_critical c s1)
        else let dev1 = dev\<lparr>ept_mem := (ept_mem dev)(ept_ctx := (ept_mem dev ept_ctx)
                              \<lparr>addr := ept_addr, rx_cb := ept_rx_cb, rx_cb_data := ept_rx_cb_data\<rparr>)\<rparr>;
                 dev2 = extend_endpoint_list ept_ctx dev1
             in Some (ept_ctx, dev2, esp_amp_env_exit_critical c s1)
      })"

text \<open>The loop of \<open>esp_amp_rpmsg_delete_endpoint\<close>: the entry found and its predecessor.\<close>

partial_function (option) ept_walk_prev ::
    "(ptr \<Rightarrow> 'e rpmsg_ept) \<Rightarrow> u16 \<Rightarrow> ptr \<Rightarrow> ptr \<Rightarrow> (ptr \<times> ptr) option" where
  "ept_walk_prev em ept_addr prev cur =
     (if cur = NULL then Some (prev, NULL)
      else if addr (em cur) = ept_addr then Some (prev, cur)
      else ept_walk_prev em ept_addr cur (next_ept (em cur)))"

definition esp_amp_rpmsg_delete_endpoint ::
    "'z config \<Rightarrow> u16 \<Rightarrow> ('f, 'e) rpmsg_dev \<Rightarrow> 'z core_scheme \<Rightarrow>
     (ptr \<times> ('f, 'e) rpmsg_dev \<times> 'z core_scheme) option" where
  "esp_amp_rpmsg_delete_endpoint c ept_addr dev s = do {
     let s1 = esp_amp_env_enter_critical c s;
     (prev_ept, cur_ept) \<leftarrow> ept_walk_prev (ept_mem dev) ept_addr NULL (ept_list dev);
     if cur_ept = NULL then Some (NULL, dev, esp_amp_env_exit_critical c s1)
     else let nxt = next_ept (ept_mem dev cur_ept);
              dev1 = (if prev_ept = NULL then dev\<lparr>ept_list := nxt\<rparr>
                      else dev\<lparr>ept_mem := (ept_mem dev)(prev_ept := (ept_mem dev prev_ept)\<lparr>next_ept := nxt\<rparr>)\<rparr>);
              dev2 = dev1\<lparr>ept_mem := (ept_mem dev1)(cur_ept := (ept_mem dev1 cur_ept)\<lparr>next_ept := NULL\<rparr>)\<rparr>
          in Some (cur_ept, dev2, esp_amp_env_exit_critical c s1)
   }"

definition esp_amp_rpmsg_rebind_endpoint ::
    "'z config \<Rightarrow> u16 \<Rightarrow> 'e option \<Rightarrow> ptr \<Rightarrow> ('f, 'e) rpmsg_dev \<Rightarrow> 'z core_scheme \<Rightarrow>
     (ptr \<times> ('f, 'e) rpmsg_dev \<times> 'z core_scheme) option" where
  "esp_amp_rpmsg_rebind_endpoint c ept_addr ept_rx_cb ept_rx_cb_data dev s = do {
     let s1 = esp_amp_env_enter_critical c s;
     p \<leftarrow> search_endpoint dev ept_addr;
     if p = NULL then Some (NULL, dev, esp_amp_env_exit_critical c s1)
     else Some (p, dev\<lparr>ept_mem := (ept_mem dev)(p := (ept_mem dev p)
                     \<lparr>rx_cb := ept_rx_cb, rx_cb_data := ept_rx_cb_data\<rparr>)\<rparr>,
                esp_amp_env_exit_critical c s1)
   }"

subsection \<open>Receiving\<close>

text \<open>
  Calling the callback of an endpoint with data pointer, length, source address and user pointer;
  it may use the device and change the state of its core.
\<close>

type_synonym ('f, 'e, 'z) ept_call =
  "'e \<Rightarrow> ptr \<Rightarrow> u16 \<Rightarrow> u16 \<Rightarrow> ptr \<Rightarrow> ('f, 'e) rpmsg_dev \<times> 'z core_scheme \<Rightarrow>
   (('f, 'e) rpmsg_dev \<times> 'z core_scheme) option"

definition rpmsg_dispatcher ::
    "('f, 'e, 'z) ept_call \<Rightarrow> ptr \<Rightarrow> ('f, 'e) rpmsg_dev \<times> 'z core_scheme \<Rightarrow>
     (int \<times> ('f, 'e) rpmsg_dev \<times> 'z core_scheme) option" where
  "rpmsg_dispatcher ecall rpmsg = (\<lambda>(dev, s). do {
     ept \<leftarrow> search_endpoint dev (msg_dst_addr (mem s) rpmsg);
     if ept = NULL then Some (-1, dev, s)
     else (case rx_cb (ept_mem dev ept) of
             None \<Rightarrow> Some (0, dev, s)
           | Some f \<Rightarrow> do {
               ds \<leftarrow> ecall f (rpmsg + offsetof_msg_data) (msg_data_len (mem s) rpmsg)
                       (msg_src_addr (mem s) rpmsg) (rx_cb_data (ept_mem dev ept)) (dev, s);
               Some (0, ds)
             })
   })"

definition esp_amp_rpmsg_poll ::
    "('f, 'e, 'z) ept_call \<Rightarrow> 'z config \<Rightarrow> ('f, 'e) rpmsg_dev \<times> 'z core_scheme \<Rightarrow>
     (int \<times> ('f, 'e) rpmsg_dev \<times> 'z core_scheme) option" where
  "esp_amp_rpmsg_poll ecall c = (\<lambda>(dev, s). do {
     (ret, rpmsg, rpmsg_size, q, s1) \<leftarrow> esp_amp_queue_recv_try c (rx_queue dev) s;
     let dev1 = dev\<lparr>rx_queue := q\<rparr>;
     if ret \<noteq> ESP_OK then Some (-1, dev1, s1) else rpmsg_dispatcher ecall rpmsg (dev1, s1)
   })"

partial_function (option) rpmsg_rx_callback ::
    "('f, 'e, 'z) ept_call \<Rightarrow> 'z config \<Rightarrow> ('f, 'e) rpmsg_dev \<times> 'z core_scheme \<Rightarrow>
     (int \<times> ('f, 'e) rpmsg_dev \<times> 'z core_scheme) option" where
  "rpmsg_rx_callback ecall c ds = do {
     (r, ds') \<leftarrow> esp_amp_rpmsg_poll ecall c ds;
     if r = 0 then rpmsg_rx_callback ecall c ds' else Some (0, ds')
   }"

definition rpmsg_tx_notify ::
    "'z config \<Rightarrow> ptr \<Rightarrow> 'z core_scheme \<Rightarrow> (int \<times> 'z core_scheme) option" where
  "rpmsg_tx_notify c data s = do {
     s1 \<leftarrow> esp_amp_sw_intr_trigger c SW_INTR_RESERVED_ID_RPMSG s;
     Some (0, s1)
   }"

definition esp_amp_rpmsg_intr_enable ::
    "('f, 'z) amp_config \<Rightarrow> ('f, 'e) rpmsg_dev \<Rightarrow> ('f, 'z) amp \<Rightarrow> (esp_err \<times> ('f, 'z) amp) option" where
  "esp_amp_rpmsg_intr_enable c dev s =
     esp_amp_queue_intr_enable c (rx_queue dev) SW_INTR_RESERVED_ID_RPMSG s"

subsection \<open>Setting up a device\<close>

definition rpmsg_dev_init ::
    "'f esp_amp_queue \<Rightarrow> 'f esp_amp_queue \<Rightarrow> ('f, 'e) rpmsg_dev \<Rightarrow> ('f, 'e) rpmsg_dev" where
  "rpmsg_dev_init vqueue0 vqueue1 dev = dev\<lparr>tx_queue := vqueue0, rx_queue := vqueue1, ept_list := NULL\<rparr>"

text \<open>
  \<open>tx_notify\<close> and \<open>rx_callback\<close> are the function pointers of the two static functions above,
  \<open>p\<close> is the address of the device. Both layouts of the shared block are as in the code.
\<close>

definition esp_amp_rpmsg_main_init_by_id ::
    "(u32 \<Rightarrow> nat) \<Rightarrow> 'f \<Rightarrow> 'f \<Rightarrow> 'z config \<Rightarrow> ptr \<Rightarrow> u16 \<Rightarrow> u16 \<Rightarrow> bool \<Rightarrow> bool \<Rightarrow> u16 \<Rightarrow>
     ('f, 'e) rpmsg_dev \<Rightarrow> 'z core_scheme \<Rightarrow> (int \<times> ('f, 'e) rpmsg_dev \<times> 'z core_scheme) option" where
  "esp_amp_rpmsg_main_init_by_id clz tx_notify rx_callback c p queue_len queue_item_size notify poll
      sysinfo_id dev s =
     (let aligned_queue_len = get_power_len clz queue_len;
          aligned_queue_item_size = get_aligned_size queue_item_size;
          data_size = ucast aligned_queue_item_size * ucast aligned_queue_len;
          desc_size = sizeof_queue_desc * ucast aligned_queue_len;
          tx_notify_fc = (if notify then Some tx_notify else None);
          rx_callback_fc = (if poll then None else Some rx_callback);
          set_up = (\<lambda>vq_tx_config vq_rx_config vq_tx_desc vq_rx_desc vq_tx_data_buffer vq_rx_data_buffer s. do {
            (_, s1) \<leftarrow> esp_amp_queue_init_buffer c vq_tx_config aligned_queue_len
                         aligned_queue_item_size vq_tx_desc vq_tx_data_buffer s;
            (_, s2) \<leftarrow> esp_amp_queue_init_buffer c vq_rx_config aligned_queue_len
                         aligned_queue_item_size vq_rx_desc vq_rx_data_buffer s1;
            (_, vq0, s3) \<leftarrow> esp_amp_queue_create c vq_tx_config tx_notify_fc p True s2;
            (_, vq1, s4) \<leftarrow> esp_amp_queue_create c vq_rx_config rx_callback_fc p False s3;
            Some (0, rpmsg_dev_init vq0 vq1 dev, s4)
          })
      in if aligned_queue_len = 0 \<or> aligned_queue_item_size = 0 then Some (-1, dev, s)
         else if AUTO_LIGHT_SLEEP_SUPPORT c then do {
           (hp, s1) \<leftarrow> esp_amp_sys_info_alloc c sysinfo_id
              (ucast (2 * (sizeof_queue_conf + data_size) + desc_size)) SYS_INFO_CAP_HP s;
           if hp = NULL then Some (-1, dev, s1)
           else let vq_tx_config = hp;
                    vq_rx_config = hp + sizeof_queue_conf;
                    vq_rx_desc = vq_rx_config + sizeof_queue_conf;
                    vq_tx_data_buffer = vq_rx_desc + desc_size;
                    vq_rx_data_buffer = vq_tx_data_buffer + data_size
                in do {
                  (rtc, s2) \<leftarrow> esp_amp_sys_info_alloc c sysinfo_id (ucast desc_size) SYS_INFO_CAP_RTC s1;
                  if rtc = NULL then Some (-1, dev, s2)
                  else set_up vq_tx_config vq_rx_config rtc vq_rx_desc vq_tx_data_buffer vq_rx_data_buffer s2
                }
         } else do {
           (b, s1) \<leftarrow> esp_amp_sys_info_alloc c sysinfo_id
              (ucast (2 * (sizeof_queue_conf + desc_size + data_size))) SYS_INFO_CAP_HP s;
           if b = NULL then Some (-1, dev, s1)
           else let vq_tx_config = b;
                    vq_rx_config = b + sizeof_queue_conf;
                    vq_tx_desc = vq_rx_config + sizeof_queue_conf;
                    vq_rx_desc = vq_tx_desc + desc_size;
                    vq_tx_data_buffer = vq_rx_desc + desc_size;
                    vq_rx_data_buffer = vq_tx_data_buffer + data_size
                in set_up vq_tx_config vq_rx_config vq_tx_desc vq_rx_desc vq_tx_data_buffer vq_rx_data_buffer s1
         })"

definition esp_amp_rpmsg_main_init ::
    "(u32 \<Rightarrow> nat) \<Rightarrow> 'f \<Rightarrow> 'f \<Rightarrow> 'z config \<Rightarrow> ptr \<Rightarrow> u16 \<Rightarrow> u16 \<Rightarrow> bool \<Rightarrow> bool \<Rightarrow>
     ('f, 'e) rpmsg_dev \<Rightarrow> 'z core_scheme \<Rightarrow> (int \<times> ('f, 'e) rpmsg_dev \<times> 'z core_scheme) option" where
  "esp_amp_rpmsg_main_init clz tx_notify rx_callback c p queue_len queue_item_size notify poll dev s =
     esp_amp_rpmsg_main_init_by_id clz tx_notify rx_callback c p queue_len queue_item_size notify poll
       SYS_INFO_RESERVED_ID_VQUEUE dev s"

definition esp_amp_rpmsg_sub_init_by_id ::
    "'f \<Rightarrow> 'f \<Rightarrow> 'z config \<Rightarrow> ptr \<Rightarrow> bool \<Rightarrow> bool \<Rightarrow> u16 \<Rightarrow>
     ('f, 'e) rpmsg_dev \<Rightarrow> 'z core_scheme \<Rightarrow> (int \<times> ('f, 'e) rpmsg_dev \<times> 'z core_scheme) option" where
  "esp_amp_rpmsg_sub_init_by_id tx_notify rx_callback c p notify poll sysinfo_id dev s =
     (let s1 = PM_SKIP_LIGHT_SLEEP_ENTER c s
      in do {
        (vq_buffer, _) \<leftarrow> esp_amp_sys_info_get c sysinfo_id SYS_INFO_CAP_HP s1;
        (ret, dev', s2) \<leftarrow>
          (if vq_buffer = NULL then Some (-1, dev, s1)
           else do {
             let tx_notify_fc = (if notify then Some tx_notify else None);
             let rx_callback_fc = (if poll then None else Some rx_callback);
             let vq_tx_confg = vq_buffer + sizeof_queue_conf;
             let vq_rx_confg = vq_buffer;
             (_, vq0, s2) \<leftarrow> esp_amp_queue_create c vq_tx_confg tx_notify_fc p True s1;
             (_, vq1, s3) \<leftarrow> esp_amp_queue_create c vq_rx_confg rx_callback_fc p False s2;
             Some (0, rpmsg_dev_init vq0 vq1 dev, s3)
           });
        s4 \<leftarrow> PM_SKIP_LIGHT_SLEEP_EXIT c s2;
        Some (ret, dev', s4)
      })"

definition esp_amp_rpmsg_sub_init ::
    "'f \<Rightarrow> 'f \<Rightarrow> 'z config \<Rightarrow> ptr \<Rightarrow> bool \<Rightarrow> bool \<Rightarrow>
     ('f, 'e) rpmsg_dev \<Rightarrow> 'z core_scheme \<Rightarrow> (int \<times> ('f, 'e) rpmsg_dev \<times> 'z core_scheme) option" where
  "esp_amp_rpmsg_sub_init tx_notify rx_callback c p notify poll dev s =
     esp_amp_rpmsg_sub_init_by_id tx_notify rx_callback c p notify poll SYS_INFO_RESERVED_ID_VQUEUE dev s"

subsection \<open>Sending\<close>

definition esp_amp_rpmsg_create_message ::
    "'z config \<Rightarrow> u32 \<Rightarrow> u16 \<Rightarrow> ('f, 'e) rpmsg_dev \<Rightarrow> 'z core_scheme \<Rightarrow>
     (ptr \<times> ('f, 'e) rpmsg_dev \<times> 'z core_scheme) option" where
  "esp_amp_rpmsg_create_message c nbytes flags dev s =
     (let rpmsg_size = nbytes + offsetof_msg_data
      in if 65536 \<le> rpmsg_size then Some (NULL, dev, s)
         else do {
           let s1 = esp_amp_env_enter_critical c s;
           (ret, rpmsg, q, s2) \<leftarrow> esp_amp_queue_alloc_try c (tx_queue dev) (ucast rpmsg_size) s1;
           let s3 = esp_amp_env_exit_critical c s2;
           let dev1 = dev\<lparr>tx_queue := q\<rparr>;
           if rpmsg = NULL \<or> ret = ESP_FAIL then Some (NULL, dev1, s3)
           else let m1 = store16 (mem s3) (rpmsg + 6) flags;
                    m2 = store16 m1 (rpmsg + 4) (ucast nbytes)
                in Some (rpmsg + offsetof_msg_data, dev1, s3\<lparr>mem := m2\<rparr>)
         })"

definition esp_amp_rpmsg_send_nocopy ::
    "('f \<Rightarrow> ptr \<Rightarrow> 'z core_scheme \<Rightarrow> (int \<times> 'z core_scheme) option) \<Rightarrow> 'z config \<Rightarrow> ptr \<Rightarrow> u16 \<Rightarrow>
     ptr \<Rightarrow> u16 \<Rightarrow> ('f, 'e) rpmsg_dev \<Rightarrow> 'z core_scheme \<Rightarrow>
     (esp_err \<times> ('f, 'e) rpmsg_dev \<times> 'z core_scheme) option" where
  "esp_amp_rpmsg_send_nocopy call c ept dst_addr data data_len dev s =
     (let rpmsg = data - offsetof_msg_data;
          m1 = store16 (mem s) (rpmsg + 4) data_len;
          m2 = store16 m1 (rpmsg + 2) dst_addr;
          m3 = store16 m2 rpmsg (addr (ept_mem dev ept));
          s1 = esp_amp_env_enter_critical c (s\<lparr>mem := m3\<rparr>)
      in do {
        (ret, q, s2) \<leftarrow> esp_amp_queue_send_try call c (tx_queue dev) rpmsg (max_item_size (tx_queue dev)) s1;
        Some (ret, dev\<lparr>tx_queue := q\<rparr>, esp_amp_env_exit_critical c s2)
      })"

text \<open>The byte-wise copy loop of \<open>esp_amp_rpmsg_send\<close>; \<open>n\<close> iterations are left.\<close>

fun copy_loop :: "ptr \<Rightarrow> ptr \<Rightarrow> u16 \<Rightarrow> nat \<Rightarrow> memory \<Rightarrow> memory" where
  "copy_loop dst src i 0 m = m"
| "copy_loop dst src i (Suc n) m =
     copy_loop dst src (i + 1) n (store8 m (dst + ucast i) (load8 m (src + ucast i)))"

definition esp_amp_rpmsg_send ::
    "('f \<Rightarrow> ptr \<Rightarrow> 'z core_scheme \<Rightarrow> (int \<times> 'z core_scheme) option) \<Rightarrow> 'z config \<Rightarrow> ptr \<Rightarrow> u16 \<Rightarrow>
     ptr \<Rightarrow> u16 \<Rightarrow> ('f, 'e) rpmsg_dev \<Rightarrow> 'z core_scheme \<Rightarrow>
     (esp_err \<times> ('f, 'e) rpmsg_dev \<times> 'z core_scheme) option" where
  "esp_amp_rpmsg_send call c ept dst_addr data data_len dev s =
     (if data = NULL \<or> data_len = 0 then Some (ESP_FAIL, dev, s)
      else do {
        (buffer, dev1, s1) \<leftarrow> esp_amp_rpmsg_create_message c (ucast data_len) ESP_AMP_RPMSG_DATA_DEFAULT dev s;
        if buffer = NULL then Some (ESP_FAIL, dev1, s1)
        else esp_amp_rpmsg_send_nocopy call c ept dst_addr buffer data_len dev1
               (s1\<lparr>mem := copy_loop buffer data 0 (unat data_len) (mem s1)\<rparr>)
      })"

definition esp_amp_rpmsg_destroy ::
    "'z config \<Rightarrow> ptr \<Rightarrow> ('f, 'e) rpmsg_dev \<Rightarrow> 'z core_scheme \<Rightarrow>
     (esp_err \<times> ('f, 'e) rpmsg_dev \<times> 'z core_scheme) option" where
  "esp_amp_rpmsg_destroy c msg_data dev s =
     (let rpmsg = msg_data - offsetof_msg_data;
          s1 = esp_amp_env_enter_critical c s
      in do {
        (ret, q, s2) \<leftarrow> esp_amp_queue_free_try c (rx_queue dev) rpmsg s1;
        Some (ret, dev\<lparr>rx_queue := q\<rparr>, esp_amp_env_exit_critical c s2)
      })"

definition esp_amp_rpmsg_get_max_size :: "('f, 'e) rpmsg_dev \<Rightarrow> u16" where
  "esp_amp_rpmsg_get_max_size dev = ucast (ucast (max_item_size (tx_queue dev)) - offsetof_msg_data)"

end
