(* ===== verification/Amp_Rpmsg_Ept.thy ===== *)
theory Amp_Rpmsg_Ept
  imports Amp_Rpmsg
begin

text \<open>
  The endpoint list of an RPMsg device as a finite map from endpoint addresses: creation, removal,
  rebinding and search on the linked list refine insertion, deletion, update and lookup.
\<close>

subsection \<open>The linked list\<close>

fun seg :: "(ptr \<Rightarrow> 'e rpmsg_ept) \<Rightarrow> ptr \<Rightarrow> ptr list \<Rightarrow> ptr \<Rightarrow> bool" where
  "seg em p [] q \<longleftrightarrow> p = q"
| "seg em p (x # xs) q \<longleftrightarrow> p = x \<and> x \<noteq> NULL \<and> seg em (next_ept (em x)) xs q"

lemma seg_append: "seg em p (xs @ ys) r \<longleftrightarrow> (\<exists>q. seg em p xs q \<and> seg em q ys r)"
  by (induction xs arbitrary: p) auto

lemma seg_cong: "(\<And>x. x \<in> set xs \<Longrightarrow> next_ept (em' x) = next_ept (em x)) \<Longrightarrow> seg em' p xs q = seg em p xs q"
  by (induction xs arbitrary: p) auto

lemma seg_nonnull: "seg em p xs q \<Longrightarrow> NULL \<notin> set xs"
  by (induction xs arbitrary: p) auto

lemma ept_walk_seg:
  "seg em p xs NULL \<Longrightarrow>
   ept_walk em a p = Some (case find (\<lambda>x. addr (em x) = a) xs of None \<Rightarrow> NULL | Some x \<Rightarrow> x)"
proof (induction xs arbitrary: p)
  case Nil
  then show ?case by (simp add: ept_walk.simps [of em a NULL])
next
  case (Cons x xs)
  then show ?case by (auto simp: ept_walk.simps [of em a x])
qed

lemma ept_walk_prev_found:
  "seg em p ys x \<Longrightarrow> x \<noteq> NULL \<Longrightarrow> addr (em x) = a \<Longrightarrow> (\<forall>y \<in> set ys. addr (em y) \<noteq> a) \<Longrightarrow>
   ept_walk_prev em a prev p = Some (last (prev # ys), x)"
proof (induction ys arbitrary: p prev)
  case Nil
  then show ?case by (simp add: ept_walk_prev.simps [of em a prev x])
next
  case (Cons y ys)
  then show ?case by (simp add: ept_walk_prev.simps [of em a prev y])
qed

lemma ept_walk_prev_missing:
  "seg em p xs NULL \<Longrightarrow> (\<forall>y \<in> set xs. addr (em y) \<noteq> a) \<Longrightarrow>
   \<exists>q. ept_walk_prev em a prev p = Some (q, NULL)"
proof (induction xs arbitrary: p prev)
  case Nil
  then show ?case by (simp add: ept_walk_prev.simps [of em a prev NULL])
next
  case (Cons x xs)
  then show ?case by (simp add: ept_walk_prev.simps [of em a prev x])
qed

subsection \<open>The endpoints as an association list\<close>

type_synonym 'e binding = "ptr \<times> 'e option \<times> ptr"

definition view :: "('f, 'e) rpmsg_dev \<Rightarrow> ptr list \<Rightarrow> (u16 \<times> 'e binding) list" where
  "view dev xs = map (\<lambda>x. let e = ept_mem dev x in (addr e, x, rx_cb e, rx_cb_data e)) xs"

definition epts_ok :: "('f, 'e) rpmsg_dev \<Rightarrow> ptr list \<Rightarrow> bool" where
  "epts_ok dev xs \<longleftrightarrow> seg (ept_mem dev) (ept_list dev) xs NULL \<and> distinct xs \<and>
     distinct (map (\<lambda>x. addr (ept_mem dev x)) xs)"

definition ept_rel :: "('f, 'e) rpmsg_dev \<Rightarrow> (u16 \<times> 'e binding) list \<Rightarrow> bool" where
  "ept_rel dev v \<longleftrightarrow> (\<exists>xs. epts_ok dev xs \<and> v = view dev xs)"

definition ptr_of :: "'e binding option \<Rightarrow> ptr" where
  "ptr_of b = (case b of None \<Rightarrow> NULL | Some (x, _) \<Rightarrow> x)"

lemma map_of_view:
  "map_of (view dev xs) a =
     map_option (\<lambda>x. (x, rx_cb (ept_mem dev x), rx_cb_data (ept_mem dev x)))
       (find (\<lambda>x. addr (ept_mem dev x) = a) xs)"
  by (induction xs) (auto simp: view_def Let_def)

lemma find_in_set: "find P xs = Some x \<Longrightarrow> x \<in> set xs \<and> P x"
  by (induction xs) (auto split: if_splits)

lemma view_cong:
  "(\<And>x. x \<in> set xs \<Longrightarrow> addr (ept_mem dev' x) = addr (ept_mem dev x) \<and>
     rx_cb (ept_mem dev' x) = rx_cb (ept_mem dev x) \<and> rx_cb_data (ept_mem dev' x) = rx_cb_data (ept_mem dev x)) \<Longrightarrow>
   view dev' xs = view dev xs"
  by (simp add: view_def Let_def)

lemma view_simps [simp]:
  "view dev [] = []" "view dev (ys @ zs) = view dev ys @ view dev zs"
  "view dev (x # xs) = (addr (ept_mem dev x), x, rx_cb (ept_mem dev x), rx_cb_data (ept_mem dev x)) # view dev xs"
  by (simp_all add: view_def Let_def)

lemma view_filter_other:
  "\<forall>y \<in> set xs. addr (ept_mem dev y) \<noteq> a \<Longrightarrow> filter (\<lambda>(k, _). k \<noteq> a) (view dev xs) = view dev xs"
  by (induction xs) simp_all

lemma ptrs_of_view: "fst ` snd ` set (view dev xs) = set xs"
  by (force simp: view_def Let_def)

lemma addrs_of_view: "fst ` set (view dev xs) = (\<lambda>x. addr (ept_mem dev x)) ` set xs"
  by (force simp: view_def Let_def)

lemma search_view:
  assumes "epts_ok dev xs"
  shows "search_endpoint dev a = Some (ptr_of (map_of (view dev xs) a))"
proof (cases "ept_list dev = NULL")
  case True
  then have "xs = []" using assms by (cases xs) (auto simp: epts_ok_def)
  then show ?thesis using True by (simp add: search_endpoint_def view_def ptr_of_def)
next
  case False
  have "seg (ept_mem dev) (ept_list dev) xs NULL" using assms by (simp add: epts_ok_def)
  from ept_walk_seg [OF this] False show ?thesis
    by (simp add: search_endpoint_def map_of_view ptr_of_def split: option.split)
qed

lemma ptr_of_null:
  "epts_ok dev xs \<Longrightarrow> ptr_of (map_of (view dev xs) a) = NULL \<longleftrightarrow> map_of (view dev xs) a = None"
  using seg_nonnull [of "ept_mem dev" "ept_list dev" xs NULL]
  by (cases "find (\<lambda>x. addr (ept_mem dev x) = a) xs")
    (auto simp: epts_ok_def map_of_view ptr_of_def dest!: find_in_set)

text \<open>Creation puts the new endpoint at the head of the list.\<close>

lemma create_view:
  assumes "epts_ok dev xs" and "x \<noteq> NULL" and "x \<notin> set xs" and "map_of (view dev xs) a = None"
    and "dev' = extend_endpoint_list x (dev\<lparr>ept_mem := (ept_mem dev)(x := (ept_mem dev x)
      \<lparr>addr := a, rx_cb := cb, rx_cb_data := d\<rparr>)\<rparr>)"
  shows "epts_ok dev' (x # xs) \<and> view dev' (x # xs) = (a, x, cb, d) # view dev xs"
proof -
  have same: "ept_mem dev' y = ept_mem dev y" if "y \<in> set xs" for y
    using that assms(3,5) by (auto simp: extend_endpoint_list_def)
  have new: "addr (ept_mem dev' x) = a" "rx_cb (ept_mem dev' x) = cb" "rx_cb_data (ept_mem dev' x) = d"
    "ept_list dev' = x" "next_ept (ept_mem dev' x) = ept_list dev"
    using assms(5) by (simp_all add: extend_endpoint_list_def)
  have "seg (ept_mem dev') (ept_list dev) xs NULL"
    using assms(1) seg_cong [of xs "ept_mem dev'" "ept_mem dev"] same by (simp add: epts_ok_def)
  then have sg: "seg (ept_mem dev') (ept_list dev') (x # xs) NULL" using new assms(2) by simp
  have "map (\<lambda>y. addr (ept_mem dev' y)) xs = map (\<lambda>y. addr (ept_mem dev y)) xs" using same by simp
  then have "distinct (map (\<lambda>y. addr (ept_mem dev' y)) xs)"
    "set (map (\<lambda>y. addr (ept_mem dev' y)) xs) = set (map (\<lambda>y. addr (ept_mem dev y)) xs)"
    using assms(1) by (simp_all only: epts_ok_def)
  moreover have "a \<notin> (\<lambda>y. addr (ept_mem dev y)) ` set xs"
    using assms(4) by (simp add: map_of_eq_None_iff addrs_of_view)
  ultimately have "distinct (map (\<lambda>y. addr (ept_mem dev' y)) (x # xs))"
    unfolding list.map distinct.simps new(1) by (simp only: set_map simp_thms)
  with sg assms(1,3) have "epts_ok dev' (x # xs)" by (simp add: epts_ok_def)
  moreover have "view dev' xs = view dev xs" by (rule view_cong) (simp add: same)
  ultimately show ?thesis by (simp only: view_simps new)
qed

lemma rebind_view:
  assumes "epts_ok dev xs" and "find (\<lambda>x. addr (ept_mem dev x) = a) xs = Some x"
    and "dev' = dev\<lparr>ept_mem := (ept_mem dev)(x := (ept_mem dev x)\<lparr>rx_cb := cb, rx_cb_data := d\<rparr>)\<rparr>"
  shows "epts_ok dev' xs \<and>
    view dev' xs = map (\<lambda>(k, b). if k = a then (k, fst b, cb, d) else (k, b)) (view dev xs)"
proof -
  have x: "x \<in> set xs" "addr (ept_mem dev x) = a"
    using assms(2) by (auto simp: find_Some_iff)
  have only: "y = x" if "y \<in> set xs" "addr (ept_mem dev y) = a" for y
    using assms(1) that x by (auto simp: epts_ok_def distinct_map inj_on_def)
  have addr: "addr (ept_mem dev' y) = addr (ept_mem dev y)" "next_ept (ept_mem dev' y) = next_ept (ept_mem dev y)" for y
    using assms(3) by simp_all
  have "seg (ept_mem dev') (ept_list dev') xs NULL"
    using assms(1,3) seg_cong [of xs "ept_mem dev'" "ept_mem dev"] addr(2) by (simp add: epts_ok_def)
  moreover have "view dev' xs = map (\<lambda>(k, b). if k = a then (k, fst b, cb, d) else (k, b)) (view dev xs)"
    unfolding view_def map_map
  proof (rule map_cong [OF refl])
    fix y assume "y \<in> set xs"
    then show "(let e = ept_mem dev' y in (addr e, y, rx_cb e, rx_cb_data e)) =
        ((\<lambda>(k, b). if k = a then (k, fst b, cb, d) else (k, b)) \<circ>
         (\<lambda>x. let e = ept_mem dev x in (addr e, x, rx_cb e, rx_cb_data e))) y"
      using only [of y] x(2) assms(3) by (cases "y = x") (auto simp: Let_def)
  qed
  ultimately show ?thesis using assms(1) addr(1) by (simp add: epts_ok_def)
qed

text \<open>Removal unlinks the entry, wherever in the list it is.\<close>

lemma delete_view:
  assumes "epts_ok dev (ys @ x # zs)" and "addr (ept_mem dev x) = a"
    and "dev1 = (if ys = [] then dev\<lparr>ept_list := next_ept (ept_mem dev x)\<rparr>
      else dev\<lparr>ept_mem := (ept_mem dev)(last ys := (ept_mem dev (last ys))\<lparr>next_ept := next_ept (ept_mem dev x)\<rparr>)\<rparr>)"
    and "dev' = dev1\<lparr>ept_mem := (ept_mem dev1)(x := (ept_mem dev1 x)\<lparr>next_ept := NULL\<rparr>)\<rparr>"
  shows "epts_ok dev' (ys @ zs) \<and> view dev' (ys @ zs) = filter (\<lambda>(k, _). k \<noteq> a) (view dev (ys @ x # zs))"
proof -
  let ?em = "ept_mem dev" and ?em' = "ept_mem dev'"
  from assms(1) have dist: "x \<notin> set ys" "x \<notin> set zs" "distinct ys" "distinct zs" "set ys \<inter> set zs = {}"
    and addrs: "distinct (map (\<lambda>y. addr (?em y)) (ys @ x # zs))"
    and sg: "seg ?em (ept_list dev) ys x" "seg ?em (next_ept (?em x)) zs NULL" "x \<noteq> NULL"
    by (auto simp: epts_ok_def seg_append)
  have fields: "addr (?em' y) = addr (?em y) \<and> rx_cb (?em' y) = rx_cb (?em y) \<and> rx_cb_data (?em' y) = rx_cb_data (?em y)" for y
    using assms(3,4) by simp
  have tail: "next_ept (?em' y) = next_ept (?em y)" if "y \<in> set zs" for y
    using that assms(3,4) dist by (auto dest: last_in_set)
  have zs: "seg ?em' (next_ept (?em x)) zs NULL" using sg(2) seg_cong [of zs ?em' ?em] tail by simp
  have "seg ?em' (ept_list dev') (ys @ zs) NULL"
  proof (cases ys rule: rev_cases)
    case Nil
    then show ?thesis using zs assms(3,4) by simp
  next
    case (snoc us u)
    then have "next_ept (?em' y) = next_ept (?em y)" if "y \<in> set us" for y
      using that assms(3,4) dist by auto
    then have "seg ?em' (ept_list dev) us u"
      using sg(1) snoc seg_cong [of us ?em' ?em] by (simp add: seg_append)
    moreover have "next_ept (?em' u) = next_ept (?em x)" "u \<noteq> NULL" "ept_list dev' = ept_list dev"
      using snoc assms(3,4) dist seg_nonnull [OF sg(1)] by auto
    ultimately show ?thesis using zs snoc by (auto simp: seg_append)
  qed
  moreover have "view dev' (ys @ zs) = filter (\<lambda>(k, _). k \<noteq> a) (view dev (ys @ x # zs))"
  proof -
    have "\<forall>y \<in> set ys. addr (?em y) \<noteq> a" "\<forall>y \<in> set zs. addr (?em y) \<noteq> a"
      using addrs assms(2) by (simp_all add: image_iff) metis+
    moreover have "view dev' us = view dev us" for us by (rule view_cong) (simp add: fields)
    ultimately show ?thesis using assms(2) by (simp add: view_filter_other)
  qed
  ultimately show ?thesis using dist addrs fields by (auto simp: epts_ok_def)
qed

subsection \<open>The operations\<close>

lemma search_law:
  assumes "ept_rel dev v"
  shows "\<exists>s'. esp_amp_rpmsg_search_endpoint c dev a s = Some (ptr_of (map_of v a), s')"
  using assms search_view by (fastforce simp: ept_rel_def esp_amp_rpmsg_search_endpoint_def)

lemma create_law:
  assumes "ept_rel dev v" and "x \<noteq> NULL" and "x \<notin> fst ` snd ` set v"
  shows "\<exists>dev' s'. esp_amp_rpmsg_create_endpoint c a cb d x dev s =
      Some (if map_of v a = None then x else NULL, dev', s') \<and>
    ept_rel dev' (if map_of v a = None then (a, x, cb, d) # v else v)"
proof -
  from assms(1) obtain xs where ok: "epts_ok dev xs" and v: "v = view dev xs" by (auto simp: ept_rel_def)
  note srch = search_view [OF ok, of a] ptr_of_null [OF ok, of a]
  show ?thesis
  proof (cases "map_of v a = None")
    case True
    with create_view [OF ok assms(2) _ _ refl, where a = a and cb = cb and d = d] assms(3) v srch show ?thesis
      using assms(2) by (auto simp: esp_amp_rpmsg_create_endpoint_def ptrs_of_view ept_rel_def Let_def)
  next
    case False
    with srch v assms(1,2) show ?thesis by (simp add: esp_amp_rpmsg_create_endpoint_def Let_def)
  qed
qed

lemma rebind_law:
  assumes "ept_rel dev v"
  shows "\<exists>dev' s'. esp_amp_rpmsg_rebind_endpoint c a cb d dev s = Some (ptr_of (map_of v a), dev', s') \<and>
    ept_rel dev' (map (\<lambda>(k, b). if k = a then (k, fst b, cb, d) else (k, b)) v)"
proof -
  from assms obtain xs where ok: "epts_ok dev xs" and v: "v = view dev xs" by (auto simp: ept_rel_def)
  note srch = search_view [OF ok, of a] ptr_of_null [OF ok, of a]
  show ?thesis
  proof (cases "find (\<lambda>x. addr (ept_mem dev x) = a) xs")
    case None
    then have "\<forall>y \<in> set xs. addr (ept_mem dev y) \<noteq> a" by (auto simp: find_None_iff)
    then have "map (\<lambda>(k, b). if k = a then (k, fst b, cb, d) else (k, b)) (view dev xs) = view dev xs"
      by (induction xs) simp_all
    with None srch v assms show ?thesis by (simp add: esp_amp_rpmsg_rebind_endpoint_def Let_def map_of_view)
  next
    case (Some x)
    then have "ptr_of (map_of v a) = x" "x \<noteq> NULL"
      using srch v by (auto simp: map_of_view ptr_of_def)
    with rebind_view [OF ok Some refl, where cb = cb and d = d] srch v show ?thesis
      by (auto simp: esp_amp_rpmsg_rebind_endpoint_def Let_def ept_rel_def)
  qed
qed

lemma delete_law:
  assumes "ept_rel dev v"
  shows "\<exists>dev' s'. esp_amp_rpmsg_delete_endpoint c a dev s = Some (ptr_of (map_of v a), dev', s') \<and>
    ept_rel dev' (filter (\<lambda>(k, _). k \<noteq> a) v)"
proof -
  from assms obtain xs where ok: "epts_ok dev xs" and v: "v = view dev xs" by (auto simp: ept_rel_def)
  have sg: "seg (ept_mem dev) (ept_list dev) xs NULL" using ok by (simp add: epts_ok_def)
  show ?thesis
  proof (cases "find (\<lambda>x. addr (ept_mem dev x) = a) xs")
    case None
    then have no: "\<forall>y \<in> set xs. addr (ept_mem dev y) \<noteq> a" by (auto simp: find_None_iff)
    with ept_walk_prev_missing [OF sg no, of NULL] None v assms show ?thesis
      by (auto simp: esp_amp_rpmsg_delete_endpoint_def Let_def map_of_view ptr_of_def view_filter_other)
  next
    case (Some x)
    then have x: "x \<in> set xs" "addr (ept_mem dev x) = a" using find_in_set [OF Some] by auto
    then obtain ys zs where xs: "xs = ys @ x # zs" by (meson split_list)
    have "\<forall>y \<in> set ys. addr (ept_mem dev y) \<noteq> a"
      using ok x(2) xs by (auto simp: epts_ok_def image_iff)
    moreover have "seg (ept_mem dev) (ept_list dev) ys x" "x \<noteq> NULL" using sg xs by (auto simp: seg_append)
    ultimately have w: "ept_walk_prev (ept_mem dev) a NULL (ept_list dev) = Some (last (NULL # ys), x)"
      using x(2) ept_walk_prev_found by blast
    have last: "last (NULL # ys) = NULL \<longleftrightarrow> ys = []" "ys \<noteq> [] \<Longrightarrow> last (NULL # ys) = last ys"
      using seg_nonnull [OF sg] xs by (auto dest: last_in_set)
    have p: "ptr_of (map_of v a) = x" using Some v by (simp add: map_of_view ptr_of_def)
    from delete_view [OF ok [unfolded xs] x(2) refl refl] \<open>x \<noteq> NULL\<close> w last p v xs show ?thesis
      by (cases "ys = []") (auto simp: esp_amp_rpmsg_delete_endpoint_def Let_def ept_rel_def simp del: last.simps)
  qed
qed

subsection \<open>The registry interface\<close>

text \<open>The contract of an endpoint registry, over the association list of its bindings.\<close>

locale endpoint_registry =
  fixes rel :: "'s \<Rightarrow> (u16 \<times> 'e binding) list \<Rightarrow> bool"
    and search :: "u16 \<Rightarrow> 's \<Rightarrow> ptr option"
    and create :: "u16 \<Rightarrow> 'e option \<Rightarrow> ptr \<Rightarrow> ptr \<Rightarrow> 's \<Rightarrow> (ptr \<times> 's) option"
    and delete :: "u16 \<Rightarrow> 's \<Rightarrow> (ptr \<times> 's) option"
    and rebind :: "u16 \<Rightarrow> 'e option \<Rightarrow> ptr \<Rightarrow> 's \<Rightarrow> (ptr \<times> 's) option"
  assumes search_rel: "rel s v \<Longrightarrow> search a s = Some (ptr_of (map_of v a))"
    and create_rel: "rel s v \<Longrightarrow> x \<noteq> NULL \<Longrightarrow> x \<notin> fst ` snd ` set v \<Longrightarrow>
      \<exists>s'. create a cb d x s = Some (if map_of v a = None then x else NULL, s') \<and>
        rel s' (if map_of v a = None then (a, x, cb, d) # v else v)"
    and delete_rel: "rel s v \<Longrightarrow> \<exists>s'. delete a s = Some (ptr_of (map_of v a), s') \<and>
        rel s' (filter (\<lambda>(k, _). k \<noteq> a) v)"
    and rebind_rel: "rel s v \<Longrightarrow> \<exists>s'. rebind a cb d s = Some (ptr_of (map_of v a), s') \<and>
        rel s' (map (\<lambda>(k, b). if k = a then (k, fst b, cb, d) else (k, b)) v)"
begin

lemma map_of_filter_key: "map_of (filter (\<lambda>(k, _). k \<noteq> a) v) b = (if b = a then None else map_of v b)"
  by (induction v) auto

lemma search_after_create:
  assumes "rel s v" "x \<noteq> NULL" "x \<notin> fst ` snd ` set v" "map_of v a = None"
  shows "\<exists>s'. create a cb d x s = Some (x, s') \<and> search a s' = Some x \<and> (\<forall>b. b \<noteq> a \<longrightarrow> search b s' = search b s)"
proof -
  from create_rel [OF assms(1-3), of a cb d] assms(4) obtain s' where
    c: "create a cb d x s = Some (x, s')" and r: "rel s' ((a, x, cb, d) # v)" by auto
  show ?thesis using c search_rel [OF r] search_rel [OF assms(1)] by (auto simp: ptr_of_def)
qed

lemma search_after_delete:
  assumes "rel s v"
  shows "\<exists>s'. delete a s = Some (ptr_of (map_of v a), s') \<and> search a s' = Some NULL \<and>
    (\<forall>b. b \<noteq> a \<longrightarrow> search b s' = search b s)"
proof -
  from delete_rel [OF assms, of a] obtain s' where
    c: "delete a s = Some (ptr_of (map_of v a), s')" and r: "rel s' (filter (\<lambda>(k, _). k \<noteq> a) v)" by auto
  show ?thesis using c search_rel [OF r] search_rel [OF assms] by (auto simp: map_of_filter_key ptr_of_def)
qed

lemma search_after_rebind:
  assumes "rel s v"
  shows "\<exists>s'. rebind a cb d s = Some (ptr_of (map_of v a), s') \<and> (\<forall>b. search b s' = search b s)"
proof -
  let ?f = "\<lambda>(k, b). if k = a then (k, fst b, cb, d) else (k, b)"
  from rebind_rel [OF assms, of a cb d] obtain s' where
    c: "rebind a cb d s = Some (ptr_of (map_of v a), s')" and r: "rel s' (map ?f v)" by auto
  have "ptr_of (map_of (map ?f v) b) = ptr_of (map_of v b)" for b
    by (induction v) (auto simp: ptr_of_def split: if_splits)
  then show ?thesis using c search_rel [OF r] search_rel [OF assms] by simp
qed

end

interpretation epts: endpoint_registry
    "\<lambda>(dev, s). ept_rel dev"
    "\<lambda>a (dev, s). map_option fst (esp_amp_rpmsg_search_endpoint c dev a s)"
    "\<lambda>a cb d x (dev, s). esp_amp_rpmsg_create_endpoint c a cb d x dev s"
    "\<lambda>a (dev, s). esp_amp_rpmsg_delete_endpoint c a dev s"
    "\<lambda>a cb d (dev, s). esp_amp_rpmsg_rebind_endpoint c a cb d dev s"
  for c :: "'z config"
proof (unfold_locales, goal_cases)
  case (1 s v a)
  then show ?case using search_law [of "fst s" v c a "snd s"] by (cases s) auto
next
  case (2 s v x a cb d)
  then show ?case using create_law [of "fst s" v x c a cb d "snd s"] by (cases s) auto
next
  case (3 s v a)
  then show ?case using delete_law [of "fst s" v c a "snd s"] by (cases s) auto
next
  case (4 s v a cb d)
  then show ?case using rebind_law [of "fst s" v c a cb d "snd s"] by (cases s) auto
qed

text \<open>A device without endpoints, as an example.\<close>

definition empty_dev :: "(nat, nat) rpmsg_dev" where
  "empty_dev = \<lparr>rx_queue = demo_queue False, tx_queue = demo_queue True, ept_list = NULL,
     ept_mem = (\<lambda>_. \<lparr>rx_cb = None, rx_cb_data = NULL, next_ept = NULL, addr = 0\<rparr>)\<rparr>"

subsection \<open>Properties\<close>



end
