(* ===== verification/Amp_Rpmsg_Link.thy ===== *)
theory Amp_Rpmsg_Link
  imports Amp_Rpmsg_Ept
begin

text \<open>
  RPMsg over a virtual queue: what is sent on one core reaches the callback of the addressed endpoint
  on the other core with the same bytes, and the buffer returns to the sender when it is destroyed.
\<close>

subsection \<open>Copying\<close>

lemma ucast_suc16: "unat i + 1 < 65536 \<Longrightarrow> (ucast (i + 1 :: u16) :: u32) = ucast i + 1"
  by (rule word_unat_eq_iff [THEN iffD2]) (simp add: unat_word_ariths)

lemma copy_loop_store_bytes:
  assumes "unat i + n < 65536"
    and "span (src + ucast i) n \<inter> span (dst + ucast i) n = {}"
  shows "copy_loop dst src i n m = store_bytes m (dst + ucast i) (load_bytes m (src + ucast i) n)"
  using assms
proof (induction n arbitrary: i m)
  case 0
  then show ?case by (simp add: load_bytes_def)
next
  case (Suc n)
  define x y where "x = src + ucast i" and "y = dst + ucast i"
  define m' where "m' = m(y := m x)"
  have "(ucast (i + 1) :: u32) = ucast i + 1" using Suc.prems(1) by (intro ucast_suc16) simp
  then have nxt: "src + ucast (i + 1) = x + 1" "dst + ucast (i + 1) = y + 1" by (simp_all add: x_def y_def)
  have i: "unat (i + 1) + n < 65536" using Suc.prems(1) by (simp add: unat_word_ariths)
  have "span (x + 1) n \<subseteq> span x (Suc n)" "span (y + 1) n \<subseteq> span y (Suc n)" "y \<in> span y (Suc n)"
    using span_sub [of "x + 1" x n "Suc n"] span_sub [of "y + 1" y n "Suc n"] by (simp_all add: in_span_iff)
  moreover have "span x (Suc n) \<inter> span y (Suc n) = {}" using Suc.prems(2) by (simp only: x_def y_def)
  ultimately have dis: "span (x + 1) n \<inter> span (y + 1) n = {}" "y \<notin> span (x + 1) n" by blast+
  have "load_bytes m' (x + 1) n = load_bytes m (x + 1) n"
    using dis(2) Suc.prems(1) by (intro load_bytes_cong) (auto simp: agree_def m'_def)
  moreover have "copy_loop dst src (i + 1) n m' = store_bytes m' (y + 1) (load_bytes m' (x + 1) n)"
    using Suc.IH [OF i, of m'] dis(1) by (simp only: nxt)
  ultimately show ?case
    by (simp add: store8_def load8_def load_bytes_Suc m'_def [symmetric] x_def [symmetric] y_def [symmetric])
qed

lemma copy_loop_effect:
  assumes "n < 65536" and "span src n \<inter> span dst n = {}"
  shows "load_bytes (copy_loop dst src 0 n m) dst n = load_bytes m src n"
    and "agree (- span dst n) (copy_loop dst src 0 n m) m"
proof -
  have eq: "copy_loop dst src 0 n m = store_bytes m dst (load_bytes m src n)"
    using copy_loop_store_bytes [of 0 n src dst m] assms by simp
  show "load_bytes (copy_loop dst src 0 n m) dst n = load_bytes m src n"
    unfolding eq using load_store_bytes_same [of "load_bytes m src n" m dst] assms(1) by simp
  show "agree (- span dst n) (copy_loop dst src 0 n m) m"
    unfolding eq using assms(1) by (intro frame_intros agree_refl) auto
qed

subsection \<open>What the queue operations leave alone\<close>

definition notify_keeps ::
    "('f \<Rightarrow> ptr \<Rightarrow> 'z core_scheme \<Rightarrow> (int \<times> 'z core_scheme) option) \<Rightarrow> 'f esp_amp_queue \<Rightarrow> ptr set \<Rightarrow> bool" where
  "notify_keeps call q A \<longleftrightarrow> (\<forall>f s r s'. notify_fc q = Some f \<longrightarrow> call f (priv_data q) s = Some (r, s') \<longrightarrow>
     agree A (mem s') (mem s))"

lemma set_desc_slot_frame:
  assumes "A \<inter> ring d n = {}" and "i < n" and "n \<le> 32768"
  shows "agree A (set_desc_addr d m (word_of_nat i) v) m" "agree A (set_desc_len d m (word_of_nat i) w) m"
    "agree A (set_desc_flags d m (word_of_nat i) w) m"
proof -
  have "span (desc_slot d (word_of_nat i)) 8 \<inter> A = {}" using slot_span [OF assms(2,3), of d] assms(1) by blast
  then show "agree A (set_desc_addr d m (word_of_nat i) v) m" "agree A (set_desc_len d m (word_of_nat i) w) m"
    "agree A (set_desc_flags d m (word_of_nat i) w) m" by (rule set_desc_frame)+
qed

lemma send_try_cases:
  assumes "esp_amp_queue_send_try call c q b sz s = Some (ret, q', s')"
  obtains s1 where "PM_SKIP_LIGHT_SLEEP_EXIT c s1 = Some s'"
    and "s1 = s \<or> (\<exists>s0. s0 = s\<lparr>mem := published (desc q) (mem s) (used_index q AND (qsize q - 1)) b sz (ESP_AMP_QUEUE_AVAILABLE_MASK 1)\<rparr> \<and>
      (s1 = s0 \<or> (\<exists>f r. notify_fc q = Some f \<and> call f (priv_data q) s0 = Some (r, s1))))"
proof -
  from assms have "\<exists>s1. PM_SKIP_LIGHT_SLEEP_EXIT c s1 = Some s' \<and>
    (s1 = s \<or> (\<exists>s0. s0 = s\<lparr>mem := published (desc q) (mem s) (used_index q AND (qsize q - 1)) b sz (ESP_AMP_QUEUE_AVAILABLE_MASK 1)\<rparr> \<and>
      (s1 = s0 \<or> (\<exists>f r. notify_fc q = Some f \<and> call f (priv_data q) s0 = Some (r, s1)))))"
    unfolding esp_amp_queue_send_try_def published_def
    by (auto simp: Let_def split: if_splits option.splits Option.bind_splits)
  then show thesis using that by blast
qed

text \<open>Memory apart from the ring and the light sleep counter keeps its contents while sending.\<close>

lemma send_try_frame:
  assumes ref: "refines n d mx a q qr (mem s)" and "port_ok c" and "A \<inter> ring d n = {}"
    and "lp_access_hp_cnt s \<notin> A" and "notify_ok call c d n q" and "notify_keeps call q A"
    and "esp_amp_queue_send_try call c q b sz s = Some (ret, q', s')"
  shows "agree A (mem s') (mem s)"
proof -
  from ref obtain g where ok: "queue_ok n d mx g q qr (mem s)" by (auto simp: refines_def)
  then have n: "ring_size n" and q: "desc q = d" "used_index q = word_of_nat (sends g)" "qsize q = word_of_nat n"
    by (simp_all add: queue_ok_def side_def)
  let ?j = "sends g mod n"
  define m' where "m' = published d (mem s) (word_of_nat ?j) b sz (ESP_AMP_QUEUE_AVAILABLE_MASK 1)"
  have idx: "used_index q AND (qsize q - 1) = word_of_nat ?j" using ring_index [OF n] q by simp
  have "?j < n" "n \<le> 32768" using ring_size_bounds [OF n] by simp_all
  then have pub: "agree A m' (mem s)"
    using published_outside [of _ d n ?j] assms(3) by (simp add: agree_def m'_def disjoint_iff)
  from assms(7) obtain s1 where ex: "PM_SKIP_LIGHT_SLEEP_EXIT c s1 = Some s'"
    and s1: "s1 = s \<or> (\<exists>s0. s0 = s\<lparr>mem := m'\<rparr> \<and>
      (s1 = s0 \<or> (\<exists>f r. notify_fc q = Some f \<and> call f (priv_data q) s0 = Some (r, s1))))"
    by (rule send_try_cases) (simp only: idx q(1) m'_def [symmetric])
  have "agree A (mem s1) (mem s) \<and> lp_access_hp_cnt s1 = lp_access_hp_cnt s"
    using s1
  proof (elim disjE exE conjE)
    fix s0 f r assume *: "s0 = s\<lparr>mem := m'\<rparr>" "notify_fc q = Some f" "call f (priv_data q) s0 = Some (r, s1)"
    from *(2,3) have "agree A (mem s1) (mem s0)" using assms(6) by (simp add: notify_keeps_def)
    moreover have "lp_access_hp_cnt s1 = lp_access_hp_cnt s0" using assms(5) [unfolded notify_ok_def, rule_format, OF *(2), of s0] *(3) by auto
    ultimately show ?thesis using *(1) agree_trans [OF _ pub] by simp
  qed (use pub in simp_all)
  then show ?thesis
    using agree_trans [OF pm_frame_agree [OF pm_exit_frame [OF assms(2) ex]]] assms(4) by simp
qed

lemma alloc_try_keeps:
  assumes "esp_amp_queue_alloc_try c q sz s = Some (ESP_OK, b, q', s')"
  shows "s' = PM_SKIP_LIGHT_SLEEP_ENTER c s" "notify_fc q' = notify_fc q" "priv_data q' = priv_data q"
    "max_item_size q' = max_item_size q"
  using assms by (auto simp: esp_amp_queue_alloc_try_def Let_def split: if_splits Option.bind_splits)

lemma recv_try_keeps:
  assumes "esp_amp_queue_recv_try c q s = Some (ESP_OK, b, sz, q', s')"
  shows "s' = PM_SKIP_LIGHT_SLEEP_ENTER c s"
  using assms by (auto simp: esp_amp_queue_recv_try_def Let_def split: if_splits)

lemma free_try_cases:
  assumes "esp_amp_queue_free_try c q b s = Some (ret, q', s')"
  obtains s1 where "PM_SKIP_LIGHT_SLEEP_EXIT c s1 = Some s'"
    and "s1 = s \<or> s1 = s\<lparr>mem := published (desc q) (mem s) (used_index q AND (qsize q - 1)) b (max_item_size q) (ESP_AMP_QUEUE_USED_MASK 1)\<rparr>"
proof -
  from assms have "\<exists>s1. PM_SKIP_LIGHT_SLEEP_EXIT c s1 = Some s' \<and>
    (s1 = s \<or> s1 = s\<lparr>mem := published (desc q) (mem s) (used_index q AND (qsize q - 1)) b (max_item_size q) (ESP_AMP_QUEUE_USED_MASK 1)\<rparr>)"
    unfolding esp_amp_queue_free_try_def published_def
    by (auto simp: Let_def split: if_splits Option.bind_splits)
  then show thesis using that by blast
qed

text \<open>Returning a buffer inside a critical section.\<close>

lemma free_try_effect:
  assumes ref: "refines n d mx a qm q (mem s)" and pc: "port_ok c" and held: "pm_held c d n s" and hr: "held_r a \<noteq> 0"
  obtains q' s' where "esp_amp_queue_free_try c q b (esp_amp_env_enter_critical c s) = Some (ESP_OK, q', s')"
    "refines n d mx (a\<lparr>free_bufs := free_bufs a @ [b], held_r := held_r a - 1\<rparr>) qm q' (mem s')"
    "agree (- insert (lp_access_hp_cnt s) (ring d n)) (mem s') (mem s)" "core.more s' = core.more s"
    "lp_access_hp_cnt s' = lp_access_hp_cnt s"
proof -
  let ?s1 = "esp_amp_env_enter_critical c s"
  have ref1: "refines n d mx a qm q (mem ?s1)" using ref pc by simp
  have held1: "pm_held c d n ?s1" using held pc by (simp add: pm_held_def pm_cnt_def)
  from free_refines [OF ref1 pc held1, of b] hr obtain q' s2 where
    fr: "esp_amp_queue_free_try c q b ?s1 = Some (ESP_OK, q', s2)"
    and ref2: "refines n d mx (a\<lparr>free_bufs := free_bufs a @ [b], held_r := held_r a - 1\<rparr>) qm q' (mem s2)"
    by auto
  from ref obtain g where ok: "queue_ok n d mx g qm q (mem s)" by (auto simp: refines_def)
  then have n: "ring_size n" and q: "desc q = d" "used_index q = word_of_nat (frees g)"
    "qsize q = word_of_nat n" by (simp_all add: queue_ok_def side_def)
  let ?j = "frees g mod n"
  have idx: "used_index q AND (qsize q - 1) = word_of_nat ?j" using ring_index [OF n] q by simp
  have j: "?j < n" "n \<le> 32768" using ring_size_bounds [OF n] by simp_all
  from fr obtain s3 where ex: "PM_SKIP_LIGHT_SLEEP_EXIT c s3 = Some s2"
    and s3: "s3 = ?s1 \<or> s3 = ?s1\<lparr>mem := published d (mem ?s1) (word_of_nat ?j) b (max_item_size q) (ESP_AMP_QUEUE_USED_MASK 1)\<rparr>"
    by (rule free_try_cases) (simp only: idx q(1))
  have lp: "lp_access_hp_cnt s3 = lp_access_hp_cnt s" "core.more s3 = core.more s" using s3 pc by auto
  have "agree (- ring d n) (mem s3) (mem s)"
    using s3 published_outside [of _ d n ?j] j pc by (auto simp: agree_def)
  moreover have "agree (- {lp_access_hp_cnt s}) (mem s2) (mem s3)"
    using pm_frame_agree [OF pm_exit_frame [OF pc ex]] lp by simp
  ultimately have ag: "agree (- insert (lp_access_hp_cnt s) (ring d n)) (mem s2) (mem s)"
    by (intro agree_trans [of _ "mem s2" "mem s3" "mem s"]) (auto elim: agree_mono)
  have "core.more s2 = core.more s" "lp_access_hp_cnt s2 = lp_access_hp_cnt s"
    using pm_exit_frame [OF pc ex] lp by (simp_all add: pm_frame_def)
  then show thesis using that fr ref2 ag by blast
qed

subsection \<open>Sending a message\<close>

text \<open>The buffer \<open>b\<close> with its header and \<open>len\<close> bytes of payload, apart from ring and counter.\<close>

definition buf_apart :: "ptr \<Rightarrow> nat \<Rightarrow> ptr \<Rightarrow> nat \<Rightarrow> 'z core_scheme \<Rightarrow> bool" where
  "buf_apart b len d n s \<longleftrightarrow> span b (8 + len) \<inter> ring d n = {} \<and> lp_access_hp_cnt s \<notin> span b (8 + len)"

lemma pm_held_store:
  assumes "pm_held c d n s" and "agree {lp_access_hp_cnt s} m (mem s)"
  shows "pm_held c d n (s\<lparr>mem := m\<rparr>)"
  using assms by (simp add: pm_held_def pm_cnt_def load8_def agree_def)

lemma create_message_effect:
  assumes ref: "refines n d mx a (tx_queue dev) qr (mem s)" and pc: "port_ok c" and rdy: "pm_ready c d (8 * n) s"
    and fb: "free_bufs a = b # bs" and b: "b \<noteq> NULL" and sz: "unat nbytes + 8 \<le> unat mx"
    and ap: "buf_apart b (unat nbytes) d n s"
  obtains q s' where "esp_amp_rpmsg_create_message c nbytes fl dev s = Some (b + 8, dev\<lparr>tx_queue := q\<rparr>, s')"
    "refines n d mx (a\<lparr>free_bufs := bs, held_m := Suc (held_m a)\<rparr>) q qr (mem s')" "pm_held c d n s'"
    "agree (- insert (lp_access_hp_cnt s) (span (b + 4) 4)) (mem s') (mem s)"
    "lp_access_hp_cnt s' = lp_access_hp_cnt s"
    "notify_fc q = notify_fc (tx_queue dev)" "priv_data q = priv_data (tx_queue dev)" "max_item_size q = mx"
proof -
  let ?sz = "nbytes + offsetof_msg_data" and ?s1 = "esp_amp_env_enter_critical c s"
  have mx16: "unat nbytes + 8 < 65536" using sz unat_lt_16 [of mx] by linarith
  have u: "unat ?sz = unat nbytes + 8"
    unfolding offsetof_msg_data_def using mx16 by (intro unat_add_numeral) linarith
  then have lt: "\<not> 65536 \<le> ?sz" using mx16 by (simp add: word_le_nat_alt)
  have "unat (ucast ?sz :: u16) = unat nbytes + 8"
    using u mx16 by (simp add: unsigned_ucast_eq take_bit_nat_eq_self)
  then have fits: "\<not> mx < (ucast ?sz :: u16)" using sz by (simp add: word_less_nat_alt)
  have rdy1: "pm_ready c d (8 * n) ?s1" using rdy pc by (simp add: pm_ready_def pm_cnt_def)
  obtain ret b' q s2 a' where al: "esp_amp_queue_alloc_try c (tx_queue dev) (ucast ?sz) ?s1 = Some (ret, b', q, s2)"
    and aq: "aq_alloc mx (ucast ?sz) a = (ret, b', a')" and ref2: "refines n d mx a' q qr (mem s2)"
    using alloc_refines [OF _ pc rdy1, of mx a "tx_queue dev" qr "ucast ?sz"] ref pc by auto
  have ok: "ret = ESP_OK" "b' = b" "a' = a\<lparr>free_bufs := bs, held_m := Suc (held_m a)\<rparr>"
    using aq fits fb by auto
  note k = alloc_try_keeps [OF al [unfolded ok(1)]]
  have fr: "pm_frame c ?s1 s2" using pm_enter_frame [OF pc] k(1) by simp
  define s3 where "s3 = esp_amp_env_exit_critical c s2"
  have lp: "lp_access_hp_cnt s3 = lp_access_hp_cnt s" using fr pc by (simp add: s3_def pm_frame_def)
  have held: "pm_held c d n s3"
    using pm_ready_enter(2,3) [OF pc rdy1] k(1) pc by (simp add: pm_held_def pm_cnt_def ring_def s3_def)
  have ag3: "agree (- {lp_access_hp_cnt s}) (mem s3) (mem s)"
    using pm_frame_agree [OF fr, of "- {lp_access_hp_cnt s}"] pc by (simp add: s3_def)
  define m where "m = store16 (store16 (mem s3) (b + 6) fl) (b + 4) (ucast nbytes)"
  have sub: "span (b + 6) 2 \<subseteq> span (b + 4) 4" "span (b + 4) 2 \<subseteq> span (b + 4) 4" "span (b + 4) 4 \<subseteq> span b (8 + unat nbytes)"
    by (rule span_sub; simp)+
  have ag: "agree (- span (b + 4) 4) m (mem s3)"
    unfolding m_def using sub by (intro frame_intros agree_refl) auto
  have "refines n d mx a' q qr m"
    using refines_cong [of n d mx a' q qr "mem s3" m] ref2 ap sub(3) agree_mono [OF agree_sym [OF ag], of "ring d n"] pc
    by (auto simp: s3_def buf_apart_def)
  moreover have "pm_held c d n (s3\<lparr>mem := m\<rparr>)"
    using held ap sub(3) lp by (intro pm_held_store agree_mono [OF ag]) (auto simp: buf_apart_def)
  moreover have "agree (- insert (lp_access_hp_cnt s) (span (b + 4) 4)) m (mem s)"
    by (rule agree_trans [OF agree_mono [OF ag] agree_mono [OF ag3]]) auto
  moreover have "max_item_size q = mx" using ref2 by (auto simp: refines_def queue_ok_def side_def)
  moreover have "esp_amp_rpmsg_create_message c nbytes fl dev s = Some (b + 8, dev\<lparr>tx_queue := q\<rparr>, s3\<lparr>mem := m\<rparr>)"
    using lt al ok b by (simp add: esp_amp_rpmsg_create_message_def Let_def offsetof_msg_data_def s3_def [symmetric] m_def)
  ultimately show thesis using that [of q "s3\<lparr>mem := m\<rparr>"] ok(3) lp k by simp
qed

text \<open>A message in its buffer: header and payload.\<close>

definition message_at :: "memory \<Rightarrow> ptr \<Rightarrow> u16 \<Rightarrow> u16 \<Rightarrow> u8 list \<Rightarrow> bool" where
  "message_at m b src dst data \<longleftrightarrow> msg_src_addr m b = src \<and> msg_dst_addr m b = dst \<and>
     unat (msg_data_len m b) = length data \<and> load_bytes m (b + 8) (length data) = data"

lemma message_at_cong:
  assumes "message_at m b src dst data" and "agree (span b (8 + length data)) m m'"
  shows "message_at m' b src dst data"
proof -
  have "length data < 65536" using assms(1) unat_lt_16 [of "msg_data_len m b"] by (simp add: message_at_def del: unat_lt_16)
  have sub: "agree (span (b + word_of_nat k) l) m m'" if "k + l \<le> 8 + length data" "k < 4294967296" for k l
    using that by (intro agree_mono [OF assms(2)] span_sub) (simp add: unat_of_nat32)
  have "load16 m b = load16 m' b" "load16 m (b + 2) = load16 m' (b + 2)" "load16 m (b + 4) = load16 m' (b + 4)"
    using sub [of 0 2] sub [of 2 2] sub [of 4 2] by (auto intro!: load16_cong)
  moreover have "load_bytes m (b + 8) (length data) = load_bytes m' (b + 8) (length data)"
    using sub [of 8 "length data"] \<open>length data < 65536\<close> by (intro load_bytes_cong) auto
  ultimately show ?thesis
    using assms(1) by (simp add: message_at_def msg_src_addr_def msg_dst_addr_def msg_data_len_def)
qed

lemma header_disj [simp]:
  "disj b 2 (b + 2) 2" "disj b 2 (b + 4) 2" "disj (b + 2) 2 b 2" "disj (b + 2) 2 (b + 4) 2"
  "disj (b + 4) 2 b 2" "disj (b + 4) 2 (b + 2) 2" for b :: ptr
  by (simp_all add: disj_def)

text \<open>Writing the header in front of a payload.\<close>

lemma header_message:
  assumes "load_bytes m (b + 8) (unat len) = data"
    and "m' = store16 (store16 (store16 m (b + 4) len) (b + 2) dst) b src"
  shows "message_at m' b src dst data" "agree (- span b 6) m' m"
proof -
  have "span (b + 4) 2 \<subseteq> span b 6" "span (b + 2) 2 \<subseteq> span b 6" "span b 2 \<subseteq> span b 6"
    by (rule span_sub; simp)+
  then show ag: "agree (- span b 6) m' m"
    unfolding assms(2) by (intro frame_intros agree_refl) auto
  have l: "length data = unat len" using assms(1) by auto
  have "span (b + 8) (unat len) \<inter> span b 6 = {}"
  proof -
    have "disj (b + 8) (unat len) b 6" using unat_lt_16 [of len] by (simp add: disj_def del: unat_lt_16)
    then show ?thesis by (rule disj_Int)
  qed
  then have "load_bytes m' (b + 8) (unat len) = load_bytes m (b + 8) (unat len)"
    using unat_le_32 [of len] by (intro load_bytes_cong agree_mono [OF ag]) auto
  then show "message_at m' b src dst data"
    using assms l by (simp add: message_at_def msg_src_addr_def msg_dst_addr_def msg_data_len_def mem_simps)
qed

lemma send_nocopy_effect:
  assumes ref: "refines n d mx a (tx_queue dev) qr (mem s)" and pc: "port_ok c" and held: "pm_held c d n s"
    and nf: "notify_ok call c d n (tx_queue dev)" "notify_keeps call (tx_queue dev) (span b (8 + unat len))"
    and ap: "buf_apart b (unat len) d n s" and hm: "held_m a \<noteq> 0"
    and data: "load_bytes (mem s) (b + 8) (unat len) = data"
  shows "\<exists>ret q s'. esp_amp_rpmsg_send_nocopy call c ept dst (b + 8) len dev s = Some (ret, dev\<lparr>tx_queue := q\<rparr>, s') \<and>
    refines n d mx (a\<lparr>msgs := msgs a @ [(b, mx)], held_m := held_m a - 1\<rparr>) q qr (mem s') \<and>
    message_at (mem s') b (addr (ept_mem dev ept)) dst data \<and> (notify_fc (tx_queue dev) = None \<longrightarrow> ret = ESP_OK)"
proof -
  define m where "m = store16 (store16 (store16 (mem s) (b + 4) len) (b + 2) dst) b (addr (ept_mem dev ept))"
  note h = header_message [OF data m_def]
  define s1 where "s1 = esp_amp_env_enter_critical c (s\<lparr>mem := m\<rparr>)"
  have s1: "mem s1 = m" "lp_access_hp_cnt s1 = lp_access_hp_cnt s" using pc by (simp_all add: s1_def)
  have l: "length data = unat len" using data by auto
  have sub: "span b 6 \<subseteq> span b (8 + unat len)" by (rule span_sub) simp
  have "agree (ring d n) (mem s) m"
    using ap sub by (intro agree_mono [OF agree_sym [OF h(2)]]) (auto simp: buf_apart_def)
  then have ref1: "refines n d mx a (tx_queue dev) qr (mem s1)" using refines_cong [OF ref] s1 by simp
  have "pm_held c d n (s\<lparr>mem := m\<rparr>)"
    using held ap sub by (intro pm_held_store agree_mono [OF h(2)]) (auto simp: buf_apart_def)
  then have held1: "pm_held c d n s1" using pc by (simp add: pm_held_def pm_cnt_def s1_def)
  have mx: "max_item_size (tx_queue dev) = mx" using ref by (auto simp: refines_def queue_ok_def side_def)
  obtain ret q s2 a' r where snd: "esp_amp_queue_send_try call c (tx_queue dev) b mx s1 = Some (ret, q, s2)"
    and aq: "aq_send mx b mx a = (r, a')" and ref2: "refines n d mx a' q qr (mem s2)"
    and rr: "r = ESP_OK \<and> notify_fc (tx_queue dev) \<noteq> None \<or> ret = r"
    using send_refines [OF ref1 pc held1 nf(1), of b mx] by blast
  have ok: "r = ESP_OK" "a' = a\<lparr>msgs := msgs a @ [(b, mx)], held_m := held_m a - 1\<rparr>" using aq hm by auto
  have "agree (span b (8 + unat len)) (mem s2) m"
    using send_try_frame [OF ref1 pc _ _ nf snd] ap s1 by (simp add: buf_apart_def)
  then have "message_at (mem s2) b (addr (ept_mem dev ept)) dst data"
    using message_at_cong [OF h(1)] agree_sym l by simp
  moreover have "esp_amp_rpmsg_send_nocopy call c ept dst (b + 8) len dev s =
      Some (ret, dev\<lparr>tx_queue := q\<rparr>, esp_amp_env_exit_critical c s2)"
    using snd by (simp add: esp_amp_rpmsg_send_nocopy_def Let_def offsetof_msg_data_def mx s1_def m_def)
  ultimately show ?thesis using ref2 ok rr pc by auto
qed

text \<open>The conditions under which a message of \<open>len\<close> bytes at \<open>data\<close> can be sent through buffer \<open>b\<close>.\<close>

definition sendable ::
    "('f \<Rightarrow> ptr \<Rightarrow> 'z core_scheme \<Rightarrow> (int \<times> 'z core_scheme) option) \<Rightarrow> 'z config \<Rightarrow> ptr \<Rightarrow> nat \<Rightarrow> u16 \<Rightarrow>
     ptr \<Rightarrow> ptr \<Rightarrow> u16 \<Rightarrow> 'f esp_amp_queue \<Rightarrow> 'z core_scheme \<Rightarrow> bool" where
  "sendable call c d n mx b data len q s \<longleftrightarrow> port_ok c \<and> pm_ready c d (8 * n) s \<and>
     notify_ok call c d n q \<and> notify_keeps call q (span b (8 + unat len)) \<and>
     data \<noteq> NULL \<and> len \<noteq> 0 \<and> unat len + 8 \<le> unat mx \<and> b \<noteq> NULL \<and> b + 8 \<noteq> NULL \<and>
     buf_apart b (unat len) d n s \<and> span data (unat len) \<inter> span b (8 + unat len) = {} \<and>
     lp_access_hp_cnt s \<notin> span data (unat len)"

lemma send_effect:
  assumes ref: "refines n d mx a (tx_queue dev) qr (mem s)" and fb: "free_bufs a = b # bs"
    and ok: "sendable call c d n mx b data len (tx_queue dev) s"
  shows "\<exists>ret q s'. esp_amp_rpmsg_send call c ept dst data len dev s = Some (ret, dev\<lparr>tx_queue := q\<rparr>, s') \<and>
    refines n d mx (a\<lparr>free_bufs := bs, msgs := msgs a @ [(b, mx)]\<rparr>) q qr (mem s') \<and>
    message_at (mem s') b (addr (ept_mem dev ept)) dst (load_bytes (mem s) data (unat len)) \<and>
    (notify_fc (tx_queue dev) = None \<longrightarrow> ret = ESP_OK)"
proof -
  note ok' = ok [unfolded sendable_def]
  then have pc: "port_ok c" by simp
  let ?S = "span b (8 + unat len)"
  have l16: "unat len < 65536" by (rule unat_lt_16)
  have "buf_apart b (unat (ucast len :: u32)) d n s" "unat (ucast len :: u32) + 8 \<le> unat mx" using ok' by simp_all
  then obtain q1 s1 where cr: "esp_amp_rpmsg_create_message c (ucast len) ESP_AMP_RPMSG_DATA_DEFAULT dev s =
        Some (b + 8, dev\<lparr>tx_queue := q1\<rparr>, s1)"
    and ref1: "refines n d mx (a\<lparr>free_bufs := bs, held_m := Suc (held_m a)\<rparr>) q1 qr (mem s1)"
    and held: "pm_held c d n s1" and ag: "agree (- insert (lp_access_hp_cnt s) (span (b + 4) 4)) (mem s1) (mem s)"
    and lp: "lp_access_hp_cnt s1 = lp_access_hp_cnt s"
    and q1: "notify_fc q1 = notify_fc (tx_queue dev)" "priv_data q1 = priv_data (tx_queue dev)"
    using create_message_effect [OF ref pc _ fb, of "ucast len" ESP_AMP_RPMSG_DATA_DEFAULT] ok' by metis
  have sub: "span (b + 4) 4 \<subseteq> ?S" "span (b + 8) (unat len) \<subseteq> ?S" by (rule span_sub; simp)+
  have same: "load_bytes (mem s1) data (unat len) = load_bytes (mem s) data (unat len)"
    using ok' sub(1) unat_le_32 [of len] by (intro load_bytes_cong agree_mono [OF ag]) auto
  define m where "m = copy_loop (b + 8) data 0 (unat len) (mem s1)"
  have "span data (unat len) \<inter> span (b + 8) (unat len) = {}" using ok' sub(2) by blast
  note cp = copy_loop_effect [OF l16 this, of "mem s1", folded m_def]
  have lb: "load_bytes m (b + 8) (unat len) = load_bytes (mem s) data (unat len)" using cp(1) same by simp
  have "agree (ring d n) (mem s1) m"
    using ok' sub(2) by (intro agree_mono [OF agree_sym [OF cp(2)]]) (auto simp: buf_apart_def)
  then have ref2: "refines n d mx (a\<lparr>free_bufs := bs, held_m := Suc (held_m a)\<rparr>) q1 qr m"
    by (rule refines_cong [OF ref1])
  have held2: "pm_held c d n (s1\<lparr>mem := m\<rparr>)"
    using held ok' sub(2) lp by (intro pm_held_store agree_mono [OF cp(2)]) (auto simp: buf_apart_def)
  have nf: "notify_ok call c d n q1" "notify_keeps call q1 ?S"
    using ok' q1 by (simp_all add: notify_ok_def notify_keeps_def)
  have "buf_apart b (unat len) d n (s1\<lparr>mem := m\<rparr>)" using ok' lp by (simp add: buf_apart_def)
  from send_nocopy_effect [of n d mx _ "dev\<lparr>tx_queue := q1\<rparr>" qr "s1\<lparr>mem := m\<rparr>", OF _ pc held2 _ _ this _ , where data = "load_bytes (mem s) data (unat len)"
      and call = call and ept = ept and dst = dst] ref2 nf lb q1
  have "\<exists>ret q s'. esp_amp_rpmsg_send_nocopy call c ept dst (b + 8) len (dev\<lparr>tx_queue := q1\<rparr>) (s1\<lparr>mem := m\<rparr>) =
      Some (ret, dev\<lparr>tx_queue := q\<rparr>, s') \<and>
    refines n d mx (a\<lparr>free_bufs := bs, msgs := msgs a @ [(b, mx)]\<rparr>) q qr (mem s') \<and>
    message_at (mem s') b (addr (ept_mem dev ept)) dst (load_bytes (mem s) data (unat len)) \<and>
    (notify_fc (tx_queue dev) = None \<longrightarrow> ret = ESP_OK)"
    by fastforce
  then show ?thesis using cr ok' by (simp add: esp_amp_rpmsg_send_def m_def)
qed

subsection \<open>Receiving a message\<close>

lemma poll_effect:
  assumes ref: "refines n d mx a qm (rx_queue dev) (mem s)" and pc: "port_ok c" and rdy: "pm_ready c d (8 * n) s"
    and ms: "msgs a = (b, sz) # ms" and msg: "message_at (mem s) b src dst data"
    and lp: "lp_access_hp_cnt s \<notin> span b (8 + length data) \<or> \<not> pm_active c" and er: "ept_rel dev v"
  shows "\<exists>q s1. refines n d mx (a\<lparr>msgs := ms, held_r := Suc (held_r a)\<rparr>) qm q (mem s1) \<and>
    message_at (mem s1) b src dst data \<and> s1 = PM_SKIP_LIGHT_SLEEP_ENTER c s \<and>
    esp_amp_rpmsg_poll ecall c (dev, s) =
      (case map_of v dst of
         None \<Rightarrow> Some (-1, dev\<lparr>rx_queue := q\<rparr>, s1)
       | Some (x, None, p) \<Rightarrow> Some (0, dev\<lparr>rx_queue := q\<rparr>, s1)
       | Some (x, Some f, p) \<Rightarrow> map_option (Pair 0)
           (ecall f (b + 8) (word_of_nat (length data)) src p (dev\<lparr>rx_queue := q\<rparr>, s1)))"
proof -
  obtain ret b' sz' q s1 a' where rc: "esp_amp_queue_recv_try c (rx_queue dev) s = Some (ret, b', sz', q, s1)"
    and aq: "aq_recv a = (ret, b', sz', a')" and ref1: "refines n d mx a' qm q (mem s1)"
    using recv_refines [OF ref pc rdy] by blast
  have ok: "ret = ESP_OK" "b' = b" "sz' = sz" "a' = a\<lparr>msgs := ms, held_r := Suc (held_r a)\<rparr>" using aq ms by auto
  have s1: "s1 = PM_SKIP_LIGHT_SLEEP_ENTER c s" using recv_try_keeps rc ok(1) by blast
  have "agree (span b (8 + length data)) (mem s1) (mem s)"
    using pm_frame_agree [OF pm_enter_frame [OF pc], of s] lp s1 by blast
  then have msg1: "message_at (mem s1) b src dst data" using message_at_cong [OF msg] agree_sym by blast
  from er obtain xs where xs: "epts_ok dev xs" "v = view dev xs" by (auto simp: ept_rel_def)
  have srch: "search_endpoint (dev\<lparr>rx_queue := q\<rparr>) dst = Some (ptr_of (map_of v dst))"
    unfolding xs(2) search_view [OF xs(1), symmetric] by (simp add: search_endpoint_def)
  have nn: "ptr_of (map_of v dst) = NULL \<longleftrightarrow> map_of v dst = None" using ptr_of_null [OF xs(1)] xs(2) by simp
  have bound: "rx_cb (ept_mem dev (ptr_of (map_of v dst))) = cb" "rx_cb_data (ept_mem dev (ptr_of (map_of v dst))) = p"
    if "map_of v dst = Some (x, cb, p)" for x cb p
    using that xs(2) by (auto simp: map_of_view ptr_of_def)
  have len: "msg_data_len (mem s1) b = word_of_nat (length data)"
  proof -
    have "word_of_nat (unat (msg_data_len (mem s1) b)) = (word_of_nat (length data) :: u16)"
      using msg1 by (simp only: message_at_def)
    then show ?thesis by simp
  qed
  have fld: "msg_src_addr (mem s1) b = src" "msg_dst_addr (mem s1) b = dst" using msg1 by (simp_all add: message_at_def)
  have "esp_amp_rpmsg_poll ecall c (dev, s) = rpmsg_dispatcher ecall b (dev\<lparr>rx_queue := q\<rparr>, s1)"
    using rc ok by (simp add: esp_amp_rpmsg_poll_def)
  also have "\<dots> = (case map_of v dst of
         None \<Rightarrow> Some (-1, dev\<lparr>rx_queue := q\<rparr>, s1)
       | Some (x, None, p) \<Rightarrow> Some (0, dev\<lparr>rx_queue := q\<rparr>, s1)
       | Some (x, Some f, p) \<Rightarrow> map_option (Pair 0)
           (ecall f (b + 8) (word_of_nat (length data)) src p (dev\<lparr>rx_queue := q\<rparr>, s1)))"
    using srch nn bound
    by (auto simp: rpmsg_dispatcher_def fld len offsetof_msg_data_def map_option_case
        split: option.splits Option.bind_splits)
  finally show ?thesis using ref1 ok(4) msg1 s1 by blast
qed

lemma poll_empty:
  assumes "refines n d mx a qm (rx_queue dev) (mem s)" and "port_ok c" and "pm_ready c d (8 * n) s" and "msgs a = []"
  shows "\<exists>q s1. esp_amp_rpmsg_poll ecall c (dev, s) = Some (-1, dev\<lparr>rx_queue := q\<rparr>, s1) \<and>
    refines n d mx a qm q (mem s1)"
  using recv_refines [OF assms(1-3)] assms(4) by (auto simp: esp_amp_rpmsg_poll_def)

subsection \<open>Draining the queue\<close>

text \<open>
  What holds between two rounds of the receive callback: the queue is in order and every pending
  message is for an endpoint of the device.
\<close>

definition link_ok ::
    "'z config \<Rightarrow> nat \<Rightarrow> ptr \<Rightarrow> u16 \<Rightarrow> 'f esp_amp_queue \<Rightarrow> aqueue \<Rightarrow> ('f, 'e) rpmsg_dev \<times> 'z core_scheme \<Rightarrow> bool" where
  "link_ok c n d mx qm a = (\<lambda>(dev, s). refines n d mx a qm (rx_queue dev) (mem s) \<and> pm_ready c d (8 * n) s \<and>
     (\<exists>v. ept_rel dev v \<and> (\<forall>(b, sz) \<in> set (msgs a). msg_dst_addr (mem s) b \<in> dom (map_of v))))"

text \<open>An endpoint callback returns and keeps this for the messages that are still pending.\<close>

definition callbacks_ok ::
    "('f, 'e, 'z) ept_call \<Rightarrow> 'z config \<Rightarrow> nat \<Rightarrow> ptr \<Rightarrow> u16 \<Rightarrow> 'f esp_amp_queue \<Rightarrow> bool" where
  "callbacks_ok ecall c n d mx qm \<longleftrightarrow> (\<forall>f p l src u a ds. link_ok c n d mx qm a ds \<longrightarrow>
     (\<exists>a' ds'. ecall f p l src u ds = Some ds' \<and> link_ok c n d mx qm a' ds' \<and> msgs a' = msgs a))"

lemma ept_rel_rx_queue [simp]: "ept_rel (dev\<lparr>rx_queue := q\<rparr>) v = ept_rel dev v"
  by (simp add: ept_rel_def epts_ok_def view_def)

lemma message_at_any:
  "message_at m b (msg_src_addr m b) (msg_dst_addr m b) (load_bytes m (b + 8) (unat (msg_data_len m b)))"
  by (simp add: message_at_def)

lemma link_ok_poll:
  assumes "link_ok c n d mx qm a ds" and "port_ok c" and "\<not> pm_active c" and cb: "callbacks_ok ecall c n d mx qm"
    and ms: "msgs a = (b, sz) # ms"
  shows "\<exists>a' ds'. esp_amp_rpmsg_poll ecall c ds = Some (0, ds') \<and> link_ok c n d mx qm a' ds' \<and> msgs a' = ms"
proof -
  obtain dev s where ds: "ds = (dev, s)" by (cases ds)
  from assms(1) ds obtain v where ref: "refines n d mx a qm (rx_queue dev) (mem s)" and rdy: "pm_ready c d (8 * n) s"
    and v: "ept_rel dev v" "\<forall>(b, sz) \<in> set (msgs a). msg_dst_addr (mem s) b \<in> dom (map_of v)"
    by (auto simp: link_ok_def)
  let ?dst = "msg_dst_addr (mem s) b" and ?a = "a\<lparr>msgs := ms, held_r := Suc (held_r a)\<rparr>"
  let ?data = "load_bytes (mem s) (b + 8) (unat (msg_data_len (mem s) b))"
  obtain x cb' p where x: "map_of v ?dst = Some (x, cb', p)" using v(2) ms by auto
  have lp: "lp_access_hp_cnt s \<notin> span b (8 + length ?data) \<or> \<not> pm_active c" using assms(3) by simp
  from poll_effect [OF ref assms(2) rdy ms message_at_any lp v(1), of ecall] x assms(3) obtain q where
    ref1: "refines n d mx ?a qm q (mem s)"
    and poll: "esp_amp_rpmsg_poll ecall c ds = (case cb' of None \<Rightarrow> Some (0, dev\<lparr>rx_queue := q\<rparr>, s)
      | Some f \<Rightarrow> map_option (Pair 0) (ecall f (b + 8) (word_of_nat (length ?data)) (msg_src_addr (mem s) b) p
          (dev\<lparr>rx_queue := q\<rparr>, s)))"
    by (auto simp: ds)
  let ?dev = "dev\<lparr>rx_queue := q\<rparr>"
  have l1: "link_ok c n d mx qm ?a (?dev, s)" using ref1 rdy v ms by (auto simp: link_ok_def)
  show ?thesis
  proof (cases cb')
    case None
    then show ?thesis using poll l1 by auto
  next
    case (Some f)
    obtain a2 ds2 where "ecall f (b + 8) (word_of_nat (length ?data)) (msg_src_addr (mem s) b) p (?dev, s) = Some ds2"
      "link_ok c n d mx qm a2 ds2" "msgs a2 = msgs ?a"
      using cb l1 unfolding callbacks_ok_def by blast
    then show ?thesis using poll Some by auto
  qed
qed

subsection \<open>A sample device\<close>

definition demo_dev :: "(nat, nat) rpmsg_dev" where
  "demo_dev = \<lparr>rx_queue = demo_queue False, tx_queue = demo_queue True, ept_list = 0x3000,
     ept_mem = (\<lambda>_. \<lparr>rx_cb = Some 7, rx_cb_data = 0x44, next_ept = NULL, addr = 5\<rparr>)\<rparr>"

lemma demo_dev_simps [simp]:
  "rx_queue demo_dev = demo_queue False" "tx_queue demo_dev = demo_queue True"
  "addr (ept_mem demo_dev p) = 5"
  by (simp_all add: demo_dev_def)

lemma demo_ept_rel: "ept_rel demo_dev [(5, 0x3000, Some 7, 0x44)]"
  unfolding ept_rel_def by (rule exI [of _ "[0x3000]"]) (simp add: epts_ok_def demo_dev_def)

lemma demo_initial: "free_bufs (initial_queue 2 0x2000 16) = [0x2000, 0x2010]" "msgs (initial_queue 2 0x2000 16) = []"
  by (simp_all add: initial_queue_def upt_rec)

lemma demo_sendable:
  "sendable (\<lambda>f p s. None) (demo_config True) 0x1000 2 16 0x2000 0x4000 3 (demo_queue True) demo_state"
proof -
  have "span 0x4000 3 \<inter> span 0x2000 11 = {}" "span 0x2000 11 \<inter> ring 0x1000 2 = {}"
    unfolding ring_def by (rule disj_nowrap; simp)+
  moreover have "notify_fc (demo_queue True) = None" by (simp add: demo_queue_def)
  ultimately show ?thesis
    by (simp add: sendable_def notify_ok_def notify_keeps_def buf_apart_def in_span_iff)
qed

subsection \<open>Properties\<close>

text \<open>C6. Delivery, end to end. Sending \<open>len\<close> bytes at \<open>data\<close> appends one message to the queue. When it
  is the oldest one on the receiving core and its buffer has not been written since, polling calls
  the callback bound to the destination address, with the length, the address of the sending
  endpoint and the user pointer of the binding, and at the data pointer it is passed are exactly
  the bytes that were sent.\<close>

theorem rpmsg_delivery:
  assumes "refines n d mx a (tx_queue dev) qr (mem s)" and "free_bufs a = b # bs"
    and "sendable call c d n mx b data len (tx_queue dev) s"
  shows "\<exists>ret q s'. esp_amp_rpmsg_send call c ept dst data len dev s = Some (ret, dev\<lparr>tx_queue := q\<rparr>, s') \<and>
    refines n d mx (a\<lparr>free_bufs := bs, msgs := msgs a @ [(b, mx)]\<rparr>) q qr (mem s') \<and>
    (notify_fc (tx_queue dev) = None \<longrightarrow> ret = ESP_OK) \<and>
    (\<forall>ecall c' a' qm dev' t ms v x f p.
      refines n d mx a' qm (rx_queue dev') (mem t) \<and> msgs a' = (b, mx) # ms \<and>
      agree (span b (8 + unat len)) (mem t) (mem s') \<and> port_ok c' \<and> pm_ready c' d (8 * n) t \<and>
      lp_access_hp_cnt t \<notin> span b (8 + unat len) \<and> ept_rel dev' v \<and> map_of v dst = Some (x, Some f, p) \<longrightarrow>
      (\<exists>q' t'. esp_amp_rpmsg_poll ecall c' (dev', t) = map_option (Pair 0)
          (ecall f (b + 8) len (addr (ept_mem dev ept)) p (dev'\<lparr>rx_queue := q'\<rparr>, t')) \<and>
        load_bytes (mem t') (b + 8) (unat len) = load_bytes (mem s) data (unat len) \<and>
        refines n d mx (a'\<lparr>msgs := ms, held_r := Suc (held_r a')\<rparr>) qm q' (mem t')))"
proof -
  from send_effect [OF assms, of ept dst] obtain ret q s' where
    snd: "esp_amp_rpmsg_send call c ept dst data len dev s = Some (ret, dev\<lparr>tx_queue := q\<rparr>, s')"
    "refines n d mx (a\<lparr>free_bufs := bs, msgs := msgs a @ [(b, mx)]\<rparr>) q qr (mem s')"
    "notify_fc (tx_queue dev) = None \<longrightarrow> ret = ESP_OK"
    and msg: "message_at (mem s') b (addr (ept_mem dev ept)) dst (load_bytes (mem s) data (unat len))"
    by auto
  have deliver: "\<exists>q' t'. esp_amp_rpmsg_poll ecall c' (dev', t) = map_option (Pair 0)
          (ecall f (b + 8) len (addr (ept_mem dev ept)) p (dev'\<lparr>rx_queue := q'\<rparr>, t')) \<and>
        load_bytes (mem t') (b + 8) (unat len) = load_bytes (mem s) data (unat len) \<and>
        refines n d mx (a'\<lparr>msgs := ms, held_r := Suc (held_r a')\<rparr>) qm q' (mem t')"
    if h: "refines n d mx a' qm (rx_queue dev') (mem t)" "msgs a' = (b, mx) # ms"
      "agree (span b (8 + unat len)) (mem t) (mem s')" "port_ok c'" "pm_ready c' d (8 * n) t"
      "lp_access_hp_cnt t \<notin> span b (8 + unat len)" "ept_rel dev' v" "map_of v dst = Some (x, Some f, p)"
    for ecall c' a' qm dev' t ms v x f p
  proof -
    have "message_at (mem t) b (addr (ept_mem dev ept)) dst (load_bytes (mem s) data (unat len))"
      using message_at_cong [OF msg] agree_sym [OF h(3)] by simp
    from poll_effect [OF h(1,4,5,2) this _ h(7), of ecall] h(6,8) show ?thesis
      by (auto simp: message_at_def)
  qed
  show ?thesis
    by (intro exI [of _ ret] exI [of _ q] exI [of _ s'] conjI allI impI snd) (elim conjE, rule deliver; assumption)
qed

theorem rpmsg_delivery_witness:
  "\<exists>q s'. esp_amp_rpmsg_send (\<lambda>f p s. None) (demo_config True) 0x3000 5 0x4000 3 demo_dev demo_state =
      Some (ESP_OK, demo_dev\<lparr>tx_queue := q\<rparr>, s') \<and>
    (\<exists>q' t'. esp_amp_rpmsg_poll (\<lambda>f p l src u (dev, s). Some (dev, s\<lparr>mstatus := u\<rparr>)) (demo_config False) (demo_dev, s'\<lparr>lp_access_hp_cnt := NULL\<rparr>) =
      Some (0, demo_dev\<lparr>rx_queue := q'\<rparr>, t'\<lparr>mstatus := 0x44\<rparr>) \<and> load_bytes (mem t') 0x2008 3 = load_bytes demo_ring 0x4000 3)"
proof -
  have nf: "notify_fc (demo_queue True) = None" by (simp add: demo_queue_def)
  have ref: "refines 2 0x1000 16 (initial_queue 2 0x2000 16) (tx_queue demo_dev) (demo_queue False) (mem demo_state)"
    using demo_refines by simp
  have sok: "sendable (\<lambda>f p s. None) (demo_config True) 0x1000 2 16 0x2000 0x4000 3 (tx_queue demo_dev) demo_state"
    using demo_sendable by simp
  obtain ret q s' where snd: "esp_amp_rpmsg_send (\<lambda>f p s. None) (demo_config True) 0x3000 5 0x4000 3 demo_dev demo_state =
        Some (ret, demo_dev\<lparr>tx_queue := q\<rparr>, s')" "notify_fc (tx_queue demo_dev) = None \<longrightarrow> ret = ESP_OK"
    and ref': "refines 2 0x1000 16 ((initial_queue 2 0x2000 16)\<lparr>free_bufs := [0x2010],
        msgs := msgs (initial_queue 2 0x2000 16) @ [(0x2000, 16)]\<rparr>) q (demo_queue False) (mem s')"
    and poll: "\<forall>ecall (c' :: unit config) a' (qm :: nat esp_amp_queue) (dev' :: (nat, nat) rpmsg_dev) t ms v x (f :: nat) p.
      refines 2 0x1000 16 a' qm (rx_queue dev') (mem t) \<and> msgs a' = (0x2000, 16) # ms \<and>
      agree (span 0x2000 (8 + unat (3 :: u16))) (mem t) (mem s') \<and> port_ok c' \<and> pm_ready c' 0x1000 (8 * 2) t \<and>
      lp_access_hp_cnt t \<notin> span 0x2000 (8 + unat (3 :: u16)) \<and> ept_rel dev' v \<and> map_of v 5 = Some (x, Some f, p) \<longrightarrow>
      (\<exists>q' t'. esp_amp_rpmsg_poll ecall c' (dev', t) = map_option (Pair 0)
          (ecall f (0x2000 + 8) 3 (addr (ept_mem demo_dev 0x3000)) p (dev'\<lparr>rx_queue := q'\<rparr>, t')) \<and>
        load_bytes (mem t') (0x2000 + 8) (unat (3 :: u16)) = load_bytes (mem demo_state) 0x4000 (unat (3 :: u16)) \<and>
        refines 2 0x1000 16 (a'\<lparr>msgs := ms, held_r := Suc (held_r a')\<rparr>) qm q' (mem t'))"
    using rpmsg_delivery [OF ref demo_initial(1) sok, of "0x3000" 5] by (elim exE conjE) (rule that; assumption)
  let ?t = "s'\<lparr>lp_access_hp_cnt := NULL\<rparr>"
  have rdy: "pm_ready (demo_config False) 0x1000 (8 * 2) ?t" by (simp add: pm_ready_def pm_active_def in_span_iff)
  have r: "refines 2 0x1000 16 ((initial_queue 2 0x2000 16)\<lparr>free_bufs := [0x2010],
        msgs := [(0x2000, 16)]\<rparr>) q (rx_queue demo_dev) (mem ?t)" using ref' by (simp add: demo_initial)
  note inst = poll [rule_format, of _ q demo_dev ?t "[]" "demo_config False" "[(5, 0x3000, Some 7, 0x44)]" "0x3000" 7 "0x44"
      "\<lambda>f p l src u (dev, s). Some (dev, s\<lparr>mstatus := u\<rparr>)", OF conjI [OF r]]
  have "\<exists>q' t'. esp_amp_rpmsg_poll (\<lambda>f p l src u (dev, s). Some (dev, s\<lparr>mstatus := u\<rparr>)) (demo_config False) (demo_dev, ?t) =
      Some (0, demo_dev\<lparr>rx_queue := q'\<rparr>, t'\<lparr>mstatus := 0x44\<rparr>) \<and> load_bytes (mem t') 0x2008 3 = load_bytes demo_ring 0x4000 3"
    using inst rdy demo_ept_rel by (auto simp: in_span_iff)
  then show ?thesis using snd nf by auto
qed



text \<open>C9. One receive interrupt drains the queue: when every pending message is for an endpoint of
  the device and callbacks return, the callback loop ends, with no message left.\<close>

theorem rpmsg_rx_callback_drains:
  assumes "link_ok c n d mx qm a ds" and "port_ok c" and "\<not> pm_active c" and "callbacks_ok ecall c n d mx qm"
  shows "\<exists>a' ds'. rpmsg_rx_callback ecall c ds = Some (0, ds') \<and> link_ok c n d mx qm a' ds' \<and> msgs a' = []"
  using assms(1)
proof (induction "msgs a" arbitrary: a ds)
  case Nil
  obtain dev s where ds: "ds = (dev, s)" by (cases ds)
  then have ref: "refines n d mx a qm (rx_queue dev) (mem s)" and rdy: "pm_ready c d (8 * n) s"
    using Nil.prems by (auto simp: link_ok_def)
  obtain ret b' sz' q s1 a' where rc: "esp_amp_queue_recv_try c (rx_queue dev) s = Some (ret, b', sz', q, s1)"
    and aq: "aq_recv a = (ret, b', sz', a')" and ref1: "refines n d mx a' qm q (mem s1)"
    using recv_refines [OF ref assms(2) rdy] by blast
  have s1: "s1 = s" using rc assms(3) by (auto simp: esp_amp_queue_recv_try_def Let_def split: if_splits)
  have "esp_amp_rpmsg_poll ecall c ds = Some (-1, dev\<lparr>rx_queue := q\<rparr>, s)"
    using rc aq Nil.hyps s1 by (auto simp: ds esp_amp_rpmsg_poll_def)
  moreover have "link_ok c n d mx qm a (dev\<lparr>rx_queue := q\<rparr>, s)"
    using Nil.prems ref1 aq Nil.hyps s1 ds by (auto simp: link_ok_def)
  ultimately show ?case
    using Nil.hyps by (intro exI [of _ a] exI) (auto simp: rpmsg_rx_callback.simps [of ecall c ds])
next
  case (Cons m ms)
  obtain b sz where "msgs a = (b, sz) # ms" using Cons.hyps(2) [symmetric] by (cases m) simp
  from link_ok_poll [OF Cons.prems assms(2-4) this] obtain a1 ds1 where
    p: "esp_amp_rpmsg_poll ecall c ds = Some (0, ds1)" "link_ok c n d mx qm a1 ds1" "msgs a1 = ms" by blast
  from Cons.hyps(1) [OF p(3) [symmetric] p(2)] show ?case
    by (simp add: rpmsg_rx_callback.simps [of ecall c ds] p(1))
qed

theorem rpmsg_rx_callback_drains_witness:
  "\<exists>(s :: core) dev t. rpmsg_rx_callback (\<lambda>f p l src u ds. Some ds) (demo_config False) (demo_dev, s) = Some (0, dev, t) \<and>
    msg_dst_addr (mem s) 0x2000 = 5"
proof -
  have ref: "refines 2 0x1000 16 (initial_queue 2 0x2000 16) (tx_queue demo_dev) (demo_queue False) (mem demo_state)"
    using demo_refines by simp
  have sok: "sendable (\<lambda>f p s. None) (demo_config True) 0x1000 2 16 0x2000 0x4000 3 (tx_queue demo_dev) demo_state"
    using demo_sendable by simp
  define a where "a = (initial_queue 2 0x2000 16)\<lparr>free_bufs := [0x2010], msgs := [(0x2000, 16)]\<rparr>"
  obtain q :: "nat esp_amp_queue" and s' :: core where r: "refines 2 0x1000 16 a q (demo_queue False) (mem s')"
    and msg: "message_at (mem s') 0x2000 5 5 (load_bytes (mem demo_state) 0x4000 (unat (3 :: u16)))"
    using send_effect [OF ref demo_initial(1) sok, of "0x3000" 5] by (auto simp: demo_initial a_def)
  let ?s = "s'\<lparr>lp_access_hp_cnt := NULL\<rparr>"
  have dst: "msg_dst_addr (mem ?s) 0x2000 = 5" using msg by (simp add: message_at_def)
  have "link_ok (demo_config False) 2 0x1000 16 q a (demo_dev, ?s)"
    unfolding link_ok_def using r dst demo_ept_rel
    by (auto simp: a_def pm_ready_def pm_active_def in_span_iff intro!: exI [of _ "[(5, 0x3000, Some 7, 0x44)]"])
  moreover have "\<not> pm_active (demo_config False)" by (simp add: pm_active_def)
  moreover have "callbacks_ok (\<lambda>f p l src u ds. Some ds) (demo_config False) 2 0x1000 16 q" by (auto simp: callbacks_ok_def)
  ultimately obtain a' ds' where "rpmsg_rx_callback (\<lambda>f p l src u ds. Some ds) (demo_config False) (demo_dev, ?s) = Some (0, ds')"
    using rpmsg_rx_callback_drains [of "demo_config False" 2 "0x1000" 16 q a "(demo_dev, ?s)" "\<lambda>f p l src u ds. Some ds"] by auto
  then show ?thesis using dst by (cases ds') (intro exI [of _ ?s], auto)
qed

end
