(* ===== verification/Amp_Env.thy ===== *)
theory Amp_Env
  imports Amp_Port
begin

text \<open>
  The message queues of the environment layer (esp_amp_env_queue_* in
  src/components/esp_amp/port/env): FreeRTOS queues, from task and from interrupt context, and the
  bare-metal stubs. The functions of FreeRTOS are fields of \<open>rtos_queues\<close>; a queue holds items of a
  type \<open>'d\<close>, the structure the caller passes by address. A receive gives the item it stored through
  the pointer, or none.
\<close>

record ('d, 's) rtos_queues =
  xQueueCreate :: "u32 \<Rightarrow> u32 \<Rightarrow> 's \<Rightarrow> ptr \<times> 's"
  xQueueSend :: "ptr \<Rightarrow> 'd \<Rightarrow> u32 \<Rightarrow> 's \<Rightarrow> bool \<times> 's"
  xQueueSendFromISR :: "ptr \<Rightarrow> 'd \<Rightarrow> 's \<Rightarrow> bool \<times> bool \<times> 's"
  xQueueReceive :: "ptr \<Rightarrow> u32 \<Rightarrow> 's \<Rightarrow> 'd option \<times> 's"
  xQueueReceiveFromISR :: "ptr \<Rightarrow> 's \<Rightarrow> 'd option \<times> bool \<times> 's"
  vQueueDelete :: "ptr \<Rightarrow> 's \<Rightarrow> 's"
  portYIELD_FROM_ISR :: "bool \<Rightarrow> 's \<Rightarrow> 's"
  queue_ms_to_ticks :: "u32 \<Rightarrow> u32"
  queue_max_delay :: u32

subsection \<open>FreeRTOS\<close>

definition fr_queue_create ::
    "('d, 's) rtos_queues \<Rightarrow> u32 \<Rightarrow> u32 \<Rightarrow> 's \<Rightarrow> int \<times> ptr \<times> 's" where
  "fr_queue_create os queue_len item_size s =
     (let (queue, s1) = xQueueCreate os queue_len item_size s
      in if queue = NULL then (-1, queue, s1) else (0, queue, s1))"

definition queue_timeout :: "('d, 's) rtos_queues \<Rightarrow> u32 \<Rightarrow> u32" where
  "queue_timeout os timeout_ms =
     (if timeout_ms = queue_max_delay os then queue_max_delay os else queue_ms_to_ticks os timeout_ms)"

definition fr_queue_send ::
    "'z config \<Rightarrow> ('d, 'z core_scheme) rtos_queues \<Rightarrow> ptr \<Rightarrow> 'd \<Rightarrow> u32 \<Rightarrow> 'z core_scheme \<Rightarrow>
     int \<times> 'z core_scheme" where
  "fr_queue_send c os queue data timeout_ms s =
     (if fr_env_in_isr c s then
        let (ok, need_yield, s1) = xQueueSendFromISR os queue data s
        in if ok then (0, portYIELD_FROM_ISR os need_yield s1) else (-1, s1)
      else
        let (ok, s1) = xQueueSend os queue data (queue_timeout os timeout_ms) s
        in if ok then (0, s1) else (-1, s1))"

definition fr_queue_recv ::
    "'z config \<Rightarrow> ('d, 'z core_scheme) rtos_queues \<Rightarrow> ptr \<Rightarrow> u32 \<Rightarrow> 'z core_scheme \<Rightarrow>
     int \<times> 'd option \<times> 'z core_scheme" where
  "fr_queue_recv c os queue timeout_ms s =
     (if fr_env_in_isr c s then
        let (data, need_yield, s1) = xQueueReceiveFromISR os queue s
        in if data \<noteq> None then (0, data, portYIELD_FROM_ISR os need_yield s1) else (-1, None, s1)
      else
        let (data, s1) = xQueueReceive os queue (queue_timeout os timeout_ms) s
        in if data \<noteq> None then (0, data, s1) else (-1, None, s1))"

definition fr_queue_delete :: "('d, 's) rtos_queues \<Rightarrow> ptr \<Rightarrow> 's \<Rightarrow> 's" where
  "fr_queue_delete os queue s = vQueueDelete os queue s"

subsection \<open>Bare metal\<close>

text \<open>The stubs leave \<open>*queue\<close> as it is and never transfer an item.\<close>

definition bm_queue_create :: "ptr \<Rightarrow> u32 \<Rightarrow> u32 \<Rightarrow> 's \<Rightarrow> int \<times> ptr \<times> 's" where
  "bm_queue_create old queue_len item_size s = (0, old, s)"

definition bm_queue_send :: "ptr \<Rightarrow> 'd \<Rightarrow> u32 \<Rightarrow> 's \<Rightarrow> int \<times> 's" where
  "bm_queue_send queue data timeout_ms s = (-1, s)"

definition bm_queue_recv :: "ptr \<Rightarrow> u32 \<Rightarrow> 's \<Rightarrow> int \<times> 'd option \<times> 's" where
  "bm_queue_recv queue timeout_ms s = (-1, None, s)"

definition bm_queue_delete :: "ptr \<Rightarrow> 's \<Rightarrow> 's" where
  "bm_queue_delete queue s = s"

subsection \<open>The environment of a core\<close>

definition esp_amp_env_queue_create ::
    "'z config \<Rightarrow> ('d, 'z core_scheme) rtos_queues \<Rightarrow> ptr \<Rightarrow> u32 \<Rightarrow> u32 \<Rightarrow> 'z core_scheme \<Rightarrow>
     int \<times> ptr \<times> 'z core_scheme" where
  "esp_amp_env_queue_create c os old queue_len item_size s =
     (if IS_ENV_BM c then bm_queue_create old queue_len item_size s else fr_queue_create os queue_len item_size s)"

definition esp_amp_env_queue_send ::
    "'z config \<Rightarrow> ('d, 'z core_scheme) rtos_queues \<Rightarrow> ptr \<Rightarrow> 'd \<Rightarrow> u32 \<Rightarrow> 'z core_scheme \<Rightarrow>
     int \<times> 'z core_scheme" where
  "esp_amp_env_queue_send c os queue data timeout_ms s =
     (if IS_ENV_BM c then bm_queue_send queue data timeout_ms s else fr_queue_send c os queue data timeout_ms s)"

definition esp_amp_env_queue_recv ::
    "'z config \<Rightarrow> ('d, 'z core_scheme) rtos_queues \<Rightarrow> ptr \<Rightarrow> u32 \<Rightarrow> 'z core_scheme \<Rightarrow>
     int \<times> 'd option \<times> 'z core_scheme" where
  "esp_amp_env_queue_recv c os queue timeout_ms s =
     (if IS_ENV_BM c then bm_queue_recv queue timeout_ms s else fr_queue_recv c os queue timeout_ms s)"

definition esp_amp_env_queue_delete ::
    "'z config \<Rightarrow> ('d, 'z core_scheme) rtos_queues \<Rightarrow> ptr \<Rightarrow> 'z core_scheme \<Rightarrow> 'z core_scheme" where
  "esp_amp_env_queue_delete c os queue s =
     (if IS_ENV_BM c then bm_queue_delete queue s else fr_queue_delete os queue s)"

end
