(* ===== verification/Amp_Rpc.thy ===== *)
theory Amp_Rpc
  imports Amp_Rpmsg_Link Amp_Env
begin

text \<open>
  Remote procedure calls, src/components/esp_amp/src/rpc and include/esp_amp_rpc.h: a client sends a
  request packet to the endpoint of a server, the server looks the command up in its service table,
  runs the handler and sends a response packet, and the client matches the response to its pending
  command by message id.

  Instances, commands and service tables are structures of the application: each is an object at its
  address, in the extension \<open>rpc_core\<close> of the state of the core. Pointers to functions of the
  application have type \<open>'g\<close>; calling them is a field of \<open>rpc_calls\<close>. A core has one RPMsg device, the
  one threaded through the operations; \<open>rpmsg_dev\<close> pointers are only compared with NULL.
\<close>

subsection \<open>Data\<close>

definition ESP_AMP_RPC_OK :: int where "ESP_AMP_RPC_OK = 0"
definition ESP_AMP_RPC_FAIL :: int where "ESP_AMP_RPC_FAIL = -1"
definition ESP_AMP_RPC_ERR_INVALID_ARG :: int where "ESP_AMP_RPC_ERR_INVALID_ARG = -2"
definition ESP_AMP_RPC_ERR_INVALID_SIZE :: int where "ESP_AMP_RPC_ERR_INVALID_SIZE = -3"
definition ESP_AMP_RPC_ERR_NO_MEM :: int where "ESP_AMP_RPC_ERR_NO_MEM = -4"
definition ESP_AMP_RPC_ERR_EXIST :: int where "ESP_AMP_RPC_ERR_EXIST = -5"
definition ESP_AMP_RPC_ERR_NOT_FOUND :: int where "ESP_AMP_RPC_ERR_NOT_FOUND = -6"
definition ESP_AMP_RPC_ERR_INVALID_STATE :: int where "ESP_AMP_RPC_ERR_INVALID_STATE = -8"

definition ESP_AMP_RPC_STATUS_INVALID_CMD :: u16 where "ESP_AMP_RPC_STATUS_INVALID_CMD = 0xfffe"
definition ESP_AMP_RPC_STATUS_PENDING :: u16 where "ESP_AMP_RPC_STATUS_PENDING = 0xfffc"

lemmas rpc_codes = ESP_AMP_RPC_OK_def ESP_AMP_RPC_FAIL_def ESP_AMP_RPC_ERR_INVALID_ARG_def
  ESP_AMP_RPC_ERR_INVALID_SIZE_def ESP_AMP_RPC_ERR_NO_MEM_def ESP_AMP_RPC_ERR_EXIST_def
  ESP_AMP_RPC_ERR_NOT_FOUND_def ESP_AMP_RPC_ERR_INVALID_STATE_def

record 'g esp_amp_rpc_cmd =
  cmd_id :: u16
  cmd_status :: u16
  req_len :: u16
  resp_len :: u16
  req_data :: ptr
  resp_data :: ptr
  cmd_cb :: "'g option"
  cb_arg :: ptr

text \<open>\<open>esp_amp_rpc_pkt_t\<close>: four half words, then the data.\<close>

definition pkt_msg_id :: "memory \<Rightarrow> ptr \<Rightarrow> u16" where "pkt_msg_id m p = load16 m p"
definition pkt_cmd_id :: "memory \<Rightarrow> ptr \<Rightarrow> u16" where "pkt_cmd_id m p = load16 m (p + 2)"
definition pkt_status :: "memory \<Rightarrow> ptr \<Rightarrow> u16" where "pkt_status m p = load16 m (p + 4)"
definition pkt_msg_len :: "memory \<Rightarrow> ptr \<Rightarrow> u16" where "pkt_msg_len m p = load16 m (p + 6)"
definition sizeof_rpc_pkt :: u16 where "sizeof_rpc_pkt = 8"

text \<open>The \<open>memcpy\<close> of a packet header and of the data behind it.\<close>

definition put_pkt :: "u16 \<Rightarrow> u16 \<Rightarrow> u16 \<Rightarrow> u16 \<Rightarrow> ptr \<Rightarrow> memory \<Rightarrow> memory" where
  "put_pkt mid cid st len p m =
     store16 (store16 (store16 (store16 m p mid) (p + 2) cid) (p + 4) st) (p + 6) len"

definition memcpy :: "ptr \<Rightarrow> ptr \<Rightarrow> nat \<Rightarrow> memory \<Rightarrow> memory" where
  "memcpy dst src n m = store_bytes m dst (load_bytes m src n)"

record 'g esp_amp_rpc_service =
  srv_cmd_id :: u16
  srv_handler :: "'g option"

record rpc_server_inst =
  server_id :: u16
  server_running :: bool
  srv_tbl_len :: u8
  req_buf_len :: u16
  resp_buf_len :: u16
  req_buf :: ptr
  resp_buf :: ptr
  server_rpmsg_dev :: ptr
  server_queue :: ptr
  srv :: ptr

record 'g rpc_client_inst =
  peer_server_id :: u16
  client_id :: u16
  pending_id :: u16
  client_running :: bool
  client_rpmsg_dev :: ptr
  pending_cmd :: ptr
  poll_cb :: "'g option"
  poll_arg :: ptr

text \<open>The endpoint structure inside an instance is at this offset.\<close>

definition offsetof_server_ept :: ptr where "offsetof_server_ept = 20"
definition offsetof_client_ept :: ptr where "offsetof_client_ept = 12"

record 'g rpc_core = core +
  server_at :: "ptr \<Rightarrow> rpc_server_inst"
  client_at :: "ptr \<Rightarrow> 'g rpc_client_inst"
  cmd_at :: "ptr \<Rightarrow> 'g esp_amp_rpc_cmd"
  srv_at :: "ptr \<Rightarrow> 'g esp_amp_rpc_service list"

type_synonym ('g, 'z) rpc = "('g, 'z) rpc_core_scheme"
type_synonym ('g, 'z) rpc_config = "('g, 'z) rpc_core_ext config"
type_synonym ('f, 'e, 'g, 'z) rpc_state = "('f, 'e) rpmsg_dev \<times> ('g, 'z) rpc"

record ('f, 'e, 'g, 'z) rpc_calls =
  notify_call :: "'f \<Rightarrow> ptr \<Rightarrow> ('g, 'z) rpc \<Rightarrow> (int \<times> ('g, 'z) rpc) option"
  handler_call :: "'g \<Rightarrow> 'g esp_amp_rpc_cmd \<Rightarrow> ('f, 'e, 'g, 'z) rpc_state \<Rightarrow>
    ('g esp_amp_rpc_cmd \<times> ('f, 'e, 'g, 'z) rpc_state) option"
  app_cb_call :: "'g \<Rightarrow> ptr \<Rightarrow> ptr \<Rightarrow> ptr \<Rightarrow> ('f, 'e, 'g, 'z) rpc_state \<Rightarrow> ('f, 'e, 'g, 'z) rpc_state option"
  poll_cb_call :: "'g \<Rightarrow> ptr \<Rightarrow> ('f, 'e, 'g, 'z) rpc_state \<Rightarrow> ('f, 'e, 'g, 'z) rpc_state option"

record rpc_server_cfg =
  cfg_server_id :: u16
  cfg_queue_len :: u8
  cfg_srv_tbl_len :: u8
  cfg_rpmsg_dev :: ptr
  cfg_stg :: ptr
  cfg_req_buf_len :: u16
  cfg_resp_buf_len :: u16
  cfg_req_buf :: ptr
  cfg_resp_buf :: ptr
  cfg_srv_tbl_stg :: ptr

record 'g rpc_client_cfg =
  ccfg_client_id :: u16
  ccfg_server_id :: u16
  ccfg_rpmsg_dev :: ptr
  ccfg_stg :: ptr
  ccfg_poll_cb :: "'g option"
  ccfg_poll_arg :: ptr

record rpc_pkt_digest =
  client_addr :: u16
  pkt_len :: u16
  pkt :: ptr

type_synonym ('g, 'z) rpc_queues = "(rpc_pkt_digest, ('g, 'z) rpc) rtos_queues"

definition sizeof_pkt_digest :: u32 where "sizeof_pkt_digest = 8"

definition zero_server :: rpc_server_inst where
  "zero_server = \<lparr>server_id = 0, server_running = False, srv_tbl_len = 0, req_buf_len = 0, resp_buf_len = 0,
     req_buf = NULL, resp_buf = NULL, server_rpmsg_dev = NULL, server_queue = NULL, srv = NULL\<rparr>"

definition zero_client :: "'g rpc_client_inst" where
  "zero_client = \<lparr>peer_server_id = 0, client_id = 0, pending_id = 0, client_running = False,
     client_rpmsg_dev = NULL, pending_cmd = NULL, poll_cb = None, poll_arg = NULL\<rparr>"

definition zero_ept :: "'e rpmsg_ept" where
  "zero_ept = \<lparr>rx_cb = None, rx_cb_data = NULL, next_ept = NULL, addr = 0\<rparr>"

definition zero_service :: "'g esp_amp_rpc_service" where
  "zero_service = \<lparr>srv_cmd_id = 0, srv_handler = None\<rparr>"

definition set_server :: "ptr \<Rightarrow> rpc_server_inst \<Rightarrow> ('g, 'z) rpc \<Rightarrow> ('g, 'z) rpc" where
  "set_server p x s = s\<lparr>server_at := (server_at s)(p := x)\<rparr>"

definition set_client :: "ptr \<Rightarrow> 'g rpc_client_inst \<Rightarrow> ('g, 'z) rpc \<Rightarrow> ('g, 'z) rpc" where
  "set_client p x s = s\<lparr>client_at := (client_at s)(p := x)\<rparr>"

definition set_cmd :: "ptr \<Rightarrow> 'g esp_amp_rpc_cmd \<Rightarrow> ('g, 'z) rpc \<Rightarrow> ('g, 'z) rpc" where
  "set_cmd p x s = s\<lparr>cmd_at := (cmd_at s)(p := x)\<rparr>"

subsection \<open>The service table\<close>

text \<open>The scan of \<open>esp_amp_rpc_server_add_service\<close> for the first empty slot and the last slot that
  has the command, from slot \<open>i\<close> on; \<open>None\<close> is the index -1.\<close>

fun add_scan ::
    "u16 \<Rightarrow> 'g esp_amp_rpc_service list \<Rightarrow> nat \<Rightarrow> nat option \<Rightarrow> nat option \<Rightarrow> nat option \<times> nat option" where
  "add_scan cid [] i empty_idx exist_idx = (empty_idx, exist_idx)"
| "add_scan cid (v # vs) i empty_idx exist_idx =
     (if srv_handler v = None
      then add_scan cid vs (Suc i) (if empty_idx = None then Some i else empty_idx) exist_idx
      else if srv_cmd_id v = cid then add_scan cid vs (Suc i) empty_idx (Some i)
      else add_scan cid vs (Suc i) empty_idx exist_idx)"

definition esp_amp_rpc_server_add_service ::
    "('g, 'z) rpc_config \<Rightarrow> ptr \<Rightarrow> u16 \<Rightarrow> 'g option \<Rightarrow> ('g, 'z) rpc \<Rightarrow> int \<times> ('g, 'z) rpc" where
  "esp_amp_rpc_server_add_service c server cid hdl s =
     (if server = NULL \<or> srv (server_at s server) = NULL then (ESP_AMP_RPC_ERR_INVALID_ARG, s)
      else if hdl = None then (ESP_AMP_RPC_ERR_INVALID_ARG, s)
      else let s1 = esp_amp_env_enter_critical c s;
               tbl = srv (server_at s1 server);
               n = unat (srv_tbl_len (server_at s1 server));
               (empty_idx, exist_idx) = add_scan cid (take n (srv_at s1 tbl)) 0 None None;
               (ret, s2) =
                 (if exist_idx \<noteq> None then (ESP_AMP_RPC_ERR_EXIST, s1)
                  else case empty_idx of
                    None \<Rightarrow> (ESP_AMP_RPC_ERR_NO_MEM, s1)
                  | Some i \<Rightarrow> (ESP_AMP_RPC_OK, s1\<lparr>srv_at := (srv_at s1)
                      (tbl := (srv_at s1 tbl)[i := \<lparr>srv_cmd_id = cid, srv_handler = hdl\<rparr>])\<rparr>))
           in (ret, esp_amp_env_exit_critical c s2))"

fun del_loop :: "u16 \<Rightarrow> 'g esp_amp_rpc_service list \<Rightarrow> int \<Rightarrow> int \<times> 'g esp_amp_rpc_service list" where
  "del_loop cid [] ret = (ret, [])"
| "del_loop cid (v # vs) ret =
     (let (v', r) = (if srv_cmd_id v = cid \<and> srv_handler v \<noteq> None
                     then (v\<lparr>srv_cmd_id := 0, srv_handler := None\<rparr>, ESP_AMP_RPC_OK) else (v, ret));
          (r', vs') = del_loop cid vs r
      in (r', v' # vs'))"

definition esp_amp_rpc_server_del_service ::
    "('g, 'z) rpc_config \<Rightarrow> ptr \<Rightarrow> u16 \<Rightarrow> ('g, 'z) rpc \<Rightarrow> int \<times> ('g, 'z) rpc" where
  "esp_amp_rpc_server_del_service c server cid s =
     (if server = NULL \<or> srv (server_at s server) = NULL then (ESP_AMP_RPC_ERR_INVALID_ARG, s)
      else let s1 = esp_amp_env_enter_critical c s;
               tbl = srv (server_at s1 server);
               n = unat (srv_tbl_len (server_at s1 server));
               (ret, vs) = del_loop cid (take n (srv_at s1 tbl)) ESP_AMP_RPC_ERR_NOT_FOUND;
               s2 = s1\<lparr>srv_at := (srv_at s1)(tbl := vs @ drop n (srv_at s1 tbl))\<rparr>
           in (ret, esp_amp_env_exit_critical c s2))"

text \<open>The search of \<open>exec_cmd_and_send\<close>, which stops at the first match.\<close>

fun find_service :: "u16 \<Rightarrow> 'g esp_amp_rpc_service list \<Rightarrow> 'g option" where
  "find_service cid [] = None"
| "find_service cid (v # vs) =
     (if srv_handler v \<noteq> None \<and> srv_cmd_id v = cid then srv_handler v else find_service cid vs)"

subsection \<open>The server\<close>

text \<open>\<open>cb\<close> is the function pointer of \<open>server_cb\<close>; the configuration is written back because a queue
  length of zero is replaced by four.\<close>

definition esp_amp_rpc_server_init ::
    "'e \<Rightarrow> ('g, 'z) rpc_queues \<Rightarrow> ('g, 'z) rpc_config \<Rightarrow> rpc_server_cfg option \<Rightarrow> ('f, 'e, 'g, 'z) rpc_state \<Rightarrow>
     (ptr \<times> rpc_server_cfg option \<times> ('f, 'e, 'g, 'z) rpc_state) option" where
  "esp_amp_rpc_server_init cb os c cfg = (\<lambda>(dev, s). case cfg of
       None \<Rightarrow> Some (NULL, cfg, dev, s)
     | Some cf \<Rightarrow>
       if cfg_stg cf = NULL \<or> cfg_rpmsg_dev cf = NULL then Some (NULL, cfg, dev, s)
       else if cfg_req_buf_len cf = 0 \<or> cfg_resp_buf_len cf = 0 \<or> cfg_req_buf cf = NULL \<or> cfg_resp_buf cf = NULL
       then Some (NULL, cfg, dev, s)
       else if cfg_srv_tbl_len cf = 0 \<or> cfg_srv_tbl_stg cf = NULL then Some (NULL, cfg, dev, s)
       else do {
         let server_inst = cfg_stg cf;
         (rpmsg_ept, dev1, s1) \<leftarrow> esp_amp_rpmsg_create_endpoint c (cfg_server_id cf) (Some cb) server_inst
            (server_inst + offsetof_server_ept) dev s;
         if rpmsg_ept = NULL then Some (NULL, cfg, dev1, s1)
         else do {
           let cf1 = (if cfg_queue_len cf = 0 then cf\<lparr>cfg_queue_len := 4\<rparr> else cf);
           let s2 = s1\<lparr>srv_at := (srv_at s1)
                  (cfg_srv_tbl_stg cf1 := replicate (unat (cfg_srv_tbl_len cf1)) zero_service)\<rparr>;
           let (ret, queue, s3) = esp_amp_env_queue_create c os (server_queue (server_at s2 server_inst))
                  (ucast (cfg_queue_len cf1)) sizeof_pkt_digest s2;
           let s4 = set_server server_inst ((server_at s3 server_inst)\<lparr>server_queue := queue\<rparr>) s3;
           if ret \<noteq> 0 then Some (NULL, Some cf1, dev1, s4)
           else let s5 = esp_amp_env_enter_critical c s4;
                    s6 = set_server server_inst ((server_at s5 server_inst)
                      \<lparr>req_buf_len := cfg_req_buf_len cf1, resp_buf_len := cfg_resp_buf_len cf1,
                       req_buf := cfg_req_buf cf1, resp_buf := cfg_resp_buf cf1,
                       server_id := cfg_server_id cf1, server_rpmsg_dev := cfg_rpmsg_dev cf1,
                       srv_tbl_len := cfg_srv_tbl_len cf1, srv := cfg_srv_tbl_stg cf1,
                       server_running := True\<rparr>) s5
                in Some (server_inst, Some cf1, dev1, esp_amp_env_exit_critical c s6)
         }
       })"

text \<open>The loop of \<open>esp_amp_rpc_server_deinit\<close> that destroys the queued requests.\<close>

partial_function (option) drain_requests ::
    "('g, 'z) rpc_queues \<Rightarrow> ('g, 'z) rpc_config \<Rightarrow> ptr \<Rightarrow> ('f, 'e, 'g, 'z) rpc_state \<Rightarrow>
     ('f, 'e, 'g, 'z) rpc_state option" where
  "drain_requests os c queue ds =
     (if queue = NULL then Some ds
      else case esp_amp_env_queue_recv c os queue 0 (snd ds) of
        (ret, d, s1) \<Rightarrow>
          (case d of
             Some req_pkt_digest \<Rightarrow>
               if ret = 0 then do {
                 (_, dev, s2) \<leftarrow> esp_amp_rpmsg_destroy c (pkt req_pkt_digest) (fst ds) s1;
                 drain_requests os c queue (dev, s2)
               } else Some (fst ds, s1)
           | None \<Rightarrow> Some (fst ds, s1)))"

definition esp_amp_rpc_server_deinit ::
    "('g, 'z) rpc_queues \<Rightarrow> ('g, 'z) rpc_config \<Rightarrow> ptr \<Rightarrow> ('f, 'e, 'g, 'z) rpc_state \<Rightarrow>
     ('f, 'e, 'g, 'z) rpc_state option" where
  "esp_amp_rpc_server_deinit os c server = (\<lambda>(dev, s).
     if server = NULL \<or> \<not> server_running (server_at s server) then Some (dev, s)
     else do {
       let queue = server_queue (server_at s server);
       let s1 = esp_amp_env_enter_critical c s;
       let s2 = set_server server ((server_at s1 server)\<lparr>server_running := False\<rparr>) s1;
       let s3 = esp_amp_env_exit_critical c s2;
       (dev1, s4) \<leftarrow> drain_requests os c queue (dev, s3);
       let s5 = esp_amp_env_enter_critical c s4;
       (_, dev2, s6) \<leftarrow> esp_amp_rpmsg_delete_endpoint c (server_id (server_at s5 server)) dev1 s5;
       let s7 = set_server server zero_server s6;
       let dev3 = dev2\<lparr>ept_mem := (ept_mem dev2)(server + offsetof_server_ept := zero_ept)\<rparr>;
       let s8 = esp_amp_env_exit_critical c s7;
       Some (dev3, esp_amp_env_queue_delete c os queue s8)
     })"

text \<open>
  The part of \<open>exec_cmd_and_send\<close> that sends the response. The largest payload is the largest
  message less the packet header, in 16 bits.
\<close>

definition send_response ::
    "('f, 'e, 'g, 'z) rpc_calls \<Rightarrow> ('g, 'z) rpc_config \<Rightarrow> ptr \<Rightarrow> u16 \<Rightarrow> u16 \<Rightarrow> u16 \<Rightarrow> 'g esp_amp_rpc_cmd \<Rightarrow>
     ('f, 'e, 'g, 'z) rpc_state \<Rightarrow> ('f, 'e, 'g, 'z) rpc_state option" where
  "send_response calls c server_inst to_addr cid mid cmd = (\<lambda>(dev, s).
     if 0 < resp_len cmd then do {
       let resp_pkt_buf_max_len = esp_amp_rpmsg_get_max_size dev;
       (resp_pkt_buf, dev1, s1) \<leftarrow> esp_amp_rpmsg_create_message c (ucast resp_pkt_buf_max_len)
          ESP_AMP_RPMSG_DATA_DEFAULT dev s;
       if resp_pkt_buf = NULL then Some (dev1, s1)
       else do {
         let msg_max_len = resp_pkt_buf_max_len - sizeof_rpc_pkt;
         let msg_len = (if resp_len cmd > msg_max_len then msg_max_len else resp_len cmd);
         let m1 = put_pkt mid cid (cmd_status cmd) msg_len resp_pkt_buf (mem s1);
         let m2 = memcpy (resp_pkt_buf + ucast sizeof_rpc_pkt) (resp_data cmd) (unat msg_len) m1;
         (_, dev2, s2) \<leftarrow> esp_amp_rpmsg_send_nocopy (notify_call calls) c (server_inst + offsetof_server_ept)
            to_addr resp_pkt_buf (sizeof_rpc_pkt + msg_len) dev1 (s1\<lparr>mem := m2\<rparr>);
         Some (dev2, s2)
       }
     } else Some (dev, s))"

definition exec_cmd_and_send ::
    "('f, 'e, 'g, 'z) rpc_calls \<Rightarrow> ('g, 'z) rpc_config \<Rightarrow> ptr \<Rightarrow> ptr \<Rightarrow> u16 \<Rightarrow>
     ('f, 'e, 'g, 'z) rpc_state \<Rightarrow> ('f, 'e, 'g, 'z) rpc_state option" where
  "exec_cmd_and_send calls c server_inst req_pkt to_addr = (\<lambda>(dev, s). do {
     let inst = server_at s server_inst;
     let len = pkt_msg_len (mem s) req_pkt;
     let reqlen = (if len > req_buf_len inst then req_buf_len inst else len);
     let cid = pkt_cmd_id (mem s) req_pkt;
     let mid = pkt_msg_id (mem s) req_pkt;
     let s1 = s\<lparr>mem := memcpy (req_buf inst) (req_pkt + ucast sizeof_rpc_pkt) (unat reqlen) (mem s)\<rparr>;
     (_, dev1, s2) \<leftarrow> esp_amp_rpmsg_destroy c req_pkt dev s1;
     let cmd = \<lparr>cmd_id = cid, cmd_status = ESP_AMP_RPC_STATUS_PENDING, req_len = reqlen,
                resp_len = resp_buf_len inst, req_data = req_buf inst, resp_data = resp_buf inst,
                cmd_cb = None, cb_arg = NULL\<rparr>;
     let s3 = esp_amp_env_enter_critical c s2;
     let h = find_service cid (take (unat (srv_tbl_len (server_at s3 server_inst)))
               (srv_at s3 (srv (server_at s3 server_inst))));
     let s4 = esp_amp_env_exit_critical c s3;
     (cmd', ds) \<leftarrow>
       (case h of
          None \<Rightarrow> Some (cmd\<lparr>cmd_status := ESP_AMP_RPC_STATUS_INVALID_CMD, resp_len := 1\<rparr>,
                        dev1, s4\<lparr>mem := store8 (mem s4) (resp_data cmd) 0\<rparr>)
        | Some f \<Rightarrow> handler_call calls f cmd (dev1, s4));
     send_response calls c server_inst to_addr cid mid cmd' ds
   })"

definition fr_server_cb ::
    "('g, 'z) rpc_queues \<Rightarrow> ('g, 'z) rpc_config \<Rightarrow> ptr \<Rightarrow> u16 \<Rightarrow> u16 \<Rightarrow> ptr \<Rightarrow> ('f, 'e, 'g, 'z) rpc_state \<Rightarrow>
     (int \<times> ('f, 'e, 'g, 'z) rpc_state) option" where
  "fr_server_cb os c data data_len src_addr server_inst = (\<lambda>(dev, s).
     if server_inst = NULL \<or> \<not> server_running (server_at s server_inst) \<or> data = NULL
     then Some (ESP_AMP_RPC_FAIL, dev, s)
     else do {
       let req_pkt_digest = \<lparr>client_addr = src_addr, pkt_len = data_len, pkt = data\<rparr>;
       let queue = server_queue (server_at s server_inst);
       let (sent, s1) = (if queue = NULL then (False, s)
          else let (r, s1) = esp_amp_env_queue_send c os queue req_pkt_digest 0 s in (r = 0, s1));
       if \<not> sent then do {
         (_, dev1, s2) \<leftarrow> esp_amp_rpmsg_destroy c data dev s1;
         Some (ESP_AMP_RPC_OK, dev1, s2)
       } else Some (ESP_AMP_RPC_OK, dev, s1)
     })"

definition esp_amp_rpc_server_run ::
    "('f, 'e, 'g, 'z) rpc_calls \<Rightarrow> ('g, 'z) rpc_queues \<Rightarrow> ('g, 'z) rpc_config \<Rightarrow> ptr \<Rightarrow> u32 \<Rightarrow>
     ('f, 'e, 'g, 'z) rpc_state \<Rightarrow> (int \<times> ('f, 'e, 'g, 'z) rpc_state) option" where
  "esp_amp_rpc_server_run calls os c server timeout_ms = (\<lambda>(dev, s).
     if server = NULL then Some (ESP_AMP_RPC_ERR_INVALID_ARG, dev, s)
     else if \<not> server_running (server_at s server) then Some (ESP_AMP_RPC_ERR_INVALID_STATE, dev, s)
     else let queue = server_queue (server_at s server)
          in if queue = NULL then Some (ESP_AMP_RPC_OK, dev, s)
             else case esp_amp_env_queue_recv c os queue timeout_ms s of
               (ret, d, s1) \<Rightarrow>
                 (case d of
                    Some req_pkt_digest \<Rightarrow>
                      if ret = 0 then do {
                        ds \<leftarrow> exec_cmd_and_send calls c server (pkt req_pkt_digest)
                                (client_addr req_pkt_digest) (dev, s1);
                        Some (ESP_AMP_RPC_OK, ds)
                      } else Some (ESP_AMP_RPC_OK, dev, s1)
                  | None \<Rightarrow> Some (ESP_AMP_RPC_OK, dev, s1)))"

definition bm_server_cb ::
    "('f, 'e, 'g, 'z) rpc_calls \<Rightarrow> ('g, 'z) rpc_config \<Rightarrow> ptr \<Rightarrow> u16 \<Rightarrow> u16 \<Rightarrow> ptr \<Rightarrow>
     ('f, 'e, 'g, 'z) rpc_state \<Rightarrow> (int \<times> ('f, 'e, 'g, 'z) rpc_state) option" where
  "bm_server_cb calls c data data_len src_addr server_inst = (\<lambda>(dev, s).
     if server_inst = NULL \<or> \<not> server_running (server_at s server_inst) \<or> data = NULL
     then Some (ESP_AMP_RPC_FAIL, dev, s)
     else do {
       ds \<leftarrow> exec_cmd_and_send calls c server_inst data src_addr (dev, s);
       Some (ESP_AMP_RPC_OK, ds)
     })"

subsection \<open>The client\<close>

definition client_cb ::
    "('f, 'e, 'g, 'z) rpc_calls \<Rightarrow> ('g, 'z) rpc_config \<Rightarrow> ptr \<Rightarrow> u16 \<Rightarrow> u16 \<Rightarrow> ptr \<Rightarrow>
     ('f, 'e, 'g, 'z) rpc_state \<Rightarrow> (int \<times> ('f, 'e, 'g, 'z) rpc_state) option" where
  "client_cb calls c data data_len src_addr client_inst = (\<lambda>(dev, s).
     if client_inst = NULL \<or> \<not> client_running (client_at s client_inst) \<or> data = NULL
     then Some (ESP_AMP_RPC_FAIL, dev, s)
     else do {
       let p = pending_cmd (client_at s client_inst);
       (dev1, s1) \<leftarrow>
         (if p \<noteq> NULL \<and> pkt_msg_id (mem s) data = pending_id (client_at s client_inst)
          then do {
            let s1 = set_cmd p ((cmd_at s p)\<lparr>cmd_status := pkt_status (mem s) data\<rparr>) s;
            let len = pkt_msg_len (mem s1) data;
            let cmd = cmd_at s1 p;
            let cpy_len = (if len > resp_len cmd then resp_len cmd else len);
            let s2 = (if 0 < len \<and> resp_data cmd \<noteq> NULL
                      then s1\<lparr>mem := memcpy (resp_data cmd) (data + ucast sizeof_rpc_pkt) (unat cpy_len) (mem s1)\<rparr>
                      else s1);
            case cmd_cb cmd of
              None \<Rightarrow> Some (dev, s2)
            | Some f \<Rightarrow> app_cb_call calls f client_inst p (cb_arg cmd) (dev, s2)
          }
          else Some (dev, s));
       (_, dev2, s2) \<leftarrow> esp_amp_rpmsg_destroy c data dev1 s1;
       Some (ESP_AMP_RPC_OK, dev2, s2)
     })"

definition esp_amp_rpc_client_init ::
    "'e \<Rightarrow> ('g, 'z) rpc_config \<Rightarrow> 'g rpc_client_cfg option \<Rightarrow> ('f, 'e, 'g, 'z) rpc_state \<Rightarrow>
     (ptr \<times> ('f, 'e, 'g, 'z) rpc_state) option" where
  "esp_amp_rpc_client_init cb c cfg = (\<lambda>(dev, s). case cfg of
       None \<Rightarrow> Some (NULL, dev, s)
     | Some cf \<Rightarrow>
       if ccfg_stg cf = NULL \<or> ccfg_rpmsg_dev cf = NULL then Some (NULL, dev, s)
       else do {
         let client_inst = ccfg_stg cf;
         (rpmsg_ept, dev1, s1) \<leftarrow> esp_amp_rpmsg_create_endpoint c (ccfg_client_id cf) (Some cb) client_inst
            (client_inst + offsetof_client_ept) dev s;
         if rpmsg_ept = NULL then Some (NULL, dev1, s1)
         else let s2 = esp_amp_env_enter_critical c s1;
                  s3 = set_client client_inst ((client_at s2 client_inst)
                    \<lparr>client_rpmsg_dev := ccfg_rpmsg_dev cf, peer_server_id := ccfg_server_id cf,
                     client_id := ccfg_client_id cf, poll_arg := ccfg_poll_arg cf,
                     poll_cb := ccfg_poll_cb cf, pending_cmd := NULL, pending_id := 0,
                     client_running := True\<rparr>) s2
              in Some (client_inst, dev1, esp_amp_env_exit_critical c s3)
       })"

definition esp_amp_rpc_client_deinit ::
    "('g, 'z) rpc_config \<Rightarrow> ptr \<Rightarrow> ('f, 'e, 'g, 'z) rpc_state \<Rightarrow> ('f, 'e, 'g, 'z) rpc_state option" where
  "esp_amp_rpc_client_deinit c client = (\<lambda>(dev, s).
     if client = NULL \<or> \<not> client_running (client_at s client) then Some (dev, s)
     else do {
       let s1 = esp_amp_env_enter_critical c s;
       (_, dev1, s2) \<leftarrow> esp_amp_rpmsg_delete_endpoint c (client_id (client_at s1 client)) dev s1;
       let s3 = set_client client zero_client s2;
       let dev2 = dev1\<lparr>ept_mem := (ept_mem dev1)(client + offsetof_client_ept := zero_ept)\<rparr>;
       Some (dev2, esp_amp_env_exit_critical c s3)
     })"

definition esp_amp_rpc_client_execute_cmd ::
    "('f, 'e, 'g, 'z) rpc_calls \<Rightarrow> ('g, 'z) rpc_config \<Rightarrow> ptr \<Rightarrow> ptr \<Rightarrow> ('f, 'e, 'g, 'z) rpc_state \<Rightarrow>
     (int \<times> ('f, 'e, 'g, 'z) rpc_state) option" where
  "esp_amp_rpc_client_execute_cmd calls c client cmd = (\<lambda>(dev, s).
     if client = NULL \<or> cmd = NULL then Some (ESP_AMP_RPC_ERR_INVALID_ARG, dev, s)
     else if \<not> client_running (client_at s client) then Some (ESP_AMP_RPC_ERR_INVALID_STATE, dev, s)
     else let s1 = set_cmd cmd ((cmd_at s cmd)\<lparr>cmd_status := ESP_AMP_RPC_STATUS_PENDING\<rparr>) s;
              cm = cmd_at s1 cmd
          in if 65527 < req_len cm then Some (ESP_AMP_RPC_ERR_INVALID_SIZE, dev, s1)
             else do {
               let req_pkt_len = req_len cm + sizeof_rpc_pkt;
               (req_pkt_buf, dev1, s2) \<leftarrow> esp_amp_rpmsg_create_message c (ucast req_pkt_len)
                  ESP_AMP_RPMSG_DATA_DEFAULT dev s1;
               if req_pkt_buf = NULL
               then Some (if esp_amp_rpmsg_get_max_size dev1 < req_pkt_len then ESP_AMP_RPC_ERR_INVALID_SIZE
                          else ESP_AMP_RPC_ERR_NO_MEM, dev1, s2)
               else do {
                 let inst = client_at s2 client;
                 let mid = pending_id inst + 1;
                 let s3 = set_client client (inst\<lparr>pending_id := mid, pending_cmd := cmd\<rparr>) s2;
                 let m1 = put_pkt mid (cmd_id cm) ESP_AMP_RPC_STATUS_PENDING (req_len cm) req_pkt_buf (mem s3);
                 let m2 = memcpy (req_pkt_buf + ucast sizeof_rpc_pkt) (req_data cm) (unat (req_len cm)) m1;
                 (_, dev2, s4) \<leftarrow> esp_amp_rpmsg_send_nocopy (notify_call calls) c (client + offsetof_client_ept)
                    (peer_server_id inst) req_pkt_buf req_pkt_len dev1 (s3\<lparr>mem := m2\<rparr>);
                 Some (ESP_AMP_RPC_OK, dev2, s4)
               }
             })"

definition esp_amp_rpc_client_poll ::
    "('f, 'e, 'g, 'z) rpc_calls \<Rightarrow> ptr \<Rightarrow> ('f, 'e, 'g, 'z) rpc_state \<Rightarrow> ('f, 'e, 'g, 'z) rpc_state option" where
  "esp_amp_rpc_client_poll calls client = (\<lambda>(dev, s).
     if client \<noteq> NULL \<and> client_running (client_at s client) then
       (case poll_cb (client_at s client) of
          None \<Rightarrow> Some (dev, s)
        | Some f \<Rightarrow> poll_cb_call calls f (poll_arg (client_at s client)) (dev, s))
     else Some (dev, s))"

end
