(* ===== verification/Amp_Rpc_Link.thy ===== *)
theory Amp_Rpc_Link
  imports Amp_Rpc
begin

text \<open>
  Correctness of remote procedure calls: the service table is a finite map of bounded size, a request
  packet carries the command to the server, the server runs the handler of the command on the bytes
  of the request and answers, and the client accepts only the response to its pending command and
  never writes past its response buffer.
\<close>

subsection \<open>The service table as a map\<close>

lemma rpc_more_fields:
  assumes "core.more s' = core.more s"
  shows "server_at s' = server_at s" "client_at s' = client_at s" "cmd_at s' = cmd_at s" "srv_at s' = srv_at s"
  using assms by (cases s; cases s'; simp)+

lemmas rpc_enter_fields [simp] = rpc_more_fields [OF crit_frame_fields(6) [OF env_enter_frame]]
lemmas rpc_exit_fields [simp] = rpc_more_fields [OF crit_frame_fields(6) [OF env_exit_frame]]

lemma rpc_set_simps [simp]:
  "mem (set_server p x s) = mem s" "mem (set_client p y s) = mem s" "mem (set_cmd p z s) = mem s"
  "server_at (set_server p x s) = (server_at s)(p := x)" "client_at (set_client p y s) = (client_at s)(p := y)"
  "cmd_at (set_cmd p z s) = (cmd_at s)(p := z)" "client_at (set_cmd p z s) = client_at s"
  "cmd_at (set_client p y s) = cmd_at s" "lp_access_hp_cnt (set_cmd p z s) = lp_access_hp_cnt s"
  "lp_access_hp_cnt (set_client p y s) = lp_access_hp_cnt s"
  by (simp_all add: set_server_def set_client_def set_cmd_def)

text \<open>What a server offers: its services, their table, and how many entries are free.\<close>

definition services :: "ptr \<Rightarrow> ('g, 'z) rpc \<Rightarrow> u16 \<Rightarrow> 'g option" where
  "services server s cid =
     find_service cid (take (unat (srv_tbl_len (server_at s server))) (srv_at s (srv (server_at s server))))"

definition table_ok :: "ptr \<Rightarrow> ('g, 'z) rpc \<Rightarrow> bool" where
  "table_ok server s \<longleftrightarrow> server \<noteq> NULL \<and> srv (server_at s server) \<noteq> NULL \<and>
     length (srv_at s (srv (server_at s server))) = unat (srv_tbl_len (server_at s server)) \<and>
     distinct (map srv_cmd_id (filter (\<lambda>v. srv_handler v \<noteq> None) (srv_at s (srv (server_at s server)))))"

definition table_full :: "ptr \<Rightarrow> ('g, 'z) rpc \<Rightarrow> bool" where
  "table_full server s \<longleftrightarrow> (\<forall>v \<in> set (srv_at s (srv (server_at s server))). srv_handler v \<noteq> None)"

lemma find_service_None:
  "find_service cid vs = None \<longleftrightarrow> cid \<notin> set (map srv_cmd_id (filter (\<lambda>v. srv_handler v \<noteq> None) vs))"
  by (induction vs) auto

lemma add_scan_exist: "snd (add_scan cid vs i e x) = None \<longleftrightarrow> x = None \<and> find_service cid vs = None"
  by (induction vs arbitrary: i e x) auto

lemma add_scan_kept: "fst (add_scan cid vs i (Some k) x) = Some k"
  by (induction vs arbitrary: i x) auto

lemma add_scan_full:
  "fst (add_scan cid vs i None x) = None \<longleftrightarrow> (\<forall>v \<in> set vs. srv_handler v \<noteq> None)"
  by (induction vs arbitrary: i x) (auto simp: add_scan_kept)

lemma add_scan_empty:
  "fst (add_scan cid vs i None x) = Some k \<Longrightarrow> i \<le> k \<and> k - i < length vs \<and> srv_handler (vs ! (k - i)) = None"
proof (induction vs arbitrary: i x)
  case (Cons v vs)
  show ?case
  proof (cases "srv_handler v")
    case None
    with Cons.prems show ?thesis by (simp add: add_scan_kept)
  next
    case (Some h)
    with Cons.prems obtain x' where "fst (add_scan cid vs (Suc i) None x') = Some k"
      by (auto split: if_splits)
    from Cons.IH [OF this] have *: "Suc i \<le> k" "k - Suc i < length vs" "srv_handler (vs ! (k - Suc i)) = None"
      by simp_all
    then have "k - i = Suc (k - Suc i)" by simp
    with * show ?thesis by simp
  qed
qed simp

lemma find_service_update:
  assumes "k < length vs" and "srv_handler (vs ! k) = None" and "find_service cid vs = None"
  shows "find_service cid' (vs[k := \<lparr>srv_cmd_id = cid, srv_handler = Some h\<rparr>]) =
    (if cid' = cid then Some h else find_service cid' vs)"
  using assms
proof (induction vs arbitrary: k)
  case (Cons v vs)
  then show ?case by (cases k) (auto split: if_splits)
qed simp

lemma keys_update:
  assumes "k < length vs" and "srv_handler (vs ! k) = None" and "find_service cid vs = None"
    and "distinct (map srv_cmd_id (filter (\<lambda>v. srv_handler v \<noteq> None) vs))"
  shows "distinct (map srv_cmd_id (filter (\<lambda>v. srv_handler v \<noteq> None)
    (vs[k := \<lparr>srv_cmd_id = cid, srv_handler = Some h\<rparr>])))"
proof -
  have vs: "vs = take k vs @ vs ! k # drop (Suc k) vs" using assms(1) by (rule id_take_nth_drop)
  have "filter (\<lambda>v. srv_handler v \<noteq> None) vs =
      filter (\<lambda>v. srv_handler v \<noteq> None) (take k vs) @ filter (\<lambda>v. srv_handler v \<noteq> None) (drop (Suc k) vs)"
    by (subst vs) (simp add: assms(2))
  then show ?thesis
    using assms(3,4) unfolding find_service_None
    by (auto simp: upd_conv_take_nth_drop [OF assms(1)])
qed

lemma del_loop_spec:
  "fst (del_loop cid vs r) = (if find_service cid vs = None then r else ESP_AMP_RPC_OK)"
  "find_service cid' (snd (del_loop cid vs r)) = (if cid' = cid then None else find_service cid' vs)"
  "length (snd (del_loop cid vs r)) = length vs"
  "filter (\<lambda>v. srv_handler v \<noteq> None) (snd (del_loop cid vs r)) =
     filter (\<lambda>v. srv_handler v \<noteq> None \<and> srv_cmd_id v \<noteq> cid) vs"
  by (induction vs arbitrary: r) (auto simp: Let_def case_prod_unfold)

lemma table_view:
  assumes "table_ok server s" and "server_at s' = server_at s"
    and "srv_at s' = (srv_at s)(srv (server_at s server) := vs')"
    and "length vs' = length (srv_at s (srv (server_at s server)))"
  shows "services server s' = (\<lambda>i. find_service i vs')"
    and "table_ok server s' \<longleftrightarrow> distinct (map srv_cmd_id (filter (\<lambda>v. srv_handler v \<noteq> None) vs'))"
  using assms by (auto simp: services_def table_ok_def fun_eq_iff)

lemma add_service_cases:
  assumes "port_ok c" and "table_ok server s" and "vs = srv_at s (srv (server_at s server))"
  obtains ret s' vs' where "esp_amp_rpc_server_add_service c server cid (Some h) s = (ret, s')"
    "server_at s' = server_at s" "srv_at s' = (srv_at s)(srv (server_at s server) := vs')" "mem s' = mem s"
    "if find_service cid vs \<noteq> None then ret = ESP_AMP_RPC_ERR_EXIST \<and> vs' = vs
     else if \<forall>v \<in> set vs. srv_handler v \<noteq> None then ret = ESP_AMP_RPC_ERR_NO_MEM \<and> vs' = vs
     else ret = ESP_AMP_RPC_OK \<and> (\<exists>k < length vs. srv_handler (vs ! k) = None \<and>
            vs' = vs[k := \<lparr>srv_cmd_id = cid, srv_handler = Some h\<rparr>])"
proof -
  obtain e x where sc: "add_scan cid vs 0 None None = (e, x)" by fastforce
  have x: "x = None \<longleftrightarrow> find_service cid vs = None" using add_scan_exist [of cid vs 0 None None] sc by simp
  have e: "e = None \<longleftrightarrow> (\<forall>v \<in> set vs. srv_handler v \<noteq> None)" using add_scan_full [of cid vs 0 None] sc by simp
  have k: "k < length vs \<and> srv_handler (vs ! k) = None" if "e = Some k" for k
    using add_scan_empty [of cid vs 0 None k] sc that by simp
  let ?s1 = "esp_amp_env_enter_critical c s" and ?tbl = "srv (server_at s server)"
  let ?r = "if x \<noteq> None then ESP_AMP_RPC_ERR_EXIST else if e = None then ESP_AMP_RPC_ERR_NO_MEM else ESP_AMP_RPC_OK"
  let ?s2 = "if x \<noteq> None \<or> e = None then ?s1 else ?s1\<lparr>srv_at := (srv_at ?s1)(?tbl := vs[the e := \<lparr>srv_cmd_id = cid, srv_handler = Some h\<rparr>])\<rparr>"
  have "esp_amp_rpc_server_add_service c server cid (Some h) s = (?r, esp_amp_env_exit_critical c ?s2)"
    using assms sc by (simp add: esp_amp_rpc_server_add_service_def table_ok_def Let_def split: option.split)
  then show thesis
    using assms(1,3) x e k
    by (intro that [of ?r "esp_amp_env_exit_critical c ?s2"
          "if x \<noteq> None \<or> e = None then vs else vs[the e := \<lparr>srv_cmd_id = cid, srv_handler = Some h\<rparr>]"])
      (auto simp: fun_upd_idem)
qed

lemma del_service_cases:
  assumes "port_ok c" and "table_ok server s" and "vs = srv_at s (srv (server_at s server))"
  obtains ret s' vs' where "esp_amp_rpc_server_del_service c server cid s = (ret, s')"
    "server_at s' = server_at s" "srv_at s' = (srv_at s)(srv (server_at s server) := vs')" "mem s' = mem s"
    "(ret, vs') = del_loop cid vs ESP_AMP_RPC_ERR_NOT_FOUND"
proof -
  obtain ret vs' where dl: "del_loop cid vs ESP_AMP_RPC_ERR_NOT_FOUND = (ret, vs')" by fastforce
  let ?s1 = "esp_amp_env_enter_critical c s" and ?tbl = "srv (server_at s server)"
  have "esp_amp_rpc_server_del_service c server cid s =
      (ret, esp_amp_env_exit_critical c (?s1\<lparr>srv_at := (srv_at ?s1)(?tbl := vs')\<rparr>))"
    using assms dl by (simp add: esp_amp_rpc_server_del_service_def table_ok_def Let_def)
  from that [OF this] show thesis using assms(1,3) dl by simp
qed

text \<open>C21. The service table of a server is a finite map from command ids to handlers that holds at
  most the configured number of entries. Adding a service fails with EXIST exactly if the command
  has a handler, and with NO_MEM exactly if it has none and the table is full, without changing the
  map; otherwise it succeeds and binds the command. Deleting fails with NOT_FOUND exactly if the
  command has no handler, and otherwise unbinds it. Both keep every other binding and the invariant
  that a command occurs once. Missing server, table or handler are refused.\<close>

theorem rpc_service_table:
  assumes "port_ok c" and "table_ok server s"
    and "esp_amp_rpc_server_add_service c server cid (Some h) s = (ra, sa)"
    and "esp_amp_rpc_server_del_service c server cid s = (rd, sd)"
  shows "(if services server s cid \<noteq> None then ra = ESP_AMP_RPC_ERR_EXIST \<and> services server sa = services server s
          else if table_full server s then ra = ESP_AMP_RPC_ERR_NO_MEM \<and> services server sa = services server s
          else ra = ESP_AMP_RPC_OK \<and> services server sa = (services server s)(cid \<mapsto> h)) \<and>
    (if services server s cid = None then rd = ESP_AMP_RPC_ERR_NOT_FOUND \<and> services server sd = services server s
     else rd = ESP_AMP_RPC_OK \<and> services server sd = (services server s)(cid := None)) \<and>
    table_ok server sa \<and> table_ok server sd \<and> mem sa = mem s \<and> mem sd = mem s \<and>
    esp_amp_rpc_server_add_service c server cid None s = (ESP_AMP_RPC_ERR_INVALID_ARG, s) \<and>
    esp_amp_rpc_server_add_service c NULL cid (Some h) s = (ESP_AMP_RPC_ERR_INVALID_ARG, s) \<and>
    esp_amp_rpc_server_del_service c NULL cid s = (ESP_AMP_RPC_ERR_INVALID_ARG, s)"
proof -
  define vs where "vs = srv_at s (srv (server_at s server))"
  note tv = table_view [OF assms(2)]
  have sv: "services server s = (\<lambda>i. find_service i vs)"
    and dist: "distinct (map srv_cmd_id (filter (\<lambda>v. srv_handler v \<noteq> None) vs))"
    using tv [of s vs] assms(2) by (simp_all add: vs_def fun_upd_idem)
  have full: "table_full server s \<longleftrightarrow> (\<forall>v \<in> set vs. srv_handler v \<noteq> None)" by (simp add: table_full_def vs_def)
  obtain r s' va where e: "esp_amp_rpc_server_add_service c server cid (Some h) s = (r, s')" and
    va': "server_at s' = server_at s" "srv_at s' = (srv_at s)(srv (server_at s server) := va)" "mem s' = mem s"
    "if find_service cid vs \<noteq> None then r = ESP_AMP_RPC_ERR_EXIST \<and> va = vs
     else if \<forall>v \<in> set vs. srv_handler v \<noteq> None then r = ESP_AMP_RPC_ERR_NO_MEM \<and> va = vs
     else r = ESP_AMP_RPC_OK \<and> (\<exists>k < length vs. srv_handler (vs ! k) = None \<and>
            va = vs[k := \<lparr>srv_cmd_id = cid, srv_handler = Some h\<rparr>])"
    by (rule add_service_cases [OF assms(1,2) vs_def, of cid h])
  have "r = ra" "s' = sa" using e assms(3) by simp_all
  note va = va' [unfolded this]
  have "length va = length vs" using va(4) by (auto split: if_splits)
  note ta = tv [OF va(1,2), unfolded vs_def [symmetric], OF this]
  have add: "(if services server s cid \<noteq> None then ra = ESP_AMP_RPC_ERR_EXIST \<and> services server sa = services server s
          else if table_full server s then ra = ESP_AMP_RPC_ERR_NO_MEM \<and> services server sa = services server s
          else ra = ESP_AMP_RPC_OK \<and> services server sa = (services server s)(cid \<mapsto> h)) \<and> table_ok server sa"
  proof (cases "find_service cid vs \<noteq> None \<or> (\<forall>v \<in> set vs. srv_handler v \<noteq> None)")
    case True
    then have "va = vs" using va(4) by (simp split: if_splits)
    then show ?thesis using True va(4) dist by (cases "find_service cid vs = None") (auto simp: sv full ta)
  next
    case False
    then obtain k where k: "k < length vs" "srv_handler (vs ! k) = None" "va = vs[k := \<lparr>srv_cmd_id = cid, srv_handler = Some h\<rparr>]"
      "ra = ESP_AMP_RPC_OK" and n: "find_service cid vs = None"
      using va(4) by (auto split: if_splits)
    have "(\<lambda>i. find_service i va) = (\<lambda>i. find_service i vs)(cid \<mapsto> h)"
      using find_service_update [OF k(1,2) n] by (simp add: k(3) fun_eq_iff)
    moreover have "table_ok server sa" using keys_update [OF k(1,2) n dist] by (simp only: ta k(3))
    ultimately show ?thesis using False n k(4) by (auto simp: sv full ta(1))
  qed
  obtain r s' vd where e: "esp_amp_rpc_server_del_service c server cid s = (r, s')" and
    vd': "server_at s' = server_at s" "srv_at s' = (srv_at s)(srv (server_at s server) := vd)" "mem s' = mem s"
    "(r, vd) = del_loop cid vs ESP_AMP_RPC_ERR_NOT_FOUND"
    by (rule del_service_cases [OF assms(1,2) vs_def, of cid])
  have "r = rd" "s' = sd" using e assms(4) by simp_all
  note vd = vd' [unfolded this]
  note dl = del_loop_spec [where cid = cid and vs = vs and r = ESP_AMP_RPC_ERR_NOT_FOUND, folded vd(4), simplified fst_conv snd_conv]
  note td = tv [OF vd(1,2), unfolded vs_def [symmetric], OF dl(3)]
  have del: "(if services server s cid = None then rd = ESP_AMP_RPC_ERR_NOT_FOUND \<and> services server sd = services server s
     else rd = ESP_AMP_RPC_OK \<and> services server sd = (services server s)(cid := None)) \<and> table_ok server sd"
  proof -
    have "filter (\<lambda>v. srv_handler v \<noteq> None) vd = filter (\<lambda>v. srv_cmd_id v \<noteq> cid) (filter (\<lambda>v. srv_handler v \<noteq> None) vs)"
      using dl(4) by (simp add: conj_commute)
    then have "table_ok server sd" unfolding td(2) by (simp only: distinct_map_filter [OF dist])
    moreover have "(\<lambda>i. find_service i vd) = (\<lambda>i. find_service i vs)(cid := None)" using dl(2) by (simp add: fun_eq_iff)
    ultimately show ?thesis using dl(1) by (auto simp: sv td(1) fun_eq_iff)
  qed
  show ?thesis using add del va(3) vd(3) assms(2) by (simp add: table_ok_def esp_amp_rpc_server_add_service_def esp_amp_rpc_server_del_service_def)
qed

definition demo_service_core :: "(nat, unit) rpc" where
  "demo_service_core = \<lparr>mem = (\<lambda>_. 0), main_sw_intr = False, sub_sw_intr = False, sw_intr_ena = True,
     mstatus = MSTATUS_MIE, s_critical_nesting = 0, s_old_mstatus = 0, bm_intr_nesting_cnt = 0,
     lp_access_hp_cnt = NULL,
     server_at = (\<lambda>_. zero_server\<lparr>srv_tbl_len := 2, srv := 0x6000, server_running := True,
        req_buf := 0x7000, req_buf_len := 8, resp_buf := 0x7100, resp_buf_len := 8\<rparr>),
     client_at = (\<lambda>_. zero_client\<lparr>client_running := True, peer_server_id := 5\<rparr>),
     cmd_at = (\<lambda>_. \<lparr>cmd_id = 3, cmd_status = 0, req_len = 2, resp_len = 4, req_data = 0x4000, resp_data = 0x4100,
        cmd_cb = None, cb_arg = NULL\<rparr>),
     srv_at = (\<lambda>_. [\<lparr>srv_cmd_id = 7, srv_handler = Some 1\<rparr>, zero_service])\<rparr>"

theorem rpc_service_table_witness:
  "fst (esp_amp_rpc_server_add_service (demo_config True) 0x5000 3 (Some 9) demo_service_core) = ESP_AMP_RPC_OK \<and>
   fst (esp_amp_rpc_server_del_service (demo_config True) 0x5000 3 demo_service_core) = ESP_AMP_RPC_ERR_NOT_FOUND"
proof -
  have "table_ok 0x5000 demo_service_core" "services 0x5000 demo_service_core 3 = None" "\<not> table_full 0x5000 demo_service_core"
    by (simp_all add: table_ok_def services_def table_full_def demo_service_core_def zero_server_def zero_service_def)
  with rpc_service_table [of "demo_config True" "0x5000" demo_service_core 3 9]
  show ?thesis by (metis (no_types, lifting) demo_config_simps(5) prod.collapse)
qed

subsection \<open>Packets\<close>

text \<open>A packet in memory: message id, command, status and the bytes of its data.\<close>

definition packet_at :: "memory \<Rightarrow> ptr \<Rightarrow> u16 \<Rightarrow> u16 \<Rightarrow> u16 \<Rightarrow> u8 list \<Rightarrow> bool" where
  "packet_at m p mid cid st data \<longleftrightarrow> pkt_msg_id m p = mid \<and> pkt_cmd_id m p = cid \<and> pkt_status m p = st \<and>
     unat (pkt_msg_len m p) = length data \<and> load_bytes m (p + 8) (length data) = data"

lemma packet_at_cong:
  assumes "packet_at m p mid cid st data" and "agree (span p (8 + length data)) m m'"
  shows "packet_at m' p mid cid st data"
proof -
  have "length data < 65536" using assms(1) unat_lt_16 [of "pkt_msg_len m p"] by (simp add: packet_at_def del: unat_lt_16)
  have sub: "agree (span (p + word_of_nat k) l) m m'" if "k + l \<le> 8 + length data" "k < 4294967296" for k l
    using that by (intro agree_mono [OF assms(2)] span_sub) (simp add: unat_of_nat32)
  have "load16 m p = load16 m' p" "load16 m (p + 2) = load16 m' (p + 2)" "load16 m (p + 4) = load16 m' (p + 4)"
    "load16 m (p + 6) = load16 m' (p + 6)"
    using sub [of 0 2] sub [of 2 2] sub [of 4 2] sub [of 6 2] by (auto intro!: load16_cong)
  moreover have "load_bytes m (p + 8) (length data) = load_bytes m' (p + 8) (length data)"
    using sub [of 8 "length data"] \<open>length data < 65536\<close> by (intro load_bytes_cong) auto
  ultimately show ?thesis
    using assms(1) by (simp add: packet_at_def pkt_msg_id_def pkt_cmd_id_def pkt_status_def pkt_msg_len_def)
qed

lemma load_bytes_agree:
  assumes "load_bytes m p n = load_bytes m' p n"
  shows "agree (span p n) m m'"
  unfolding agree_def
proof
  fix x assume "x \<in> span p n"
  then obtain i where "i < n" "x = p + word_of_nat i" by (rule span_cases)
  with assms show "m x = m' x" by (metis (no_types, lifting) add_0 diff_zero length_upt load_bytes_def nth_map nth_upt)
qed

lemma memcpy_effect:
  assumes "n < 65536"
  shows "load_bytes (memcpy dst src n m) dst n = load_bytes m src n" and "agree (- span dst n) (memcpy dst src n m) m"
proof -
  show "load_bytes (memcpy dst src n m) dst n = load_bytes m src n"
    using load_store_bytes_same [of "load_bytes m src n" m dst] assms by (simp add: memcpy_def)
  show "agree (- span dst n) (memcpy dst src n m) m"
    unfolding memcpy_def using assms by (intro frame_intros agree_refl) auto
qed

text \<open>Writing a packet whose data is elsewhere in memory.\<close>

lemma put_packet:
  assumes "m' = memcpy (p + 8) src (unat len) (put_pkt mid cid st len p m)"
    and "span src (unat len) \<inter> span p (8 + unat len) = {}"
  shows "packet_at m' p mid cid st (load_bytes m src (unat len))" and "agree (- span p (8 + unat len)) m' m"
proof -
  let ?h = "put_pkt mid cid st len p m"
  have l: "unat len < 65536" by (rule unat_lt_16)
  have sub: "span p 8 \<subseteq> span p (8 + unat len)" "span (p + 8) (unat len) \<subseteq> span p (8 + unat len)"
    by (rule span_sub; simp)+
  have "span p 2 \<subseteq> span p 8" "span (p + 2) 2 \<subseteq> span p 8" "span (p + 4) 2 \<subseteq> span p 8" "span (p + 6) 2 \<subseteq> span p 8"
    by (rule span_sub; simp)+
  then have h: "agree (- span p 8) ?h m" unfolding put_pkt_def by (intro frame_intros agree_refl) auto
  note c = memcpy_effect [OF l, of "p + 8" src ?h, folded assms(1)]
  show "agree (- span p (8 + unat len)) m' m"
    using agree_trans [OF agree_mono [OF c(2)] agree_mono [OF h]] sub by blast
  have "span p 8 \<inter> span (p + 8) (unat len) = {}"
    by (rule disj_Int) (use l in \<open>simp add: disj_def del: unat_lt_16\<close>)
  then have hd: "agree (span p 8) m' ?h" by (intro agree_mono [OF c(2)]) auto
  have "load_bytes ?h src (unat len) = load_bytes m src (unat len)"
    using assms(2) sub(1) unat_le_32 [of len] by (intro load_bytes_cong agree_mono [OF h]) auto
  then have data: "load_bytes m' (p + 8) (unat len) = load_bytes m src (unat len)" using c(1) by simp
  have f: "load16 m' (p + word_of_nat k) = load16 ?h (p + word_of_nat k)" if "k + 2 \<le> 8" for k
    using that by (intro load16_cong agree_mono [OF hd] span_sub) (simp add: unat_of_nat32)
  have "disj p 2 (p + 6) 2" "disj p 2 (p + 4) 2" "disj p 2 (p + 2) 2" "disj (p + 2) 2 (p + 6) 2"
    "disj (p + 2) 2 (p + 4) 2" "disj (p + 4) 2 (p + 6) 2" by (simp_all add: disj_def)
  then have "load16 ?h p = mid" "load16 ?h (p + 2) = cid" "load16 ?h (p + 4) = st" "load16 ?h (p + 6) = len"
    by (simp_all add: put_pkt_def mem_simps)
  then show "packet_at m' p mid cid st (load_bytes m src (unat len))"
    using f [of 0] f [of 2] f [of 4] f [of 6] data
    by (simp add: packet_at_def pkt_msg_id_def pkt_cmd_id_def pkt_status_def pkt_msg_len_def)
qed

subsection \<open>What the RPMsg operations leave alone\<close>

definition notify_more ::
    "('f \<Rightarrow> ptr \<Rightarrow> 'z core_scheme \<Rightarrow> (int \<times> 'z core_scheme) option) \<Rightarrow> 'f esp_amp_queue \<Rightarrow> bool" where
  "notify_more call q \<longleftrightarrow> (\<forall>f s r s'. notify_fc q = Some f \<longrightarrow> call f (priv_data q) s = Some (r, s') \<longrightarrow>
     core.more s' = core.more s)"

lemma pm_enter_more: "port_ok c \<Longrightarrow> core.more (PM_SKIP_LIGHT_SLEEP_ENTER c s) = core.more s"
  using pm_enter_frame [of c s] by (simp add: pm_frame_def)

lemma pm_exit_more: "port_ok c \<Longrightarrow> PM_SKIP_LIGHT_SLEEP_EXIT c s = Some s' \<Longrightarrow> core.more s' = core.more s"
  using pm_exit_frame [of c s s'] by (simp add: pm_frame_def)

lemma create_message_more:
  assumes "port_ok c" and "esp_amp_rpmsg_create_message c nbytes fl dev s = Some (p, dev', s')"
  shows "core.more s' = core.more s"
  using assms
  by (auto simp: esp_amp_rpmsg_create_message_def esp_amp_queue_alloc_try_def Let_def pm_enter_more
      dest!: pm_exit_more [OF assms(1)] split: if_splits Option.bind_splits)

lemma send_nocopy_more:
  assumes "port_ok c" and "notify_more call (tx_queue dev)"
    and "esp_amp_rpmsg_send_nocopy call c ept dst data len dev s = Some (ret, dev', s')"
  shows "core.more s' = core.more s"
proof -
  let ?rpmsg = "data - offsetof_msg_data"
  let ?s1 = "esp_amp_env_enter_critical c (s\<lparr>mem := store16 (store16 (store16 (mem s) (?rpmsg + 4) len)
    (?rpmsg + 2) dst) ?rpmsg (addr (ept_mem dev ept))\<rparr>)"
  from assms(3) obtain q s2 where
    snd: "esp_amp_queue_send_try call c (tx_queue dev) ?rpmsg (max_item_size (tx_queue dev)) ?s1 = Some (ret, q, s2)"
    and s': "s' = esp_amp_env_exit_critical c s2"
    by (auto simp: esp_amp_rpmsg_send_nocopy_def Let_def split: Option.bind_splits)
  from snd show ?thesis
  proof (rule send_try_cases, goal_cases)
    case (1 s3)
    have "core.more s3 = core.more ?s1"
      using 1(2) assms(2) by (auto simp: notify_more_def)
    then show ?case using pm_exit_more [OF assms(1) 1(1)] s' assms(1) by simp
  qed
qed

lemma notify_ok_lp:
  "notify_ok call c d n q \<Longrightarrow> notify_fc q = Some f \<Longrightarrow> call f (priv_data q) s = Some (r, s') \<Longrightarrow>
    lp_access_hp_cnt s' = lp_access_hp_cnt s"
  unfolding notify_ok_def by (metis Pair_inject option.inject)

lemma send_nocopy_kept:
  assumes "port_ok c" and "notify_ok call c d n (tx_queue dev)"
    and "esp_amp_rpmsg_send_nocopy call c ept dst data len dev s = Some (ret, dev', s')"
  shows "lp_access_hp_cnt s' = lp_access_hp_cnt s" "notify_fc (tx_queue dev') = notify_fc (tx_queue dev)"
    "priv_data (tx_queue dev') = priv_data (tx_queue dev)"
proof -
  let ?rpmsg = "data - offsetof_msg_data"
  let ?s1 = "esp_amp_env_enter_critical c (s\<lparr>mem := store16 (store16 (store16 (mem s) (?rpmsg + 4) len)
    (?rpmsg + 2) dst) ?rpmsg (addr (ept_mem dev ept))\<rparr>)"
  from assms(3) obtain q s2 where
    snd: "esp_amp_queue_send_try call c (tx_queue dev) ?rpmsg (max_item_size (tx_queue dev)) ?s1 = Some (ret, q, s2)"
    and s': "s' = esp_amp_env_exit_critical c s2" "dev' = dev\<lparr>tx_queue := q\<rparr>"
    by (auto simp: esp_amp_rpmsg_send_nocopy_def Let_def split: Option.bind_splits)
  then show "notify_fc (tx_queue dev') = notify_fc (tx_queue dev)" "priv_data (tx_queue dev') = priv_data (tx_queue dev)"
    by (auto simp: esp_amp_queue_send_try_def Let_def split: if_splits option.splits Option.bind_splits)
  from snd show "lp_access_hp_cnt s' = lp_access_hp_cnt s"
  proof (rule send_try_cases, goal_cases)
    case (1 s3)
    have "lp_access_hp_cnt s3 = lp_access_hp_cnt ?s1"
      using 1(2) by (elim disjE exE conjE) (simp_all add: notify_ok_lp [OF assms(2)])
    then show ?case using pm_exit_frame [OF assms(1) 1(1)] s' assms(1) by (simp add: pm_frame_def)
  qed
qed

lemma send_nocopy_frame:
  assumes ref: "refines n d mx a (tx_queue dev) qr (mem s)" and pc: "port_ok c"
    and nf: "notify_ok call c d n (tx_queue dev)" "notify_keeps call (tx_queue dev) A"
    and A: "A \<inter> ring d n = {}" "A \<inter> span b 6 = {}" "lp_access_hp_cnt s \<notin> A" and bd: "span b 6 \<inter> ring d n = {}"
    and sn: "esp_amp_rpmsg_send_nocopy call c ept dst (b + 8) len dev s = Some (ret, dev', s')"
  shows "agree A (mem s') (mem s)"
proof -
  let ?m = "store16 (store16 (store16 (mem s) (b + 4) len) (b + 2) dst) b (addr (ept_mem dev ept))"
  have ag: "agree (- span b 6) ?m (mem s)" using header_message(2) [OF refl refl] .
  let ?s1 = "esp_amp_env_enter_critical c (s\<lparr>mem := ?m\<rparr>)"
  have s1: "mem ?s1 = ?m" "lp_access_hp_cnt ?s1 = lp_access_hp_cnt s" using pc by simp_all
  from sn obtain q s2 where
    snd: "esp_amp_queue_send_try call c (tx_queue dev) b (max_item_size (tx_queue dev)) ?s1 = Some (ret, q, s2)"
    and s': "s' = esp_amp_env_exit_critical c s2"
    by (auto simp: esp_amp_rpmsg_send_nocopy_def offsetof_msg_data_def Let_def split: Option.bind_splits)
  have "refines n d mx a (tx_queue dev) qr (mem ?s1)"
    unfolding s1 using bd by (intro refines_cong [OF ref] agree_mono [OF agree_sym [OF ag]]) auto
  from send_try_frame [OF this pc A(1) _ nf snd] A(3) s1 have "agree A (mem s2) ?m" by simp
  then have "agree A (mem s2) (mem s)" by (rule agree_trans [OF _ agree_mono [OF ag]]) (use A(2) in auto)
  then show ?thesis using s' pc by simp
qed

text \<open>Returning a message to its sender, by the pointer to its data.\<close>

lemma destroy_effect:
  assumes ref: "refines n d mx a qm (rx_queue dev) (mem s)" and pc: "port_ok c" and held: "pm_held c d n s"
    and hr: "held_r a \<noteq> 0"
  obtains q s' where "esp_amp_rpmsg_destroy c (b + 8) dev s = Some (ESP_OK, dev\<lparr>rx_queue := q\<rparr>, s')"
    "refines n d mx (a\<lparr>free_bufs := free_bufs a @ [b], held_r := held_r a - 1\<rparr>) qm q (mem s')"
    "agree (- insert (lp_access_hp_cnt s) (ring d n)) (mem s') (mem s)" "core.more s' = core.more s"
    "lp_access_hp_cnt s' = lp_access_hp_cnt s"
proof -
  obtain q s2 where fr: "esp_amp_queue_free_try c (rx_queue dev) b (esp_amp_env_enter_critical c s) = Some (ESP_OK, q, s2)"
    and e: "refines n d mx (a\<lparr>free_bufs := free_bufs a @ [b], held_r := held_r a - 1\<rparr>) qm q (mem s2)"
    "agree (- insert (lp_access_hp_cnt s) (ring d n)) (mem s2) (mem s)" "core.more s2 = core.more s"
    "lp_access_hp_cnt s2 = lp_access_hp_cnt s"
    by (rule free_try_effect [OF ref pc held hr])
  have "esp_amp_rpmsg_destroy c (b + 8) dev s = Some (ESP_OK, dev\<lparr>rx_queue := q\<rparr>, esp_amp_env_exit_critical c s2)"
    using fr by (simp add: esp_amp_rpmsg_destroy_def Let_def offsetof_msg_data_def)
  then show thesis using that [of q "esp_amp_env_exit_critical c s2"] e pc by simp
qed

subsection \<open>Posting a packet\<close>

text \<open>A packet with \<open>len\<close> bytes of data at \<open>src\<close> can be sent through buffer \<open>b\<close>, in a message that was
  allocated with \<open>nbytes\<close> bytes.\<close>

definition postable ::
    "('f \<Rightarrow> ptr \<Rightarrow> 'z core_scheme \<Rightarrow> (int \<times> 'z core_scheme) option) \<Rightarrow> 'z config \<Rightarrow> ptr \<Rightarrow> nat \<Rightarrow> u16 \<Rightarrow>
     ptr \<Rightarrow> nat \<Rightarrow> ptr \<Rightarrow> u16 \<Rightarrow> 'f esp_amp_queue \<Rightarrow> 'z core_scheme \<Rightarrow> bool" where
  "postable call c d n mx b nbytes src len q s \<longleftrightarrow> port_ok c \<and> pm_ready c d (8 * n) s \<and>
     notify_ok call c d n q \<and> notify_keeps call q (span b (16 + unat len)) \<and> notify_more call q \<and>
     unat len + 8 \<le> nbytes \<and> nbytes + 8 \<le> unat mx \<and> b \<noteq> NULL \<and> b + 8 \<noteq> NULL \<and>
     buf_apart b nbytes d n s \<and> span src (unat len) \<inter> span b (8 + nbytes) = {} \<and>
     lp_access_hp_cnt s \<notin> span src (unat len)"

lemma post_packet:
  assumes ref: "refines n d mx a (tx_queue dev) qr (mem s)" and fb: "free_bufs a = b # bs"
    and ok: "postable call c d n mx b (unat nbytes) src len (tx_queue dev) s"
    and upd: "\<And>t. mem (upd t) = mem t" "\<And>t. lp_access_hp_cnt (upd t) = lp_access_hp_cnt t"
  shows "\<exists>q1 s1 ret q2 s2. esp_amp_rpmsg_create_message c nbytes fl dev s = Some (b + 8, dev\<lparr>tx_queue := q1\<rparr>, s1) \<and>
    core.more s1 = core.more s \<and> max_item_size q1 = mx \<and>
    esp_amp_rpmsg_send_nocopy call c ept dst (b + 8) (8 + len) (dev\<lparr>tx_queue := q1\<rparr>)
      ((upd s1)\<lparr>mem := memcpy (b + 16) src (unat len) (put_pkt mid cid st len (b + 8) (mem (upd s1)))\<rparr>) =
      Some (ret, dev\<lparr>tx_queue := q2\<rparr>, s2) \<and> core.more s2 = core.more (upd s1) \<and>
    refines n d mx (a\<lparr>free_bufs := bs, msgs := msgs a @ [(b, mx)]\<rparr>) q2 qr (mem s2) \<and>
    msg_src_addr (mem s2) b = addr (ept_mem dev ept) \<and> msg_dst_addr (mem s2) b = dst \<and>
    unat (msg_data_len (mem s2) b) = 8 + unat len \<and>
    packet_at (mem s2) (b + 8) mid cid st (load_bytes (mem s) src (unat len)) \<and>
    lp_access_hp_cnt s2 = lp_access_hp_cnt s \<and> notify_fc q2 = notify_fc (tx_queue dev) \<and> priv_data q2 = priv_data (tx_queue dev) \<and>
    (\<forall>A. A \<inter> ring d n = {} \<and> A \<inter> span b (8 + unat nbytes) = {} \<and> lp_access_hp_cnt s \<notin> A \<and>
       notify_keeps call (tx_queue dev) A \<longrightarrow> agree A (mem s2) (mem s))"
proof -
  note ok' = ok [unfolded postable_def]
  then have pc: "port_ok c" and rdy: "pm_ready c d (8 * n) s" and b: "b \<noteq> NULL" by simp_all
  have mx: "unat nbytes + 8 \<le> unat mx" and ap: "buf_apart b (unat nbytes) d n s" using ok' by simp_all
  obtain q1 s1 where cr: "esp_amp_rpmsg_create_message c nbytes fl dev s = Some (b + 8, dev\<lparr>tx_queue := q1\<rparr>, s1)"
    and ref1: "refines n d mx (a\<lparr>free_bufs := bs, held_m := Suc (held_m a)\<rparr>) q1 qr (mem s1)" and held: "pm_held c d n s1"
    and ag: "agree (- insert (lp_access_hp_cnt s) (span (b + 4) 4)) (mem s1) (mem s)"
    and lp: "lp_access_hp_cnt s1 = lp_access_hp_cnt s"
    and q1: "notify_fc q1 = notify_fc (tx_queue dev)" "priv_data q1 = priv_data (tx_queue dev)" "max_item_size q1 = mx"
    by (rule create_message_effect [OF ref pc rdy fb b mx ap])
  let ?S = "span b (8 + unat nbytes)" and ?P = "span (b + 8) (8 + unat len)"
  have l16: "unat len + 16 < 65536" using ok' unat_lt_16 [of mx] by linarith
  have l: "unat (8 + len) = 8 + unat len" using l16 by (simp add: unat_word_ariths)
  have sub: "span (b + 4) 4 \<subseteq> ?S" "?P \<subseteq> ?S" "span b (8 + unat (8 + len)) \<subseteq> ?S"
    using ok' l by (auto intro!: span_sub)
  have same: "load_bytes (mem s1) src (unat len) = load_bytes (mem s) src (unat len)"
    using ok' sub(1) unat_le_32 [of len] by (intro load_bytes_cong agree_mono [OF ag]) auto
  define m where "m = memcpy (b + 16) src (unat len) (put_pkt mid cid st len (b + 8) (mem (upd s1)))"
  have "span src (unat len) \<inter> span (b + 8) (8 + unat len) = {}" using ok' sub(2) by blast
  moreover have "b + 8 + 8 = b + 16" by simp
  then have "m = memcpy (b + 8 + 8) src (unat len) (put_pkt mid cid st len (b + 8) (mem s1))" by (simp only: m_def upd)
  ultimately have pk: "packet_at m (b + 8) mid cid st (load_bytes (mem s) src (unat len))" and agm: "agree (- ?P) m (mem s1)"
    using put_packet [of m "b + 8" src len mid cid st "mem s1"] same by simp_all
  have ref2: "refines n d mx (a\<lparr>free_bufs := bs, held_m := Suc (held_m a)\<rparr>) q1 qr m"
    using ap sub(2) by (intro refines_cong [OF ref1] agree_mono [OF agree_sym [OF agm]]) (auto simp: buf_apart_def)
  have "pm_held c d n ((upd s1)\<lparr>mem := m\<rparr>)"
  proof -
    have "lp_access_hp_cnt s \<notin> ?P" using ap sub(2) by (auto simp: buf_apart_def)
    then have "m (lp_access_hp_cnt s) = mem s1 (lp_access_hp_cnt s)" using agm by (simp add: agree_def)
    then show ?thesis using held lp by (simp add: pm_held_def pm_cnt_def load8_def upd)
  qed
  moreover have nf: "notify_ok call c d n q1" "notify_keeps call q1 (span b (8 + unat (8 + len)))" "notify_more call q1"
    using ok' q1 l by (simp_all add: notify_ok_def notify_keeps_def notify_more_def)
  moreover have "buf_apart b (unat (8 + len)) d n ((upd s1)\<lparr>mem := m\<rparr>)"
    using ap sub(3) lp by (auto simp: buf_apart_def upd)
  ultimately obtain ret q2 s2 where
    sn: "esp_amp_rpmsg_send_nocopy call c ept dst (b + 8) (8 + len) (dev\<lparr>tx_queue := q1\<rparr>) ((upd s1)\<lparr>mem := m\<rparr>) =
      Some (ret, dev\<lparr>tx_queue := q2\<rparr>, s2)"
    and ref3: "refines n d mx (a\<lparr>free_bufs := bs, msgs := msgs a @ [(b, mx)]\<rparr>) q2 qr (mem s2)"
    and msg: "message_at (mem s2) b (addr (ept_mem dev ept)) dst (load_bytes m (b + 8) (unat (8 + len)))"
    using send_nocopy_effect [of n d mx _ "dev\<lparr>tx_queue := q1\<rparr>" qr "(upd s1)\<lparr>mem := m\<rparr>" c call b "8 + len",
        OF _ pc _ _ _ _ _ refl, of "a\<lparr>free_bufs := bs, held_m := Suc (held_m a)\<rparr>" ept dst] ref2 by auto
  have "agree ?P m (mem s2)"
    using msg l by (intro load_bytes_agree) (simp add: message_at_def)
  then have "packet_at (mem s2) (b + 8) mid cid st (load_bytes (mem s) src (unat len))"
    using packet_at_cong [OF pk] by simp
  moreover have "core.more s2 = core.more (upd s1)"
    using send_nocopy_more [OF pc _ sn] nf(3) by simp
  moreover have "lp_access_hp_cnt s2 = lp_access_hp_cnt s" "notify_fc q2 = notify_fc (tx_queue dev)" "priv_data q2 = priv_data (tx_queue dev)"
    using send_nocopy_kept [OF pc _ sn] nf(1) lp q1 by (simp_all add: upd)
  moreover have "msg_src_addr (mem s2) b = addr (ept_mem dev ept)" "msg_dst_addr (mem s2) b = dst"
    "unat (msg_data_len (mem s2) b) = 8 + unat len" using msg l by (simp_all add: message_at_def)
  moreover have "agree A (mem s2) (mem s)"
    if A: "A \<inter> ring d n = {}" "A \<inter> ?S = {}" "lp_access_hp_cnt s \<notin> A" "notify_keeps call (tx_queue dev) A" for A
  proof -
    have "span b 6 \<subseteq> ?S" by (rule span_sub) simp
    then have d: "A \<inter> span b 6 = {}" "span b 6 \<inter> ring d n = {}" using A(2) ap by (auto simp: buf_apart_def)
    have "notify_keeps call q1 A" using A(4) q1 by (simp add: notify_keeps_def)
    then have "agree A (mem s2) m"
      using send_nocopy_frame [of n d mx _ "dev\<lparr>tx_queue := q1\<rparr>" qr "(upd s1)\<lparr>mem := m\<rparr>" c call A b ept dst "8 + len", OF _ pc _ _ _ d(1) _ d(2) sn]
        ref2 nf(1) A lp upd by simp
    moreover have "agree A m (mem s1)" using A(2) sub(2) by (intro agree_mono [OF agm]) auto
    moreover have "agree A (mem s1) (mem s)" using A(2,3) sub(1) by (intro agree_mono [OF ag]) auto
    ultimately show ?thesis by (blast intro: agree_trans)
  qed
  ultimately show ?thesis
    using cr create_message_more [OF pc cr] q1(3) sn [unfolded m_def] ref3 by blast
qed

subsection \<open>The client\<close>

lemma more_update_mem [simp]: "core.more (s\<lparr>mem := m\<rparr>) = core.more s"
  by simp

text \<open>The effect of executing a command, and what it leaves alone.\<close>

lemma execute_cmd_effect:
  fixes s :: "('g, 'z) rpc"
  assumes "refines n d mx a (tx_queue dev) qr (mem s)" and "free_bufs a = b # bs"
    and "client \<noteq> NULL" and "cmd \<noteq> NULL" and "client_running (client_at s client)"
    and "postable (notify_call calls) c d n mx b (unat (req_len (cmd_at s cmd)) + 8) (req_data (cmd_at s cmd))
      (req_len (cmd_at s cmd)) (tx_queue dev) s"
  obtains q s' where
    "esp_amp_rpc_client_execute_cmd calls c client cmd (dev, s) = Some (ESP_AMP_RPC_OK, dev\<lparr>tx_queue := q\<rparr>, s')"
    "refines n d mx (a\<lparr>free_bufs := bs, msgs := msgs a @ [(b, mx)]\<rparr>) q qr (mem s')"
    "msg_src_addr (mem s') b = addr (ept_mem dev (client + offsetof_client_ept))"
    "msg_dst_addr (mem s') b = peer_server_id (client_at s client)"
    "packet_at (mem s') (b + 8) (pending_id (client_at s client) + 1) (cmd_id (cmd_at s cmd)) ESP_AMP_RPC_STATUS_PENDING
      (load_bytes (mem s) (req_data (cmd_at s cmd)) (unat (req_len (cmd_at s cmd))))"
    "client_at s' = (client_at s)(client := (client_at s client)\<lparr>pending_id := pending_id (client_at s client) + 1, pending_cmd := cmd\<rparr>)"
    "cmd_at s' = (cmd_at s)(cmd := (cmd_at s cmd)\<lparr>cmd_status := ESP_AMP_RPC_STATUS_PENDING\<rparr>)"
    "lp_access_hp_cnt s' = lp_access_hp_cnt s" "notify_fc q = notify_fc (tx_queue dev)" "priv_data q = priv_data (tx_queue dev)"
    "\<And>A. A \<inter> ring d n = {} \<Longrightarrow> A \<inter> span b (16 + unat (req_len (cmd_at s cmd))) = {} \<Longrightarrow> lp_access_hp_cnt s \<notin> A \<Longrightarrow>
      notify_keeps (notify_call calls) (tx_queue dev) A \<Longrightarrow> agree A (mem s') (mem s)"
proof -
  let ?cm = "(cmd_at s cmd)\<lparr>cmd_status := ESP_AMP_RPC_STATUS_PENDING\<rparr>" and ?inst = "client_at s client"
  let ?len = "req_len (cmd_at s cmd)" and ?mid = "pending_id (client_at s client) + 1"
  let ?s1 = "set_cmd cmd ?cm s"
  have l: "unat ?len + 16 < 65536" using assms(6) unat_lt_16 [of mx] unfolding postable_def by linarith
  have nb: "unat (ucast (?len + sizeof_rpc_pkt) :: u32) = unat ?len + 8" "\<not> 65527 < ?len"
    using l by (simp_all add: sizeof_rpc_pkt_def unat_word_ariths word_less_nat_alt)
  have po: "postable (notify_call calls) c d n mx b (unat (ucast (?len + sizeof_rpc_pkt) :: u32)) (req_data (cmd_at s cmd)) ?len (tx_queue dev) ?s1"
    using assms(6) unfolding nb(1) by (simp add: postable_def pm_ready_def pm_cnt_def buf_apart_def)
  define upd :: "('g, 'z) rpc \<Rightarrow> ('g, 'z) rpc" where "upd = set_client client (?inst\<lparr>pending_id := ?mid, pending_cmd := cmd\<rparr>)"
  have u: "mem (upd t) = mem t" "lp_access_hp_cnt (upd t) = lp_access_hp_cnt t" for t by (simp_all add: upd_def)
  have m: "mem ?s1 = mem s" by simp
  have ref1: "refines n d mx a (tx_queue dev) qr (mem ?s1)" using assms(1) by simp
  note pp = post_packet [OF ref1 assms(2) po u, of ESP_AMP_RPMSG_DATA_DEFAULT "client + offsetof_client_ept" "peer_server_id ?inst"
      ?mid "cmd_id (cmd_at s cmd)" ESP_AMP_RPC_STATUS_PENDING, unfolded m]
  obtain q1 s1 ret q2 s2 where
    cr: "esp_amp_rpmsg_create_message c (ucast (?len + sizeof_rpc_pkt)) ESP_AMP_RPMSG_DATA_DEFAULT dev ?s1 = Some (b + 8, dev\<lparr>tx_queue := q1\<rparr>, s1)"
    and m1: "core.more s1 = core.more ?s1"
    and sn: "esp_amp_rpmsg_send_nocopy (notify_call calls) c (client + offsetof_client_ept) (peer_server_id ?inst) (b + 8) (8 + ?len)
      (dev\<lparr>tx_queue := q1\<rparr>) ((upd s1)\<lparr>mem := memcpy (b + 16) (req_data (cmd_at s cmd)) (unat ?len)
        (put_pkt ?mid (cmd_id (cmd_at s cmd)) ESP_AMP_RPC_STATUS_PENDING ?len (b + 8) (mem (upd s1)))\<rparr>) = Some (ret, dev\<lparr>tx_queue := q2\<rparr>, s2)"
    and m2: "core.more s2 = core.more (upd s1)"
    and res: "refines n d mx (a\<lparr>free_bufs := bs, msgs := msgs a @ [(b, mx)]\<rparr>) q2 qr (mem s2)"
      "msg_src_addr (mem s2) b = addr (ept_mem dev (client + offsetof_client_ept))" "msg_dst_addr (mem s2) b = peer_server_id ?inst"
      "packet_at (mem s2) (b + 8) ?mid (cmd_id (cmd_at s cmd)) ESP_AMP_RPC_STATUS_PENDING (load_bytes (mem s) (req_data (cmd_at s cmd)) (unat ?len))"
      "lp_access_hp_cnt s2 = lp_access_hp_cnt ?s1" "notify_fc q2 = notify_fc (tx_queue dev)" "priv_data q2 = priv_data (tx_queue dev)"
      "\<forall>A. A \<inter> ring d n = {} \<and> A \<inter> span b (8 + unat (ucast (?len + sizeof_rpc_pkt) :: u32)) = {} \<and> lp_access_hp_cnt ?s1 \<notin> A \<and>
         notify_keeps (notify_call calls) (tx_queue dev) A \<longrightarrow> agree A (mem s2) (mem s)"
    using pp by (elim exE conjE) (rule that; assumption)
  note f1 = rpc_more_fields [OF m1] and f2 = rpc_more_fields [OF m2]
  have "b + 8 \<noteq> NULL" using assms(6) by (simp add: postable_def)
  then have ex: "esp_amp_rpc_client_execute_cmd calls c client cmd (dev, s) = Some (ESP_AMP_RPC_OK, dev\<lparr>tx_queue := q2\<rparr>, s2)"
    using assms(3-5) nb(2) cr sn f1
    by (simp add: esp_amp_rpc_client_execute_cmd_def Let_def upd_def sizeof_rpc_pkt_def add.commute [of _ 8] add.commute [of _ 16] add.assoc)
  have cl: "client_at s2 = (client_at s)(client := ?inst\<lparr>pending_id := ?mid, pending_cmd := cmd\<rparr>)" "cmd_at s2 = (cmd_at s)(cmd := ?cm)"
    using f1 f2 by (simp_all add: upd_def)
  have lp: "lp_access_hp_cnt s2 = lp_access_hp_cnt s" using res(5) by simp
  have w: "8 + unat (ucast (?len + sizeof_rpc_pkt) :: u32) = 16 + unat ?len" unfolding nb(1) by simp
  have "agree A (mem s2) (mem s)" if "A \<inter> ring d n = {}" "A \<inter> span b (16 + unat ?len) = {}" "lp_access_hp_cnt s \<notin> A"
    "notify_keeps (notify_call calls) (tx_queue dev) A" for A
    using res(8) [unfolded w, rule_format, of A] that by simp
  with that [OF ex res(1-4) cl lp res(6,7)] show thesis by blast
qed

text \<open>C19. Executing a command sends one request. When the client runs, the queue has a free buffer and
  the packet fits, the command is marked pending, a fresh message id is taken and remembered with
  the command, and one message is appended to the queue, from the endpoint of the client to that of
  the server, that holds the command id, the message id and exactly the request bytes.\<close>

theorem rpc_request_sent:
  fixes s :: "('g, 'z) rpc"
  assumes "refines n d mx a (tx_queue dev) qr (mem s)" and "free_bufs a = b # bs"
    and "client \<noteq> NULL" and "cmd \<noteq> NULL" and "client_running (client_at s client)"
    and "postable (notify_call calls) c d n mx b (unat (req_len (cmd_at s cmd)) + 8) (req_data (cmd_at s cmd))
      (req_len (cmd_at s cmd)) (tx_queue dev) s"
  shows "\<exists>q s'. esp_amp_rpc_client_execute_cmd calls c client cmd (dev, s) = Some (ESP_AMP_RPC_OK, dev\<lparr>tx_queue := q\<rparr>, s') \<and>
    refines n d mx (a\<lparr>free_bufs := bs, msgs := msgs a @ [(b, mx)]\<rparr>) q qr (mem s') \<and>
    msg_src_addr (mem s') b = addr (ept_mem dev (client + offsetof_client_ept)) \<and>
    msg_dst_addr (mem s') b = peer_server_id (client_at s client) \<and>
    packet_at (mem s') (b + 8) (pending_id (client_at s client) + 1) (cmd_id (cmd_at s cmd)) ESP_AMP_RPC_STATUS_PENDING
      (load_bytes (mem s) (req_data (cmd_at s cmd)) (unat (req_len (cmd_at s cmd)))) \<and>
    client_at s' client = (client_at s client)\<lparr>pending_id := pending_id (client_at s client) + 1, pending_cmd := cmd\<rparr> \<and>
    cmd_at s' cmd = (cmd_at s cmd)\<lparr>cmd_status := ESP_AMP_RPC_STATUS_PENDING\<rparr>"
proof -
  obtain q s' where "esp_amp_rpc_client_execute_cmd calls c client cmd (dev, s) = Some (ESP_AMP_RPC_OK, dev\<lparr>tx_queue := q\<rparr>, s')"
    "refines n d mx (a\<lparr>free_bufs := bs, msgs := msgs a @ [(b, mx)]\<rparr>) q qr (mem s')"
    "msg_src_addr (mem s') b = addr (ept_mem dev (client + offsetof_client_ept))"
    "msg_dst_addr (mem s') b = peer_server_id (client_at s client)"
    "packet_at (mem s') (b + 8) (pending_id (client_at s client) + 1) (cmd_id (cmd_at s cmd)) ESP_AMP_RPC_STATUS_PENDING
      (load_bytes (mem s) (req_data (cmd_at s cmd)) (unat (req_len (cmd_at s cmd))))"
    "client_at s' = (client_at s)(client := (client_at s client)\<lparr>pending_id := pending_id (client_at s client) + 1, pending_cmd := cmd\<rparr>)"
    "cmd_at s' = (cmd_at s)(cmd := (cmd_at s cmd)\<lparr>cmd_status := ESP_AMP_RPC_STATUS_PENDING\<rparr>)"
    by (rule execute_cmd_effect [OF assms])
  then show ?thesis by (intro exI [of _ q] exI [of _ s']) simp
qed

lemma max_size:
  assumes "8 \<le> unat (max_item_size (tx_queue dev))"
  shows "unat (esp_amp_rpmsg_get_max_size dev) = unat (max_item_size (tx_queue dev)) - 8"
proof -
  let ?m = "max_item_size (tx_queue dev)"
  have "unat (ucast ?m - 8 :: u32) = unat ?m - 8"
    using assms by (simp add: unat_sub word_le_nat_alt)
  moreover have "unat ?m - 8 < 65536" using unat_lt_16 [of ?m] by linarith
  ultimately show ?thesis
    by (simp add: esp_amp_rpmsg_get_max_size_def offsetof_msg_data_def unsigned_ucast_eq take_bit_nat_eq_self)
qed

lemma create_message_refused:
  assumes "refines n d mx a (tx_queue dev) qr (mem s)" and "port_ok c" and "pm_ready c d (8 * n) s"
    and "unat nbytes < 65536" and "unat mx < unat nbytes + 8 \<or> free_bufs a = []"
  obtains q s' where "esp_amp_rpmsg_create_message c nbytes fl dev s = Some (NULL, dev\<lparr>tx_queue := q\<rparr>, s')"
    "refines n d mx a q qr (mem s')" "max_item_size q = mx"
proof -
  let ?sz = "nbytes + offsetof_msg_data" and ?s1 = "esp_amp_env_enter_critical c s"
  have mx: "max_item_size q = mx" if "refines n d mx a q qr m" for q m
    using that by (auto simp: refines_def queue_ok_def side_def)
  have u: "unat ?sz = unat nbytes + 8"
    unfolding offsetof_msg_data_def using assms(4) by (intro unat_add_numeral) linarith
  show thesis
  proof (cases "65536 \<le> ?sz")
    case True
    then have "esp_amp_rpmsg_create_message c nbytes fl dev s = Some (NULL, dev\<lparr>tx_queue := tx_queue dev\<rparr>, s)"
      by (simp add: esp_amp_rpmsg_create_message_def)
    with assms(1) mx show thesis by (intro that [of "tx_queue dev" s]) auto
  next
    case False
    then have "unat (ucast ?sz :: u16) = unat nbytes + 8"
      using u by (simp add: unsigned_ucast_eq word_le_nat_alt take_bit_nat_eq_self)
    then have bad: "mx < (ucast ?sz :: u16) \<or> free_bufs a = []" using assms(5) by (simp add: word_less_nat_alt)
    have rdy1: "pm_ready c d (8 * n) ?s1" using assms(2,3) by (simp add: pm_ready_def pm_cnt_def)
    obtain ret b' q s2 a' where al: "esp_amp_queue_alloc_try c (tx_queue dev) (ucast ?sz) ?s1 = Some (ret, b', q, s2)"
      and aq: "aq_alloc mx (ucast ?sz) a = (ret, b', a')" and ref2: "refines n d mx a' q qr (mem s2)"
      using alloc_refines [OF _ assms(2) rdy1, of mx a "tx_queue dev" qr "ucast ?sz"] assms(1,2) by auto
    have "b' = NULL" "a' = a" using aq bad by (auto split: if_splits list.splits)
    then show thesis using al False ref2 mx assms(2)
      by (intro that [of q "esp_amp_env_exit_critical c s2"]) (auto simp: esp_amp_rpmsg_create_message_def Let_def)
  qed
qed


lemma client_cb_effect:
  fixes s :: "('g, 'z) rpc"
  assumes "client \<noteq> NULL" and "client_running (client_at s client)" and "b + 8 \<noteq> NULL"
    and "packet_at (mem s) (b + 8) mid cid st data" and "p = pending_cmd (client_at s client)" and "cm = cmd_at s p"
    and "k = (if resp_data cm = NULL then 0 else min (length data) (unat (resp_len cm)))"
  shows "\<exists>s2. client_cb calls c (b + 8) dl src client (dev, s) = do {
        (dev1, s1) \<leftarrow> (if p \<noteq> NULL \<and> mid = pending_id (client_at s client) \<and> cmd_cb cm \<noteq> None
           then app_cb_call calls (the (cmd_cb cm)) client p (cb_arg cm) (dev, s2) else Some (dev, s2));
        (_, ds) \<leftarrow> esp_amp_rpmsg_destroy c (b + 8) dev1 s1;
        Some (ESP_AMP_RPC_OK, ds)
      } \<and>
    (if p \<noteq> NULL \<and> mid = pending_id (client_at s client)
     then cmd_at s2 = (cmd_at s)(p := cm\<lparr>cmd_status := st\<rparr>) \<and> client_at s2 = client_at s \<and>
       load_bytes (mem s2) (resp_data cm) k = take k data \<and> agree (- span (resp_data cm) k) (mem s2) (mem s)
     else s2 = s) \<and> lp_access_hp_cnt s2 = lp_access_hp_cnt s"
proof (cases "p \<noteq> NULL \<and> mid = pending_id (client_at s client)")
  case False
  then show ?thesis
    using assms(1-5) by (intro exI [of _ s]) (auto simp: client_cb_def packet_at_def Let_def case_prod_unfold)
next
  case True
  have len: "unat (pkt_msg_len (mem s) (b + 8)) = length data" and st: "pkt_status (mem s) (b + 8) = st"
    and id: "pkt_msg_id (mem s) (b + 8) = mid" and bytes: "load_bytes (mem s) (b + 16) (length data) = data"
    using assms(4) by (simp_all add: packet_at_def add.commute)
  let ?len = "pkt_msg_len (mem s) (b + 8)"
  let ?k = "if ?len > resp_len cm then resp_len cm else ?len"
  have k: "unat ?k = min (length data) (unat (resp_len cm))" using len by (auto simp: word_less_nat_alt)
  define s1 where "s1 = set_cmd p (cm\<lparr>cmd_status := st\<rparr>) s"
  define s2 where "s2 = (if 0 < ?len \<and> resp_data cm \<noteq> NULL
    then s1\<lparr>mem := memcpy (resp_data cm) (b + 16) (unat ?k) (mem s1)\<rparr> else s1)"
  have m1: "mem s1 = mem s" by (simp add: s1_def)
  have "load_bytes (mem s2) (resp_data cm) k = take k data \<and> agree (- span (resp_data cm) k) (mem s2) (mem s)"
  proof (cases "0 < ?len \<and> resp_data cm \<noteq> NULL")
    case True
    then have kk: "k = unat ?k" using assms(7) k by simp
    have "load_bytes (mem s) (b + 16) k = take k data"
      using arg_cong [OF bytes, of "take k"] kk k by (simp add: load_bytes_def take_map min_def)
    then show ?thesis
      using memcpy_effect [of "unat ?k" "resp_data cm" "b + 16" "mem s"] True kk m1 by (simp add: s2_def)
  next
    case False
    then have "k = 0" using assms(7) len by (auto simp: word_neq_0_conv [symmetric] simp flip: unat_eq_0)
    then show ?thesis using False m1 by (auto simp: s2_def load_bytes_def)
  qed
  moreover have "cmd_at s2 = (cmd_at s)(p := cm\<lparr>cmd_status := st\<rparr>)" "client_at s2 = client_at s"
    "lp_access_hp_cnt s2 = lp_access_hp_cnt s" by (simp_all add: s2_def s1_def)
  moreover have "client_cb calls c (b + 8) dl src client (dev, s) = do {
        (dev1, s1) \<leftarrow> (if cmd_cb cm \<noteq> None
           then app_cb_call calls (the (cmd_cb cm)) client p (cb_arg cm) (dev, s2) else Some (dev, s2));
        (_, ds) \<leftarrow> esp_amp_rpmsg_destroy c (b + 8) dev1 s1;
        Some (ESP_AMP_RPC_OK, ds)
      }"
    using assms(1-3) True
    by (cases "cmd_cb cm"; cases "0 < ?len"; cases "resp_data cm = NULL"; cases "?len > resp_len cm")
      (simp_all add: client_cb_def Let_def assms(5,6) [symmetric] id st s1_def s2_def sizeof_rpc_pkt_def case_prod_unfold add.commute [of 16])
  ultimately show ?thesis using True by (intro exI [of _ s2]) auto
qed

text \<open>C20. The client accepts only the response to its pending command, and never writes past the
  response buffer. A packet with the message id of the pending command sets the status of that
  command and copies its data, cut to the length of the response buffer, to that buffer and nowhere
  else, before the callback of the application runs. Any other packet leaves commands and memory as
  they are. In both cases the message is returned to the server when the callback is done.\<close>

theorem rpc_response_accepted:
  fixes s :: "('g, 'z) rpc"
  assumes "client \<noteq> NULL" and "client_running (client_at s client)" and "b + 8 \<noteq> NULL"
    and "packet_at (mem s) (b + 8) mid cid st data" and "p = pending_cmd (client_at s client)" and "cm = cmd_at s p"
    and "k = (if resp_data cm = NULL then 0 else min (length data) (unat (resp_len cm)))"
  shows "\<exists>s2. client_cb calls c (b + 8) dl src client (dev, s) = do {
        (dev1, s1) \<leftarrow> (if p \<noteq> NULL \<and> mid = pending_id (client_at s client) \<and> cmd_cb cm \<noteq> None
           then app_cb_call calls (the (cmd_cb cm)) client p (cb_arg cm) (dev, s2) else Some (dev, s2));
        (_, ds) \<leftarrow> esp_amp_rpmsg_destroy c (b + 8) dev1 s1;
        Some (ESP_AMP_RPC_OK, ds)
      } \<and>
    (if p \<noteq> NULL \<and> mid = pending_id (client_at s client)
     then cmd_at s2 = (cmd_at s)(p := cm\<lparr>cmd_status := st\<rparr>) \<and> client_at s2 = client_at s \<and>
       load_bytes (mem s2) (resp_data cm) k = take k data \<and> agree (- span (resp_data cm) k) (mem s2) (mem s)
     else s2 = s)"
  using client_cb_effect [OF assms, of calls c dl src dev] by blast

subsection \<open>The server\<close>

text \<open>The command structure a handler is called with.\<close>

definition request_cmd :: "rpc_server_inst \<Rightarrow> u16 \<Rightarrow> nat \<Rightarrow> 'g esp_amp_rpc_cmd" where
  "request_cmd inst cid k = \<lparr>cmd_id = cid, cmd_status = ESP_AMP_RPC_STATUS_PENDING, req_len = word_of_nat k,
     resp_len = resp_buf_len inst, req_data = req_buf inst, resp_data = resp_buf inst, cmd_cb = None, cb_arg = NULL\<rparr>"

text \<open>What a handler of a server promises: called with the response buffer of that server it returns,
  writes only to that buffer and leaves the response in it, and does not use the RPC and RPMsg operations
  of this server.\<close>

definition handlers_ok :: "('f, 'e, 'g, 'z) rpc_calls \<Rightarrow> rpc_server_inst \<Rightarrow> bool" where
  "handlers_ok calls inst \<longleftrightarrow> (\<forall>f cmd dev t. resp_data cmd = resp_buf inst \<and> resp_len cmd = resp_buf_len inst \<longrightarrow>
     (\<exists>cmd' t'. handler_call calls f cmd (dev, t) = Some (cmd', dev, t') \<and>
     core.more t' = core.more t \<and> lp_access_hp_cnt t' = lp_access_hp_cnt t \<and>
     agree (- span (resp_data cmd) (unat (resp_len cmd))) (mem t') (mem t) \<and>
     resp_data cmd' = resp_data cmd \<and> resp_len cmd' \<le> resp_len cmd))"

text \<open>The buffers of a server are apart from the rings, from the buffer of the response and from the
  light sleep counter.\<close>

definition serve_layout ::
    "rpc_server_inst \<Rightarrow> ('g, 'z) rpc \<Rightarrow> ptr \<Rightarrow> nat \<Rightarrow> ptr \<Rightarrow> nat \<Rightarrow> ptr \<Rightarrow> u16 \<Rightarrow> bool" where
  "serve_layout inst s d n d' n' b' mx' \<longleftrightarrow>
     (let R = span (req_buf inst) (unat (req_buf_len inst)); W = span (resp_buf inst) (unat (resp_buf_len inst));
          B = span b' (unat mx')
      in 0 < resp_buf_len inst \<and> lp_access_hp_cnt s \<notin> ring d n \<union> ring d' n' \<union> R \<union> W \<union> B \<and>
         R \<inter> ring d n = {} \<and> (R \<union> W \<union> ring d n \<union> B) \<inter> ring d' n' = {} \<and> W \<inter> B = {})"

lemma serve_prefix:
  fixes s :: "('g, 'z) rpc"
  assumes pc: "port_ok c" and pm: "\<not> pm_active c"
    and ref: "refines n d mx a qm (rx_queue dev) (mem s)" and hr: "held_r a \<noteq> 0"
    and pk: "packet_at (mem s) (b + 8) mid cid st data"
    and inst: "inst = server_at s server" and lay: "serve_layout inst s d n d' n' b' mx'"
    and k: "k = min (length data) (unat (req_buf_len inst))"
  shows "\<exists>q t. refines n d mx (a\<lparr>free_bufs := free_bufs a @ [b], held_r := held_r a - 1\<rparr>) qm q (mem t) \<and>
    load_bytes (mem t) (req_buf inst) k = take k data \<and> core.more t = core.more s \<and> lp_access_hp_cnt t = lp_access_hp_cnt s \<and>
    agree (- (insert (lp_access_hp_cnt s) (ring d n \<union> span (req_buf inst) (unat (req_buf_len inst))))) (mem t) (mem s) \<and>
    exec_cmd_and_send calls c server (b + 8) client (dev, s) = do {
      (cmd', ds) \<leftarrow> (case services server s cid of
          None \<Rightarrow> Some ((request_cmd inst cid k)\<lparr>cmd_status := ESP_AMP_RPC_STATUS_INVALID_CMD, resp_len := 1\<rparr>,
                        dev\<lparr>rx_queue := q\<rparr>, t\<lparr>mem := store8 (mem t) (resp_buf inst) 0\<rparr>)
        | Some f \<Rightarrow> handler_call calls f (request_cmd inst cid k) (dev\<lparr>rx_queue := q\<rparr>, t));
      send_response calls c server client cid mid cmd' ds
    }"
proof -
  let ?R = "span (req_buf inst) (unat (req_buf_len inst))"
  have pk': "pkt_msg_id (mem s) (b + 8) = mid" "pkt_cmd_id (mem s) (b + 8) = cid" "unat (pkt_msg_len (mem s) (b + 8)) = length data"
    and bytes: "load_bytes (mem s) (b + 16) (length data) = data"
    using pk by (simp_all add: packet_at_def add.commute)
  let ?len = "pkt_msg_len (mem s) (b + 8)"
  let ?k = "if ?len > req_buf_len inst then req_buf_len inst else ?len"
  have kk: "unat ?k = k" using k pk'(3) by (auto simp: word_less_nat_alt)
  have k16: "k < 65536" "(word_of_nat k :: u16) = ?k" unfolding kk [symmetric] by (rule unat_lt_16, simp only: of_nat_unat ucast_id)
  define s1 where "s1 = s\<lparr>mem := memcpy (req_buf inst) (b + 16) k (mem s)\<rparr>"
  have lb: "load_bytes (mem s) (b + 16) k = take k data"
    using arg_cong [OF bytes, of "take k"] k by (simp add: load_bytes_def take_map min_def)
  note mc = memcpy_effect [OF k16(1), of "req_buf inst" "b + 16" "mem s"]
  have kR: "span (req_buf inst) k \<subseteq> ?R" using k by (intro span_sub) simp
  have ag1: "agree (- ?R) (mem s1) (mem s)" using agree_mono [OF mc(2)] kR by (auto simp: s1_def)
  have ly: "?R \<inter> ring d n = {}" "lp_access_hp_cnt s \<notin> ring d n" "lp_access_hp_cnt s \<notin> ?R"
    using lay by (auto simp: serve_layout_def Let_def)
  have ref1: "refines n d mx a qm (rx_queue dev) (mem s1)"
    using ly(1) by (intro refines_cong [OF ref] agree_mono [OF agree_sym [OF ag1]]) auto
  have "pm_held c d n s1" using ly pm by (simp add: pm_held_def s1_def)
  then obtain q s2 where de: "esp_amp_rpmsg_destroy c (b + 8) dev s1 = Some (ESP_OK, dev\<lparr>rx_queue := q\<rparr>, s2)"
    and ref2: "refines n d mx (a\<lparr>free_bufs := free_bufs a @ [b], held_r := held_r a - 1\<rparr>) qm q (mem s2)"
    and ag2: "agree (- insert (lp_access_hp_cnt s1) (ring d n)) (mem s2) (mem s1)"
    and m2: "core.more s2 = core.more s1" "lp_access_hp_cnt s2 = lp_access_hp_cnt s1"
    by (rule destroy_effect [OF ref1 pc _ hr])
  have lp1: "lp_access_hp_cnt s1 = lp_access_hp_cnt s" "core.more s1 = core.more s" by (simp_all add: s1_def)
  define t where "t = esp_amp_env_exit_critical c (esp_amp_env_enter_critical c s2)"
  have t: "mem t = mem s2" "core.more t = core.more s" "lp_access_hp_cnt t = lp_access_hp_cnt s"
    using pc m2 lp1 by (simp_all add: t_def)
  have "load_bytes (mem s2) (req_buf inst) k = load_bytes (mem s1) (req_buf inst) k"
    using ly kR lp1(1) k16(1) by (intro load_bytes_cong agree_mono [OF ag2]) auto
  then have lt: "load_bytes (mem t) (req_buf inst) k = take k data" using mc(1) lb t(1) by (simp add: s1_def)
  have agt: "agree (- (insert (lp_access_hp_cnt s) (ring d n \<union> ?R))) (mem t) (mem s)"
    unfolding t(1) by (rule agree_trans [OF agree_mono [OF ag2] agree_mono [OF ag1]]) (auto simp: lp1)
  have more: "server_at s2 = server_at s" "srv_at s2 = srv_at s" using m2 lp1 rpc_more_fields [of s2 s] by simp_all
  have "exec_cmd_and_send calls c server (b + 8) client (dev, s) = do {
      (cmd', ds) \<leftarrow> (case services server s cid of
          None \<Rightarrow> Some ((request_cmd inst cid k)\<lparr>cmd_status := ESP_AMP_RPC_STATUS_INVALID_CMD, resp_len := 1\<rparr>,
                        dev\<lparr>rx_queue := q\<rparr>, t\<lparr>mem := store8 (mem t) (resp_buf inst) 0\<rparr>)
        | Some f \<Rightarrow> handler_call calls f (request_cmd inst cid k) (dev\<lparr>rx_queue := q\<rparr>, t));
      send_response calls c server client cid mid cmd' ds
    }"
    using kk k16(2) de pc
    by (cases "?len > req_buf_len inst")
      (simp_all add: exec_cmd_and_send_def Let_def inst [symmetric] pk' s1_def [symmetric] sizeof_rpc_pkt_def
        add.commute [of 16] request_cmd_def services_def more t_def [symmetric] split: option.split)
  then show ?thesis using ref2 lt agt t by (intro exI [of _ q] exI [of _ t]) simp
qed

text \<open>The response packet: the data is cut to what a message of the queue can carry.\<close>

lemma send_response_effect:
  fixes t :: "('g, 'z) rpc"
  assumes pc: "port_ok c" and pm: "\<not> pm_active c" and ref: "refines n d mx a (tx_queue dev) qr (mem t)"
    and fb: "free_bufs a = b # bs" and mx: "16 \<le> unat mx" and b: "b \<noteq> NULL" "b + 8 \<noteq> NULL"
    and nf: "notify_ok (notify_call calls) c d n (tx_queue dev)" "notify_more (notify_call calls) (tx_queue dev)"
      "notify_keeps (notify_call calls) (tx_queue dev) (span b (unat mx))"
    and lp: "lp_access_hp_cnt t \<notin> ring d n \<union> span b (unat mx) \<union> span (resp_data cmd) (unat (resp_len cmd))"
    and dj: "span b (unat mx) \<inter> ring d n = {}" "span (resp_data cmd) (unat (resp_len cmd)) \<inter> span b (unat mx) = {}"
    and rl: "0 < resp_len cmd"
  shows "\<exists>q s'. send_response calls c server client cid mid cmd (dev, t) = Some (dev\<lparr>tx_queue := q\<rparr>, s') \<and>
    refines n d mx (a\<lparr>free_bufs := bs, msgs := msgs a @ [(b, mx)]\<rparr>) q qr (mem s') \<and>
    msg_dst_addr (mem s') b = client \<and>
    packet_at (mem s') (b + 8) mid cid (cmd_status cmd)
      (load_bytes (mem t) (resp_data cmd) (min (unat (resp_len cmd)) (unat mx - 16))) \<and> core.more s' = core.more t \<and>
    lp_access_hp_cnt s' = lp_access_hp_cnt t \<and> notify_fc q = notify_fc (tx_queue dev) \<and> priv_data q = priv_data (tx_queue dev) \<and>
    (\<forall>A. A \<inter> ring d n = {} \<and> A \<inter> span b (unat mx) = {} \<and> lp_access_hp_cnt t \<notin> A \<and>
       notify_keeps (notify_call calls) (tx_queue dev) A \<longrightarrow> agree A (mem s') (mem t))"
proof -
  let ?M = "esp_amp_rpmsg_get_max_size dev"
  have q: "max_item_size (tx_queue dev) = mx" using ref by (auto simp: refines_def queue_ok_def side_def)
  have M: "unat ?M = unat mx - 8" using max_size [of dev] q mx by simp
  have M8: "unat (?M - sizeof_rpc_pkt) = unat mx - 16"
    using M mx by (simp add: sizeof_rpc_pkt_def unat_sub word_le_nat_alt)
  define len where "len = (if resp_len cmd > ?M - sizeof_rpc_pkt then ?M - sizeof_rpc_pkt else resp_len cmd)"
  have len: "unat len = min (unat (resp_len cmd)) (unat mx - 16)"
    using M8 by (auto simp: len_def word_less_nat_alt)
  have sub: "span (resp_data cmd) (unat len) \<subseteq> span (resp_data cmd) (unat (resp_len cmd))" "span b (16 + unat len) \<subseteq> span b (unat mx)"
    using len mx by (auto intro!: span_sub)
  have nb: "unat (ucast ?M :: u32) = unat mx - 8" using M by simp
  have "notify_keeps (notify_call calls) (tx_queue dev) (span b (16 + unat len))"
    using nf(3) agree_mono [OF _ sub(2)] unfolding notify_keeps_def by blast
  then have po: "postable (notify_call calls) c d n mx b (unat (ucast ?M :: u32)) (resp_data cmd) len (tx_queue dev) t"
    unfolding postable_def nb using pc pm nf b lp dj sub(1) len mx
    by (auto simp: pm_ready_def buf_apart_def ring_def)
  from post_packet [OF ref fb po, of id, unfolded id_apply, OF refl refl, of ESP_AMP_RPMSG_DATA_DEFAULT "server + offsetof_server_ept" client mid cid "cmd_status cmd"]
  obtain q1 s1 ret q2 s2 where cr: "esp_amp_rpmsg_create_message c (ucast ?M) ESP_AMP_RPMSG_DATA_DEFAULT dev t = Some (b + 8, dev\<lparr>tx_queue := q1\<rparr>, s1)"
    and m1: "core.more s1 = core.more t"
    and sn: "esp_amp_rpmsg_send_nocopy (notify_call calls) c (server + offsetof_server_ept) client (b + 8) (8 + len) (dev\<lparr>tx_queue := q1\<rparr>)
      (s1\<lparr>mem := memcpy (b + 16) (resp_data cmd) (unat len) (put_pkt mid cid (cmd_status cmd) len (b + 8) (mem s1))\<rparr>) =
      Some (ret, dev\<lparr>tx_queue := q2\<rparr>, s2)" and m2: "core.more s2 = core.more s1"
    and res: "refines n d mx (a\<lparr>free_bufs := bs, msgs := msgs a @ [(b, mx)]\<rparr>) q2 qr (mem s2)" "msg_dst_addr (mem s2) b = client"
      "packet_at (mem s2) (b + 8) mid cid (cmd_status cmd) (load_bytes (mem t) (resp_data cmd) (unat len))"
      "lp_access_hp_cnt s2 = lp_access_hp_cnt t" "notify_fc q2 = notify_fc (tx_queue dev)" "priv_data q2 = priv_data (tx_queue dev)"
    and fr: "\<forall>A. A \<inter> ring d n = {} \<and> A \<inter> span b (8 + unat (ucast ?M :: u32)) = {} \<and> lp_access_hp_cnt t \<notin> A \<and>
       notify_keeps (notify_call calls) (tx_queue dev) A \<longrightarrow> agree A (mem s2) (mem t)"
    by (elim exE conjE) (rule that; assumption)
  have "send_response calls c server client cid mid cmd (dev, t) = Some (dev\<lparr>tx_queue := q2\<rparr>, s2)"
    unfolding send_response_def Let_def len_def [symmetric]
    using rl cr sn b(2) by (simp add: len_def [symmetric]) (simp add: sizeof_rpc_pkt_def add.commute [of 16])
  moreover have "8 + unat (ucast ?M :: u32) = unat mx" unfolding nb using mx by simp
  ultimately show ?thesis using res m1 m2 len fr by (intro exI [of _ q2] exI [of _ s2]) simp
qed

text \<open>The command runs, or is answered as unknown; only the response buffer is written.\<close>

lemma handler_runs:
  assumes "handlers_ok calls inst" and "0 < resp_buf_len inst"
  obtains cmd' t' where "(case svc of
       None \<Rightarrow> cmd' = (request_cmd inst cid k)\<lparr>cmd_status := ESP_AMP_RPC_STATUS_INVALID_CMD, resp_len := 1\<rparr> \<and>
           mem t' = store8 (mem t) (resp_buf inst) 0
     | Some f \<Rightarrow> handler_call calls f (request_cmd inst cid k) (dev, t) = Some (cmd', dev, t'))"
    "(case svc of
       None \<Rightarrow> Some ((request_cmd inst cid k)\<lparr>cmd_status := ESP_AMP_RPC_STATUS_INVALID_CMD, resp_len := 1\<rparr>,
                     dev, t\<lparr>mem := store8 (mem t) (resp_buf inst) 0\<rparr>)
     | Some f \<Rightarrow> handler_call calls f (request_cmd inst cid k) (dev, t)) = Some (cmd', dev, t')"
    "lp_access_hp_cnt t' = lp_access_hp_cnt t" "core.more t' = core.more t"
    "agree (- span (resp_buf inst) (unat (resp_buf_len inst))) (mem t') (mem t)" "resp_data cmd' = resp_buf inst" "unat (resp_len cmd') \<le> unat (resp_buf_len inst)"
proof (cases svc)
  case None
  let ?W = "span (resp_buf inst) (unat (resp_buf_len inst))"
  have l: "resp_buf inst \<in> ?W" "1 \<le> unat (resp_buf_len inst)" using assms(2) by (simp_all add: in_span_iff word_less_nat_alt)
  then have "agree (- ?W) (store8 (mem t) (resp_buf inst) 0) (mem t)" by (auto simp: agree_def store8_def)
  with None l(2) show thesis
    by (intro that [of "(request_cmd inst cid k)\<lparr>cmd_status := ESP_AMP_RPC_STATUS_INVALID_CMD, resp_len := 1\<rparr>"
          "t\<lparr>mem := store8 (mem t) (resp_buf inst) 0\<rparr>"]) (simp_all add: request_cmd_def)
next
  case (Some f)
  obtain cmd' t' where "handler_call calls f (request_cmd inst cid k) (dev, t) = Some (cmd', dev, t')"
    "lp_access_hp_cnt t' = lp_access_hp_cnt t" "core.more t' = core.more t"
    "agree (- span (resp_buf inst) (unat (resp_buf_len inst))) (mem t') (mem t)" "resp_data cmd' = resp_buf inst" "resp_len cmd' \<le> resp_buf_len inst"
    using assms(1) [unfolded handlers_ok_def, rule_format, of "request_cmd inst cid k" f dev t] by (auto simp: request_cmd_def)
  then show thesis using Some by (intro that [of cmd' t']) (simp_all add: word_le_nat_alt)
qed

text \<open>And so is the ring of the requests from what is written after its message went back.\<close>

definition serve_apart :: "rpc_server_inst \<Rightarrow> ptr \<Rightarrow> nat \<Rightarrow> ptr \<Rightarrow> u16 \<Rightarrow> bool" where
  "serve_apart inst d n b' mx' \<longleftrightarrow> span (resp_buf inst) (unat (resp_buf_len inst)) \<inter> ring d n = {} \<and> span b' (unat mx') \<inter> ring d n = {}"

lemma serve_effect:
  fixes s :: "('g, 'z) rpc"
  assumes "port_ok c" and "\<not> pm_active c" and "handlers_ok calls inst"
    and "refines n d mx a qm (rx_queue dev) (mem s)" and "held_r a \<noteq> 0"
    and "refines n' d' mx' a' (tx_queue dev) qr (mem s)" and "free_bufs a' = b' # bs'"
    and "16 \<le> unat mx'" and "b' \<noteq> NULL" and "b' + 8 \<noteq> NULL"
    and "notify_ok (notify_call calls) c d' n' (tx_queue dev)" and "notify_more (notify_call calls) (tx_queue dev)"
    and "notify_keeps (notify_call calls) (tx_queue dev) (span b' (unat mx'))"
    and "packet_at (mem s) (b + 8) mid cid st data" and "inst = server_at s server"
    and "serve_layout inst s d n d' n' b' mx'" and "k = min (length data) (unat (req_buf_len inst))"
  shows "\<exists>q t cmd' q' t' s'. refines n d mx (a\<lparr>free_bufs := free_bufs a @ [b], held_r := held_r a - 1\<rparr>) qm q (mem t) \<and>
    load_bytes (mem t) (req_buf inst) k = take k data \<and>
    (case services server s cid of
       None \<Rightarrow> cmd' = (request_cmd inst cid k)\<lparr>cmd_status := ESP_AMP_RPC_STATUS_INVALID_CMD, resp_len := 1\<rparr> \<and>
           mem t' = store8 (mem t) (resp_buf inst) 0
     | Some f \<Rightarrow> handler_call calls f (request_cmd inst cid k) (dev\<lparr>rx_queue := q\<rparr>, t) = Some (cmd', dev\<lparr>rx_queue := q\<rparr>, t')) \<and>
    exec_cmd_and_send calls c server (b + 8) client (dev, s) = Some (dev\<lparr>rx_queue := q, tx_queue := q'\<rparr>, s') \<and>
    core.more s' = core.more s \<and> lp_access_hp_cnt s' = lp_access_hp_cnt s \<and>
    notify_fc q' = notify_fc (tx_queue dev) \<and> priv_data q' = priv_data (tx_queue dev) \<and>
    (serve_apart inst d n b' mx' \<and> notify_keeps (notify_call calls) (tx_queue dev) (ring d n) \<longrightarrow>
       refines n d mx (a\<lparr>free_bufs := free_bufs a @ [b], held_r := held_r a - 1\<rparr>) qm q (mem s')) \<and>
    (if resp_len cmd' = 0 then refines n' d' mx' a' q' qr (mem s')
     else refines n' d' mx' (a'\<lparr>free_bufs := bs', msgs := msgs a' @ [(b', mx')]\<rparr>) q' qr (mem s') \<and>
       msg_dst_addr (mem s') b' = client \<and>
       packet_at (mem s') (b' + 8) mid cid (cmd_status cmd')
         (load_bytes (mem t') (resp_buf inst) (min (unat (resp_len cmd')) (unat mx' - 16))))"
proof -
  let ?W = "span (resp_buf inst) (unat (resp_buf_len inst))" and ?R = "span (req_buf inst) (unat (req_buf_len inst))"
  from serve_prefix [OF assms(1,2,4,5,14-17), of calls client] obtain q t where
    r: "refines n d mx (a\<lparr>free_bufs := free_bufs a @ [b], held_r := held_r a - 1\<rparr>) qm q (mem t)"
    and lb: "load_bytes (mem t) (req_buf inst) k = take k data"
    and lp: "lp_access_hp_cnt t = lp_access_hp_cnt s" and more: "core.more t = core.more s"
    and ag: "agree (- (insert (lp_access_hp_cnt s) (ring d n \<union> ?R))) (mem t) (mem s)"
    and ex: "exec_cmd_and_send calls c server (b + 8) client (dev, s) = do {
      (cmd', ds) \<leftarrow> (case services server s cid of
          None \<Rightarrow> Some ((request_cmd inst cid k)\<lparr>cmd_status := ESP_AMP_RPC_STATUS_INVALID_CMD, resp_len := 1\<rparr>,
                        dev\<lparr>rx_queue := q\<rparr>, t\<lparr>mem := store8 (mem t) (resp_buf inst) 0\<rparr>)
        | Some f \<Rightarrow> handler_call calls f (request_cmd inst cid k) (dev\<lparr>rx_queue := q\<rparr>, t));
      send_response calls c server client cid mid cmd' ds }"
    by (elim exE conjE) (rule that; assumption)
  let ?dev = "dev\<lparr>rx_queue := q\<rparr>"
  have ly: "0 < resp_buf_len inst" "lp_access_hp_cnt s \<notin> ring d' n' \<union> ?W \<union> span b' (unat mx')"
    "(?R \<union> ?W \<union> ring d n) \<inter> ring d' n' = {}" "span b' (unat mx') \<inter> ring d' n' = {}" "?W \<inter> span b' (unat mx') = {}"
    "lp_access_hp_cnt s \<notin> ring d n" using assms(16) by (auto simp: serve_layout_def Let_def)
  obtain cmd' t' where h: "(case services server s cid of
       None \<Rightarrow> cmd' = (request_cmd inst cid k)\<lparr>cmd_status := ESP_AMP_RPC_STATUS_INVALID_CMD, resp_len := 1\<rparr> \<and>
           mem t' = store8 (mem t) (resp_buf inst) 0
     | Some f \<Rightarrow> handler_call calls f (request_cmd inst cid k) (?dev, t) = Some (cmd', ?dev, t'))"
    and ex': "exec_cmd_and_send calls c server (b + 8) client (dev, s) = send_response calls c server client cid mid cmd' (?dev, t')"
    and m': "core.more t' = core.more t" and t': "lp_access_hp_cnt t' = lp_access_hp_cnt t" "agree (- ?W) (mem t') (mem t)"
      "resp_data cmd' = resp_buf inst" "unat (resp_len cmd') \<le> unat (resp_buf_len inst)"
    by (rule handler_runs [OF assms(3) ly(1), where svc = "services server s cid" and cid = cid and k = k and t = t and dev = ?dev]) (use ex in simp)
  have "agree (ring d' n') (mem t') (mem s)"
    using ly t'(2) by (intro agree_trans [OF agree_mono [OF t'(2)] agree_mono [OF ag]]) auto
  then have ref: "refines n' d' mx' a' (tx_queue ?dev) qr (mem t')" using refines_cong [OF assms(6)] agree_sym by simp
  have rq: "refines n d mx (a\<lparr>free_bufs := free_bufs a @ [b], held_r := held_r a - 1\<rparr>) qm q (mem t')" if "serve_apart inst d n b' mx'"
    using that by (intro refines_cong [OF r] agree_mono [OF agree_sym [OF t'(2)]]) (auto simp: serve_apart_def)
  show ?thesis
  proof (cases "resp_len cmd' = 0")
    case True
    then have "send_response calls c server client cid mid cmd' (?dev, t') = Some (?dev, t')" by (simp add: send_response_def)
    with True r lb h ex' ref rq more m' lp t'(1) show ?thesis
      by (intro exI [of _ q] exI [of _ t] exI [of _ cmd'] exI [of _ "tx_queue dev"] exI [of _ t'] exI [of _ t']) simp
  next
    case False
    have sW: "span (resp_data cmd') (unat (resp_len cmd')) \<subseteq> ?W" unfolding t'(3) using t'(4) by (intro span_sub) simp
    have l: "lp_access_hp_cnt t' \<notin> ring d' n' \<union> span b' (unat mx') \<union> span (resp_data cmd') (unat (resp_len cmd'))"
      "span (resp_data cmd') (unat (resp_len cmd')) \<inter> span b' (unat mx') = {}" "0 < resp_len cmd'"
      using ly sW t'(1) lp False by (auto simp: word_neq_0_conv)
    from send_response_effect [OF assms(1,2) ref assms(7-10) _ _ _ l(1) ly(4) l(2,3), of calls server client cid mid] assms(11-13)
    obtain q' s' where sr: "send_response calls c server client cid mid cmd' (?dev, t') = Some (?dev\<lparr>tx_queue := q'\<rparr>, s')"
      "refines n' d' mx' (a'\<lparr>free_bufs := bs', msgs := msgs a' @ [(b', mx')]\<rparr>) q' qr (mem s')" "msg_dst_addr (mem s') b' = client"
      "packet_at (mem s') (b' + 8) mid cid (cmd_status cmd') (load_bytes (mem t') (resp_buf inst) (min (unat (resp_len cmd')) (unat mx' - 16)))"
      "core.more s' = core.more t'" "lp_access_hp_cnt s' = lp_access_hp_cnt t'"
      "notify_fc q' = notify_fc (tx_queue dev)" "priv_data q' = priv_data (tx_queue dev)"
      and fr: "\<forall>A. A \<inter> ring d' n' = {} \<and> A \<inter> span b' (unat mx') = {} \<and> lp_access_hp_cnt t' \<notin> A \<and>
       notify_keeps (notify_call calls) (tx_queue dev) A \<longrightarrow> agree A (mem s') (mem t')"
      unfolding t'(3) by auto
    have rq': "refines n d mx (a\<lparr>free_bufs := free_bufs a @ [b], held_r := held_r a - 1\<rparr>) qm q (mem s')"
      if "serve_apart inst d n b' mx'" "notify_keeps (notify_call calls) (tx_queue dev) (ring d n)"
    proof (rule refines_cong [OF rq [OF that(1)]])
      have "ring d n \<inter> ring d' n' = {}" "ring d n \<inter> span b' (unat mx') = {}" "lp_access_hp_cnt t' \<notin> ring d n"
        using that(1) ly(3,6) t'(1) lp by (auto simp: serve_apart_def)
      then show "agree (ring d n) (mem t') (mem s')" using fr that(2) by (intro agree_sym [OF fr [rule_format]]) simp
    qed
    have "exec_cmd_and_send calls c server (b + 8) client (dev, s) = Some (dev\<lparr>rx_queue := q, tx_queue := q'\<rparr>, s')"
      "core.more s' = core.more s" "lp_access_hp_cnt s' = lp_access_hp_cnt s"
      using ex' sr(1,5,6) more m' lp t'(1) by simp_all
    with False r lb h sr(2-4,7,8) rq' show ?thesis
      by (intro exI [of _ q] exI [of _ t] exI [of _ cmd'] exI [of _ q'] exI [of _ t'] exI [of _ s']) simp
  qed
qed

text \<open>C18. A server answers a request with the result of its handler. The request bytes, cut to the
  request buffer, are in that buffer and the message has gone back to the client before the handler
  of the command runs; the handler gets the command id, those bytes and the response buffer. If it
  leaves a response, one message is appended to the queue, to the address the request came from,
  with the message id and command id of the request, the status the handler set and the response
  bytes, cut to what a message can carry. A command without a handler is answered with the status
  INVALID_CMD; a handler that sets the response length to zero sends nothing.\<close>

theorem rpc_request_served:
  fixes s :: "('g, 'z) rpc"
  assumes "port_ok c" and "\<not> pm_active c" and "handlers_ok calls inst"
    and "refines n d mx a qm (rx_queue dev) (mem s)" and "held_r a \<noteq> 0"
    and "refines n' d' mx' a' (tx_queue dev) qr (mem s)" and "free_bufs a' = b' # bs'"
    and "16 \<le> unat mx'" and "b' \<noteq> NULL" and "b' + 8 \<noteq> NULL"
    and "notify_ok (notify_call calls) c d' n' (tx_queue dev)" and "notify_more (notify_call calls) (tx_queue dev)"
    and "notify_keeps (notify_call calls) (tx_queue dev) (span b' (unat mx'))"
    and "packet_at (mem s) (b + 8) mid cid st data" and "inst = server_at s server"
    and "serve_layout inst s d n d' n' b' mx'" and "k = min (length data) (unat (req_buf_len inst))"
  shows "\<exists>q t cmd' dev' t' s'. refines n d mx (a\<lparr>free_bufs := free_bufs a @ [b], held_r := held_r a - 1\<rparr>) qm q (mem t) \<and>
    load_bytes (mem t) (req_buf inst) k = take k data \<and>
    (case services server s cid of
       None \<Rightarrow> cmd' = (request_cmd inst cid k)\<lparr>cmd_status := ESP_AMP_RPC_STATUS_INVALID_CMD, resp_len := 1\<rparr> \<and>
           mem t' = store8 (mem t) (resp_buf inst) 0
     | Some f \<Rightarrow> handler_call calls f (request_cmd inst cid k) (dev\<lparr>rx_queue := q\<rparr>, t) = Some (cmd', dev\<lparr>rx_queue := q\<rparr>, t')) \<and>
    exec_cmd_and_send calls c server (b + 8) client (dev, s) = Some (dev', s') \<and>
    (if resp_len cmd' = 0 then refines n' d' mx' a' (tx_queue dev') qr (mem s')
     else refines n' d' mx' (a'\<lparr>free_bufs := bs', msgs := msgs a' @ [(b', mx')]\<rparr>) (tx_queue dev') qr (mem s') \<and>
       msg_dst_addr (mem s') b' = client \<and>
       packet_at (mem s') (b' + 8) mid cid (cmd_status cmd')
         (load_bytes (mem t') (resp_buf inst) (min (unat (resp_len cmd')) (unat mx' - 16))))"
  using serve_effect [OF assms, of client] by (elim exE conjE) (intro exI conjI; assumption?; simp)

subsection \<open>A sample pair of client and server\<close>

text \<open>Two rings of two slots with messages of 32 bytes: requests in ring 0x1000, responses in ring
  0x1100.\<close>

definition rpc_queue :: "ptr \<Rightarrow> bool \<Rightarrow> nat esp_amp_queue" where
  "rpc_queue d b = \<lparr>desc = d, qsize = 2, free_index = 0, used_index = 0, max_item_size = 32,
     master = b, callback_fc = None, notify_fc = None, priv_data = NULL,
     free_flip_counter = 1, used_flip_counter = 1\<rparr>"

definition fill2 :: "ptr \<Rightarrow> ptr \<Rightarrow> memory \<Rightarrow> memory" where
  "fill2 d b m = filled d (filled d m 0 b 32) 1 (b + 32) 32"

definition demo_rpc :: "(nat, unit) rpc" where
  "demo_rpc = demo_service_core\<lparr>mem := fill2 0x1100 0x2400 (fill2 0x1000 0x2000 (\<lambda>_. 0))\<rparr>"

definition client_dev :: "(nat, nat) rpmsg_dev" where
  "client_dev = demo_dev\<lparr>tx_queue := rpc_queue 0x1000 True, rx_queue := rpc_queue 0x1100 False\<rparr>"

definition server_dev :: "(nat, nat) rpmsg_dev" where
  "server_dev = demo_dev\<lparr>tx_queue := rpc_queue 0x1100 True, rx_queue := rpc_queue 0x1000 False\<rparr>"

definition demo_calls :: "(nat, nat, nat, unit) rpc_calls" where
  "demo_calls = \<lparr>notify_call = (\<lambda>f p s. None), handler_call = (\<lambda>f cmd ds. Some (cmd\<lparr>cmd_status := 0\<rparr>, ds)),
     app_cb_call = (\<lambda>f cl cm arg ds. Some ds), poll_cb_call = (\<lambda>f arg ds. Some ds)\<rparr>"

lemma fill2_frame: "agree (- ring d 2) (fill2 d b m) m"
proof -
  have "span (desc_slot d (word_of_nat i)) 8 \<inter> - ring d 2 = {}" if "i < 2" for i
    using slot_span [OF that, of d] by auto
  from this [of 0] this [of 1] show ?thesis
    unfolding fill2_def by (intro agree_trans [OF filled_frame filled_frame]) simp_all
qed

lemma fill2_refines:
  "refines 2 d 32 (initial_queue 2 b 32) (rpc_queue d True) (rpc_queue d False) (fill2 d b m)"
proof (rule initial_refines)
  show "ring_size 2" unfolding ring_size_def by (intro exI [of _ 1]) simp
  show "fills d 2 0 b 32 m (fill2 d b m)"
    using fill2_frame [of d b m] by (auto simp: fills_def fill2_def filled_read less_2_cases_iff)
qed (simp_all add: rpc_queue_def side_def flip_at_def)

lemma demo_rpc_refines:
  "refines 2 0x1000 32 (initial_queue 2 0x2000 32) (rpc_queue 0x1000 True) (rpc_queue 0x1000 False) (mem demo_rpc)"
  "refines 2 0x1100 32 (initial_queue 2 0x2400 32) (rpc_queue 0x1100 True) (rpc_queue 0x1100 False) (mem demo_rpc)"
proof -
  have "ring 0x1000 2 \<inter> ring 0x1100 2 = {}" unfolding ring_def by (rule disj_nowrap) simp_all
  then have "agree (ring 0x1000 2) (fill2 0x1000 0x2000 (\<lambda>_. 0)) (mem demo_rpc)"
    unfolding demo_rpc_def by (simp, intro agree_sym [OF agree_mono [OF fill2_frame]]) auto
  then show "refines 2 0x1000 32 (initial_queue 2 0x2000 32) (rpc_queue 0x1000 True) (rpc_queue 0x1000 False) (mem demo_rpc)"
    using refines_cong [OF fill2_refines] by blast
  show "refines 2 0x1100 32 (initial_queue 2 0x2400 32) (rpc_queue 0x1100 True) (rpc_queue 0x1100 False) (mem demo_rpc)"
    using fill2_refines by (simp add: demo_rpc_def)
qed

lemma demo_rpc_simps [simp]:
  "lp_access_hp_cnt demo_rpc = NULL" "tx_queue client_dev = rpc_queue 0x1000 True" "tx_queue server_dev = rpc_queue 0x1100 True"
  "rx_queue server_dev = rpc_queue 0x1000 False" "notify_fc (rpc_queue d b) = None" "notify_call demo_calls = (\<lambda>f p s. None)"
  "\<not> pm_active (demo_config b)" "handlers_ok demo_calls inst"
  by (simp_all add: demo_rpc_def demo_service_core_def client_dev_def server_dev_def rpc_queue_def demo_calls_def pm_active_def handlers_ok_def)

lemma demo_rpc_initial:
  "free_bufs (initial_queue 2 b 32) = [b, b + 32]" "msgs (initial_queue 2 b 32) = []" "held_m (initial_queue 2 b 32) = 0"
  "held_r (initial_queue 2 b 32) = 0"
  by (simp_all add: initial_queue_def upt_rec)

lemma demo_postable:
  "postable (\<lambda>f p s. None) (demo_config True) 0x1000 2 32 0x2000 10 0x4000 2 (rpc_queue 0x1000 True) demo_rpc"
proof -
  have "span 0x4000 2 \<inter> span 0x2000 18 = {}" "span 0x2000 18 \<inter> ring 0x1000 2 = {}"
    unfolding ring_def by (rule disj_nowrap; simp)+
  then show ?thesis
    by (simp add: postable_def notify_ok_def notify_keeps_def notify_more_def buf_apart_def pm_ready_def in_span_iff)
qed

lemma demo_rpc_fields:
  "client_running (client_at demo_rpc p)" "pending_id (client_at demo_rpc p) = 0" "cmd_id (cmd_at demo_rpc p) = 3"
  "req_len (cmd_at demo_rpc p) = 2" "req_data (cmd_at demo_rpc p) = 0x4000"
  by (simp_all add: demo_rpc_def demo_service_core_def zero_client_def)

theorem rpc_request_sent_witness:
  "\<exists>q s'. esp_amp_rpc_client_execute_cmd demo_calls (demo_config True) 0x8000 0x9000 (client_dev, demo_rpc) =
      Some (ESP_AMP_RPC_OK, client_dev\<lparr>tx_queue := q\<rparr>, s') \<and>
    packet_at (mem s') 0x2008 1 3 ESP_AMP_RPC_STATUS_PENDING (load_bytes (mem demo_rpc) 0x4000 2)"
  using rpc_request_sent [of 2 "0x1000" 32 "initial_queue 2 0x2000 32" client_dev "rpc_queue 0x1000 False" demo_rpc "0x2000" "[0x2020]"
      "0x8000" "0x9000" demo_calls "demo_config True"] demo_postable demo_rpc_refines(1)
  by (auto simp: demo_rpc_fields demo_rpc_initial)


theorem rpc_response_accepted_witness:
  "\<exists>s2. client_cb demo_calls (demo_config True) 0x2008 9 5 0x8000 (client_dev,
      demo_rpc\<lparr>client_at := \<lambda>_. (client_at demo_rpc 0)\<lparr>pending_cmd := 0x9000\<rparr>\<rparr>) = do {
        (_, ds) \<leftarrow> esp_amp_rpmsg_destroy (demo_config True) 0x2008 client_dev s2;
        Some (ESP_AMP_RPC_OK, ds)
      } \<and> cmd_status (cmd_at s2 0x9000) = 0"
proof -
  let ?s = "demo_rpc\<lparr>client_at := \<lambda>_. (client_at demo_rpc 0)\<lparr>pending_cmd := 0x9000\<rparr>\<rparr>"
  have z: "mem demo_rpc x = 0" if "x \<in> span 0x2000 32" for x
  proof -
    have "span 0x2000 32 \<inter> ring 0x1000 2 = {}" "span 0x2000 32 \<inter> ring 0x1100 2 = {}" unfolding ring_def by (rule disj_nowrap; simp)+
    then have "x \<notin> ring 0x1000 2" "x \<notin> ring 0x1100 2" using that by auto
    then show ?thesis using fill2_frame [of "0x1100" "0x2400" "fill2 0x1000 0x2000 (\<lambda>_. 0)"] fill2_frame [of "0x1000" "0x2000" "\<lambda>_. 0"]
      by (auto simp: demo_rpc_def agree_def)
  qed
  have "packet_at (mem ?s) (0x2000 + 8) 0 0 0 []"
    using z [of "0x2008"] z [of "0x2009"] z [of "0x200a"] z [of "0x200b"] z [of "0x200c"] z [of "0x200d"] z [of "0x200e"] z [of "0x200f"]
    by (simp add: packet_at_def pkt_msg_id_def pkt_cmd_id_def pkt_status_def pkt_msg_len_def load16_def in_span_iff load_bytes_def)
  from rpc_response_accepted [of "0x8000" ?s, OF _ _ _ this refl refl refl, of demo_calls "demo_config True" 9 5 client_dev]
  show ?thesis by (auto simp: demo_rpc_def demo_service_core_def zero_client_def)
qed

text \<open>The sample server with the request of the sample client received.\<close>

lemma demo_received:
  obtains q qm :: "nat esp_amp_queue" and a m where "refines 2 0x1000 32 a qm q m" "held_r a \<noteq> 0"
    "refines 2 0x1100 32 (initial_queue 2 0x2400 32) (rpc_queue 0x1100 True) (rpc_queue 0x1100 False) m"
    "packet_at m (0x2000 + 8) 1 3 ESP_AMP_RPC_STATUS_PENDING (load_bytes (mem demo_rpc) 0x4000 2)"
proof -
  have pb: "postable (notify_call demo_calls) (demo_config True) 0x1000 2 32 0x2000 (unat (10 :: u32)) 0x4000 2 (tx_queue client_dev) demo_rpc"
    and rf: "refines 2 0x1000 32 (initial_queue 2 0x2000 32) (tx_queue client_dev) (rpc_queue 0x1000 False) (mem demo_rpc)"
    and fb: "free_bufs (initial_queue 2 0x2000 32) = 0x2000 # [0x2020]"
    using demo_postable demo_rpc_refines(1) by (simp_all add: demo_rpc_initial)
  obtain q2 :: "nat esp_amp_queue" and s2 :: "(nat, unit) rpc" where
    r: "refines 2 0x1000 32 ((initial_queue 2 0x2000 32)\<lparr>free_bufs := [0x2020], msgs := msgs (initial_queue 2 0x2000 32) @ [(0x2000, 32)]\<rparr>) q2 (rpc_queue 0x1000 False) (mem s2)"
    and pk: "packet_at (mem s2) (0x2000 + 8) 1 3 ESP_AMP_RPC_STATUS_PENDING (load_bytes (mem demo_rpc) 0x4000 (unat (2 :: u16)))"
    and fr: "\<forall>A. A \<inter> ring 0x1000 2 = {} \<and> A \<inter> span 0x2000 (8 + unat (10 :: u32)) = {} \<and> lp_access_hp_cnt demo_rpc \<notin> A \<and>
       notify_keeps (notify_call demo_calls) (tx_queue client_dev) A \<longrightarrow> agree A (mem s2) (mem demo_rpc)"
    using post_packet [OF rf fb pb, of id, unfolded id_apply, OF refl refl, of 0 "0x800c" 5 1 3 ESP_AMP_RPC_STATUS_PENDING]
    by (elim exE conjE) (rule that; assumption)
  have "ring 0x1100 2 \<inter> ring 0x1000 2 = {}" "ring 0x1100 2 \<inter> span 0x2000 18 = {}" "NULL \<notin> ring 0x1100 2"
    unfolding ring_def by (rule disj_nowrap; simp)+ (simp add: in_span_iff)
  then have "agree (ring 0x1100 2) (mem s2) (mem demo_rpc)" using fr by (simp add: notify_keeps_def)
  then have r2: "refines 2 0x1100 32 (initial_queue 2 0x2400 32) (rpc_queue 0x1100 True) (rpc_queue 0x1100 False) (mem s2)"
    using refines_cong [OF demo_rpc_refines(2)] agree_sym by blast
  let ?s = "s2\<lparr>lp_access_hp_cnt := NULL\<rparr>"
  have "pm_ready (demo_config False) 0x1000 (8 * 2) ?s" by (simp add: pm_ready_def in_span_iff)
  from recv_refines [OF _ _ this, of 32 _ q2 "rpc_queue 0x1000 False"] r obtain ret b' sz' q s1 a' where
    rc: "esp_amp_queue_recv_try (demo_config False) (rpc_queue 0x1000 False) ?s = Some (ret, b', sz', q, s1)"
    and aq: "aq_recv ((initial_queue 2 0x2000 32)\<lparr>free_bufs := [0x2020], msgs := [(0x2000, 32)]\<rparr>) = (ret, b', sz', a')"
    and r1: "refines 2 0x1000 32 a' q2 q (mem s1)"
    unfolding demo_rpc_initial by fastforce
  have ok: "ret = ESP_OK" "held_r a' \<noteq> 0" using aq by auto
  from recv_try_keeps rc ok(1) have "s1 = ?s" by fastforce
  with r1 ok r2 pk that [of a' q2 q "mem s2"] show thesis by simp
qed

theorem rpc_request_served_witness:
  "\<exists>dev s dev' s'. exec_cmd_and_send demo_calls (demo_config False) 0x5000 0x2008 9 (dev, s) = Some (dev', s') \<and>
    services 0x5000 s 3 = None \<and> packet_at (mem s') 0x2408 1 3 ESP_AMP_RPC_STATUS_INVALID_CMD [0]"
proof -
  obtain q qm :: "nat esp_amp_queue" and a m where rf: "refines 2 0x1000 32 a qm q m" "held_r a \<noteq> 0"
    "refines 2 0x1100 32 (initial_queue 2 0x2400 32) (rpc_queue 0x1100 True) (rpc_queue 0x1100 False) m"
    and pk: "packet_at m (0x2000 + 8) 1 3 ESP_AMP_RPC_STATUS_PENDING (load_bytes (mem demo_rpc) 0x4000 2)" by (rule demo_received)
  let ?s = "demo_rpc\<lparr>mem := m\<rparr>" and ?dev = "server_dev\<lparr>rx_queue := q\<rparr>"
  have sp: "span 0x7000 8 \<inter> span 0x1000 16 = {}" "span 0x7000 8 \<inter> span 0x1100 16 = {}" "span 0x7100 8 \<inter> span 0x1100 16 = {}"
    "span 0x1000 16 \<inter> span 0x1100 16 = {}" "span 0x2400 32 \<inter> span 0x1100 16 = {}" "span 0x7100 8 \<inter> span 0x2400 32 = {}"
    by (rule disj_nowrap; simp)+
  have lay: "serve_layout (server_at ?s 0x5000) ?s 0x1000 2 0x1100 2 0x2400 32"
    using sp by (simp add: serve_layout_def Let_def ring_def in_span_iff demo_rpc_def demo_service_core_def zero_server_def Int_Un_distrib2)
  have sv: "services 0x5000 ?s 3 = None"
    by (simp add: services_def demo_rpc_def demo_service_core_def zero_server_def zero_service_def)
  have rx: "refines 2 0x1000 32 a qm (rx_queue ?dev) (mem ?s)"
    and tx: "refines 2 0x1100 32 (initial_queue 2 0x2400 32) (tx_queue ?dev) (rpc_queue 0x1100 False) (mem ?s)"
    and pk': "packet_at (mem ?s) (0x2000 + 8) 1 3 ESP_AMP_RPC_STATUS_PENDING (load_bytes (mem demo_rpc) 0x4000 2)"
    and nf: "notify_ok (notify_call demo_calls) (demo_config False) 0x1100 2 (tx_queue ?dev)" "notify_more (notify_call demo_calls) (tx_queue ?dev)"
      "notify_keeps (notify_call demo_calls) (tx_queue ?dev) (span 0x2400 (unat (32 :: u16)))"
      "16 \<le> unat (32 :: u16)" "(0x2400 :: ptr) \<noteq> NULL" "(0x2400 :: ptr) + 8 \<noteq> NULL"
    and fb: "free_bufs (initial_queue 2 0x2400 32) = 0x2400 # [0x2420]"
    using rf pk by (simp_all add: notify_ok_def notify_more_def notify_keeps_def demo_rpc_initial)
  from rpc_request_served [OF demo_config_simps(5) demo_rpc_simps(7,8) rx rf(2) tx fb nf(4-6) nf(1-3) pk' refl lay refl, of 9] sv
  have "\<exists>dev' s' t'. exec_cmd_and_send demo_calls (demo_config False) 0x5000 (0x2000 + 8) 9 (?dev, ?s) = Some (dev', s') \<and>
      packet_at (mem s') (0x2400 + 8) 1 3 ESP_AMP_RPC_STATUS_INVALID_CMD [0]"
    by (auto simp: request_cmd_def load_bytes_def store8_def split: if_splits)
  then show ?thesis using sv by auto
qed

end
