(* ===== verification/Amp_Rpmsg_Setup.thy ===== *)
theory Amp_Rpmsg_Setup
  imports Amp_Rpmsg_Ept
begin

text \<open>
  Setting up RPMsg, src/components/esp_amp/src/esp_amp_rpmsg.c: maincore lays two queues out in shared
  memory (esp_amp_rpmsg_main_init_by_id), subcore attaches to them with the roles exchanged
  (esp_amp_rpmsg_sub_init_by_id). With automatic light sleep the descriptors of the queue that maincore
  sends on are in RTC memory.
\<close>

subsection \<open>The layout\<close>

definition rpmsg_hp_bytes :: "bool \<Rightarrow> nat \<Rightarrow> u16 \<Rightarrow> nat" where
  "rpmsg_hp_bytes split n isz = (if split then 24 + 8 * n + 2 * (unat isz * n) else 24 + 16 * n + 2 * (unat isz * n))"

definition main_tx_descs :: "bool \<Rightarrow> ptr \<Rightarrow> ptr \<Rightarrow> ptr" where
  "main_tx_descs split p r = (if split then r else p + 24)"

definition main_rx_descs :: "bool \<Rightarrow> ptr \<Rightarrow> nat \<Rightarrow> ptr" where
  "main_rx_descs split p n = (if split then p + 24 else p + word_of_nat (24 + 8 * n))"

definition main_tx_bufs :: "bool \<Rightarrow> ptr \<Rightarrow> nat \<Rightarrow> ptr" where
  "main_tx_bufs split p n = (if split then p + word_of_nat (24 + 8 * n) else p + word_of_nat (24 + 16 * n))"

definition main_rx_bufs :: "bool \<Rightarrow> ptr \<Rightarrow> nat \<Rightarrow> u16 \<Rightarrow> ptr" where
  "main_rx_bufs split p n isz = main_tx_bufs split p n + word_of_nat (unat isz * n)"

text \<open>Sets of addresses none of which overlap.\<close>

fun apart :: "ptr set list \<Rightarrow> bool" where
  "apart [] \<longleftrightarrow> True"
| "apart (A # As) \<longleftrightarrow> (\<forall>B \<in> set As. A \<inter> B = {}) \<and> apart As"

text \<open>Parts of a block at increasing offsets.\<close>

lemma parts_apart:
  assumes "unat p + B < 4294967296" and "k + l \<le> k'" and "k' + l' \<le> B"
  shows "span (p + word_of_nat k) l \<inter> span (p + word_of_nat k') l' = {}"
proof -
  have "unat (p + word_of_nat k) = unat p + k" "unat (p + word_of_nat k') = unat p + k'"
    using assms by (intro unat_add_of_nat; linarith)+
  then show ?thesis using assms by (intro disj_nowrap) linarith+
qed

lemma part_of_block: "k + l \<le> B \<Longrightarrow> k < 4294967296 \<Longrightarrow> span (p + word_of_nat k) l \<subseteq> span p B"
  by (rule span_sub) (simp add: unat_of_nat32)

definition rpmsg_parts :: "bool \<Rightarrow> ptr \<Rightarrow> ptr \<Rightarrow> nat \<Rightarrow> u16 \<Rightarrow> ptr set list" where
  "rpmsg_parts split p r n isz = [span p 12, span (p + 12) 12, ring (main_tx_descs split p r) n, ring (main_rx_descs split p n) n,
     span (main_tx_bufs split p n) (unat isz * n), span (main_rx_bufs split p n isz) (unat isz * n)]"

lemma rpmsg_parts_apart:
  assumes top: "unat p + rpmsg_hp_bytes split n isz < 4294967296"
    and rtc: "split \<Longrightarrow> ring r n \<inter> span p (rpmsg_hp_bytes split n isz) = {}"
  shows "apart (rpmsg_parts split p r n isz)"
proof -
  let ?B = "rpmsg_hp_bytes split n isz" and ?z = "unat isz * n"
  have pl: "span (p + 12) 12 = span (p + word_of_nat 12) 12" "span (p + 24) (8 * n) = span (p + word_of_nat 24) (8 * n)" by simp_all
  note part = parts_apart [OF top]
  have part0: "span p 12 \<inter> span (p + word_of_nat k) l = {}" if "12 \<le> k" "k + l \<le> ?B" for k l
    using part [of 0 12 k l] that by simp
  show ?thesis
  proof (cases split)
    case True
    then have B: "?B = 24 + 8 * n + 2 * ?z" by (simp add: rpmsg_hp_bytes_def)
    have rx: "main_rx_bufs split p n isz = p + word_of_nat (24 + 8 * n + ?z)" using True by (simp add: main_rx_bufs_def main_tx_bufs_def)
    have sub: "span (p + word_of_nat k) l \<inter> ring r n = {}" if "k + l \<le> ?B" for k l
      using part_of_block [OF that, of p] rtc [OF True] that top by auto
    have sub0: "span p 12 \<inter> ring r n = {}" using sub [of 0 12] B by simp
    show ?thesis
      unfolding rpmsg_parts_def rx main_tx_descs_def main_rx_descs_def main_tx_bufs_def ring_def if_P [OF True] pl
      by (simp add: sub [unfolded ring_def] sub0 [unfolded ring_def] part0 Int_commute [of "span r (8 * n)"] part B del: of_nat_add of_nat_numeral of_nat_0)
  next
    case False
    then have B: "?B = 24 + 16 * n + 2 * ?z" by (simp add: rpmsg_hp_bytes_def)
    have rx: "main_rx_bufs split p n isz = p + word_of_nat (24 + 16 * n + ?z)" using False by (simp add: main_rx_bufs_def main_tx_bufs_def)
    show ?thesis
      unfolding rpmsg_parts_def rx main_tx_descs_def main_rx_descs_def main_tx_bufs_def ring_def if_not_P [OF False] pl
      by (simp add: part part0 B del: of_nat_add of_nat_numeral of_nat_0)
  qed
qed

subsection \<open>Maincore creates both queues\<close>

text \<open>Both queues are in memory and none of their buffers is in use; the handles of one core are the
  sending end of one and the receiving end of the other.\<close>

definition link_home :: "bool \<Rightarrow> nat \<Rightarrow> u16 \<Rightarrow> ptr \<Rightarrow> ptr \<Rightarrow> memory \<Rightarrow> bool" where
  "link_home split n isz p r m \<longleftrightarrow> queue_home n p (main_tx_descs split p r) (main_tx_bufs split p n) isz m \<and>
     queue_home n (p + 12) (main_rx_descs split p n) (main_rx_bufs split p n isz) isz m"

lemma two_queues_made:
  assumes npm: "\<not> pm_active c" and n: "n \<le> 32768" and ap: "apart [span tc 12, span rc 12, ring td n, ring rd n]"
  obtains m1 m vq0 vq1 where
    "esp_amp_queue_init_buffer c tc (word_of_nat n) isz td tb s = Some (ESP_OK, s\<lparr>mem := m1\<rparr>)"
    "esp_amp_queue_init_buffer c rc (word_of_nat n) isz rd rb (s\<lparr>mem := m1\<rparr>) = Some (ESP_OK, s\<lparr>mem := m\<rparr>)"
    "esp_amp_queue_create c tc txf priv True (s\<lparr>mem := m\<rparr>) = Some (ESP_OK, vq0, s\<lparr>mem := m\<rparr>)"
    "esp_amp_queue_create c rc rxf priv False (s\<lparr>mem := m\<rparr>) = Some (ESP_OK, vq1, s\<lparr>mem := m\<rparr>)"
    "queue_home n tc td tb isz m" "queue_home n rc rd rb isz m"
    "fresh_handle n td isz txf priv True vq0" "fresh_handle n rd isz rxf priv False vq1"
    "agree (- (span tc 12 \<union> span rc 12 \<union> ring td n \<union> ring rd n)) m (mem s)"
proof -
  have d: "span tc 12 \<inter> ring td n = {}" "span rc 12 \<inter> ring rd n = {}"
    "(span tc 12 \<union> ring td n) \<inter> (span rc 12 \<union> ring rd n) = {}" using ap by auto
  obtain m1 where b1: "esp_amp_queue_init_buffer c tc (word_of_nat n) isz td tb s = Some (ESP_OK, s\<lparr>mem := m1\<rparr>)"
    and h1: "queue_home n tc td tb isz m1" and f1: "agree (- (span tc 12 \<union> ring td n)) m1 (mem s)"
    by (rule init_buffer_home [OF npm d(1) n])
  obtain m where b2: "esp_amp_queue_init_buffer c rc (word_of_nat n) isz rd rb (s\<lparr>mem := m1\<rparr>) = Some (ESP_OK, s\<lparr>mem := m1\<rparr>\<lparr>mem := m\<rparr>)"
    and h2: "queue_home n rc rd rb isz m" and f2: "agree (- (span rc 12 \<union> ring rd n)) m (mem (s\<lparr>mem := m1\<rparr>))"
    by (rule init_buffer_home [OF npm d(2) n])
  have h1': "queue_home n tc td tb isz m"
    using d(3) by (intro queue_home_cong [OF h1 _ n] agree_sym [OF agree_mono [OF f2 [simplified]]]) auto
  have "agree (- (span tc 12 \<union> span rc 12 \<union> ring td n \<union> ring rd n)) m (mem s)"
    using f1 f2 by (auto simp: agree_def)
  moreover obtain vq0 s0 where "esp_amp_queue_create c tc txf priv True (s\<lparr>mem := m\<rparr>) = Some (ESP_OK, vq0, s0)"
    "fresh_handle n td isz txf priv True vq0" "pm_frame c (s\<lparr>mem := m\<rparr>) s0"
    by (rule create_attach [of n tc td isz "s\<lparr>mem := m\<rparr>" c txf priv True]) (use h1' npm in \<open>simp_all add: queue_home_def\<close>)
  moreover obtain vq1 s0' where "esp_amp_queue_create c rc rxf priv False (s\<lparr>mem := m\<rparr>) = Some (ESP_OK, vq1, s0')"
    "fresh_handle n rd isz rxf priv False vq1" "pm_frame c (s\<lparr>mem := m\<rparr>) s0'"
    by (rule create_attach [of n rc rd isz "s\<lparr>mem := m\<rparr>" c rxf priv False]) (use h2 npm in \<open>simp_all add: queue_home_def\<close>)
  ultimately show thesis using that b1 b2 h1' h2 npm by (simp add: pm_frame_def)
qed

lemma rpmsg_bytes:
  assumes "rpmsg_hp_bytes split (unat len) isz < 65536"
  shows "split \<Longrightarrow> ucast (2 * (sizeof_queue_conf + ucast isz * ucast len) + sizeof_queue_desc * ucast len :: u32) =
      (word_of_nat (rpmsg_hp_bytes split (unat len) isz) :: u16)"
    and "\<not> split \<Longrightarrow> ucast (2 * (sizeof_queue_conf + sizeof_queue_desc * ucast len + ucast isz * ucast len) :: u32) =
      (word_of_nat (rpmsg_hp_bytes split (unat len) isz) :: u16)"
  unfolding size_cut [OF assms, symmetric]
  by (simp_all add: rpmsg_hp_bytes_def sizeof_queue_conf_def sizeof_queue_desc_def algebra_simps)

lemma link_set_up:
  assumes npm: "\<not> pm_active c" and n: "n \<le> 32768" and ap: "apart (rpmsg_parts split p r n isz)"
    and ok: "pool_ok c SYS_INFO_CAP_HP (mem s) H" and look: "map_of H i = Some sz" and p: "p = buf_addr c SYS_INFO_CAP_HP i H"
    and sz: "unat sz = rpmsg_hp_bytes split n isz" "n < 65536" and rtc: "split \<Longrightarrow> ring r n \<inter> pool_area c SYS_INFO_CAP_HP = {}"
  obtains m1 m vq0 vq1 where
    "esp_amp_queue_init_buffer c p (word_of_nat n) isz (main_tx_descs split p r) (main_tx_bufs split p n) s = Some (ESP_OK, s\<lparr>mem := m1\<rparr>)"
    "esp_amp_queue_init_buffer c (p + 12) (word_of_nat n) isz (main_rx_descs split p n) (main_rx_bufs split p n isz) (s\<lparr>mem := m1\<rparr>) =
       Some (ESP_OK, s\<lparr>mem := m\<rparr>)"
    "esp_amp_queue_create c p txf priv True (s\<lparr>mem := m\<rparr>) = Some (ESP_OK, vq0, s\<lparr>mem := m\<rparr>)"
    "esp_amp_queue_create c (p + 12) rxf priv False (s\<lparr>mem := m\<rparr>) = Some (ESP_OK, vq1, s\<lparr>mem := m\<rparr>)"
    "fresh_handle n (main_tx_descs split p r) isz txf priv True vq0" "fresh_handle n (main_rx_descs split p n) isz rxf priv False vq1"
    "link_home split n isz p r m" "pool_ok c SYS_INFO_CAP_HP m H"
proof -
  let ?td = "main_tx_descs split p r" and ?rd = "main_rx_descs split p n"
  have four: "apart [span p 12, span (p + 12) 12, ring ?td n, ring ?rd n]" using ap by (simp add: rpmsg_parts_def)
  have big: "24 + 8 * n \<le> unat sz" "\<not> split \<Longrightarrow> 24 + 16 * n \<le> unat sz" using sz(1) by (simp_all add: rpmsg_hp_bytes_def)
  have conf: "span p 12 \<subseteq> span p (unat sz)" "span (p + 12) 12 \<subseteq> span p (unat sz)" using big(1) by (intro span_sub; simp)+
  have "ring (p + word_of_nat k) n \<subseteq> span p (unat sz)" if "k + 8 * n \<le> unat sz" for k
    unfolding ring_def using that unat_lt_16 [of sz] by (intro part_of_block) linarith+
  from this [of 24] this [of "24 + 8 * n"] big
  have rx: "ring ?rd n \<subseteq> span p (unat sz)" and tx: "\<not> split \<Longrightarrow> ring ?td n \<subseteq> span p (unat sz)"
    by (auto simp: main_rx_descs_def main_tx_descs_def)
  have W: "(span p 12 \<union> span (p + 12) 12 \<union> ring ?td n \<union> ring ?rd n) \<inter> pool_area c SYS_INFO_CAP_HP \<subseteq> span (buf_addr c SYS_INFO_CAP_HP i H) (unat sz)"
    using conf rx tx rtc p by (cases split) (auto simp: main_tx_descs_def)
  show thesis
    by (rule two_queues_made [OF npm n four, of isz "main_tx_bufs split p n" s "main_rx_bufs split p n isz" txf priv rxf], rule that)
      (use pool_ok_writes [OF ok look W] in \<open>simp_all add: link_home_def\<close>)
qed

text \<open>What maincore leaves behind.\<close>

definition link_made ::
    "bool \<Rightarrow> nat \<Rightarrow> u16 \<Rightarrow> ptr \<Rightarrow> ptr \<Rightarrow> 'f option \<Rightarrow> 'f option \<Rightarrow> ptr \<Rightarrow> ('f, 'e) rpmsg_dev \<Rightarrow> memory \<Rightarrow> bool" where
  "link_made split n isz p r txf rxf priv dev m \<longleftrightarrow> link_home split n isz p r m \<and> apart (rpmsg_parts split p r n isz) \<and>
     ept_list dev = NULL \<and> fresh_handle n (main_tx_descs split p r) isz txf priv True (tx_queue dev) \<and>
     fresh_handle n (main_rx_descs split p n) isz rxf priv False (rx_queue dev)"

lemma main_link_joint:
  assumes hpool: "pool_ok c SYS_INFO_CAP_HP (mem s) bs" "i \<notin> fst ` set bs" and pm: "\<not> AUTO_LIGHT_SLEEP_SUPPORT c" "\<not> pm_active c"
    and len: "len' = get_power_len clz len" "n = unat len'" "ring_size n"
    and isz: "isz = get_aligned_size item" "isz \<noteq> 0" and bytes: "bytes = rpmsg_hp_bytes False n isz" "bytes < 65536"
    and fits: "block_fits c SYS_INFO_CAP_HP bs (word_of_nat bytes)" and p: "p = buf_after c SYS_INFO_CAP_HP bs"
    and fs: "txf = (if notify then Some tx else None)" "rxf = (if poll then None else Some rx)"
  shows "\<exists>dev' m. esp_amp_rpmsg_main_init_by_id clz tx rx c pd len item notify poll i dev s = Some (0, dev', s\<lparr>mem := m\<rparr>) \<and>
    link_made False n isz p r txf rxf pd dev' m \<and> pool_ok c SYS_INFO_CAP_HP m (bs @ [(i, word_of_nat bytes)]) \<and>
    p = buf_addr c SYS_INFO_CAP_HP i (bs @ [(i, word_of_nat bytes)]) \<and> p \<noteq> NULL"
proof -
  let ?hp = SYS_INFO_CAP_HP and ?sz = "word_of_nat bytes :: u16"
  let ?H = "bs @ [(i, ?sz)]"
  have nb: "0 < n" "n \<le> 32768" using ring_size_bounds [OF len(3)] by simp_all
  have sz: "unat ?sz = rpmsg_hp_bytes False n isz" using bytes unat_of_nat16 by simp
  obtain s1 where a: "esp_amp_sys_info_alloc c i ?sz ?hp s = Some (p, s1)" and ok1: "pool_ok c ?hp (mem s1) ?H"
    and pa: "p = buf_addr c ?hp i ?H" and nn: "p \<noteq> NULL" and top: "unat p + unat ?sz < 4294967296"
    and look: "map_of ?H i = Some ?sz" and s1: "\<forall>m. s1\<lparr>mem := m\<rparr> = s\<lparr>mem := m\<rparr>"
    by (rule block_placed [OF hpool fits p])
  have ap: "apart (rpmsg_parts False p r n isz)" using rpmsg_parts_apart [of p False n isz r] top sz by simp
  obtain m1 m vq0 vq1 where set_up:
    "esp_amp_queue_init_buffer c p (word_of_nat n) isz (main_tx_descs False p r) (main_tx_bufs False p n) s1 = Some (ESP_OK, s1\<lparr>mem := m1\<rparr>)"
    "esp_amp_queue_init_buffer c (p + 12) (word_of_nat n) isz (main_rx_descs False p n) (main_rx_bufs False p n isz) (s1\<lparr>mem := m1\<rparr>) =
       Some (ESP_OK, s1\<lparr>mem := m\<rparr>)"
    "esp_amp_queue_create c p txf pd True (s1\<lparr>mem := m\<rparr>) = Some (ESP_OK, vq0, s1\<lparr>mem := m\<rparr>)"
    "esp_amp_queue_create c (p + 12) rxf pd False (s1\<lparr>mem := m\<rparr>) = Some (ESP_OK, vq1, s1\<lparr>mem := m\<rparr>)"
    and made: "fresh_handle n (main_tx_descs False p r) isz txf pd True vq0" "fresh_handle n (main_rx_descs False p n) isz rxf pd False vq1"
      "link_home False n isz p r m" "pool_ok c ?hp m ?H"
    by (rule link_set_up [OF pm(2) nb(2) ap ok1 look pa sz, of txf pd rxf]) (use nb in simp_all)
  have addr: "main_tx_descs False p r = p + 12 + 12" "main_rx_descs False p n = p + 12 + 12 + 8 * ucast len'"
    "main_tx_bufs False p n = p + 12 + 12 + 8 * ucast len' + 8 * ucast len'"
    "main_rx_bufs False p n isz = p + 12 + 12 + 8 * ucast len' + 8 * ucast len' + ucast isz * ucast len'"
    by (simp_all add: main_tx_descs_def main_rx_descs_def main_tx_bufs_def main_rx_bufs_def len(2) algebra_simps)
  have "word_of_nat n = len'" "len' \<noteq> 0" using len(2) nb(1) by auto
  then have "esp_amp_rpmsg_main_init_by_id clz tx rx c pd len item notify poll i dev s = Some (0, rpmsg_dev_init vq0 vq1 dev, s\<lparr>mem := m\<rparr>)"
    using isz(2) a nn set_up [unfolded addr] pm(1) s1 rpmsg_bytes(2) [of False len' isz] bytes
    by (simp add: esp_amp_rpmsg_main_init_by_id_def Let_def len(1) [symmetric] len(2) isz(1) [symmetric] fs [symmetric]
        sizeof_queue_conf_def sizeof_queue_desc_def)
  moreover have "link_made False n isz p r txf rxf pd (rpmsg_dev_init vq0 vq1 dev) m"
    using made ap by (simp add: link_made_def rpmsg_dev_init_def)
  ultimately show ?thesis using made(4) pa nn by blast
qed

lemma main_link_split:
  assumes hpool: "pool_ok c SYS_INFO_CAP_HP (mem s) bs" "i \<notin> fst ` set bs"
    and rpool: "pool_ok c SYS_INFO_CAP_RTC (mem s) rs" "i \<notin> fst ` set rs" and map: "mem_map_ok c"
    and pm: "AUTO_LIGHT_SLEEP_SUPPORT c" "\<not> pm_active c"
    and len: "len' = get_power_len clz len" "n = unat len'" "ring_size n"
    and isz: "isz = get_aligned_size item" "isz \<noteq> 0" and bytes: "bytes = rpmsg_hp_bytes True n isz" "bytes < 65536"
    and fits: "block_fits c SYS_INFO_CAP_HP bs (word_of_nat bytes)" "block_fits c SYS_INFO_CAP_RTC rs (word_of_nat (8 * n))"
    and p: "p = buf_after c SYS_INFO_CAP_HP bs" and r: "r = buf_after c SYS_INFO_CAP_RTC rs"
    and fs: "txf = (if notify then Some tx else None)" "rxf = (if poll then None else Some rx)"
  shows "\<exists>dev' m. esp_amp_rpmsg_main_init_by_id clz tx rx c pd len item notify poll i dev s = Some (0, dev', s\<lparr>mem := m\<rparr>) \<and>
    link_made True n isz p r txf rxf pd dev' m \<and> pool_ok c SYS_INFO_CAP_HP m (bs @ [(i, word_of_nat bytes)]) \<and>
    p = buf_addr c SYS_INFO_CAP_HP i (bs @ [(i, word_of_nat bytes)]) \<and> p \<noteq> NULL"
proof -
  let ?hp = SYS_INFO_CAP_HP and ?rtc = SYS_INFO_CAP_RTC
  let ?sz = "word_of_nat bytes :: u16" and ?rz = "word_of_nat (8 * n) :: u16"
  let ?H = "bs @ [(i, ?sz)]"
  have nb: "0 < n" "n \<le> 32768" using ring_size_bounds [OF len(3)] by simp_all
  have n8: "8 * n < 65536" using bytes by (simp add: rpmsg_hp_bytes_def)
  have sz: "unat ?sz = rpmsg_hp_bytes True n isz" "unat ?rz = 8 * n"
    using bytes unat_of_nat16 [of bytes] unat_of_nat16 [OF n8] by simp_all
  obtain s1 s2 where a: "esp_amp_sys_info_alloc c i ?sz ?hp s = Some (p, s1)" "esp_amp_sys_info_alloc c i ?rz ?rtc s1 = Some (r, s2)"
    and ok2: "pool_ok c ?hp (mem s2) ?H" and pa: "p = buf_addr c ?hp i ?H" and nn: "p \<noteq> NULL" "r \<noteq> NULL"
    and top: "unat p + unat ?sz < 4294967296" and look: "map_of ?H i = Some ?sz"
    and area: "span p (unat ?sz) \<subseteq> pool_area c ?hp" "span r (unat ?rz) \<inter> pool_area c ?hp = {}"
    and s2: "\<forall>m. s2\<lparr>mem := m\<rparr> = s\<lparr>mem := m\<rparr>"
    by (rule two_blocks_placed [OF hpool fits(1) rpool fits(2) map p r])
  have out: "ring r n \<inter> pool_area c ?hp = {}" using area(2) sz(2) by (simp add: ring_def)
  then have ap: "apart (rpmsg_parts True p r n isz)" using area(1) top sz(1) by (intro rpmsg_parts_apart) auto
  obtain m1 m vq0 vq1 where set_up:
    "esp_amp_queue_init_buffer c p (word_of_nat n) isz (main_tx_descs True p r) (main_tx_bufs True p n) s2 = Some (ESP_OK, s2\<lparr>mem := m1\<rparr>)"
    "esp_amp_queue_init_buffer c (p + 12) (word_of_nat n) isz (main_rx_descs True p n) (main_rx_bufs True p n isz) (s2\<lparr>mem := m1\<rparr>) =
       Some (ESP_OK, s2\<lparr>mem := m\<rparr>)"
    "esp_amp_queue_create c p txf pd True (s2\<lparr>mem := m\<rparr>) = Some (ESP_OK, vq0, s2\<lparr>mem := m\<rparr>)"
    "esp_amp_queue_create c (p + 12) rxf pd False (s2\<lparr>mem := m\<rparr>) = Some (ESP_OK, vq1, s2\<lparr>mem := m\<rparr>)"
    and made: "fresh_handle n (main_tx_descs True p r) isz txf pd True vq0" "fresh_handle n (main_rx_descs True p n) isz rxf pd False vq1"
      "link_home True n isz p r m" "pool_ok c ?hp m ?H"
    by (rule link_set_up [OF pm(2) nb(2) ap ok2 look pa sz(1), of txf pd rxf]) (use nb out in simp_all)
  have addr: "main_tx_descs True p r = r" "main_rx_descs True p n = p + 12 + 12"
    "main_tx_bufs True p n = p + 12 + 12 + 8 * ucast len'"
    "main_rx_bufs True p n isz = p + 12 + 12 + 8 * ucast len' + ucast isz * ucast len'"
    by (simp_all add: main_tx_descs_def main_rx_descs_def main_tx_bufs_def main_rx_bufs_def len(2) algebra_simps)
  have "word_of_nat n = len'" "len' \<noteq> 0" using len(2) nb(1) by auto
  then have "esp_amp_rpmsg_main_init_by_id clz tx rx c pd len item notify poll i dev s = Some (0, rpmsg_dev_init vq0 vq1 dev, s\<lparr>mem := m\<rparr>)"
    using isz(2) a nn set_up [unfolded addr] pm(1) s2 rpmsg_bytes(1) [of True len' isz] bytes size_cut [OF n8]
    by (simp add: esp_amp_rpmsg_main_init_by_id_def Let_def len(1) [symmetric] len(2) isz(1) [symmetric] fs [symmetric]
        sizeof_queue_conf_def sizeof_queue_desc_def)
  moreover have "link_made True n isz p r txf rxf pd (rpmsg_dev_init vq0 vq1 dev) m"
    using made ap by (simp add: link_made_def rpmsg_dev_init_def)
  ultimately show ?thesis using made(4) pa nn by blast
qed

subsection \<open>Subcore attaches to both queues\<close>

text \<open>The light sleep counter is incremented twice while subcore creates its handles.\<close>

definition pm_room :: "'z config \<Rightarrow> ptr set \<Rightarrow> 'z core_scheme \<Rightarrow> bool" where
  "pm_room c A s \<longleftrightarrow> (pm_active c \<longrightarrow> lp_access_hp_cnt s \<notin> A \<and> unat (pm_cnt s) < 254)"

lemma unat_minus_one8: "unat (-1 :: u8) = 255"
  by (simp add: unsigned_minus_1_eq_mask mask_eq_exp_minus_1)

lemma pm_room_nested:
  assumes "port_ok c" and "pm_room c A s" and "pm_active c" and "span a n \<subseteq> A"
  shows "pm_ready c a n (PM_SKIP_LIGHT_SLEEP_ENTER c s)"
proof -
  have "lp_access_hp_cnt (PM_SKIP_LIGHT_SLEEP_ENTER c s) = lp_access_hp_cnt s"
    using pm_enter_frame [OF assms(1), of s] by (simp add: pm_frame_def)
  moreover have "unat (pm_cnt s + 1) = unat (pm_cnt s) + 1" "unat (pm_cnt s) < 254"
    using assms(2,3) by (auto simp: pm_room_def unat_word_ariths)
  then have "pm_cnt s + 1 \<noteq> -1" by (auto simp: word_unat_eq_iff unat_minus_one8)
  ultimately show ?thesis using assms pm_enter_cnt [OF assms(1,3), of s] by (auto simp: pm_ready_def pm_room_def)
qed

lemma sub_link_up:
  assumes made: "link_made split n isz p r txf rxf pd dev (mem t)" and pc: "port_ok d"
    and ok: "pool_ok d SYS_INFO_CAP_HP (mem t) bs" "map_of bs i = Some sz" "p = buf_addr d SYS_INFO_CAP_HP i bs" "p \<noteq> NULL" "24 \<le> unat sz"
    and room: "pm_room d (pool_area d SYS_INFO_CAP_HP) t"
    and fs: "txf' = (if notify then Some tx else None)" "rxf' = (if poll then None else Some rx)"
  shows "\<exists>dev2 t'. esp_amp_rpmsg_sub_init_by_id tx rx d pd' notify poll i dev' t = Some (0, dev2, t') \<and> mem t' = mem t \<and>
    ept_list dev2 = NULL \<and> fresh_handle n (main_rx_descs split p n) isz txf' pd' True (tx_queue dev2) \<and>
    fresh_handle n (main_tx_descs split p r) isz rxf' pd' False (rx_queue dev2)"
proof -
  let ?hp = SYS_INFO_CAP_HP and ?t1 = "PM_SKIP_LIGHT_SLEEP_ENTER d t"
  have f1: "pm_frame d t ?t1" by (rule pm_enter_frame [OF pc])
  have ag: "agree (pool_area d ?hp) (mem ?t1) (mem t)" using room by (intro pm_frame_agree [OF f1]) (simp add: pm_room_def)
  have area: "span p (unat sz) \<subseteq> pool_area d ?hp" using buffer_in_area [OF ok(1,2)] ok(3) by simp
  have blk: "span p 12 \<subseteq> span p (unat sz)" "span (p + 12) 12 \<subseteq> span p (unat sz)" using ok(5) by (intro span_sub, simp)+
  have conf: "queue_conf n p (main_tx_descs split p r) isz (mem ?t1)" "queue_conf n (p + 12) (main_rx_descs split p n) isz (mem ?t1)"
    using made queue_conf_cong [OF agree_mono [OF ag], of p] queue_conf_cong [OF agree_mono [OF ag], of "p + 12"] blk area
    by (auto simp: link_made_def link_home_def queue_home_def)
  have get: "esp_amp_sys_info_get d i ?hp ?t1 = Some (p, Some sz)"
    using get_pool_eq [OF pool_ok_elsewhere [OF ok(1) ag], of i] ok(2,3) by simp
  have rdy: "pm_active d \<Longrightarrow> pm_ready d a 12 ?t1" if "span a 12 \<subseteq> span p (unat sz)" for a
    using pm_room_nested [OF pc room] that area by blast
  obtain vq0 t2 where q0: "esp_amp_queue_create d (p + 12) txf' pd' True ?t1 = Some (ESP_OK, vq0, t2)" "mem t2 = mem ?t1"
    "fresh_handle n (main_rx_descs split p n) isz txf' pd' True vq0" "pm_frame d ?t1 t2"
    by (rule create_attach [OF conf(2) pc rdy [OF blk(2)]])
  have lp2: "lp_access_hp_cnt t2 = lp_access_hp_cnt ?t1" using q0(4) by (simp add: pm_frame_def)
  obtain vq1 t3 where q1: "esp_amp_queue_create d p rxf' pd' False t2 = Some (ESP_OK, vq1, t3)" "mem t3 = mem t2"
    "fresh_handle n (main_tx_descs split p r) isz rxf' pd' False vq1" "pm_frame d t2 t3"
    by (rule create_attach [of n p "main_tx_descs split p r" isz t2 d rxf' pd' False])
      (use conf(1) q0(2) pc rdy [OF blk(1)] lp2 in \<open>auto simp: pm_ready_def pm_cnt_def\<close>)
  have "unat (pm_cnt t) < 254 \<Longrightarrow> pm_cnt t \<noteq> -1" by (auto simp: unat_minus_one8)
  then have g: "port_ok d \<and> (pm_active d \<longrightarrow> pm_cnt t \<noteq> -1)" using pc room by (auto simp: pm_room_def)
  obtain t' where ex: "PM_SKIP_LIGHT_SLEEP_EXIT d t3 = Some t'" "agree (- {}) (mem t') (mem t)"
    by (rule pm.bracket [OF g, of "{}" t3]) (use q0(2,4) q1(2,4) f1 in \<open>auto simp: pm_frame_def\<close>)
  have "mem t' = mem t" using ex(2) by (auto simp: agree_def)
  moreover have "esp_amp_rpmsg_sub_init_by_id tx rx d pd' notify poll i dev' t = Some (0, rpmsg_dev_init vq0 vq1 dev', t')"
    using get ok(4) q0(1) q1(1) ex(1) by (simp add: esp_amp_rpmsg_sub_init_by_id_def Let_def fs [symmetric] sizeof_queue_conf_def)
  ultimately show ?thesis using q0(3) q1(3) by (intro exI [of _ "rpmsg_dev_init vq0 vq1 dev'"] exI [of _ t']) (simp add: rpmsg_dev_init_def)
qed

lemma link_refines:
  assumes "link_made split n isz p r txf rxf pd dev m" and "ring_size n"
    and "fresh_handle n (main_rx_descs split p n) isz txf' pd' True q" and "fresh_handle n (main_tx_descs split p r) isz rxf' pd' False q'"
  shows "refines n (main_tx_descs split p r) isz (initial_queue n (main_tx_bufs split p n) isz) (tx_queue dev) q' m"
    and "refines n (main_rx_descs split p n) isz (initial_queue n (main_rx_bufs split p n isz) isz) q (rx_queue dev) m"
  using assms home_refines [OF _ assms(2)] by (auto simp: link_made_def link_home_def)

lemma no_endpoints: "ept_list dev = NULL \<Longrightarrow> ept_rel dev []"
  by (auto simp: ept_rel_def epts_ok_def view_def intro!: exI [of _ "[]"])

subsection \<open>Properties\<close>

text \<open>C5. Setting up RPMsg links the two cores, in both layouts of shared memory: maincore creates two queues
  under one id, and subcore, whatever else its state is, attaches to both with the roles exchanged. Then
  what maincore sends on is what subcore receives from and the other way round: each pair of handles
  refines an empty queue with all buffers free. Configurations, descriptors and buffers of the two queues
  do not overlap, no endpoint is registered, the notification and receive callbacks are installed as asked
  for, and the light sleep macros of the subcore leave memory as it was.\<close>

theorem rpmsg_setup_links:
  fixes dev :: "('f, 'e) rpmsg_dev" and dev' :: "('f, 'e) rpmsg_dev"
  assumes "shm_run c SYS_INFO_CAP_HP s bs" "mem_map_ok c" "IS_MAIN_CORE c" "peers c d" "port_ok d"
    and "clz_spec clz" "2 \<le> unat len" "unat len \<le> 32768"
    and n: "n = unat (get_power_len clz len)" and isz: "isz = get_aligned_size item" "isz \<noteq> 0"
    and "split = AUTO_LIGHT_SLEEP_SUPPORT c" and "p = buf_after c SYS_INFO_CAP_HP bs" and "r = buf_after c SYS_INFO_CAP_RTC rs"
    and bytes: "rpmsg_hp_bytes split n isz < 65536"
    and "i \<notin> fst ` set bs" "block_fits c SYS_INFO_CAP_HP bs (word_of_nat (rpmsg_hp_bytes split n isz))"
    and "split \<longrightarrow> SUBCORE_TYPE_LP_CORE c \<and> shm_run c SYS_INFO_CAP_RTC s rs \<and> i \<notin> fst ` set rs \<and>
      block_fits c SYS_INFO_CAP_RTC rs (word_of_nat (8 * n))"
  shows "\<exists>dev1 s'. esp_amp_rpmsg_main_init_by_id clz tx rx c pd len item notify poll i dev s = Some (0, dev1, s') \<and>
    apart (rpmsg_parts split p r n isz) \<and> ept_rel dev1 [] \<and>
    notify_fc (tx_queue dev1) = (if notify then Some tx else None) \<and> callback_fc (rx_queue dev1) = (if poll then None else Some rx) \<and>
    (\<forall>t. mem t = mem s' \<and> pm_room d (pool_area d SYS_INFO_CAP_HP) t \<longrightarrow>
      (\<exists>dev2 t'. esp_amp_rpmsg_sub_init_by_id tx' rx' d pd' notify' poll' i dev' t = Some (0, dev2, t') \<and> mem t' = mem t \<and>
        ept_rel dev2 [] \<and>
        notify_fc (tx_queue dev2) = (if notify' then Some tx' else None) \<and> callback_fc (rx_queue dev2) = (if poll' then None else Some rx') \<and>
        refines n (main_tx_descs split p r) isz (initial_queue n (main_tx_bufs split p n) isz) (tx_queue dev1) (rx_queue dev2) (mem t') \<and>
        refines n (main_rx_descs split p n) isz (initial_queue n (main_rx_bufs split p n isz) isz) (tx_queue dev2) (rx_queue dev1) (mem t')))"
proof -
  let ?hp = SYS_INFO_CAP_HP and ?sz = "word_of_nat (rpmsg_hp_bytes split n isz) :: u16"
  have ok: "pool_ok c ?hp (mem s) bs"
    using assms(1-3) by (rule shm_run_pool_ok) (simp add: cap_available_def)
  obtain k where "k \<le> 15" "n = 2 ^ k" using get_power_len_bits [OF assms(6-8)] n by metis
  then have rs: "ring_size n" by (auto simp: ring_size_def)
  have npm: "\<not> pm_active c" using assms(3) by (simp add: pm_active_def)
  have "\<exists>dev1 m. esp_amp_rpmsg_main_init_by_id clz tx rx c pd len item notify poll i dev s = Some (0, dev1, s\<lparr>mem := m\<rparr>) \<and>
    link_made split n isz p r (if notify then Some tx else None) (if poll then None else Some rx) pd dev1 m \<and>
    pool_ok c ?hp m (bs @ [(i, ?sz)]) \<and> p = buf_addr c ?hp i (bs @ [(i, ?sz)]) \<and> p \<noteq> NULL"
  proof (cases split)
    case True
    with assms(18) have rok: "pool_ok c SYS_INFO_CAP_RTC (mem s) rs" using shm_run_pool_ok [OF _ assms(2,3)] by (simp add: cap_available_def)
    from main_link_split [OF ok assms(16) rok _ assms(2) _ npm refl n rs isz refl _ _ _ assms(13,14) refl refl, where tx = tx and rx = rx and pd = pd and notify = notify and poll = poll and dev = dev] True assms(12,15,17,18)
    show ?thesis by simp
  next
    case False
    from main_link_joint [OF ok assms(16) _ npm refl n rs isz refl _ _ assms(13) refl refl, where tx = tx and rx = rx and pd = pd and notify = notify and poll = poll and dev = dev] False assms(12,15,17)
    show ?thesis by simp
  qed
  then obtain dev1 m where m: "esp_amp_rpmsg_main_init_by_id clz tx rx c pd len item notify poll i dev s = Some (0, dev1, s\<lparr>mem := m\<rparr>)"
    and made: "link_made split n isz p r (if notify then Some tx else None) (if poll then None else Some rx) pd dev1 m"
    and ok': "pool_ok c ?hp m (bs @ [(i, ?sz)])" and pa: "p = buf_addr c ?hp i (bs @ [(i, ?sz)])" "p \<noteq> NULL" by blast
  have look: "map_of (bs @ [(i, ?sz)]) i = Some ?sz" using assms(16) by (simp add: map_add_def map_of_eq_None_iff [THEN iffD2])
  have big: "24 \<le> unat ?sz" unfolding unat_of_nat16 [OF bytes] by (simp add: rpmsg_hp_bytes_def)
  note pe = peers_pool [OF assms(4)]
  have "\<exists>dev2 t'. esp_amp_rpmsg_sub_init_by_id tx' rx' d pd' notify' poll' i dev' t = Some (0, dev2, t') \<and> mem t' = mem t \<and>
        ept_rel dev2 [] \<and> notify_fc (tx_queue dev2) = (if notify' then Some tx' else None) \<and>
        callback_fc (rx_queue dev2) = (if poll' then None else Some rx') \<and>
        refines n (main_tx_descs split p r) isz (initial_queue n (main_tx_bufs split p n) isz) (tx_queue dev1) (rx_queue dev2) (mem t') \<and>
        refines n (main_rx_descs split p n) isz (initial_queue n (main_rx_bufs split p n isz) isz) (tx_queue dev2) (rx_queue dev1) (mem t')"
    if t: "mem t = m" "pm_room d (pool_area d ?hp) t" for t
  proof -
    have okd: "pool_ok d ?hp (mem t) (bs @ [(i, ?sz)])" "p = buf_addr d ?hp i (bs @ [(i, ?sz)])" using ok' pa(1) pe(3,4) t(1) by simp_all
    have made': "link_made split n isz p r (if notify then Some tx else None) (if poll then None else Some rx) pd dev1 (mem t)" using made t(1) by simp
    from sub_link_up [OF made' assms(5) okd(1) look okd(2) pa(2) big t(2) refl refl,
        where tx = tx' and rx = rx' and pd' = pd' and notify = notify' and poll = poll' and dev' = dev']
    obtain dev2 t' where a: "esp_amp_rpmsg_sub_init_by_id tx' rx' d pd' notify' poll' i dev' t = Some (0, dev2, t')" "mem t' = mem t" "ept_list dev2 = NULL"
      "fresh_handle n (main_rx_descs split p n) isz (if notify' then Some tx' else None) pd' True (tx_queue dev2)"
      "fresh_handle n (main_tx_descs split p r) isz (if poll' then None else Some rx') pd' False (rx_queue dev2)" by blast
    have "notify_fc (tx_queue dev2) = (if notify' then Some tx' else None)" "callback_fc (rx_queue dev2) = (if poll' then None else Some rx')"
      using a(4,5) by (simp_all add: fresh_handle_def)
    moreover note link_refines [OF made' rs a(4,5)]
    ultimately show ?thesis using a(1,2) no_endpoints [OF a(3)] by simp
  qed
  moreover have "notify_fc (tx_queue dev1) = (if notify then Some tx else None)" "callback_fc (rx_queue dev1) = (if poll then None else Some rx)"
    using made by (simp_all add: link_made_def fresh_handle_def)
  moreover have "apart (rpmsg_parts split p r n isz)" "ept_rel dev1 []" using made by (simp_all add: link_made_def no_endpoints)
  ultimately show ?thesis using m by (intro exI [of _ dev1] exI [of _ "s\<lparr>mem := m\<rparr>"]) simp
qed

definition blank_dev :: "(nat, nat) rpmsg_dev" where
  "blank_dev = \<lparr>rx_queue = demo_queue False, tx_queue = demo_queue True, ept_list = NULL,
     ept_mem = \<lambda>_. \<lparr>rx_cb = None, rx_cb_data = NULL, next_ept = NULL, addr = 0\<rparr>\<rparr>"

theorem rpmsg_setup_links_witness:
  "\<exists>dev1 s' dev2 t'. esp_amp_rpmsg_main_init_by_id clzsi2 1 2 (sleep_config True) 0x30 4 32 True False 0xff03 blank_dev
      (snd (esp_amp_sys_info_init (sleep_config True) demo_core)) = Some (0, dev1, s') \<and>
    esp_amp_rpmsg_sub_init_by_id 3 4 (demo_config False) 0x40 False True 0xff03 blank_dev s' = Some (0, dev2, t') \<and>
    refines 4 0x50002810 32 (initial_queue 4 0x4087a5c8 32) (tx_queue dev1) (rx_queue dev2) (mem t') \<and>
    refines 4 0x4087a5a8 32 (initial_queue 4 0x4087a648 32) (tx_queue dev2) (rx_queue dev1) (mem t')"
proof -
  let ?c = "sleep_config True :: unit config" and ?d = "demo_config False :: unit config"
  let ?s = "snd (esp_amp_sys_info_init ?c demo_core)"
  have hyps: "IS_MAIN_CORE ?c" "2 \<le> unat (4 :: u16)" "unat (4 :: u16) \<le> 32768" "True = AUTO_LIGHT_SLEEP_SUPPORT ?c" "(32 :: u16) \<noteq> 0"
    "rpmsg_hp_bytes True 4 32 < 65536" "0xff03 \<notin> fst ` set ([] :: block list)" "peers ?c ?d" "port_ok ?d"
    using sleep_peers(2) [of True] by (simp_all add: rpmsg_hp_bytes_def)
  have size: "4 = unat (get_power_len clzsi2 4)" "32 = get_aligned_size 32"
    using power_len_exact [OF clz_spec_clzsi2, of 4 2] by (simp_all add: get_aligned_size_def Let_def)
  have place: "0x4087a590 = buf_after ?c SYS_INFO_CAP_HP []" "0x50002810 = buf_after ?c SYS_INFO_CAP_RTC []"
    by (simp_all add: buf_after_def)
  have fits: "block_fits ?c SYS_INFO_CAP_HP [] (word_of_nat (rpmsg_hp_bytes True 4 32))"
    by (simp add: block_fits_def stride_def rpmsg_hp_bytes_def)
  have rtc: "True \<longrightarrow> SUBCORE_TYPE_LP_CORE ?c \<and> shm_run ?c SYS_INFO_CAP_RTC ?s [] \<and> 0xff03 \<notin> fst ` set ([] :: block list) \<and>
      block_fits ?c SYS_INFO_CAP_RTC [] (word_of_nat (8 * 4))"
    using shm_run.init [where s = demo_core and c = ?c and cap = SYS_INFO_CAP_RTC] by (simp add: block_fits_def stride_def)
  have adr: "main_tx_descs True 0x4087a590 0x50002810 = 0x50002810" "main_rx_descs True 0x4087a590 4 = 0x4087a5a8"
    "main_tx_bufs True 0x4087a590 4 = 0x4087a5c8" "main_rx_bufs True 0x4087a590 4 32 = 0x4087a648"
    by (simp_all add: main_tx_descs_def main_rx_descs_def main_tx_bufs_def main_rx_bufs_def)
  have room: "pm_room ?d (pool_area ?d SYS_INFO_CAP_HP) t" for t by (simp add: pm_room_def pm_active_def)
  from rpmsg_setup_links [OF shm_run.init [where s = demo_core] sleep_peers(1) hyps(1,8,9) clz_spec_clzsi2 hyps(2,3) size hyps(5,4) place hyps(6,7) fits rtc,
      where tx = 1 and rx = 2 and pd = "0x30" and notify = True and poll = False and dev = blank_dev and tx' = 3 and rx' = 4 and pd' = "0x40"
      and notify' = False and poll' = True and dev' = blank_dev, unfolded adr]
  show ?thesis using room by blast
qed

end
