(* ===== verification/Amp_Rpc_Call.thy ===== *)
theory Amp_Rpc_Call
  imports Amp_Rpc_Link Amp_Rpmsg_Setup
begin

text \<open>
  A complete remote procedure call over both cores: the client executes a command, the RPMsg poll of the
  server's core hands the request to the server, which runs the handler and answers, and the RPMsg poll of
  the client's core hands the response to the client. Between the steps the memory is passed from one core
  to the other.
\<close>

subsection \<open>A link at rest\<close>

text \<open>A queue of RPMsg: slots, ring of descriptors, item size and the buffers that belong to it.\<close>

record wire =
  w_slots :: nat
  w_ring :: ptr
  w_item :: u16
  w_bufs :: "ptr set"

abbreviation wire_ring :: "wire \<Rightarrow> ptr set" where
  "wire_ring w \<equiv> ring (w_ring w) (w_slots w)"

abbreviation item_span :: "wire \<Rightarrow> ptr \<Rightarrow> ptr set" where
  "item_span w b \<equiv> span b (unat (w_item w))"

definition idle :: "wire \<Rightarrow> aqueue \<Rightarrow> 'f esp_amp_queue \<Rightarrow> 'f esp_amp_queue \<Rightarrow> memory \<Rightarrow> bool" where
  "idle w a qm qr m \<longleftrightarrow> refines (w_slots w) (w_ring w) (w_item w) a qm qr m \<and> free_bufs a \<noteq> [] \<and> set (free_bufs a) \<subseteq> w_bufs w \<and>
     msgs a = []"

text \<open>A notification returns and leaves the two queues and the objects of RPC alone.\<close>

definition quiet_notify ::
    "('f \<Rightarrow> ptr \<Rightarrow> 'z core_scheme \<Rightarrow> (int \<times> 'z core_scheme) option) \<Rightarrow> 'f esp_amp_queue \<Rightarrow> wire \<Rightarrow> wire \<Rightarrow> bool" where
  "quiet_notify call q w w' \<longleftrightarrow> (\<forall>f s. notify_fc q = Some f \<longrightarrow> (\<exists>r s'. call f (priv_data q) s = Some (r, s') \<and>
     agree (wire_ring w \<union> wire_ring w' \<union> (\<Union>b \<in> w_bufs w. item_span w b)) (mem s') (mem s) \<and>
     lp_access_hp_cnt s' = lp_access_hp_cnt s \<and> core.more s' = core.more s))"

lemma quiet_notify_facts:
  assumes "quiet_notify call q w w'" and "\<not> pm_active c"
  shows "notify_ok call c (w_ring w) (w_slots w) q" "notify_more call q" "notify_keeps call q (wire_ring w')"
    "b \<in> w_bufs w \<Longrightarrow> A \<subseteq> item_span w b \<Longrightarrow> notify_keeps call q A"
proof -
  show "notify_ok call c (w_ring w) (w_slots w) q"
    using assms unfolding quiet_notify_def notify_ok_def by (meson Un_upper1 agree_mono agree_sym order_trans)
  show "notify_more call q" using assms(1) unfolding quiet_notify_def notify_more_def by (metis Pair_inject option.inject)
  have keep: "notify_keeps call q A" if "A \<subseteq> wire_ring w \<union> wire_ring w' \<union> (\<Union>b \<in> w_bufs w. item_span w b)" for A
    unfolding notify_keeps_def
  proof (intro allI impI)
    fix f s r s' assume "notify_fc q = Some f" "call f (priv_data q) s = Some (r, s')"
    with assms(1) [unfolded quiet_notify_def] agree_mono [OF _ that] show "agree A (mem s') (mem s)" by (metis Pair_inject option.inject)
  qed
  show "notify_keeps call q (wire_ring w')" by (rule keep) auto
  show "b \<in> w_bufs w \<Longrightarrow> A \<subseteq> item_span w b \<Longrightarrow> notify_keeps call q A" by (rule keep) auto
qed

text \<open>The two ends: a running client whose endpoint calls \<open>client_cb\<close>, and a running server whose endpoint
  calls \<open>server_cb\<close>. The RPMsg poll of a core calls endpoint callbacks through \<open>ecall\<close>.\<close>

definition client_up ::
    "('g, 'z) rpc_config \<Rightarrow> ('f, 'e, ('g, 'z) rpc_core_ext) ept_call \<Rightarrow> ('f, 'e, 'g, 'z) rpc_calls \<Rightarrow> ptr \<Rightarrow> u16 \<Rightarrow> u16 \<Rightarrow>
     ('f, 'e, 'g, 'z) rpc_state \<Rightarrow> bool" where
  "client_up c ecall calls client ca sid = (\<lambda>(dev, s). port_ok c \<and> \<not> pm_active c \<and> client \<noteq> NULL \<and> client_running (client_at s client) \<and>
     peer_server_id (client_at s client) = sid \<and>
     (\<exists>v f. ept_rel dev v \<and> map_of v ca = Some (client + offsetof_client_ept, Some f, client) \<and>
        (\<forall>data l src u ds. ecall f data l src u ds = map_option snd (client_cb calls c data l src u ds))))"

definition server_up ::
    "('g, 'z) rpc_config \<Rightarrow> ('f, 'e, ('g, 'z) rpc_core_ext) ept_call \<Rightarrow> ('f, 'e, 'g, 'z) rpc_calls \<Rightarrow> ptr \<Rightarrow> u16 \<Rightarrow>
     ('f, 'e, 'g, 'z) rpc_state \<Rightarrow> bool" where
  "server_up c ecall calls server sid = (\<lambda>(dev, s). port_ok c \<and> \<not> pm_active c \<and> server \<noteq> NULL \<and> server_running (server_at s server) \<and>
     (\<exists>v f x. ept_rel dev v \<and> map_of v sid = Some (x, Some f, server) \<and>
        (\<forall>data l src u ds. ecall f data l src u ds = map_option snd (bm_server_cb calls c data l src u ds))))"

lemma ept_rel_queues [simp]: "ept_rel (dev\<lparr>tx_queue := q\<rparr>) v = ept_rel dev v"
  by (simp add: ept_rel_def epts_ok_def view_def)

lemma ept_rel_addr: "ept_rel dev v \<Longrightarrow> map_of v a = Some (x, cb, p) \<Longrightarrow> addr (ept_mem dev x) = a"
  by (auto simp: ept_rel_def view_def Let_def dest!: map_of_SomeD)

text \<open>Rings, message buffers and the buffers of server and client do not overlap, and none holds the light
  sleep counter of a core that writes it.\<close>

definition call_layout :: "wire \<Rightarrow> wire \<Rightarrow> rpc_server_inst \<Rightarrow> 'g esp_amp_rpc_cmd \<Rightarrow> ptr \<Rightarrow> ptr \<Rightarrow> bool" where
  "call_layout w w' inst cm lpc lps \<longleftrightarrow> (\<forall>b \<in> w_bufs w. \<forall>b' \<in> w_bufs w'.
     (let R = span (req_buf inst) (unat (req_buf_len inst)); W = span (resp_buf inst) (unat (resp_buf_len inst));
          Q = span (req_data cm) (unat (req_len cm)); P = span (resp_data cm) (unat (resp_len cm))
      in b \<noteq> NULL \<and> b + 8 \<noteq> NULL \<and> b' \<noteq> NULL \<and> b' + 8 \<noteq> NULL \<and>
         apart [wire_ring w, wire_ring w', item_span w b, item_span w' b', R, W, P] \<and> Q \<inter> item_span w b = {} \<and>
         lpc \<notin> wire_ring w \<union> wire_ring w' \<union> item_span w b \<union> Q \<union> P \<and>
         lps \<notin> wire_ring w \<union> wire_ring w' \<union> item_span w' b' \<union> R \<union> W))"

subsection \<open>The request\<close>

lemma client_posts:
  fixes s :: "('g, 'z) rpc"
  assumes idl: "idle w a (tx_queue cdev) qr (mem s)" and up: "client_up c ecall calls client ca sid (cdev, s)"
    and qn: "quiet_notify (notify_call calls) (tx_queue cdev) w w'" and cmd: "cmd \<noteq> NULL" "cm = cmd_at s cmd"
    and lay: "call_layout w w' inst cm (lp_access_hp_cnt s) lps" and b': "b' \<in> w_bufs w'"
    and fits: "unat (req_len cm) + 16 \<le> unat (w_item w)"
  obtains b bs q s1 where "free_bufs a = b # bs" "b \<in> w_bufs w"
    "esp_amp_rpc_client_execute_cmd calls c client cmd (cdev, s) = Some (ESP_AMP_RPC_OK, cdev\<lparr>tx_queue := q\<rparr>, s1)"
    "refines (w_slots w) (w_ring w) (w_item w) (a\<lparr>free_bufs := bs, msgs := [(b, w_item w)]\<rparr>) q qr (mem s1)"
    "msg_src_addr (mem s1) b = ca" "msg_dst_addr (mem s1) b = sid"
    "packet_at (mem s1) (b + 8) (pending_id (client_at s client) + 1) (cmd_id cm) ESP_AMP_RPC_STATUS_PENDING
      (load_bytes (mem s) (req_data cm) (unat (req_len cm)))"
    "client_at s1 client = (client_at s client)\<lparr>pending_id := pending_id (client_at s client) + 1, pending_cmd := cmd\<rparr>"
    "cmd_at s1 cmd = cm\<lparr>cmd_status := ESP_AMP_RPC_STATUS_PENDING\<rparr>"
    "lp_access_hp_cnt s1 = lp_access_hp_cnt s" "notify_fc q = notify_fc (tx_queue cdev)" "priv_data q = priv_data (tx_queue cdev)"
    "agree (wire_ring w') (mem s1) (mem s)"
proof -
  obtain b bs where b: "free_bufs a = b # bs" "b \<in> w_bufs w" using idl by (cases "free_bufs a") (auto simp: idle_def)
  have ref: "refines (w_slots w) (w_ring w) (w_item w) a (tx_queue cdev) qr (mem s)" and ms: "msgs a = []" using idl by (simp_all add: idle_def)
  have u: "port_ok c" "\<not> pm_active c" "client \<noteq> NULL" "client_running (client_at s client)" "peer_server_id (client_at s client) = sid"
    using up by (simp_all add: client_up_def)
  have src: "addr (ept_mem cdev (client + offsetof_client_ept)) = ca" using up ept_rel_addr by (fastforce simp: client_up_def)
  let ?n = "16 + unat (req_len cm)"
  have sub: "span b ?n \<subseteq> item_span w b" using fits by (intro span_sub) simp
  have ly: "b \<noteq> NULL" "b + 8 \<noteq> NULL" "wire_ring w' \<inter> wire_ring w = {}" "item_span w b \<inter> wire_ring w = {}" "item_span w b \<inter> wire_ring w' = {}"
    "span (req_data cm) (unat (req_len cm)) \<inter> item_span w b = {}" "lp_access_hp_cnt s \<notin> wire_ring w" "lp_access_hp_cnt s \<notin> wire_ring w'"
    "lp_access_hp_cnt s \<notin> item_span w b" "lp_access_hp_cnt s \<notin> span (req_data cm) (unat (req_len cm))"
    using lay [unfolded call_layout_def, rule_format, OF b(2) b'] by (auto simp: Let_def)
  note qf = quiet_notify_facts [OF qn u(2)]
  have po: "postable (notify_call calls) c (w_ring w) (w_slots w) (w_item w) b (unat (req_len cm) + 8) (req_data cm) (req_len cm) (tx_queue cdev) s"
    unfolding postable_def using u qf(1,2) qf(4) [OF b(2) sub] fits ly sub
    by (auto simp: pm_ready_def buf_apart_def ring_def [symmetric] add.commute [of 16])
  obtain q s1 where ex: "esp_amp_rpc_client_execute_cmd calls c client cmd (cdev, s) = Some (ESP_AMP_RPC_OK, cdev\<lparr>tx_queue := q\<rparr>, s1)"
    "refines (w_slots w) (w_ring w) (w_item w) (a\<lparr>free_bufs := bs, msgs := msgs a @ [(b, w_item w)]\<rparr>) q qr (mem s1)"
    "msg_src_addr (mem s1) b = addr (ept_mem cdev (client + offsetof_client_ept))"
    "msg_dst_addr (mem s1) b = peer_server_id (client_at s client)"
    "packet_at (mem s1) (b + 8) (pending_id (client_at s client) + 1) (cmd_id (cmd_at s cmd)) ESP_AMP_RPC_STATUS_PENDING
      (load_bytes (mem s) (req_data (cmd_at s cmd)) (unat (req_len (cmd_at s cmd))))"
    "client_at s1 = (client_at s)(client := (client_at s client)\<lparr>pending_id := pending_id (client_at s client) + 1, pending_cmd := cmd\<rparr>)"
    "cmd_at s1 = (cmd_at s)(cmd := (cmd_at s cmd)\<lparr>cmd_status := ESP_AMP_RPC_STATUS_PENDING\<rparr>)"
    "lp_access_hp_cnt s1 = lp_access_hp_cnt s" "notify_fc q = notify_fc (tx_queue cdev)" "priv_data q = priv_data (tx_queue cdev)"
    and fr: "\<And>A. A \<inter> wire_ring w = {} \<Longrightarrow> A \<inter> span b (16 + unat (req_len (cmd_at s cmd))) = {} \<Longrightarrow> lp_access_hp_cnt s \<notin> A \<Longrightarrow>
      notify_keeps (notify_call calls) (tx_queue cdev) A \<Longrightarrow> agree A (mem s1) (mem s)"
    by (rule execute_cmd_effect [OF ref b(1) u(3) cmd(1) u(4) po [unfolded cmd(2)]]) (rule that; assumption)
  have "agree (wire_ring w') (mem s1) (mem s)"
    using ly sub qf(3) cmd(2) by (intro fr) auto
  then show thesis using that [OF b ex(1)] ex(2-10) ms src u(5) cmd(2) by simp
qed

subsection \<open>The server's turn\<close>

text \<open>A handler computes \<open>g\<close>: from the bytes of a request it accepts it gives a status and the bytes of the
  response, if they fit into the response buffer.\<close>

definition handler_computes ::
    "('f, 'e, 'g, 'z) rpc_calls \<Rightarrow> 'g \<Rightarrow> rpc_server_inst \<Rightarrow> (u8 list \<Rightarrow> (u16 \<times> u8 list) option) \<Rightarrow> bool" where
  "handler_computes calls f inst g \<longleftrightarrow> (\<forall>cmd dev t cmd' dev' t' st out.
     resp_data cmd = resp_buf inst \<and> resp_len cmd = resp_buf_len inst \<and> handler_call calls f cmd (dev, t) = Some (cmd', dev', t') \<and>
     g (load_bytes (mem t) (req_data cmd) (unat (req_len cmd))) = Some (st, out) \<and> length out \<le> unat (resp_buf_len inst) \<longrightarrow>
     cmd_status cmd' = st \<and> unat (resp_len cmd') = length out \<and> load_bytes (mem t') (resp_buf inst) (length out) = out)"

lemma load_bytes_take: "load_bytes m p (min k n) = take k (load_bytes m p n)"
  by (cases "k \<le> n") (simp_all add: load_bytes_def take_map min_def)

lemma server_turn:
  fixes t :: "('g, 'z) rpc"
  assumes up: "server_up c ecall calls server sid (sdev, t)" and inst: "inst = server_at t server"
    and ref: "refines (w_slots w) (w_ring w) (w_item w) (a\<lparr>free_bufs := bs, msgs := [(b, w_item w)]\<rparr>) qm (rx_queue sdev) (mem t)"
    and idl: "idle w' a' (tx_queue sdev) qr (mem t)" and qn: "quiet_notify (notify_call calls) (tx_queue sdev) w' w"
    and msg: "msg_src_addr (mem t) b = ca" "msg_dst_addr (mem t) b = sid" and pk: "packet_at (mem t) (b + 8) mid cid st0 data"
    and b: "b \<in> w_bufs w" "msgs a = []" and lay: "call_layout w w' inst cm lpc (lp_access_hp_cnt t)"
    and size: "0 < resp_buf_len inst" "16 \<le> unat (w_item w')"
    and h: "services server t cid = Some f" "handlers_ok calls inst" "handler_computes calls f inst g"
    and g: "g (take (unat (req_buf_len inst)) data) = Some (st, out)" "out \<noteq> []" "length out \<le> unat (resp_buf_len inst)"
  obtains b' bs' q q' t1 where "free_bufs a' = b' # bs'" "b' \<in> w_bufs w'"
    "esp_amp_rpmsg_poll ecall c (sdev, t) = Some (0, sdev\<lparr>rx_queue := q, tx_queue := q'\<rparr>, t1)"
    "refines (w_slots w) (w_ring w) (w_item w) (a\<lparr>free_bufs := bs @ [b]\<rparr>) qm q (mem t1)"
    "refines (w_slots w') (w_ring w') (w_item w') (a'\<lparr>free_bufs := bs', msgs := [(b', w_item w')]\<rparr>) q' qr (mem t1)"
    "msg_dst_addr (mem t1) b' = ca" "packet_at (mem t1) (b' + 8) mid cid st (take (unat (w_item w') - 16) out)"
    "core.more t1 = core.more t" "lp_access_hp_cnt t1 = lp_access_hp_cnt t"
    "notify_fc q' = notify_fc (tx_queue sdev)" "priv_data q' = priv_data (tx_queue sdev)"
proof -
  obtain b' bs' where b': "free_bufs a' = b' # bs'" "b' \<in> w_bufs w'" using idl by (cases "free_bufs a'") (auto simp: idle_def)
  have ref': "refines (w_slots w') (w_ring w') (w_item w') a' (tx_queue sdev) qr (mem t)" and ms': "msgs a' = []" using idl by (simp_all add: idle_def)
  have u: "port_ok c" "\<not> pm_active c" "server \<noteq> NULL" "server_running (server_at t server)" using up by (simp_all add: server_up_def)
  obtain v e x where e: "ept_rel sdev v" "map_of v sid = Some (x, Some e, server)"
    "\<And>data l src u ds. ecall e data l src u ds = map_option snd (bm_server_cb calls c data l src u ds)"
    using up by (auto simp: server_up_def)
  have ly: "b + 8 \<noteq> NULL" "b' \<noteq> NULL" "b' + 8 \<noteq> NULL" "lp_access_hp_cnt t \<notin> wire_ring w"
    and sl: "serve_layout inst t (w_ring w) (w_slots w) (w_ring w') (w_slots w') b' (w_item w')"
    and sa: "serve_apart inst (w_ring w) (w_slots w) b' (w_item w')"
    using lay [unfolded call_layout_def, rule_format, OF b(1) b'(2)] size(1)
    by (auto simp: Let_def serve_layout_def serve_apart_def)
  note qf = quiet_notify_facts [OF qn u(2)]
  let ?a = "a\<lparr>free_bufs := bs, msgs := [], held_r := Suc (held_r a)\<rparr>"
  have rdy: "pm_ready c (w_ring w) (8 * w_slots w) t" using ly(4) u(2) by (simp add: pm_ready_def ring_def)
  obtain q l where ref1: "refines (w_slots w) (w_ring w) (w_item w) ?a qm q (mem t)"
    and po: "esp_amp_rpmsg_poll ecall c (sdev, t) = map_option (Pair 0) (ecall e (b + 8) l ca server (sdev\<lparr>rx_queue := q\<rparr>, t))"
    using poll_effect [OF ref u(1) rdy _ message_at_any _ e(1), where ecall = ecall, of b "w_item w" "[]"] msg e(2) u(2) by auto
  let ?dev = "sdev\<lparr>rx_queue := q\<rparr>" and ?k = "min (length data) (unat (req_buf_len inst))"
  let ?cmd = "request_cmd inst cid ?k :: 'g esp_amp_rpc_cmd"
  have "refines (w_slots w) (w_ring w) (w_item w) ?a qm (rx_queue ?dev) (mem t)" "held_r ?a \<noteq> 0"
    "refines (w_slots w') (w_ring w') (w_item w') a' (tx_queue ?dev) qr (mem t)"
    "notify_ok (notify_call calls) c (w_ring w') (w_slots w') (tx_queue ?dev)" "notify_more (notify_call calls) (tx_queue ?dev)"
    "notify_keeps (notify_call calls) (tx_queue ?dev) (item_span w' b')"
    using ref1 ref' qf(1,2) qf(4) [OF b'(2) subset_refl] by simp_all
  from serve_effect [OF u(1,2) h(2) this(1-3) b'(1) size(2) ly(2,3) this(4-6) pk inst sl refl, of ca, unfolded h(1) option.case]
  obtain q2 t0 cmd' q' t' t1 where lb: "load_bytes (mem t0) (req_buf inst) ?k = take ?k data"
    and hc: "handler_call calls f (request_cmd inst cid ?k) (?dev\<lparr>rx_queue := q2\<rparr>, t0) = Some (cmd', ?dev\<lparr>rx_queue := q2\<rparr>, t')"
    and ex: "exec_cmd_and_send calls c server (b + 8) ca (?dev, t) = Some (?dev\<lparr>rx_queue := q2, tx_queue := q'\<rparr>, t1)"
    and keep: "core.more t1 = core.more t" "lp_access_hp_cnt t1 = lp_access_hp_cnt t"
      "notify_fc q' = notify_fc (tx_queue ?dev)" "priv_data q' = priv_data (tx_queue ?dev)"
    and rq: "serve_apart inst (w_ring w) (w_slots w) b' (w_item w') \<and> notify_keeps (notify_call calls) (tx_queue ?dev) (wire_ring w) \<longrightarrow>
      refines (w_slots w) (w_ring w) (w_item w) (?a\<lparr>free_bufs := free_bufs ?a @ [b], held_r := held_r ?a - 1\<rparr>) qm q2 (mem t1)"
    and rs: "if resp_len cmd' = 0 then refines (w_slots w') (w_ring w') (w_item w') a' q' qr (mem t1)
     else refines (w_slots w') (w_ring w') (w_item w') (a'\<lparr>free_bufs := bs', msgs := msgs a' @ [(b', w_item w')]\<rparr>) q' qr (mem t1) \<and>
       msg_dst_addr (mem t1) b' = ca \<and>
       packet_at (mem t1) (b' + 8) mid cid (cmd_status cmd')
         (load_bytes (mem t') (resp_buf inst) (min (unat (resp_len cmd')) (unat (w_item w') - 16)))"
    by (elim exE conjE) (rule that; assumption)
  have k16: "?k < 65536" using unat_lt_16 [of "req_buf_len inst"] by linarith
  have "load_bytes (mem t0) (req_buf inst) ?k = take (unat (req_buf_len inst)) data" using lb by (simp add: min_def)
  then have "resp_data ?cmd = resp_buf inst \<and> resp_len ?cmd = resp_buf_len inst \<and>
      handler_call calls f ?cmd (?dev\<lparr>rx_queue := q2\<rparr>, t0) = Some (cmd', ?dev\<lparr>rx_queue := q2\<rparr>, t') \<and>
      g (load_bytes (mem t0) (req_data ?cmd) (unat (req_len ?cmd))) = Some (st, out) \<and> length out \<le> unat (resp_buf_len inst)"
    using hc g(1,3) unat_of_nat16 [OF k16] by (simp add: request_cmd_def)
  from h(3) [unfolded handler_computes_def, rule_format, OF this]
  have c': "cmd_status cmd' = st" "unat (resp_len cmd') = length out" "load_bytes (mem t') (resp_buf inst) (length out) = out" by simp_all
  then have "resp_len cmd' \<noteq> 0" using g(2) by auto
  moreover have "load_bytes (mem t') (resp_buf inst) (min (unat (resp_len cmd')) (unat (w_item w') - 16)) = take (unat (w_item w') - 16) out"
    using c'(2,3) load_bytes_take [of "mem t'" "resp_buf inst" "unat (w_item w') - 16" "length out"] by (simp add: min.commute)
  moreover have "esp_amp_rpmsg_poll ecall c (sdev, t) = Some (0, sdev\<lparr>rx_queue := q2, tx_queue := q'\<rparr>, t1)"
    using po ex u(3,4) ly(1) by (simp add: e(3) bm_server_cb_def)
  moreover have "?a\<lparr>free_bufs := free_bufs ?a @ [b], held_r := held_r ?a - 1\<rparr> = a\<lparr>free_bufs := bs @ [b]\<rparr>" using b(2) by simp
  moreover have "refines (w_slots w) (w_ring w) (w_item w) (?a\<lparr>free_bufs := free_bufs ?a @ [b], held_r := held_r ?a - 1\<rparr>) qm q2 (mem t1)"
    using rq sa qf(3) by simp
  ultimately show thesis using that [OF b', of q' q2 t1] keep rs c'(1) ms' by simp
qed

subsection \<open>The client's turn\<close>

text \<open>What the callback of the application promises: it returns, and leaves memory and the objects of RPC
  and RPMsg alone.\<close>

definition app_cb_quiet :: "('f, 'e, 'g, 'z) rpc_calls \<Rightarrow> bool" where
  "app_cb_quiet calls \<longleftrightarrow> (\<forall>f client cmd arg dev s. \<exists>s'. app_cb_call calls f client cmd arg (dev, s) = Some (dev, s') \<and>
     mem s' = mem s \<and> lp_access_hp_cnt s' = lp_access_hp_cnt s \<and> client_at s' = client_at s \<and> cmd_at s' = cmd_at s)"

lemma client_turn:
  fixes s :: "('g, 'z) rpc"
  assumes up: "client_up c ecall calls client ca sid (cdev, s)" and app: "app_cb_quiet calls"
    and ref: "refines (w_slots w) (w_ring w) (w_item w) a (tx_queue cdev) qr (mem s)"
    and ref': "refines (w_slots w') (w_ring w') (w_item w') (a'\<lparr>free_bufs := bs', msgs := [(b', w_item w')]\<rparr>) qm (rx_queue cdev) (mem s)"
    and msg: "msg_dst_addr (mem s) b' = ca" and pk: "packet_at (mem s) (b' + 8) (pending_id (client_at s client)) cid st data"
    and cmd: "cmd \<noteq> NULL" "pending_cmd (client_at s client) = cmd" "cm = cmd_at s cmd" "msgs a' = []"
    and lay: "call_layout w w' inst cm (lp_access_hp_cnt s) lps" and b: "b \<in> w_bufs w" "b' \<in> w_bufs w'"
    and k: "k = (if resp_data cm = NULL then 0 else min (length data) (unat (resp_len cm)))"
  obtains q s1 where "esp_amp_rpmsg_poll ecall c (cdev, s) = Some (0, cdev\<lparr>rx_queue := q\<rparr>, s1)"
    "refines (w_slots w) (w_ring w) (w_item w) a (tx_queue cdev) qr (mem s1)"
    "refines (w_slots w') (w_ring w') (w_item w') (a'\<lparr>free_bufs := bs' @ [b']\<rparr>) qm q (mem s1)"
    "cmd_at s1 cmd = cm\<lparr>cmd_status := st\<rparr>" "load_bytes (mem s1) (resp_data cm) k = take k data"
    "client_at s1 = client_at s" "lp_access_hp_cnt s1 = lp_access_hp_cnt s"
proof -
  have u: "port_ok c" "\<not> pm_active c" "client \<noteq> NULL" "client_running (client_at s client)" using up by (simp_all add: client_up_def)
  obtain v e where e: "ept_rel cdev v" "map_of v ca = Some (client + offsetof_client_ept, Some e, client)"
    "\<And>data l src u ds. ecall e data l src u ds = map_option snd (client_cb calls c data l src u ds)"
    using up by (auto simp: client_up_def)
  let ?P = "span (resp_data cm) k" and ?a = "a'\<lparr>free_bufs := bs', msgs := [], held_r := Suc (held_r a')\<rparr>"
  have "?P \<subseteq> span (resp_data cm) (unat (resp_len cm))" using k by (intro span_sub) auto
  then have ly: "b' + 8 \<noteq> NULL" "lp_access_hp_cnt s \<notin> wire_ring w'" "lp_access_hp_cnt s \<notin> wire_ring w" "wire_ring w \<inter> wire_ring w' = {}"
    "?P \<inter> wire_ring w = {}" "?P \<inter> wire_ring w' = {}" "lp_access_hp_cnt s \<notin> ?P"
    using lay [unfolded call_layout_def, rule_format, OF b] by (auto simp: Let_def)
  have rdy: "pm_ready c (w_ring w') (8 * w_slots w') s" using ly(2) u(2) by (simp add: pm_ready_def ring_def)
  obtain q l src where ref1: "refines (w_slots w') (w_ring w') (w_item w') ?a qm q (mem s)"
    and po: "esp_amp_rpmsg_poll ecall c (cdev, s) = map_option (Pair 0) (ecall e (b' + 8) l src client (cdev\<lparr>rx_queue := q\<rparr>, s))"
    using poll_effect [OF ref' u(1) rdy _ message_at_any _ e(1), where ecall = ecall, of b' "w_item w'" "[]"] msg e(2) u(2) by auto
  let ?dev = "cdev\<lparr>rx_queue := q\<rparr>"
  from client_cb_effect [OF u(3,4) ly(1) pk refl refl k [unfolded cmd(3) cmd(2) [symmetric]], of calls c l src ?dev] cmd(1)
  obtain s2 where cb: "client_cb calls c (b' + 8) l src client (?dev, s) = do {
        (dev1, s1) \<leftarrow> (if cmd_cb cm \<noteq> None then app_cb_call calls (the (cmd_cb cm)) client cmd (cb_arg cm) (?dev, s2) else Some (?dev, s2));
        (_, ds) \<leftarrow> esp_amp_rpmsg_destroy c (b' + 8) dev1 s1;
        Some (ESP_AMP_RPC_OK, ds) }"
    and s2: "cmd_at s2 = (cmd_at s)(cmd := cm\<lparr>cmd_status := st\<rparr>)" "client_at s2 = client_at s" "load_bytes (mem s2) (resp_data cm) k = take k data"
      "agree (- ?P) (mem s2) (mem s)" "lp_access_hp_cnt s2 = lp_access_hp_cnt s"
    unfolding cmd(2) cmd(3) [symmetric] by auto
  obtain s3 where ap: "(if cmd_cb cm \<noteq> None then app_cb_call calls (the (cmd_cb cm)) client cmd (cb_arg cm) (?dev, s2) else Some (?dev, s2)) = Some (?dev, s3)"
    and s3: "mem s3 = mem s2" "lp_access_hp_cnt s3 = lp_access_hp_cnt s" "client_at s3 = client_at s2" "cmd_at s3 = cmd_at s2"
    using app [unfolded app_cb_quiet_def, rule_format, of "the (cmd_cb cm)" client cmd "cb_arg cm" ?dev s2] s2(5) by (cases "cmd_cb cm") auto
  have keep: "agree (wire_ring w) (mem s) (mem s3)" "agree (wire_ring w') (mem s) (mem s3)"
    using ly(5,6) s3(1) by (auto intro!: agree_mono [OF agree_sym [OF s2(4)]])
  have "refines (w_slots w') (w_ring w') (w_item w') ?a qm (rx_queue ?dev) (mem s3)" "pm_held c (w_ring w') (w_slots w') s3" "held_r ?a \<noteq> 0"
    using refines_cong [OF ref1 keep(2)] ly(2) s3(2) u(2) by (simp_all add: pm_held_def)
  then obtain q' s4 where de: "esp_amp_rpmsg_destroy c (b' + 8) ?dev s3 = Some (ESP_OK, ?dev\<lparr>rx_queue := q'\<rparr>, s4)"
    and r4: "refines (w_slots w') (w_ring w') (w_item w') (?a\<lparr>free_bufs := free_bufs ?a @ [b'], held_r := held_r ?a - 1\<rparr>) qm q' (mem s4)"
    and f4: "agree (- insert (lp_access_hp_cnt s3) (wire_ring w')) (mem s4) (mem s3)" "core.more s4 = core.more s3" "lp_access_hp_cnt s4 = lp_access_hp_cnt s3"
    by (rule destroy_effect [OF _ u(1)])
  have "refines (w_slots w) (w_ring w) (w_item w) a (tx_queue cdev) qr (mem s4)"
    using ly(3,4) s3(2) by (intro refines_cong [OF refines_cong [OF ref keep(1)]] agree_mono [OF agree_sym [OF f4(1)]]) auto
  moreover have "?a\<lparr>free_bufs := free_bufs ?a @ [b'], held_r := held_r ?a - 1\<rparr> = a'\<lparr>free_bufs := bs' @ [b']\<rparr>" using cmd(4) by simp
  moreover have "esp_amp_rpmsg_poll ecall c (cdev, s) = Some (0, cdev\<lparr>rx_queue := q'\<rparr>, s4)" using po cb ap de by (simp add: e(3))
  moreover have "client_at s4 = client_at s" "cmd_at s4 cmd = cm\<lparr>cmd_status := st\<rparr>" "lp_access_hp_cnt s4 = lp_access_hp_cnt s"
    using rpc_more_fields [OF f4(2)] f4(3) s3 s2 by simp_all
  moreover have "load_bytes (mem s4) (resp_data cm) k = take k data"
  proof -
    have "load_bytes (mem s4) (resp_data cm) k = load_bytes (mem s3) (resp_data cm) k"
      using ly(6,7) s3(2) k unat_le_32 [of "resp_len cm"] by (intro load_bytes_cong agree_mono [OF f4(1)]) auto
    then show ?thesis using s3(1) s2(3) by simp
  qed
  ultimately show thesis using that r4 by simp
qed

subsection \<open>The services of the example\<close>

text \<open>
  src/examples/rpc: the server adds two numbers and prints a string. Integers are those of the machine, the
  addition wraps around. What is printed on the console is a result of its own; a write past the end of
  an array is \<open>None\<close>.
\<close>

definition RPC_CMD_ID_ADD :: u16 where "RPC_CMD_ID_ADD = 0"
definition ESP_AMP_RPC_STATUS_OK :: u16 where "ESP_AMP_RPC_STATUS_OK = 0"

definition add :: "u32 \<Rightarrow> u32 \<Rightarrow> u32" where
  "add a b = a + b"

definition rpc_cmd_handler_add :: "'g esp_amp_rpc_cmd \<Rightarrow> 'z core_scheme \<Rightarrow> 'g esp_amp_rpc_cmd \<times> 'z core_scheme" where
  "rpc_cmd_handler_add cmd t =
     (let params_in = req_data cmd;
          c = add (load32 (mem t) params_in) (load32 (mem t) (params_in + 4));
          t1 = t\<lparr>mem := store32 (mem t) (resp_data cmd) c\<rparr>
      in (cmd\<lparr>resp_len := 4, cmd_status := ESP_AMP_RPC_STATUS_OK\<rparr>, t1))"

text \<open>\<open>prints\<close> terminates the string in a buffer of 100 characters and prints it.\<close>

definition prints :: "u8 list \<Rightarrow> u32 \<Rightarrow> u8 list option" where
  "prints buf len = (if unat len < length buf then Some (takeWhile (\<lambda>x. x \<noteq> 0) (take (unat len) buf)) else None)"

definition rpc_cmd_handler_printf ::
    "u8 list \<Rightarrow> 'g esp_amp_rpc_cmd \<Rightarrow> 'z core_scheme \<Rightarrow> (u8 list \<times> 'g esp_amp_rpc_cmd \<times> 'z core_scheme) option" where
  "rpc_cmd_handler_printf stack cmd t = do {
     let params_in = req_data cmd;
     let len = load32 (mem t) params_in;
     let len = (if len > 100 then 100 else len);
     let buf = load_bytes (mem t) (params_in + 4) (unat len) @ drop (unat len) (take 100 stack);
     text \<leftarrow> prints buf len;
     Some (text, cmd\<lparr>resp_len := 0, cmd_status := ESP_AMP_RPC_STATUS_OK\<rparr>, t)
   }"

text \<open>The printing service fails for every string of 100 characters or more: the bound it checks leaves no
  room for the terminator.\<close>

theorem demo_printf_overrun:
  assumes "length stack = 100"
  shows "(rpc_cmd_handler_printf stack cmd t = None) = (100 \<le> unat (load32 (mem t) (req_data cmd)))"
  using assms by (auto simp: rpc_cmd_handler_printf_def prints_def Let_def word_less_nat_alt)

text \<open>What the adding service computes from the eight bytes of its parameters.\<close>

definition word32 :: "u8 list \<Rightarrow> u32" where
  "word32 xs = word_cat (word_cat (xs ! 3) (xs ! 2) :: u16) (word_cat (xs ! 1) (xs ! 0) :: u16)"

definition bytes32 :: "u32 \<Rightarrow> u8 list" where
  "bytes32 v = (let lo = ucast v :: u16; hi = ucast (drop_bit 16 v) :: u16
     in [ucast lo, ucast (drop_bit 8 lo), ucast hi, ucast (drop_bit 8 hi)])"

definition add_result :: "u8 list \<Rightarrow> (u16 \<times> u8 list) option" where
  "add_result xs = (if length xs = 8 then Some (ESP_AMP_RPC_STATUS_OK, bytes32 (word32 (take 4 xs) + word32 (drop 4 xs))) else None)"

lemma length_bytes32 [simp]: "length (bytes32 v) = 4"
  by (simp add: bytes32_def Let_def)

lemma load_bytes_4: "load_bytes m p 4 = [m p, m (p + 1), m (p + 2), m (p + 3)]"
  by (simp add: load_bytes_def upt_rec numeral_eq_Suc)

lemma load32_word32: "load32 m p = word32 (load_bytes m p 4)"
  by (simp add: load32_def load16_def word32_def load_bytes_4 add.commute)

lemma store32_bytes32: "load_bytes (store32 m p v) p 4 = bytes32 v"
  by (simp add: load_bytes_4 bytes32_def store32_def store16_def Let_def)

lemma load_bytes_8: "load_bytes m p 8 = load_bytes m p 4 @ load_bytes m (p + 4) 4"
  by (simp add: load_bytes_def upt_rec numeral_eq_Suc add.assoc)

lemma add_handler_computes:
  assumes "4 \<le> unat (resp_buf_len inst)"
    and "handler_call calls = (\<lambda>f cmd (dev, t). let (cmd', t') = rpc_cmd_handler_add cmd t in Some (cmd', dev, t'))"
  shows "handlers_ok calls inst" "handler_computes calls f inst add_result"
proof -
  have "span p 4 \<subseteq> span p (unat (resp_buf_len inst))" for p using assms(1) by (intro span_sub) simp
  then have "agree (- span p (unat (resp_buf_len inst))) (store32 m p v) m" for m p v by (intro agree_store32 agree_refl) auto
  then show "handlers_ok calls inst"
    using assms by (simp add: handlers_ok_def rpc_cmd_handler_add_def Let_def word_le_nat_alt)
  show "handler_computes calls f inst add_result"
    unfolding handler_computes_def assms(2)
    by (auto simp: rpc_cmd_handler_add_def Let_def add_def add_result_def load32_word32 load_bytes_8 store32_bytes32 split: if_splits)
qed

subsection \<open>Properties\<close>

text \<open>C16. A remote procedure call returns what the handler computes. On a link at rest, with a client running
  on one core and a bare metal server on the other that has a handler for the command, executing the command,
  then one poll of RPMsg on the server's core and one on the client's core give the command the status and the
  bytes that the handler computes from the request, cut to the buffers they pass through; the callback of the
  application has run; all message buffers are back with their owners, the link is at rest and client and
  server are ready for the next call.\<close>

theorem rpc_call_returns:
  fixes s :: "('g, 'z) rpc" and t :: "('h, 'y) rpc"
  assumes "idle w a (tx_queue cdev) (rx_queue sdev) (mem s)" and "idle w' a' (tx_queue sdev) (rx_queue cdev) (mem s)"
    and "client_up c ecall calls client ca sid (cdev, s)" and "server_up d ecall' calls' server sid (sdev, t)"
    and "quiet_notify (notify_call calls) (tx_queue cdev) w w'" and "quiet_notify (notify_call calls') (tx_queue sdev) w' w"
    and "cmd \<noteq> NULL" and "cm = cmd_at s cmd" and "inst = server_at t server"
    and "call_layout w w' inst cm (lp_access_hp_cnt s) (lp_access_hp_cnt t)"
    and "unat (req_len cm) + 16 \<le> unat (w_item w)" and "16 \<le> unat (w_item w')" and "0 < resp_buf_len inst"
    and "services server t (cmd_id cm) = Some f" and "handlers_ok calls' inst" and "handler_computes calls' f inst g"
    and "app_cb_quiet calls"
    and "g (take (unat (req_buf_len inst)) (load_bytes (mem s) (req_data cm) (unat (req_len cm)))) = Some (st, out)"
    and "out \<noteq> []" and "length out \<le> unat (resp_buf_len inst)"
    and "k = (if resp_data cm = NULL then 0 else min (min (length out) (unat (w_item w') - 16)) (unat (resp_len cm)))"
  shows "\<exists>cdev1 s1 sdev1 t1 cdev2 s2 a1 a1'.
    esp_amp_rpc_client_execute_cmd calls c client cmd (cdev, s) = Some (ESP_AMP_RPC_OK, cdev1, s1) \<and>
    esp_amp_rpmsg_poll ecall' d (sdev, t\<lparr>mem := mem s1\<rparr>) = Some (0, sdev1, t1) \<and>
    esp_amp_rpmsg_poll ecall c (cdev1, s1\<lparr>mem := mem t1\<rparr>) = Some (0, cdev2, s2) \<and>
    cmd_at s2 cmd = cm\<lparr>cmd_status := st\<rparr> \<and> load_bytes (mem s2) (resp_data cm) k = take k out \<and>
    idle w a1 (tx_queue cdev2) (rx_queue sdev1) (mem s2) \<and> set (free_bufs a1) = set (free_bufs a) \<and>
    idle w' a1' (tx_queue sdev1) (rx_queue cdev2) (mem s2) \<and> set (free_bufs a1') = set (free_bufs a') \<and>
    client_up c ecall calls client ca sid (cdev2, s2) \<and> server_up d ecall' calls' server sid (sdev1, t1) \<and>
    quiet_notify (notify_call calls) (tx_queue cdev2) w w' \<and> quiet_notify (notify_call calls') (tx_queue sdev1) w' w \<and>
    lp_access_hp_cnt s2 = lp_access_hp_cnt s \<and> lp_access_hp_cnt t1 = lp_access_hp_cnt t"
proof -
  obtain b0' where b0': "b0' \<in> w_bufs w'" using assms(2) by (cases "free_bufs a'") (auto simp: idle_def)
  obtain b bs q s1 where b: "free_bufs a = b # bs" "b \<in> w_bufs w"
    and ex: "esp_amp_rpc_client_execute_cmd calls c client cmd (cdev, s) = Some (ESP_AMP_RPC_OK, cdev\<lparr>tx_queue := q\<rparr>, s1)"
    and r1: "refines (w_slots w) (w_ring w) (w_item w) (a\<lparr>free_bufs := bs, msgs := [(b, w_item w)]\<rparr>) q (rx_queue sdev) (mem s1)"
    and msg: "msg_src_addr (mem s1) b = ca" "msg_dst_addr (mem s1) b = sid"
      "packet_at (mem s1) (b + 8) (pending_id (client_at s client) + 1) (cmd_id cm) ESP_AMP_RPC_STATUS_PENDING
      (load_bytes (mem s) (req_data cm) (unat (req_len cm)))"
    and s1: "client_at s1 client = (client_at s client)\<lparr>pending_id := pending_id (client_at s client) + 1, pending_cmd := cmd\<rparr>"
      "cmd_at s1 cmd = cm\<lparr>cmd_status := ESP_AMP_RPC_STATUS_PENDING\<rparr>" "lp_access_hp_cnt s1 = lp_access_hp_cnt s"
    and nq: "notify_fc q = notify_fc (tx_queue cdev)" "priv_data q = priv_data (tx_queue cdev)"
    and kept: "agree (wire_ring w') (mem s1) (mem s)"
    by (rule client_posts [OF assms(1,3,5,7,8,10) b0' assms(11)])
  let ?t = "t\<lparr>mem := mem s1\<rparr>"
  have ms: "msgs a = []" "msgs a' = []" using assms(1,2) by (simp_all add: idle_def)
  have st: "server_up d ecall' calls' server sid (sdev, ?t)" "idle w' a' (tx_queue sdev) (rx_queue cdev) (mem ?t)"
    "services server ?t (cmd_id cm) = Some f" "inst = server_at ?t server"
    using assms(2,4,9,14) refines_cong [OF _ agree_sym [OF kept]] by (auto simp: server_up_def idle_def services_def)
  have req: "refines (w_slots w) (w_ring w) (w_item w) (a\<lparr>free_bufs := bs, msgs := [(b, w_item w)]\<rparr>) q (rx_queue sdev) (mem ?t)"
    "msg_src_addr (mem ?t) b = ca" "msg_dst_addr (mem ?t) b = sid"
    "packet_at (mem ?t) (b + 8) (pending_id (client_at s client) + 1) (cmd_id cm) ESP_AMP_RPC_STATUS_PENDING
      (load_bytes (mem s) (req_data cm) (unat (req_len cm)))" "call_layout w w' inst cm (lp_access_hp_cnt s) (lp_access_hp_cnt ?t)"
    using r1 msg assms(10) by simp_all
  obtain b' bs' qs qs' t1 where b': "free_bufs a' = b' # bs'" "b' \<in> w_bufs w'"
    and po: "esp_amp_rpmsg_poll ecall' d (sdev, ?t) = Some (0, sdev\<lparr>rx_queue := qs, tx_queue := qs'\<rparr>, t1)"
    and r2: "refines (w_slots w) (w_ring w) (w_item w) (a\<lparr>free_bufs := bs @ [b]\<rparr>) q qs (mem t1)"
      "refines (w_slots w') (w_ring w') (w_item w') (a'\<lparr>free_bufs := bs', msgs := [(b', w_item w')]\<rparr>) qs' (rx_queue cdev) (mem t1)"
    and msg': "msg_dst_addr (mem t1) b' = ca"
      "packet_at (mem t1) (b' + 8) (pending_id (client_at s client) + 1) (cmd_id cm) st (take (unat (w_item w') - 16) out)"
    and t1: "core.more t1 = core.more ?t" "lp_access_hp_cnt t1 = lp_access_hp_cnt ?t"
    and nq': "notify_fc qs' = notify_fc (tx_queue sdev)" "priv_data qs' = priv_data (tx_queue sdev)"
    by (rule server_turn [OF st(1,4) req(1) st(2) assms(6) req(2-4) b(2) ms(1) req(5) assms(13,12) st(3) assms(15,16,18-20)])
  let ?s = "s1\<lparr>mem := mem t1\<rparr>" and ?dev = "cdev\<lparr>tx_queue := q\<rparr>" and ?cm = "cm\<lparr>cmd_status := ESP_AMP_RPC_STATUS_PENDING\<rparr>"
  have up: "client_up c ecall calls client ca sid (?dev, ?s)" using assms(3) s1(1) by (auto simp: client_up_def)
  have lay: "call_layout w w' inst ?cm (lp_access_hp_cnt ?s) (lp_access_hp_cnt t)" using assms(10) s1(3) by (simp add: call_layout_def)
  have k: "k = (if resp_data ?cm = NULL then 0 else min (length (take (unat (w_item w') - 16) out)) (unat (resp_len ?cm)))"
    using assms(21) by (simp add: min.commute)
  have rsp: "refines (w_slots w) (w_ring w) (w_item w) (a\<lparr>free_bufs := bs @ [b]\<rparr>) (tx_queue ?dev) qs (mem ?s)"
    "refines (w_slots w') (w_ring w') (w_item w') (a'\<lparr>free_bufs := bs', msgs := [(b', w_item w')]\<rparr>) qs' (rx_queue ?dev) (mem ?s)"
    "msg_dst_addr (mem ?s) b' = ca"
    "packet_at (mem ?s) (b' + 8) (pending_id (client_at ?s client)) (cmd_id cm) st (take (unat (w_item w') - 16) out)"
    "pending_cmd (client_at ?s client) = cmd" "?cm = cmd_at ?s cmd"
    using r2 msg' s1 by simp_all
  obtain qc s2 where pc: "esp_amp_rpmsg_poll ecall c (?dev, ?s) = Some (0, ?dev\<lparr>rx_queue := qc\<rparr>, s2)"
    and r3: "refines (w_slots w) (w_ring w) (w_item w) (a\<lparr>free_bufs := bs @ [b]\<rparr>) (tx_queue ?dev) qs (mem s2)"
      "refines (w_slots w') (w_ring w') (w_item w') (a'\<lparr>free_bufs := bs' @ [b']\<rparr>) qs' qc (mem s2)"
    and s2: "cmd_at s2 cmd = ?cm\<lparr>cmd_status := st\<rparr>" "load_bytes (mem s2) (resp_data ?cm) k = take k (take (unat (w_item w') - 16) out)"
      "client_at s2 = client_at ?s" "lp_access_hp_cnt s2 = lp_access_hp_cnt ?s"
    by (rule client_turn [OF up assms(17) rsp(1-4) assms(7) rsp(5,6) ms(2) lay b(2) b'(2) k])
  have "min k (unat (w_item w') - 16) = k" using assms(21) by auto
  then have "load_bytes (mem s2) (resp_data cm) k = take k out" using s2(2) by simp
  moreover have "idle w (a\<lparr>free_bufs := bs @ [b]\<rparr>) q qs (mem s2)" "idle w' (a'\<lparr>free_bufs := bs' @ [b']\<rparr>) qs' qc (mem s2)"
    using r3 assms(1,2) b b' by (simp_all add: idle_def)
  moreover have "client_up c ecall calls client ca sid (?dev\<lparr>rx_queue := qc\<rparr>, s2)" using up s2(3) by (simp add: client_up_def)
  moreover have "server_up d ecall' calls' server sid (sdev\<lparr>rx_queue := qs, tx_queue := qs'\<rparr>, t1)"
    using st(1) rpc_more_fields(1) [OF t1(1)] by (simp add: server_up_def)
  moreover have "quiet_notify (notify_call calls) q w w'" "quiet_notify (notify_call calls') qs' w' w"
    using assms(5,6) nq nq' by (simp_all add: quiet_notify_def)
  ultimately show ?thesis
    using ex po pc s2(1,4) s1(3) t1(2) b(1) b'(1)
    by (intro exI [of _ ?dev] exI [of _ s1] exI [of _ "sdev\<lparr>rx_queue := qs, tx_queue := qs'\<rparr>"] exI [of _ t1] exI [of _ "?dev\<lparr>rx_queue := qc\<rparr>"]
        exI [of _ s2] exI [of _ "a\<lparr>free_bufs := bs @ [b]\<rparr>"] exI [of _ "a'\<lparr>free_bufs := bs' @ [b']\<rparr>"]) auto
qed

text \<open>The sample pair of client and server, with the adding service.\<close>

lemma apart_spans:
  assumes "sorted_wrt (\<lambda>(a, n) (b, m). unat a + n \<le> unat b \<or> unat b + m \<le> unat a) xs"
    and "list_all (\<lambda>(a, n). unat a + n \<le> 4294967296) xs"
  shows "apart (map (\<lambda>(a, n). span a n) xs)"
  using assms
proof (induction xs)
  case (Cons x xs)
  obtain a n where x: "x = (a, n)" by (cases x)
  have "span a n \<inter> span b m = {}" if "(b, m) \<in> set xs" for b m
    using Cons.prems that x by (intro disj_nowrap) (auto simp: list_all_iff)
  then show ?case using Cons x by auto
qed simp

definition call_wire :: "ptr \<Rightarrow> ptr \<Rightarrow> wire" where
  "call_wire d b = \<lparr>w_slots = 2, w_ring = d, w_item = 32, w_bufs = {b, b + 32}\<rparr>"

definition call_core :: "(nat, unit) rpc" where
  "call_core = demo_rpc\<lparr>mem := store32 (store32 (mem demo_rpc) 0x4000 3) 0x4004 4,
     cmd_at := \<lambda>_. \<lparr>cmd_id = RPC_CMD_ID_ADD, cmd_status = 0, req_len = 8, resp_len = 4, req_data = 0x4000, resp_data = 0x4100,
       cmd_cb = None, cb_arg = NULL\<rparr>,
     srv_at := \<lambda>_. [\<lparr>srv_cmd_id = RPC_CMD_ID_ADD, srv_handler = Some 1\<rparr>, zero_service]\<rparr>"

definition call_dev :: "bool \<Rightarrow> (nat, nat) rpmsg_dev" where
  "call_dev b = (if b then client_dev else server_dev)\<lparr>ept_list := if b then 0x800c else 0x5014,
     ept_mem := \<lambda>_. \<lparr>rx_cb = Some 7, rx_cb_data = if b then 0x8000 else 0x5000, next_ept = NULL, addr = if b then 9 else 5\<rparr>\<rparr>"

definition add_calls :: "(nat, nat, nat, unit) rpc_calls" where
  "add_calls = demo_calls\<lparr>handler_call := \<lambda>f cmd (dev, t). let (cmd', t') = rpc_cmd_handler_add cmd t in Some (cmd', dev, t')\<rparr>"

definition call_ecall :: "bool \<Rightarrow> (nat, nat, (nat, unit) rpc_core_ext) ept_call" where
  "call_ecall b f data l src u ds = map_option snd
     ((if b then client_cb add_calls (demo_config True) else bm_server_cb add_calls (demo_config False)) data l src u ds)"

lemma call_up:
  "client_up (demo_config True) (call_ecall True) add_calls 0x8000 9 5 (call_dev True, call_core)"
  "server_up (demo_config False) (call_ecall False) add_calls 0x5000 5 (call_dev False, call_core)"
proof -
  have "ept_rel (call_dev True) [(9, 0x800c, Some 7, 0x8000)]"
    unfolding ept_rel_def by (rule exI [of _ "[0x800c]"]) (simp add: epts_ok_def view_def call_dev_def)
  then show "client_up (demo_config True) (call_ecall True) add_calls 0x8000 9 5 (call_dev True, call_core)"
    by (auto simp: client_up_def call_ecall_def offsetof_client_ept_def call_core_def demo_rpc_def demo_service_core_def zero_client_def
        intro!: exI [of _ "[(9, 0x800c, Some 7, 0x8000)]"])
  have "ept_rel (call_dev False) [(5, 0x5014, Some 7, 0x5000)]"
    unfolding ept_rel_def by (rule exI [of _ "[0x5014]"]) (simp add: epts_ok_def view_def call_dev_def)
  then show "server_up (demo_config False) (call_ecall False) add_calls 0x5000 5 (call_dev False, call_core)"
    by (auto simp: server_up_def call_ecall_def call_core_def demo_rpc_def demo_service_core_def zero_server_def
        intro!: exI [of _ "[(5, 0x5014, Some 7, 0x5000)]"])
qed

lemma call_idle:
  "idle (call_wire 0x1000 0x2000) (initial_queue 2 0x2000 32) (tx_queue (call_dev True)) (rx_queue (call_dev False)) (mem call_core)"
  "idle (call_wire 0x1100 0x2400) (initial_queue 2 0x2400 32) (tx_queue (call_dev False)) (rx_queue (call_dev True)) (mem call_core)"
proof -
  have d: "span 0x4000 4 \<inter> ring 0x1000 2 = {}" "span 0x4004 4 \<inter> ring 0x1000 2 = {}" "span 0x4000 4 \<inter> ring 0x1100 2 = {}" "span 0x4004 4 \<inter> ring 0x1100 2 = {}"
    unfolding ring_def by (rule disj_nowrap; simp)+
  have "agree (ring 0x1000 2) (mem call_core) (mem demo_rpc)" "agree (ring 0x1100 2) (mem call_core) (mem demo_rpc)"
    unfolding call_core_def using d by (simp_all, (intro agree_store32 agree_refl; simp)+)
  then show "idle (call_wire 0x1000 0x2000) (initial_queue 2 0x2000 32) (tx_queue (call_dev True)) (rx_queue (call_dev False)) (mem call_core)"
    "idle (call_wire 0x1100 0x2400) (initial_queue 2 0x2400 32) (tx_queue (call_dev False)) (rx_queue (call_dev True)) (mem call_core)"
    using refines_cong [OF demo_rpc_refines(1) agree_sym] refines_cong [OF demo_rpc_refines(2) agree_sym]
    by (simp_all add: idle_def call_wire_def demo_rpc_initial call_dev_def client_dev_def server_dev_def)
qed

lemma call_layout_ok:
  "call_layout (call_wire 0x1000 0x2000) (call_wire 0x1100 0x2400) (server_at call_core 0x5000) (cmd_at call_core 0x9000) NULL NULL"
proof -
  have "apart (map (\<lambda>(a, n). span a n) [(0x1000, 16), (0x1100, 16), (b, 32), (b', 32), (0x7000, 8), (0x7100, 8), (0x4100, 4)])"
    if "b = 0x2000 \<or> b = 0x2020" "b' = 0x2400 \<or> b' = 0x2420" for b b' :: ptr
    using that by (intro apart_spans) auto
  moreover have "span 0x4000 8 \<inter> span b 32 = {}" if "b = 0x2000 \<or> b = 0x2020" for b :: ptr
    using that by (intro disj_nowrap) auto
  ultimately show ?thesis
    unfolding call_layout_def Let_def
    by (simp add: call_wire_def call_core_def demo_rpc_def demo_service_core_def zero_server_def ring_def in_span_iff)
qed

theorem rpc_call_returns_witness:
  "\<exists>cdev1 s1 sdev1 t1 cdev2 s2.
    esp_amp_rpc_client_execute_cmd add_calls (demo_config True) 0x8000 0x9000 (call_dev True, call_core) = Some (ESP_AMP_RPC_OK, cdev1, s1) \<and>
    esp_amp_rpmsg_poll (call_ecall False) (demo_config False) (call_dev False, call_core\<lparr>mem := mem s1\<rparr>) = Some (0, sdev1, t1) \<and>
    esp_amp_rpmsg_poll (call_ecall True) (demo_config True) (cdev1, s1\<lparr>mem := mem t1\<rparr>) = Some (0, cdev2, s2) \<and>
    cmd_status (cmd_at s2 0x9000) = ESP_AMP_RPC_STATUS_OK \<and> load_bytes (mem s2) 0x4100 4 = [7, 0, 0, 0]"
proof -
  let ?w = "call_wire 0x1000 0x2000" and ?w' = "call_wire 0x1100 0x2400" and ?inst = "server_at call_core 0x5000" and ?cm = "cmd_at call_core 0x9000"
  have f: "req_len ?cm = 8" "req_data ?cm = 0x4000" "resp_data ?cm = 0x4100" "resp_len ?cm = 4" "cmd_id ?cm = RPC_CMD_ID_ADD"
    "unat (req_buf_len ?inst) = 8" "unat (resp_buf_len ?inst) = 8" "lp_access_hp_cnt call_core = NULL" "w_item (call_wire d b) = 32" for d b
    by (simp_all add: call_core_def demo_rpc_def demo_service_core_def zero_server_def call_wire_def)
  have q: "quiet_notify (notify_call add_calls) (tx_queue (call_dev b)) v v'" for b v v'
    by (simp add: quiet_notify_def add_calls_def call_dev_def client_dev_def server_dev_def)
  have l: "call_layout ?w ?w' ?inst ?cm (lp_access_hp_cnt call_core) (lp_access_hp_cnt call_core)" using call_layout_ok f(8) by simp
  have sv: "services 0x5000 call_core (cmd_id ?cm) = Some 1"
    by (simp add: services_def call_core_def demo_rpc_def demo_service_core_def zero_server_def)
  have h: "handlers_ok add_calls ?inst" "handler_computes add_calls 1 ?inst add_result"
    by (rule add_handler_computes; simp add: f add_calls_def)+
  have ap: "app_cb_quiet add_calls" by (simp add: app_cb_quiet_def add_calls_def demo_calls_def)
  have "load_bytes (mem call_core) 0x4000 8 = [3, 0, 0, 0, 4, 0, 0, 0]"
    by (simp add: load_bytes_8 load_bytes_4 call_core_def store32_def store16_def)
  then have g: "add_result (take (unat (req_buf_len ?inst)) (load_bytes (mem call_core) (req_data ?cm) (unat (req_len ?cm)))) = Some (ESP_AMP_RPC_STATUS_OK, [7, 0, 0, 0])"
    by (simp add: f add_result_def word32_def bytes32_def Let_def)
  have n: "(0x9000 :: ptr) \<noteq> NULL" "unat (req_len ?cm) + 16 \<le> unat (w_item ?w)" "16 \<le> unat (w_item ?w')" "0 < resp_buf_len ?inst"
    "[7, 0, 0, 0 :: u8] \<noteq> []" "length [7, 0, 0, 0 :: u8] \<le> unat (resp_buf_len ?inst)"
    using f(7) by (simp_all add: f word_less_nat_alt)
  have k: "4 = (if resp_data ?cm = NULL then 0 else min (min (length [7, 0, 0, 0 :: u8]) (unat (w_item ?w') - 16)) (unat (resp_len ?cm)))"
    by (simp add: f)
  from rpc_call_returns [OF call_idle call_up q q n(1) refl refl l n(2-4) sv h ap g n(5,6) k]
  obtain cdev1 s1 sdev1 t1 cdev2 s2 where
    "esp_amp_rpc_client_execute_cmd add_calls (demo_config True) 0x8000 0x9000 (call_dev True, call_core) = Some (ESP_AMP_RPC_OK, cdev1, s1)"
    "esp_amp_rpmsg_poll (call_ecall False) (demo_config False) (call_dev False, call_core\<lparr>mem := mem s1\<rparr>) = Some (0, sdev1, t1)"
    "esp_amp_rpmsg_poll (call_ecall True) (demo_config True) (cdev1, s1\<lparr>mem := mem t1\<rparr>) = Some (0, cdev2, s2)"
    "cmd_at s2 0x9000 = ?cm\<lparr>cmd_status := ESP_AMP_RPC_STATUS_OK\<rparr>" "load_bytes (mem s2) (resp_data ?cm) 4 = take 4 [7, 0, 0, 0]"
    by (elim exE conjE) (rule that; assumption)
  moreover from this(4,5) have "cmd_status (cmd_at s2 0x9000) = ESP_AMP_RPC_STATUS_OK" "load_bytes (mem s2) 0x4100 4 = [7, 0, 0, 0]"
    by (simp_all add: f)
  ultimately show ?thesis by blast
qed

end
