(* ===== verification/Amp_Rpc_Life.thy ===== *)
theory Amp_Rpc_Life
  imports Amp_Rpc_Call
begin

text \<open>
  The life of RPC instances, src/components/esp_amp/src/rpc: initialisation makes a client or a server ready
  for calls, deinitialisation takes it back and leaves the endpoints as they were.
\<close>

subsection \<open>Endpoints of an instance\<close>

lemma create_endpoint_keeps:
  assumes "port_ok c" and "esp_amp_rpmsg_create_endpoint c a cb d x dev s = Some (r, dev', s')"
  shows "mem s' = mem s" "lp_access_hp_cnt s' = lp_access_hp_cnt s" "core.more s' = core.more s"
    "tx_queue dev' = tx_queue dev" "rx_queue dev' = rx_queue dev"
  using assms by (auto simp: esp_amp_rpmsg_create_endpoint_def Let_def extend_endpoint_list_def split: if_splits Option.bind_splits)

lemma delete_endpoint_keeps:
  assumes "port_ok c" and "esp_amp_rpmsg_delete_endpoint c a dev s = Some (r, dev', s')"
  shows "mem s' = mem s" "lp_access_hp_cnt s' = lp_access_hp_cnt s" "core.more s' = core.more s"
    "tx_queue dev' = tx_queue dev" "rx_queue dev' = rx_queue dev"
  using assms by (auto simp: esp_amp_rpmsg_delete_endpoint_def Let_def split: if_splits Option.bind_splits)

lemma ept_rel_forget:
  assumes "ept_rel dev v" and "x \<notin> fst ` snd ` set v"
  shows "ept_rel (dev\<lparr>ept_mem := (ept_mem dev)(x := e)\<rparr>) v"
proof -
  obtain xs where xs: "epts_ok dev xs" "v = view dev xs" using assms(1) by (auto simp: ept_rel_def)
  have x: "x \<notin> set xs" using assms(2) xs(2) by (simp add: ptrs_of_view)
  let ?d = "dev\<lparr>ept_mem := (ept_mem dev)(x := e)\<rparr>"
  have same: "ept_mem ?d y = ept_mem dev y" if "y \<in> set xs" for y using that x by auto
  have "seg (ept_mem ?d) (ept_list dev) xs NULL = seg (ept_mem dev) (ept_list dev) xs NULL" by (rule seg_cong, subst same) auto
  moreover have "map (\<lambda>y. addr (ept_mem ?d y)) xs = map (\<lambda>y. addr (ept_mem dev y)) xs" using same by simp
  moreover have "ept_list ?d = ept_list dev" by simp
  ultimately have "epts_ok ?d xs" using xs(1) unfolding epts_ok_def by metis
  moreover have "view ?d xs = view dev xs" unfolding view_def using same by simp
  ultimately show ?thesis using xs(2) by (auto simp: ept_rel_def)
qed

text \<open>An endpoint in a structure that is free, under an address that is free.\<close>

definition ept_free :: "u16 \<Rightarrow> ptr \<Rightarrow> (u16 \<times> 'e binding) list \<Rightarrow> bool" where
  "ept_free a x v \<longleftrightarrow> x \<noteq> NULL \<and> x \<notin> fst ` snd ` set v \<and> map_of v a = None"

lemma endpoint_made:
  assumes "port_ok c" and "ept_rel dev v" and "ept_free a x v"
  obtains dev' s' where "esp_amp_rpmsg_create_endpoint c a cb d x dev s = Some (x, dev', s')" "ept_rel dev' ((a, x, cb, d) # v)"
    "mem s' = mem s" "lp_access_hp_cnt s' = lp_access_hp_cnt s" "core.more s' = core.more s"
    "tx_queue dev' = tx_queue dev" "rx_queue dev' = rx_queue dev"
proof -
  obtain dev' s' where cr: "esp_amp_rpmsg_create_endpoint c a cb d x dev s = Some (x, dev', s')" "ept_rel dev' ((a, x, cb, d) # v)"
    using create_law [OF assms(2), of x c a cb d s] assms(3) by (auto simp: ept_free_def)
  show thesis using that [OF cr] create_endpoint_keeps [OF assms(1) cr(1)] by blast
qed

lemma endpoint_deleted:
  assumes "port_ok c" and "ept_rel dev ((a, x, cb, d) # v)" and "ept_free a x v"
  obtains dev' s' where "esp_amp_rpmsg_delete_endpoint c a dev s = Some (x, dev', s')" "ept_rel dev' v"
    "mem s' = mem s" "lp_access_hp_cnt s' = lp_access_hp_cnt s" "core.more s' = core.more s"
    "tx_queue dev' = tx_queue dev" "rx_queue dev' = rx_queue dev"
proof -
  have "filter (\<lambda>(k, _). k \<noteq> a) ((a, x, cb, d) # v) = v"
    using assms(3) by (auto simp: ept_free_def map_of_eq_None_iff filter_id_conv image_iff)
  then obtain dev' s' where del: "esp_amp_rpmsg_delete_endpoint c a dev s = Some (x, dev', s')" "ept_rel dev' v"
    using delete_law [OF assms(2), of c a s] by (auto simp: ptr_of_def)
  show thesis using that [OF del] delete_endpoint_keeps [OF assms(1) del(1)] by blast
qed

lemma endpoint_refused:
  assumes "ept_rel dev v" and "map_of v a \<noteq> None"
  shows "\<exists>s'. esp_amp_rpmsg_create_endpoint c a cb d y dev s = Some (NULL, dev, s')"
proof -
  obtain xs where xs: "epts_ok dev xs" "v = view dev xs" using assms(1) by (auto simp: ept_rel_def)
  then have "search_endpoint dev a = Some (ptr_of (map_of v a))" "ptr_of (map_of v a) \<noteq> NULL"
    using search_view [OF xs(1), of a] ptr_of_null [OF xs(1), of a] assms(2) by auto
  then show ?thesis by (simp add: esp_amp_rpmsg_create_endpoint_def Let_def)
qed

subsection \<open>The server\<close>

definition server_cfg_ok :: "rpc_server_cfg \<Rightarrow> bool" where
  "server_cfg_ok cf \<longleftrightarrow> cfg_stg cf \<noteq> NULL \<and> cfg_rpmsg_dev cf \<noteq> NULL \<and> cfg_req_buf_len cf \<noteq> 0 \<and> cfg_resp_buf_len cf \<noteq> 0 \<and>
     cfg_req_buf cf \<noteq> NULL \<and> cfg_resp_buf cf \<noteq> NULL \<and> cfg_srv_tbl_len cf \<noteq> 0 \<and> cfg_srv_tbl_stg cf \<noteq> NULL"

lemma server_init_effect:
  fixes s :: "('g, 'z) rpc"
  assumes "port_ok c" and "IS_ENV_BM c" and cfg: "server_cfg_ok cf" and "ept_rel dev v"
    and "ept_free (cfg_server_id cf) (cfg_stg cf + offsetof_server_ept) v"
  obtains cf' dev1 s1 where "esp_amp_rpc_server_init cb os c (Some cf) (dev, s) = Some (cfg_stg cf, Some cf', dev1, s1)"
    "ept_rel dev1 ((cfg_server_id cf, cfg_stg cf + offsetof_server_ept, Some cb, cfg_stg cf) # v)"
    "mem s1 = mem s" "lp_access_hp_cnt s1 = lp_access_hp_cnt s" "tx_queue dev1 = tx_queue dev" "rx_queue dev1 = rx_queue dev"
    "server_running (server_at s1 (cfg_stg cf))" "server_id (server_at s1 (cfg_stg cf)) = cfg_server_id cf"
    "req_buf (server_at s1 (cfg_stg cf)) = cfg_req_buf cf" "req_buf_len (server_at s1 (cfg_stg cf)) = cfg_req_buf_len cf"
    "resp_buf (server_at s1 (cfg_stg cf)) = cfg_resp_buf cf" "resp_buf_len (server_at s1 (cfg_stg cf)) = cfg_resp_buf_len cf"
    "table_ok (cfg_stg cf) s1" "services (cfg_stg cf) s1 = Map.empty"
proof -
  let ?srv = "cfg_stg cf" and ?x = "cfg_stg cf + offsetof_server_ept"
  obtain dev1 s1 where cr: "esp_amp_rpmsg_create_endpoint c (cfg_server_id cf) (Some cb) ?srv ?x dev s = Some (?x, dev1, s1)"
    and k: "ept_rel dev1 ((cfg_server_id cf, ?x, Some cb, ?srv) # v)" "mem s1 = mem s" "lp_access_hp_cnt s1 = lp_access_hp_cnt s"
      "core.more s1 = core.more s" "tx_queue dev1 = tx_queue dev" "rx_queue dev1 = rx_queue dev"
    by (rule endpoint_made [OF assms(1,4,5)])
  have nn: "?x \<noteq> NULL" using assms(5) by (simp add: ept_free_def)
  let ?cf = "if cfg_queue_len cf = 0 then cf\<lparr>cfg_queue_len := 4\<rparr> else cf"
  have cf: "cfg_srv_tbl_stg ?cf = cfg_srv_tbl_stg cf" "cfg_srv_tbl_len ?cf = cfg_srv_tbl_len cf" "cfg_req_buf_len ?cf = cfg_req_buf_len cf"
    "cfg_resp_buf_len ?cf = cfg_resp_buf_len cf" "cfg_req_buf ?cf = cfg_req_buf cf" "cfg_resp_buf ?cf = cfg_resp_buf cf"
    "cfg_server_id ?cf = cfg_server_id cf" "cfg_rpmsg_dev ?cf = cfg_rpmsg_dev cf" by simp_all
  obtain s2 where ini: "esp_amp_rpc_server_init cb os c (Some cf) (dev, s) = Some (?srv, Some ?cf, dev1, s2)"
    and s2: "mem s2 = mem s1" "lp_access_hp_cnt s2 = lp_access_hp_cnt s1"
      "srv_at s2 = (srv_at s1)(cfg_srv_tbl_stg cf := replicate (unat (cfg_srv_tbl_len cf)) zero_service)"
      "server_at s2 ?srv = (server_at s1 ?srv)\<lparr>req_buf_len := cfg_req_buf_len cf, resp_buf_len := cfg_resp_buf_len cf,
         req_buf := cfg_req_buf cf, resp_buf := cfg_resp_buf cf, server_id := cfg_server_id cf, server_rpmsg_dev := cfg_rpmsg_dev cf,
         srv_tbl_len := cfg_srv_tbl_len cf, srv := cfg_srv_tbl_stg cf, server_running := True\<rparr>"
    using cfg cr nn assms(1,2) unfolding esp_amp_rpc_server_init_def server_cfg_ok_def
    by (simp add: Let_def cf esp_amp_env_queue_create_def bm_queue_create_def set_server_def del: if_split)
  have t: "take n (replicate n z) = replicate n z" for n and z :: "'g esp_amp_rpc_service" by simp
  have none: "find_service cid (replicate n zero_service) = None" for cid n by (induction n) (simp_all add: zero_service_def)
  have flt: "filter (\<lambda>v. \<exists>y. srv_handler v = Some y) (replicate n zero_service) = []" for n by (simp add: zero_service_def)
  have "table_ok ?srv s2" "services ?srv s2 = Map.empty"
    using cfg s2(3,4) by (auto simp: table_ok_def services_def server_cfg_ok_def t none flt fun_eq_iff)
  then show thesis using that [OF ini k(1)] k s2 by simp
qed

lemma server_init_refused:
  fixes s :: "('g, 'z) rpc"
  assumes "port_ok c" and "server_cfg_ok cf" and "ept_rel dev v" and "map_of v (cfg_server_id cf) \<noteq> None"
  shows "\<exists>s1. esp_amp_rpc_server_init cb os c (Some cf) (dev, s) = Some (NULL, Some cf, dev, s1) \<and> mem s1 = mem s \<and> core.more s1 = core.more s"
proof -
  obtain s1 where cr: "esp_amp_rpmsg_create_endpoint c (cfg_server_id cf) (Some cb) (cfg_stg cf) (cfg_stg cf + offsetof_server_ept) dev s
      = Some (NULL, dev, s1)" using endpoint_refused [OF assms(3,4)] by blast
  then show ?thesis
    using assms(2) create_endpoint_keeps [OF assms(1) cr] by (simp add: esp_amp_rpc_server_init_def server_cfg_ok_def Let_def)
qed

lemma drain_requests_bm: "IS_ENV_BM c \<Longrightarrow> drain_requests os c q ds = Some ds"
  by (subst drain_requests.simps) (simp add: esp_amp_env_queue_recv_def bm_queue_recv_def)

lemma server_deinit_effect:
  fixes s :: "('g, 'z) rpc"
  assumes "port_ok c" and "IS_ENV_BM c" and "server \<noteq> NULL" and "server_running (server_at s server)"
    and rel: "ept_rel dev ((server_id (server_at s server), server + offsetof_server_ept, cb, d) # v)"
    and free: "ept_free (server_id (server_at s server)) (server + offsetof_server_ept) v"
  obtains dev1 s1 where "esp_amp_rpc_server_deinit os c server (dev, s) = Some (dev1, s1)" "ept_rel dev1 v"
    "server_at s1 = (server_at s)(server := zero_server)" "mem s1 = mem s" "lp_access_hp_cnt s1 = lp_access_hp_cnt s"
    "tx_queue dev1 = tx_queue dev" "rx_queue dev1 = rx_queue dev"
proof -
  let ?sid = "server_id (server_at s server)" and ?x = "server + offsetof_server_ept"
  let ?s = "esp_amp_env_enter_critical c (esp_amp_env_exit_critical c (set_server server
     ((server_at s server)\<lparr>server_running := False\<rparr>) (esp_amp_env_enter_critical c s)))"
  obtain dev1 s1 where del: "esp_amp_rpmsg_delete_endpoint c ?sid dev ?s = Some (?x, dev1, s1)"
    and k: "ept_rel dev1 v" "mem s1 = mem ?s" "lp_access_hp_cnt s1 = lp_access_hp_cnt ?s" "core.more s1 = core.more ?s"
      "tx_queue dev1 = tx_queue dev" "rx_queue dev1 = rx_queue dev"
    by (rule endpoint_deleted [OF assms(1) rel free])
  have "server_at s1 = server_at ?s" by (rule rpc_more_fields(1) [OF k(4)])
  then have more: "server_at s1 = (server_at s)(server := (server_at s server)\<lparr>server_running := False\<rparr>)"
    using assms(1) by (simp add: set_server_def)
  have ept: "ept_rel (dev1\<lparr>ept_mem := (ept_mem dev1)(?x := zero_ept)\<rparr>) v"
    using k(1) free by (intro ept_rel_forget) (simp_all add: ept_free_def)
  have "\<exists>s2. esp_amp_rpc_server_deinit os c server (dev, s) = Some (dev1\<lparr>ept_mem := (ept_mem dev1)(?x := zero_ept)\<rparr>, s2) \<and>
      server_at s2 = (server_at s1)(server := zero_server) \<and> mem s2 = mem s1 \<and> lp_access_hp_cnt s2 = lp_access_hp_cnt s1"
    using assms(1-4) del
    by (simp add: esp_amp_rpc_server_deinit_def Let_def drain_requests_bm esp_amp_env_queue_delete_def bm_queue_delete_def set_server_def)
  then obtain s2 where d: "esp_amp_rpc_server_deinit os c server (dev, s) = Some (dev1\<lparr>ept_mem := (ept_mem dev1)(?x := zero_ept)\<rparr>, s2)"
    "server_at s2 = (server_at s1)(server := zero_server)" "mem s2 = mem s1" "lp_access_hp_cnt s2 = lp_access_hp_cnt s1" by blast
  show thesis using that [OF d(1) ept] d(2-4) k more assms(1) by (simp add: set_server_def)
qed


definition life_cfg :: rpc_server_cfg where
  "life_cfg = \<lparr>cfg_server_id = 5, cfg_queue_len = 0, cfg_srv_tbl_len = 2, cfg_rpmsg_dev = 0x3000, cfg_stg = 0x5000, cfg_req_buf_len = 8,
     cfg_resp_buf_len = 8, cfg_req_buf = 0x7000, cfg_resp_buf = 0x7100, cfg_srv_tbl_stg = 0x6000\<rparr>"

definition life_dev :: "bool \<Rightarrow> (nat, nat) rpmsg_dev" where
  "life_dev b = (call_dev b)\<lparr>ept_list := NULL\<rparr>"

lemma life_dev_rel: "ept_rel (life_dev b) []"
  unfolding ept_rel_def by (rule exI [of _ "[]"]) (simp add: epts_ok_def view_def life_dev_def)


subsection \<open>The client\<close>

definition client_cfg_ok :: "'g rpc_client_cfg \<Rightarrow> bool" where
  "client_cfg_ok cf \<longleftrightarrow> ccfg_stg cf \<noteq> NULL \<and> ccfg_rpmsg_dev cf \<noteq> NULL"

lemma client_deinit_effect:
  fixes s :: "('g, 'z) rpc"
  assumes "port_ok c" and "client \<noteq> NULL" and "client_running (client_at s client)"
    and rel: "ept_rel dev ((client_id (client_at s client), client + offsetof_client_ept, cb, d) # v)"
    and free: "ept_free (client_id (client_at s client)) (client + offsetof_client_ept) v"
  shows "\<exists>dev1 s1. esp_amp_rpc_client_deinit c client (dev, s) = Some (dev1, s1) \<and> ept_rel dev1 v \<and>
    client_at s1 = (client_at s)(client := zero_client) \<and> mem s1 = mem s \<and> tx_queue dev1 = tx_queue dev \<and> rx_queue dev1 = rx_queue dev"
proof -
  let ?x = "client + offsetof_client_ept" and ?s = "esp_amp_env_enter_critical c s"
  obtain dev1 s1 where del: "esp_amp_rpmsg_delete_endpoint c (client_id (client_at s client)) dev ?s = Some (?x, dev1, s1)"
    and k: "ept_rel dev1 v" "mem s1 = mem ?s" "core.more s1 = core.more ?s" "tx_queue dev1 = tx_queue dev" "rx_queue dev1 = rx_queue dev"
    by (rule endpoint_deleted [OF assms(1) rel free]) (rule that; assumption)
  have "ept_rel (dev1\<lparr>ept_mem := (ept_mem dev1)(?x := zero_ept)\<rparr>) v"
    using k(1) free by (intro ept_rel_forget) (simp_all add: ept_free_def)
  then show ?thesis
    using assms(1-3) del k(2,4,5) rpc_more_fields(2) [OF k(3)] by (simp add: esp_amp_rpc_client_deinit_def Let_def)
qed

text \<open>The life of a client: initialisation makes it ready for calls with nothing pending, and whenever it still
  runs with its endpoint in place, deinitialisation returns and leaves the other endpoints.\<close>

theorem rpc_client_life:
  fixes s :: "('g, 'z) rpc"
  assumes "port_ok c" and "\<not> pm_active c" and "client_cfg_ok cf" and "ept_rel dev v"
    and free: "ept_free (ccfg_client_id cf) (ccfg_stg cf + offsetof_client_ept) v"
    and "\<forall>data l src u ds. ecall cb data l src u ds = map_option snd (client_cb calls c data l src u ds)"
  shows "\<exists>dev1 s1. esp_amp_rpc_client_init cb c (Some cf) (dev, s) = Some (ccfg_stg cf, dev1, s1) \<and>
    mem s1 = mem s \<and> tx_queue dev1 = tx_queue dev \<and> rx_queue dev1 = rx_queue dev \<and>
    client_up c ecall calls (ccfg_stg cf) (ccfg_client_id cf) (ccfg_server_id cf) (dev1, s1) \<and>
    pending_cmd (client_at s1 (ccfg_stg cf)) = NULL \<and>
    (\<forall>dev2 s2. ept_rel dev2 ((ccfg_client_id cf, ccfg_stg cf + offsetof_client_ept, Some cb, ccfg_stg cf) # v) \<and>
       client_running (client_at s2 (ccfg_stg cf)) \<and> client_id (client_at s2 (ccfg_stg cf)) = ccfg_client_id cf \<longrightarrow>
       (\<exists>dev3 s3. esp_amp_rpc_client_deinit c (ccfg_stg cf) (dev2, s2) = Some (dev3, s3) \<and> ept_rel dev3 v \<and>
         client_at s3 = (client_at s2)(ccfg_stg cf := zero_client) \<and> mem s3 = mem s2 \<and>
         tx_queue dev3 = tx_queue dev2 \<and> rx_queue dev3 = rx_queue dev2))"
proof -
  let ?cl = "ccfg_stg cf" and ?x = "ccfg_stg cf + offsetof_client_ept"
  let ?b = "(ccfg_client_id cf, ?x, Some cb, ?cl)"
  have nn: "?cl \<noteq> NULL" using assms(3) by (simp add: client_cfg_ok_def)
  obtain dev1 s1 where cr: "esp_amp_rpmsg_create_endpoint c (ccfg_client_id cf) (Some cb) ?cl ?x dev s = Some (?x, dev1, s1)"
    and k: "ept_rel dev1 (?b # v)" "mem s1 = mem s" "tx_queue dev1 = tx_queue dev" "rx_queue dev1 = rx_queue dev"
    by (rule endpoint_made [OF assms(1,4) free]) (rule that; assumption)
  have "\<exists>s2. esp_amp_rpc_client_init cb c (Some cf) (dev, s) = Some (?cl, dev1, s2) \<and> mem s2 = mem s1 \<and>
      client_running (client_at s2 ?cl) \<and> peer_server_id (client_at s2 ?cl) = ccfg_server_id cf \<and> pending_cmd (client_at s2 ?cl) = NULL"
    using cr assms(1,3) free by (simp add: esp_amp_rpc_client_init_def client_cfg_ok_def Let_def ept_free_def)
  then obtain s2 where ini: "esp_amp_rpc_client_init cb c (Some cf) (dev, s) = Some (?cl, dev1, s2)" "mem s2 = mem s"
    and inst: "client_running (client_at s2 ?cl)" "peer_server_id (client_at s2 ?cl) = ccfg_server_id cf" "pending_cmd (client_at s2 ?cl) = NULL"
    using k(2) by auto
  have "client_up c ecall calls ?cl (ccfg_client_id cf) (ccfg_server_id cf) (dev1, s2)"
    using assms(1,2,6) nn inst k(1) by (auto simp: client_up_def intro!: exI [of _ "?b # v"])
  moreover have "\<exists>dev3 s3. esp_amp_rpc_client_deinit c ?cl (dev2, s3') = Some (dev3, s3) \<and> ept_rel dev3 v \<and>
      client_at s3 = (client_at s3')(?cl := zero_client) \<and> mem s3 = mem s3' \<and> tx_queue dev3 = tx_queue dev2 \<and> rx_queue dev3 = rx_queue dev2"
    if "ept_rel dev2 (?b # v) \<and> client_running (client_at s3' ?cl) \<and> client_id (client_at s3' ?cl) = ccfg_client_id cf"
    for dev2 and s3' :: "('g, 'z) rpc"
    using that client_deinit_effect [OF assms(1) nn, of s3' dev2 "Some cb" ?cl v] free by simp
  ultimately show ?thesis using ini k(3,4) inst(3) by blast
qed

end
