(* ===== verification/Amp_Print.thy ===== *)
theory Amp_Print
  imports Amp_Prelude
begin

text \<open>
  Formatted output of the subcore, src/components/esp_amp/system/esp_amp_print.c: the conversion of
  numbers to digits and the interpreter of format strings. Characters are those of HOL, a C string is
  a list without its terminator, and the model reads the terminator where the code does. What the
  interpreter passes to \<open>putc\<close> is collected in order; reading past the terminator, a variadic argument
  of another type than the conversion asks for, a width beyond \<open>int\<close> and an access beyond the 64
  characters of the conversion buffer are the value \<open>None\<close>.
\<close>

subsection \<open>Numbers\<close>

abbreviation NUL :: char where "NUL \<equiv> CHR 0x00"

text \<open>The digits in the order they are copied out of \<open>temp\<close>, last computed first. A radix below two,
  for which the loop does not end, does not occur.\<close>

function cvt_loop :: "u64 \<Rightarrow> string \<Rightarrow> u64 \<Rightarrow> string \<Rightarrow> string" where
  "cvt_loop radix digits val temp =
     (if val = 0 \<or> radix < 2 then temp
      else cvt_loop radix digits (val div radix) (digits ! unat (val mod radix) # temp))"
  by pat_completeness auto
termination
proof (relation "measure (\<lambda>(radix, digits, val, temp). unat val)")
  fix radix val :: u64 and digits temp :: string
  assume "\<not> (val = 0 \<or> radix < 2)"
  then have "0 < unat val" "2 \<le> unat radix" by (simp_all add: unat_gt_0 word_less_nat_alt not_less)
  then have "unat val div unat radix < unat val" by simp
  then show "((radix, digits, val div radix, digits ! unat (val mod radix) # temp), radix, digits, val, temp)
      \<in> measure (\<lambda>(radix, digits, val, temp). unat val)"
    by (simp add: unat_div_distrib)
qed simp

declare cvt_loop.simps [simp del]

definition cvt :: "u64 \<Rightarrow> u64 \<Rightarrow> string \<Rightarrow> string" where
  "cvt val radix digits = (if val = 0 then ''0'' else cvt_loop radix digits val [])"

subsection \<open>Format strings\<close>

definition is_digit :: "char \<Rightarrow> bool" where
  "is_digit c \<longleftrightarrow> 48 \<le> (of_char c :: nat) \<and> (of_char c :: nat) \<le> 57"

definition INT_MAX :: int where "INT_MAX = 2147483647"

text \<open>\<open>c = *fmt++\<close>.\<close>

fun next_char :: "string \<Rightarrow> (char \<times> string) option" where
  "next_char [] = None"
| "next_char (c # fmt) = Some (c, fmt)"

fun scan_number :: "int \<Rightarrow> char \<Rightarrow> string \<Rightarrow> (int \<times> char \<times> string) option" where
  "scan_number n c [] = (if is_digit c then None else Some (n, c, []))"
| "scan_number n c (c' # fmt) =
     (if is_digit c then
        let n' = n * 10 + (of_char c - 48) in if INT_MAX < n' then None else scan_number n' c' fmt
      else Some (n, c, c' # fmt))"

record fspec =
  left_prec :: int
  right_prec :: int
  zero_fill :: bool
  pad_on_right :: bool
  islong :: bool
  islonglong :: bool

text \<open>From behind the percent sign up to the conversion character.\<close>

definition parse_spec :: "string \<Rightarrow> (fspec \<times> char \<times> string) option" where
  "parse_spec fmt = do {
     (c, fmt) \<leftarrow> next_char fmt;
     (right, c, fmt) \<leftarrow> (if c = CHR ''-'' then map_option (Pair True) (next_char fmt) else Some (False, c, fmt));
     (zero, c, fmt) \<leftarrow> (if c = CHR ''0'' then map_option (Pair True) (next_char fmt) else Some (False, c, fmt));
     (left, c, fmt) \<leftarrow> scan_number 0 c fmt;
     (zero, prec, c, fmt) \<leftarrow>
       (if c = CHR ''.'' then do {
          (c, fmt) \<leftarrow> next_char fmt;
          (prec, c, fmt) \<leftarrow> scan_number 0 c fmt;
          Some (False, prec, c, fmt)
        } else Some (zero, 0, c, fmt));
     (long, longlong, c, fmt) \<leftarrow>
       (if c = CHR ''l'' then do {
          (c, fmt) \<leftarrow> next_char fmt;
          if c = CHR ''l'' then do {
            (c, fmt) \<leftarrow> next_char fmt;
            Some (False, True, c, fmt)
          } else Some (True, False, c, fmt)
        } else Some (False, False, c, fmt));
     Some (\<lparr>left_prec = left, right_prec = prec, zero_fill = zero, pad_on_right = right,
            islong = long, islonglong = longlong\<rparr>, c, fmt)
   }"

subsection \<open>Arguments and conversions\<close>

text \<open>A variadic argument with the type it was passed with; \<open>int\<close> and \<open>long\<close> have 32 bits. A string
  argument is its characters, or none for a null pointer.\<close>

datatype va_arg = VInt u32 | VLong u32 | VLLong u64 | VStr "string option"

fun va_int :: "fspec \<Rightarrow> va_arg list \<Rightarrow> (u64 \<times> va_arg list) option" where
  "va_int sp (VInt x # args) = (if islonglong sp \<or> islong sp then None else Some (scast x, args))"
| "va_int sp (VLong x # args) = (if \<not> islonglong sp \<and> islong sp then Some (scast x, args) else None)"
| "va_int sp (VLLong x # args) = (if islonglong sp then Some (x, args) else None)"
| "va_int sp args = None"

fun va_str :: "va_arg list \<Rightarrow> (string option \<times> va_arg list) option" where
  "va_str (VStr x # args) = Some (x, args)"
| "va_str args = None"

text \<open>The first switch: the value of a numeric conversion and its sign.\<close>

definition fetch :: "fspec \<Rightarrow> char \<Rightarrow> va_arg list \<Rightarrow> (u64 \<times> char \<times> va_arg list) option" where
  "fetch sp c args =
     (if c \<in> set ''pdDxXuUbB'' then do {
        let sp = (if c = CHR ''p'' then sp\<lparr>islong := True\<rparr> else sp);
        (val, args) \<leftarrow> va_int sp args;
        if c = CHR ''d'' \<or> c = CHR ''D'' then
          if sint val < 0 then Some (- val, CHR ''-'', args) else Some (val, NUL, args)
        else if islonglong sp then Some (val, NUL, args)
        else Some (val AND 0xffffffff, NUL, args)
      } else Some (0, NUL, args))"

text \<open>The loop of the binary conversion: bit \<open>i\<close> goes to position \<open>i\<close>, the last position is left.\<close>

definition binary_digits :: "u64 \<Rightarrow> nat \<Rightarrow> string \<Rightarrow> string" where
  "binary_digits val n buf =
     map (\<lambda>i. if bit val i then CHR ''1'' else CHR ''.'') [0..<n - 1] @ drop (n - 1) buf"

text \<open>
  The second switch. A field is what the rest of the loop body prints: characters that went out
  already with their count in the result, the adjusted specification, the length, the characters
  \<open>cp\<close> points to and the buffer. \<open>%c\<close> prints its character and continues.
\<close>

datatype conv = Printed char | Field string int fspec int string string

definition to_buf :: "string \<Rightarrow> string \<Rightarrow> string" where
  "to_buf ds buf = ds @ NUL # drop (Suc (length ds)) buf"

definition number_field :: "string \<Rightarrow> fspec \<Rightarrow> string \<Rightarrow> string \<Rightarrow> conv option" where
  "number_field pre sp ds buf =
     (if length ds < 64
      then Some (Field pre 0 sp (int (length ds)) (to_buf ds buf) (to_buf ds buf)) else None)"

definition convert ::
    "fspec \<Rightarrow> char \<Rightarrow> u64 \<Rightarrow> va_arg list \<Rightarrow> int \<Rightarrow> string \<Rightarrow> (conv \<times> va_arg list) option" where
  "convert sp c val args len buf =
     (if c = CHR ''p'' then
        map_option (\<lambda>f. (f, args)) (number_field ''0x'' (sp\<lparr>zero_fill := True, left_prec := 8\<rparr>)
           (cvt val 16 ''0123456789abcdef'') buf)
      else if c \<in> set ''dDuU'' then map_option (\<lambda>f. (f, args)) (number_field [] sp (cvt val 10 ''0123456789'') buf)
      else if c = CHR ''x'' then map_option (\<lambda>f. (f, args)) (number_field [] sp (cvt val 16 ''0123456789abcdef'') buf)
      else if c = CHR ''X'' then map_option (\<lambda>f. (f, args)) (number_field [] sp (cvt val 16 ''0123456789ABCDEF'') buf)
      else if c = CHR ''s'' \<or> c = CHR ''S'' then do {
        (x, args) \<leftarrow> va_str args;
        let cp = (case x of None \<Rightarrow> ''<null>'' | Some x \<Rightarrow> x);
        let len = int (length cp);
        if right_prec sp \<noteq> 0
        then Some (Field [] 0 (sp\<lparr>right_prec := 0\<rparr>) (min (right_prec sp) len) cp buf, args)
        else Some (Field [] 0 sp len cp buf, args)
      }
      else if c = CHR ''c'' \<or> c = CHR ''C'' then
        (case args of VInt x # args \<Rightarrow> Some (Printed (char_of (unat x)), args) | _ \<Rightarrow> None)
      else if c = CHR ''b'' \<or> c = CHR ''B'' then
        let len = (if left_prec sp = 0 then if islonglong sp then 64 else 32 else left_prec sp)
        in if 64 < len then None
           else Some (Field [] 0 sp len (binary_digits val (nat len) buf) (binary_digits val (nat len) buf), args)
      else if c = CHR ''%'' then Some (Field ''%'' 0 sp len [] buf, args)
      else Some (Field [CHR ''%'', c] 2 sp len [] buf, args))"

text \<open>The rest of the loop body: sign, padding, precision zeros and the field. The second part is the
  number of characters counted in the result.\<close>

definition print_field :: "fspec \<Rightarrow> char \<Rightarrow> int \<Rightarrow> string \<Rightarrow> string option" where
  "print_field sp sign len cp =
     (let pad = left_prec sp - len;
          prec = right_prec sp - len;
          pad = (if 0 < prec then pad - prec else pad);
          pad = (if sign \<noteq> NUL then pad - 1 else pad)
      in if int (length cp) < len then None
         else Some
           ((if zero_fill sp \<and> sign \<noteq> NUL then [sign] else []) @
            (if \<not> pad_on_right sp then replicate (nat pad) (if zero_fill sp then CHR ''0'' else CHR '' '') else []) @
            (if \<not> zero_fill sp \<and> sign \<noteq> NUL then [sign] else []) @
            replicate (nat prec) (CHR ''0'') @
            take (nat len) cp @
            (if pad_on_right sp then replicate (nat pad) (CHR '' '') else [])))"

subsection \<open>The interpreter\<close>

lemma next_char_length: "next_char fmt = Some (c, fmt') \<Longrightarrow> length fmt' < length fmt"
  by (cases fmt) auto

lemma scan_number_length: "scan_number n c fmt = Some (m, c', fmt') \<Longrightarrow> length fmt' \<le> length fmt"
  by (induction n c fmt rule: scan_number.induct) (auto simp: Let_def split: if_splits)

lemma parse_spec_length: "parse_spec fmt = Some (sp, c, fmt') \<Longrightarrow> length fmt' < length fmt"
  unfolding parse_spec_def
  by (fastforce dest!: next_char_length scan_number_length split: if_splits Option.bind_splits)

text \<open>\<open>length\<close> keeps its value from one conversion to the next: the printing loop leaves -1 behind,
  or one less than before when there was nothing to print.\<close>

function vprintf_loop ::
    "string \<Rightarrow> va_arg list \<Rightarrow> int \<Rightarrow> string \<Rightarrow> string \<Rightarrow> int \<Rightarrow> (string \<times> int) option" where
  "vprintf_loop fmt args len buf out res =
     (case fmt of
        [] \<Rightarrow> None
      | c # fmt1 \<Rightarrow>
          if c = NUL then Some (out, res)
          else if c = CHR ''%'' then
            (case parse_spec fmt1 of
               None \<Rightarrow> None
             | Some (sp, c, fmt2) \<Rightarrow>
                (case fetch sp c args of
                   None \<Rightarrow> None
                 | Some (val, sign, args1) \<Rightarrow>
                    (case convert sp c val args1 len buf of
                       None \<Rightarrow> None
                     | Some (Printed ch, args2) \<Rightarrow> vprintf_loop fmt2 args2 len buf (out @ [ch]) (res + 1)
                     | Some (Field pre cnt sp1 len1 cp buf1, args2) \<Rightarrow>
                        (case print_field sp1 sign len1 cp of
                           None \<Rightarrow> None
                         | Some field \<Rightarrow>
                             vprintf_loop fmt2 args2 (if 0 < len1 then -1 else len1 - 1) buf1
                               (out @ pre @ field) (res + cnt + int (length field))))))
          else vprintf_loop fmt1 args len buf (out @ [c]) (res + 1))"
  by pat_completeness auto
termination
  by (relation "measure (\<lambda>(fmt, args, len, buf, out, res). length fmt)") (auto dest: parse_spec_length)

declare vprintf_loop.simps [simp del]

fun put_string :: "(char \<Rightarrow> 's \<Rightarrow> 's option) \<Rightarrow> string \<Rightarrow> 's \<Rightarrow> 's option" where
  "put_string putc [] s = Some s"
| "put_string putc (c # cs) s = do { s1 \<leftarrow> putc c s; put_string putc cs s1 }"

definition subcore_vprintf ::
    "(char \<Rightarrow> 's \<Rightarrow> 's option) \<Rightarrow> string \<Rightarrow> string \<Rightarrow> va_arg list \<Rightarrow> 's \<Rightarrow> (int \<times> 's) option" where
  "subcore_vprintf putc buf0 fmt args s = do {
     (out, res) \<leftarrow> vprintf_loop (fmt @ [NUL]) args 0 buf0 [] 0;
     s1 \<leftarrow> put_string putc out s;
     Some (res, s1)
   }"

subsection \<open>Numerals\<close>

text \<open>The value of a numeral, most significant digit first.\<close>

definition digit_index :: "string \<Rightarrow> char \<Rightarrow> nat" where
  "digit_index digits c = length (takeWhile (\<lambda>d. d \<noteq> c) digits)"

definition number_of :: "string \<Rightarrow> nat \<Rightarrow> string \<Rightarrow> nat" where
  "number_of digits radix ds = foldl (\<lambda>v c. v * radix + digit_index digits c) 0 ds"

definition radix_ok :: "u64 \<Rightarrow> string \<Rightarrow> bool" where
  "radix_ok radix digits \<longleftrightarrow> 2 \<le> unat radix \<and> length digits = unat radix \<and> distinct digits"

lemma digit_index_nth: "distinct digits \<Longrightarrow> i < length digits \<Longrightarrow> digit_index digits (digits ! i) = i"
proof (induction digits arbitrary: i)
  case (Cons d ds)
  then show ?case by (cases i) (auto simp: digit_index_def in_set_conv_nth)
qed simp

lemma cvt_loop_value:
  assumes "radix_ok radix digits"
  shows "foldl (\<lambda>v c. v * unat radix + digit_index digits c) 0 (cvt_loop radix digits val temp) =
    foldl (\<lambda>v c. v * unat radix + digit_index digits c) (unat val) temp"
  using assms
proof (induction radix digits val temp rule: cvt_loop.induct)
  case (1 radix digits val temp)
  then have r: "2 \<le> unat radix" "length digits = unat radix" "distinct digits" by (simp_all add: radix_ok_def)
  then have "\<not> radix < 2" by (simp add: word_less_nat_alt not_less)
  show ?case
  proof (cases "val = 0")
    case False
    have "digit_index digits (digits ! unat (val mod radix)) = unat val mod unat radix"
      using r by (simp add: digit_index_nth unat_mod_distrib)
    then show ?thesis
      using 1 False \<open>\<not> radix < 2\<close> by (subst cvt_loop.simps) (simp add: unat_div_distrib)
  qed (simp add: cvt_loop.simps)
qed

lemma cvt_loop_length:
  assumes "2 \<le> unat radix" and "unat val < unat radix ^ n"
  shows "length (cvt_loop radix digits val temp) \<le> n + length temp"
  using assms
proof (induction n arbitrary: val temp)
  case 0
  then show ?case by (simp add: cvt_loop.simps unat_eq_zero)
next
  case (Suc n)
  show ?case
  proof (cases "val = 0 \<or> radix < 2")
    case False
    have "unat val div unat radix < unat radix ^ n" using Suc.prems by (simp add: less_mult_imp_div_less mult.commute)
    then have "length (cvt_loop radix digits (val div radix) (digits ! unat (val mod radix) # temp)) \<le>
        n + length (digits ! unat (val mod radix) # temp)"
      using Suc.prems(1) by (intro Suc.IH) (simp_all add: unat_div_distrib)
    then show ?thesis using False by (subst cvt_loop.simps) simp
  qed (simp add: cvt_loop.simps)
qed

lemma cvt_loop_digits:
  assumes "radix_ok radix digits"
  shows "set (cvt_loop radix digits val temp) \<subseteq> set digits \<union> set temp"
  using assms
proof (induction radix digits val temp rule: cvt_loop.induct)
  case (1 radix digits val temp)
  have "unat (val mod radix) < length digits" using 1(2) by (simp add: radix_ok_def unat_mod_distrib)
  then have "digits ! unat (val mod radix) \<in> set digits" by simp
  with 1 show ?case by (subst cvt_loop.simps) auto
qed

lemma cvt_loop_lead:
  assumes "radix_ok radix digits" and "val \<noteq> 0"
  shows "\<exists>k ds. 0 < k \<and> k < length digits \<and> cvt_loop radix digits val temp = digits ! k # ds"
  using assms
proof (induction radix digits val temp rule: cvt_loop.induct)
  case (1 radix digits val temp)
  have r: "2 \<le> unat radix" "length digits = unat radix" using 1(2) by (simp_all add: radix_ok_def)
  then have nr: "\<not> radix < 2" by (simp add: word_less_nat_alt not_less)
  show ?case
  proof (cases "val div radix = 0")
    case True
    then have "unat val < unat radix" using r by (simp add: word_unat_eq_iff unat_div_distrib div_eq_0_iff)
    moreover have "0 < unat val" using 1(3) by (simp add: unat_gt_0)
    ultimately show ?thesis
      using 1(3) True nr r by (subst cvt_loop.simps) (auto simp: cvt_loop.simps [of _ _ 0] unat_mod_distrib intro!: exI [of _ "unat val"])
  next
    case False
    with 1 nr show ?thesis by (subst cvt_loop.simps) simp
  qed
qed

definition printf_radix :: "(u64 \<times> string) set" where
  "printf_radix = {(10, ''0123456789''), (16, ''0123456789abcdef''), (16, ''0123456789ABCDEF'')}"

lemma printf_radix_ok: "(radix, digits) \<in> printf_radix \<Longrightarrow> radix_ok radix digits"
  by (auto simp: printf_radix_def radix_ok_def)

lemma cvt_length: "(radix, digits) \<in> printf_radix \<Longrightarrow> length (cvt val radix digits) \<le> 20"
proof -
  assume r: "(radix, digits) \<in> printf_radix"
  have v: "unat val < 2 ^ 64" by (rule order.strict_trans2 [OF unsigned_less]) simp
  have "unat val < unat radix ^ 20" using r v by (auto simp: printf_radix_def)
  moreover have "2 \<le> unat radix" using r by (auto simp: printf_radix_def)
  ultimately show ?thesis using cvt_loop_length [of radix val 20 digits "[]"] by (simp add: cvt_def)
qed

lemma cvt_value: "(radix, digits) \<in> printf_radix \<Longrightarrow> number_of digits (unat radix) (cvt val radix digits) = unat val"
  using cvt_loop_value [OF printf_radix_ok, of radix digits val "[]"]
  by (auto simp: cvt_def number_of_def printf_radix_def digit_index_def)

lemma cvt_digits: "(radix, digits) \<in> printf_radix \<Longrightarrow> set (cvt val radix digits) \<subseteq> set digits"
  using cvt_loop_digits [OF printf_radix_ok, of radix digits val "[]"] by (auto simp: cvt_def printf_radix_def)

lemma cvt_lead:
  assumes r: "(radix, digits) \<in> printf_radix" and v: "val \<noteq> 0"
  shows "cvt val radix digits \<noteq> [] \<and> hd (cvt val radix digits) \<noteq> CHR ''0''"
proof -
  obtain k ds where k: "0 < k" "k < length digits" and d: "cvt_loop radix digits val [] = digits ! k # ds"
    using cvt_loop_lead [OF printf_radix_ok [OF r] v, of "[]"] by (elim exE conjE) (rule that; assumption)
  have "digits ! k \<noteq> digits ! 0"
    using k printf_radix_ok [OF r] by (auto simp: radix_ok_def nth_eq_iff_index_eq)
  moreover have "digits ! 0 = CHR ''0''" using r by (auto simp: printf_radix_def)
  ultimately show ?thesis using d v by (simp add: cvt_def)
qed

text \<open>C31. Every numeral the interpreter prints is right: for each of the three radix and digit tables
  it uses, the characters of a 64 bit value are digits of the table that read back as the value, at
  most twenty of them (so they and the terminator fit the buffer of 64), without a leading zero
  unless the value is zero, which is the one character 0.\<close>

theorem cvt_numeral:
  assumes "(radix, digits) \<in> printf_radix"
  shows "number_of digits (unat radix) (cvt val radix digits) = unat val \<and>
    set (cvt val radix digits) \<subseteq> set digits \<and> length (cvt val radix digits) \<le> 20 \<and>
    (if val = 0 then cvt val radix digits = ''0'' else hd (cvt val radix digits) \<noteq> CHR ''0'')"
  using cvt_value [OF assms] cvt_digits [OF assms] cvt_length [OF assms] cvt_lead [OF assms] by (simp add: cvt_def)

theorem cvt_numeral_witness:
  "(16, ''0123456789abcdef'') \<in> printf_radix \<and> cvt 0x1f3 16 ''0123456789abcdef'' = ''1f3''
   \<and> number_of ''0123456789abcdef'' (unat (16 :: u64)) (cvt 0x1f3 16 ''0123456789abcdef'') = unat (0x1f3 :: u64)"
proof -
  have r: "(16 :: u64, ''0123456789abcdef'') \<in> printf_radix" by (simp add: printf_radix_def)
  have "cvt 0x1f3 16 ''0123456789abcdef'' = ''1f3''" by (simp add: cvt_def cvt_loop.simps)
  with r cvt_numeral [OF r] show ?thesis by blast
qed

subsection \<open>The types a format asks for\<close>

datatype va_type = TInt | TLong | TLLong | TStr

fun type_of :: "va_arg \<Rightarrow> va_type" where
  "type_of (VInt _) = TInt"
| "type_of (VLong _) = TLong"
| "type_of (VLLong _) = TLLong"
| "type_of (VStr _) = TStr"

definition conv_types :: "fspec \<Rightarrow> char \<Rightarrow> va_type list" where
  "conv_types sp c =
     (if c \<in> set ''pdDxXuUbB'' then [if islonglong sp then TLLong else if islong sp \<or> c = CHR ''p'' then TLong else TInt]
      else if c \<in> set ''sS'' then [TStr] else if c \<in> set ''cC'' then [TInt] else [])"

definition conv_fits :: "fspec \<Rightarrow> char \<Rightarrow> bool" where
  "conv_fits sp c \<longleftrightarrow> (c \<in> set ''bB'' \<longrightarrow> left_prec sp \<le> 64)"

text \<open>The argument types of a format with its terminator, in order; a format that ends inside a
  conversion, has a width beyond \<open>int\<close> or a binary conversion wider than the buffer has none.\<close>

function fmt_types :: "string \<Rightarrow> va_type list option" where
  "fmt_types fmt =
     (case fmt of
        [] \<Rightarrow> None
      | c # fmt1 \<Rightarrow>
          if c = NUL then Some []
          else if c = CHR ''%'' then
            (case parse_spec fmt1 of
               None \<Rightarrow> None
             | Some (sp, c, fmt2) \<Rightarrow> if conv_fits sp c then map_option ((@) (conv_types sp c)) (fmt_types fmt2) else None)
          else fmt_types fmt1)"
  by pat_completeness auto
termination by (relation "measure length") (auto dest: parse_spec_length)

declare fmt_types.simps [simp del]

fun well_typed :: "va_arg list \<Rightarrow> va_type list \<Rightarrow> bool" where
  "well_typed args [] = True"
| "well_typed [] (t # ts) = False"
| "well_typed (a # args) (t # ts) = (type_of a = t \<and> well_typed args ts)"

lemma is_digit_int: "is_digit c \<Longrightarrow> 48 \<le> (of_char c :: int)"
  by (simp add: is_digit_def) (metis of_nat_of_char of_nat_le_iff of_nat_numeral)

lemma scan_number_ge: "scan_number n c fmt = Some (m, c', fmt') \<Longrightarrow> 0 \<le> n \<Longrightarrow> 0 \<le> m"
proof (induction n c fmt rule: scan_number.induct)
  case (2 n c d fmt)
  then show ?case using is_digit_int [of c] by (simp add: Let_def split: if_splits)
qed (auto split: if_splits)

lemma parse_spec_ge: "parse_spec fmt = Some (sp, c, fmt') \<Longrightarrow> 0 \<le> left_prec sp \<and> 0 \<le> right_prec sp"
  unfolding parse_spec_def
  by (fastforce dest!: scan_number_ge split: if_splits Option.bind_splits)

lemma va_int_types:
  assumes c: "c \<in> set ''pdDxXuUbB''" and sp: "sp' = (if c = CHR ''p'' then sp\<lparr>islong := True\<rparr> else sp)"
  shows "(case va_int sp' args of None \<Rightarrow> \<not> well_typed args (conv_types sp c @ ts)
          | Some (val, args1) \<Rightarrow> well_typed args (conv_types sp c @ ts) = well_typed args1 ts)"
proof (cases args)
  case (Cons a as)
  show ?thesis using c unfolding Cons conv_types_def sp by (cases a) auto
qed (use c in \<open>simp add: conv_types_def\<close>)

text \<open>Fetching and converting one argument succeeds on the types of the conversion and consumes them.\<close>

lemma number_field_cvt:
  "(radix, digits) \<in> printf_radix \<Longrightarrow> number_field pre sp (cvt val radix digits) buf =
     Some (Field pre 0 sp (int (length (cvt val radix digits))) (to_buf (cvt val radix digits) buf)
            (to_buf (cvt val radix digits) buf))"
  using cvt_length [of radix digits val] by (simp add: number_field_def)

lemmas number_fields =
  number_field_cvt [of 10 "''0123456789''", simplified printf_radix_def, simplified]
  number_field_cvt [of 16 "''0123456789abcdef''", simplified printf_radix_def, simplified]
  number_field_cvt [of 16 "''0123456789ABCDEF''", simplified printf_radix_def, simplified]

lemma to_buf_length [simp]: "length ds < 64 \<Longrightarrow> length buf = 64 \<Longrightarrow> length (to_buf ds buf) = 64"
  by (simp add: to_buf_def)

lemma binary_digits_length [simp]: "n \<le> 64 \<Longrightarrow> length buf = 64 \<Longrightarrow> length (binary_digits val n buf) = 64"
  by (simp add: binary_digits_def)

lemma cvt_fits [simp]:
  "length (cvt val 10 ''0123456789'') < 64" "length (cvt val 16 ''0123456789abcdef'') < 64"
  "length (cvt val 16 ''0123456789ABCDEF'') < 64"
  using cvt_length [of 10 "''0123456789''" val] cvt_length [of 16 "''0123456789abcdef''" val]
    cvt_length [of 16 "''0123456789ABCDEF''" val]
  by (simp_all add: printf_radix_def)

lemma fetch_num:
  assumes "c \<in> set ''pdDxXuUbB''"
  shows "case fetch sp c args of None \<Rightarrow> \<not> well_typed args (conv_types sp c @ ts)
    | Some (val, sign, args1) \<Rightarrow> well_typed args (conv_types sp c @ ts) = well_typed args1 ts"
proof -
  let ?sp = "if c = CHR ''p'' then sp\<lparr>islong := True\<rparr> else sp"
  have va: "case va_int ?sp args of None \<Rightarrow> \<not> well_typed args (conv_types sp c @ ts)
      | Some (val, args1) \<Rightarrow> well_typed args (conv_types sp c @ ts) = well_typed args1 ts"
    by (rule va_int_types [OF assms refl])
  have f: "fetch sp c args = Option.bind (va_int ?sp args) (\<lambda>(val, args).
      if c = CHR ''d'' \<or> c = CHR ''D'' then
        if sint val < 0 then Some (- val, CHR ''-'', args) else Some (val, NUL, args)
      else if islonglong ?sp then Some (val, NUL, args) else Some (val AND 0xffffffff, NUL, args))"
    using assms by (simp only: fetch_def if_True Let_def)
  show ?thesis
  proof (cases "va_int ?sp args")
    case None
    then show ?thesis using va unfolding f by simp
  next
    case (Some p)
    then show ?thesis using va unfolding f by (cases p) auto
  qed
qed

lemma fetch_other: "c \<notin> set ''pdDxXuUbB'' \<Longrightarrow> fetch sp c args = Some (0, NUL, args)"
  by (simp add: fetch_def)

text \<open>What a field needs for the rest of the loop body to stay inside the buffer.\<close>

fun conv_ok :: "conv \<Rightarrow> bool" where
  "conv_ok (Printed ch) = True"
| "conv_ok (Field pre cnt sp len cp buf) \<longleftrightarrow> len \<le> int (length cp) \<and> length buf = 64"

lemma convert_num:
  assumes "c \<in> set ''pdDxXuUbB''" and "length buf = 64" and "0 \<le> left_prec sp"
  shows "case convert sp c val args len buf of None \<Rightarrow> \<not> conv_fits sp c
    | Some (f, args1) \<Rightarrow> conv_fits sp c \<and> conv_ok f \<and> args1 = args"
proof -
  from assms(1) have "c = CHR ''p'' \<or> c = CHR ''x'' \<or> c = CHR ''X'' \<or>
      (c = CHR ''d'' \<or> c = CHR ''D'' \<or> c = CHR ''u'' \<or> c = CHR ''U'') \<or> c = CHR ''b'' \<or> c = CHR ''B''" by auto
  then show ?thesis
    using assms(2,3)
    by (elim disjE) (simp_all add: convert_def number_fields conv_fits_def Let_def less_imp_le)
qed

lemma convert_other:
  assumes "c \<notin> set ''pdDxXuUbB''" and "length buf = 64" and "len \<le> 0"
  shows "conv_fits sp c" and
    "case convert sp c val args len buf of None \<Rightarrow> \<not> well_typed args (conv_types sp c @ ts)
     | Some (f, args1) \<Rightarrow> conv_ok f \<and> well_typed args (conv_types sp c @ ts) = well_typed args1 ts"
proof -
  show "conv_fits sp c" using assms(1) by (auto simp: conv_fits_def)
  show "case convert sp c val args len buf of None \<Rightarrow> \<not> well_typed args (conv_types sp c @ ts)
     | Some (f, args1) \<Rightarrow> conv_ok f \<and> well_typed args (conv_types sp c @ ts) = well_typed args1 ts"
  proof (cases args)
    case Nil
    then show ?thesis using assms by (simp add: convert_def conv_types_def)
  next
    case (Cons a as)
    then show ?thesis using assms by (cases a) (auto simp: convert_def conv_types_def Let_def split: option.split)
  qed
qed

lemma convert_types:
  assumes "length buf = 64" and "len \<le> 0" and "0 \<le> left_prec sp"
  shows "case Option.bind (fetch sp c args) (\<lambda>(val, sign, args1). convert sp c val args1 len buf) of
      None \<Rightarrow> \<not> (conv_fits sp c \<and> well_typed args (conv_types sp c @ ts))
    | Some (f, args2) \<Rightarrow> conv_fits sp c \<and> conv_ok f \<and> well_typed args (conv_types sp c @ ts) = well_typed args2 ts"
proof (cases "c \<in> set ''pdDxXuUbB''")
  case True
  show ?thesis
  proof (cases "fetch sp c args")
    case None
    then show ?thesis using fetch_num [OF True, where sp = sp and args = args and ts = ts] by simp
  next
    case (Some p)
    obtain val sign args1 where p: "p = (val, sign, args1)" by (cases p)
    show ?thesis
      using fetch_num [OF True, where sp = sp and args = args and ts = ts] convert_num [OF True assms(1,3), where val = val and args = args1 and len = len] Some p
      by (auto split: option.split_asm)
  qed
next
  case False
  then show ?thesis
    using convert_other(1) [OF False assms(1,2), of sp]
      convert_other(2) [OF False assms(1,2), where sp = sp and args = args and ts = ts and val = 0] fetch_other [OF False, where sp = sp and args = args]
    by (simp del: set_simps split: option.splits prod.splits)
qed

lemma print_field_ok: "print_field sp sign len cp \<noteq> None \<longleftrightarrow> len \<le> int (length cp)"
  by (simp add: print_field_def Let_def)

lemma vprintf_loop_simps [simp]:
  "vprintf_loop [] args len buf out res = None"
  "vprintf_loop (NUL # fmt) args len buf out res = Some (out, res)"
  "c \<noteq> NUL \<Longrightarrow> c \<noteq> CHR ''%'' \<Longrightarrow>
    vprintf_loop (c # fmt) args len buf out res = vprintf_loop fmt args len buf (out @ [c]) (res + 1)"
  by (simp_all add: vprintf_loop.simps [of "_ # _"] vprintf_loop.simps [of "[]"])

lemma fmt_types_simps [simp]:
  "fmt_types [] = None"
  "fmt_types (NUL # fmt) = Some []"
  "c \<noteq> NUL \<Longrightarrow> c \<noteq> CHR ''%'' \<Longrightarrow> fmt_types (c # fmt) = fmt_types fmt"
  by (simp_all add: fmt_types.simps [of "_ # _"] fmt_types.simps [of "[]"])

lemmas percent_simps = vprintf_loop.simps [of "CHR ''%'' # _"] fmt_types.simps [of "CHR ''%'' # _"]

lemma fmt_cases:
  obtains "fmt = []" | fmt1 where "fmt = NUL # fmt1"
    | c fmt1 where "fmt = c # fmt1" "c \<noteq> NUL" "c \<noteq> CHR ''%''" | fmt1 where "fmt = CHR ''%'' # fmt1"
  by (metis list.exhaust)

text \<open>One conversion, given the claim for the rest of the format.\<close>

lemma percent_types:
  assumes p: "parse_spec fmt1 = Some (sp, c, fmt2)" and prems: "length buf = 64" "len \<le> 0"
    and IH: "\<And>args len buf out res. length buf = 64 \<Longrightarrow> len \<le> 0 \<Longrightarrow> vprintf_loop fmt2 args len buf out res = None \<longleftrightarrow>
      (case fmt_types fmt2 of None \<Rightarrow> True | Some ts \<Rightarrow> \<not> well_typed args ts)"
  shows "vprintf_loop (CHR ''%'' # fmt1) args len buf out res = None \<longleftrightarrow>
    (case fmt_types (CHR ''%'' # fmt1) of None \<Rightarrow> True | Some ts \<Rightarrow> \<not> well_typed args ts)"
proof -
  let ?step = "Option.bind (fetch sp c args) (\<lambda>(val, sign, args1). convert sp c val args1 len buf)"
  have ct: "case ?step of
      None \<Rightarrow> \<not> (conv_fits sp c \<and> well_typed args (conv_types sp c @ ts))
    | Some (f, args2) \<Rightarrow> conv_fits sp c \<and> conv_ok f \<and>
        well_typed args (conv_types sp c @ ts) = well_typed args2 ts" for ts
    using convert_types prems parse_spec_ge [OF p] by blast
  show ?thesis
  proof (cases ?step)
    case None
    then show ?thesis using ct by (auto simp: percent_simps p bind_eq_None_conv split: option.split)
  next
    case (Some q)
    then obtain val sign args1 f args2 where q: "fetch sp c args = Some (val, sign, args1)"
        "convert sp c val args1 len buf = Some (f, args2)"
      by (cases q) (auto simp: bind_eq_Some_conv)
    have c: "conv_fits sp c" "conv_ok f" and wt: "well_typed args (conv_types sp c @ ts) = well_typed args2 ts" for ts
      using ct q by auto
    show ?thesis
    proof (cases f)
      case (Printed ch)
      then show ?thesis using q c wt IH [OF prems] by (simp add: percent_simps p split: option.split)
    next
      case (Field pre cnt sp1 len1 cp buf1)
      then obtain field where "print_field sp1 sign len1 cp = Some field"
        using c(2) print_field_ok [of sp1 sign len1 cp] by auto
      then show ?thesis using q c wt Field IH [of buf1] by (simp add: percent_simps p split: option.split)
    qed
  qed
qed

lemma vprintf_loop_types:
  "length buf = 64 \<Longrightarrow> len \<le> 0 \<Longrightarrow> vprintf_loop fmt args len buf out res = None \<longleftrightarrow>
    (case fmt_types fmt of None \<Rightarrow> True | Some ts \<Rightarrow> \<not> well_typed args ts)"
proof (induction fmt arbitrary: args len buf out res rule: measure_induct_rule [of length])
  case (less fmt)
  show ?case
  proof (cases fmt rule: fmt_cases)
    case (3 c fmt1)
    then show ?thesis using less.IH [of fmt1 buf len] less.prems by simp
  next
    case (4 fmt1)
    show ?thesis
    proof (cases "parse_spec fmt1")
      case None
      then show ?thesis unfolding 4 by (simp add: percent_simps)
    next
      case (Some p)
      then obtain sp c fmt2 where p: "parse_spec fmt1 = Some (sp, c, fmt2)" by (cases p) auto
      have "length fmt2 < length fmt" using parse_spec_length [OF p] by (simp add: 4)
      from percent_types [OF p less.prems less.IH [OF this]] show ?thesis unfolding 4 .
    qed
  qed simp_all
qed



subsection \<open>What is printed and what is counted\<close>

text \<open>Characters a format sends to \<open>putc\<close> that its result leaves out: the percent sign of \<open>%%\<close> and the
  \<open>0x\<close> of \<open>%p\<close>.\<close>

function uncounted :: "string \<Rightarrow> nat" where
  "uncounted fmt =
     (case fmt of
        [] \<Rightarrow> 0
      | c # fmt1 \<Rightarrow>
          if c = NUL then 0
          else if c = CHR ''%'' then
            (case parse_spec fmt1 of
               None \<Rightarrow> 0
             | Some (sp, c, fmt2) \<Rightarrow> (if c = CHR ''p'' then 2 else if c = CHR ''%'' then 1 else 0) + uncounted fmt2)
          else uncounted fmt1)"
  by pat_completeness auto
termination by (relation "measure length") (auto dest: parse_spec_length)

declare uncounted.simps [simp del]

lemma uncounted_simps [simp]:
  "uncounted (NUL # fmt) = 0"
  "c \<noteq> NUL \<Longrightarrow> c \<noteq> CHR ''%'' \<Longrightarrow> uncounted (c # fmt) = uncounted fmt"
  by (simp_all add: uncounted.simps [of "_ # _"])

lemma conv_char_cases:
  obtains "c = CHR ''p''" | "c = CHR ''x''" | "c = CHR ''X''" | "c \<in> {CHR ''d'', CHR ''D'', CHR ''u'', CHR ''U''}"
    | "c = CHR ''s'' \<or> c = CHR ''S''" | "c = CHR ''c'' \<or> c = CHR ''C''" | "c = CHR ''b'' \<or> c = CHR ''B''"
    | "c \<notin> set ''pxXdDuUsScCbB''"
  by fastforce

fun conv_count :: "char \<Rightarrow> conv \<Rightarrow> bool" where
  "conv_count c (Printed ch) \<longleftrightarrow> c = CHR ''c'' \<or> c = CHR ''C''"
| "conv_count c (Field pre cnt sp len cp buf) \<longleftrightarrow>
     int (length pre) = cnt + (if c = CHR ''p'' then 2 else if c = CHR ''%'' then 1 else 0)"

lemma convert_count:
  assumes a: "convert sp c val args len buf = Some (f, args1)"
  shows "conv_count c f"
proof (cases c rule: conv_char_cases)
  case 4
  with a show ?thesis by (auto simp: convert_def number_fields)
next
  case 5
  with a show ?thesis by (elim disjE) (simp_all add: convert_def Let_def bind_eq_Some_conv split: if_split_asm, auto)
next
  case 6
  with a show ?thesis by (elim disjE) (simp_all add: convert_def split: list.splits va_arg.splits, auto)
next
  case 7
  then show ?thesis
  proof
    assume "c = CHR ''b''"
    with a show ?thesis by (simp add: convert_def Let_def split: if_split_asm) auto
  next
    assume "c = CHR ''B''"
    with a show ?thesis by (simp add: convert_def Let_def split: if_split_asm) auto
  qed
next
  case 8
  with a show ?thesis by (cases "c = CHR ''%''") (simp_all add: convert_def, auto)
qed (use a in \<open>simp add: convert_def number_fields, auto\<close>)+

text \<open>The width of a field.\<close>

lemma print_field_length:
  assumes "print_field sp sign len cp = Some field" and "0 \<le> len" and "0 \<le> left_prec sp"
  shows "int (length field) = max (left_prec sp) (max len (right_prec sp) + (if sign = NUL then 0 else 1))"
  using assms by (auto simp: print_field_def Let_def split: if_splits)

lemma vprintf_loop_count:
  "vprintf_loop fmt args len buf out res = Some (out', res') \<Longrightarrow>
    int (length out') - res' = int (length out) - res + int (uncounted fmt)"
proof (induction fmt arbitrary: args len buf out res rule: measure_induct_rule [of length])
  case (less fmt)
  show ?case
  proof (cases fmt rule: fmt_cases)
    case (3 c fmt1)
    then show ?thesis using less.IH [of fmt1] less.prems by simp
  next
    case (4 fmt1)
    obtain sp c fmt2 where p: "parse_spec fmt1 = Some (sp, c, fmt2)"
      using less.prems unfolding 4 by (auto simp: percent_simps split: option.splits)
    have IH: "vprintf_loop fmt2 args2 len2 buf2 out2 res2 = Some (out', res') \<Longrightarrow>
        int (length out') - res' = int (length out2) - res2 + int (uncounted fmt2)" for args2 len2 buf2 out2 res2
      using less.IH parse_spec_length [OF p] by (simp add: 4)
    have u: "uncounted fmt = (if c = CHR ''p'' then 2 else if c = CHR ''%'' then 1 else 0) + uncounted fmt2"
      unfolding 4 by (simp add: uncounted.simps [of "_ # _"] p)
    obtain val sign args1 f args2 where q: "fetch sp c args = Some (val, sign, args1)"
        "convert sp c val args1 len buf = Some (f, args2)"
      using less.prems unfolding 4 by (auto simp: percent_simps p split: option.splits)
    show ?thesis
    proof (cases f)
      case (Printed ch)
      then have "c = CHR ''c'' \<or> c = CHR ''C''" using convert_count [OF q(2)] by simp
      then show ?thesis using less.prems q Printed u IH unfolding 4 by (auto simp: percent_simps p)
    next
      case (Field pre cnt sp1 len1 cp buf1)
      then obtain field where "print_field sp1 sign len1 cp = Some field"
        "vprintf_loop fmt2 args2 (if 0 < len1 then -1 else len1 - 1) buf1 (out @ pre @ field)
           (res + cnt + int (length field)) = Some (out', res')"
        using less.prems q unfolding 4 by (auto simp: percent_simps p split: option.splits)
      then show ?thesis using convert_count [OF q(2)] Field u by (auto dest!: IH)
    qed
  qed (use less.prems in auto)
qed



lemma vprintf_loop_text:
  "CHR ''%'' \<notin> set t \<Longrightarrow> NUL \<notin> set t \<Longrightarrow>
    vprintf_loop (t @ fmt) args len buf out res = vprintf_loop fmt args len buf (out @ t) (res + int (length t))"
proof (induction t arbitrary: out res)
  case (Cons c t)
  then have "c \<noteq> CHR ''%''" "c \<noteq> NUL" by auto
  with Cons show ?case by (simp add: add.assoc)
qed simp

text \<open>The decimal numeral of an integer that fits \<open>long long\<close>.\<close>

definition decimal :: "int \<Rightarrow> string" where
  "decimal i = (if i < 0 then ''-'' else []) @ cvt (word_of_int \<bar>i\<bar>) 10 ''0123456789''"

lemma sint_u32: "- 2147483648 \<le> sint (x :: u32)" "sint (x :: u32) < 2147483648"
  using sint_ge [of x] sint_lt [of x] by simp_all

lemma scast_sint: "sint (scast (x :: u32) :: u64) = sint x"
  using sint_u32 [of x] by (simp add: signed_scast_eq signed_take_bit_int_eq_self)

lemma scast_abs:
  fixes x :: u32
  shows "(if sint x < 0 then - scast x else scast x) = (word_of_int \<bar>sint x\<bar> :: u64)"
  by (simp add: of_int_sint)

lemma parse_d: "parse_spec (CHR ''d'' # fmt) = Some (\<lparr>left_prec = 0, right_prec = 0, zero_fill = False,
    pad_on_right = False, islong = False, islonglong = False\<rparr>, CHR ''d'', fmt)"
proof -
  have "scan_number 0 (CHR ''d'') fmt = Some (0, CHR ''d'', fmt)" by (cases fmt) (simp_all add: is_digit_def)
  then show ?thesis by (simp add: parse_spec_def)
qed

lemma cvt_no_minus: "CHR ''-'' \<notin> set (cvt val 10 ''0123456789'')"
  using cvt_digits [of 10 "''0123456789''" val] by (auto simp: printf_radix_def)

lemma cvt_not_Nil: "cvt val 10 ''0123456789'' \<noteq> []"
  using cvt_lead [of 10 "''0123456789''" val] by (cases "val = 0") (auto simp: printf_radix_def cvt_def)

lemma print_decimal:
  "print_field \<lparr>left_prec = 0, right_prec = 0, zero_fill = False, pad_on_right = False, islong = False,
     islonglong = False\<rparr> sign (int (length ds)) (to_buf ds buf) = Some ((if sign = NUL then [] else [sign]) @ ds)"
  by (simp add: print_field_def Let_def to_buf_def)

lemma vprintf_loop_d:
  "vprintf_loop (CHR ''%'' # CHR ''d'' # fmt) (VInt x # args) len buf out res =
     vprintf_loop fmt args (-1) (to_buf (cvt (word_of_int \<bar>sint x\<bar>) 10 ''0123456789'') buf)
       (out @ decimal (sint x)) (res + int (length (decimal (sint x))))"
proof -
  let ?ds = "cvt (word_of_int \<bar>sint x\<bar>) 10 ''0123456789''"
  have "0 < length ?ds" using cvt_not_Nil by simp
  moreover have "fetch \<lparr>left_prec = 0, right_prec = 0, zero_fill = False, pad_on_right = False, islong = False,
     islonglong = False\<rparr> (CHR ''d'') (VInt x # args) =
     Some (word_of_int \<bar>sint x\<bar>, if sint x < 0 then CHR ''-'' else NUL, args)"
    using scast_abs [of x] by (simp add: fetch_def scast_sint split: if_splits)
  ultimately show ?thesis
    by (simp add: percent_simps parse_d convert_def number_fields print_decimal decimal_def)
qed

lemma decimal_sign: "(hd (decimal i) = CHR ''-'') = (i < 0)"
  using cvt_no_minus [of "word_of_int \<bar>i\<bar>"] cvt_not_Nil [of "word_of_int \<bar>i\<bar>"]
  by (cases "cvt (word_of_int \<bar>i\<bar>) 10 ''0123456789''") (auto simp: decimal_def)

lemma decimal_value:
  assumes "- (2 ^ 63) \<le> i" and "i < 2 ^ 63"
  shows "number_of ''0123456789'' 10 (dropWhile ((=) (CHR ''-'')) (decimal i)) = nat \<bar>i\<bar>"
proof -
  let ?ds = "cvt (word_of_int \<bar>i\<bar>) 10 ''0123456789''"
  have r: "(10 :: u64, ''0123456789'') \<in> printf_radix" by (simp add: printf_radix_def)
  have "dropWhile ((=) (CHR ''-'')) ?ds = ?ds" using cvt_no_minus [of "word_of_int \<bar>i\<bar>"] by (cases ?ds) auto
  then have "dropWhile ((=) (CHR ''-'')) (decimal i) = ?ds" by (auto simp: decimal_def)
  moreover have "unat (word_of_int \<bar>i\<bar> :: u64) = nat \<bar>i\<bar>"
    using assms by (simp add: unat_eq_nat_uint uint_word_of_int_eq take_bit_int_eq_self)
  ultimately show ?thesis using cvt_value [OF r, of "word_of_int \<bar>i\<bar>"] by simp
qed

text \<open>C32. Decimal conversions print the number: a format of plain text around \<open>%d\<close> sends the text
  unchanged with the decimal numeral of the argument between, a minus sign exactly for a negative
  number and digits that read back as its absolute value, the least \<open>int\<close> included; the result is
  the number of characters.\<close>

theorem vprintf_decimal:
  assumes "CHR ''%'' \<notin> set pre \<union> set post" and "NUL \<notin> set pre \<union> set post"
  shows "vprintf_loop ((pre @ ''%d'' @ post) @ [NUL]) [VInt x] 0 buf [] 0 =
      Some (pre @ decimal (sint x) @ post, int (length (pre @ decimal (sint x) @ post))) \<and>
    (hd (decimal (sint x)) = CHR ''-'') = (sint x < 0) \<and>
    number_of ''0123456789'' 10 (dropWhile ((=) (CHR ''-'')) (decimal (sint x))) = nat \<bar>sint x\<bar>"
proof (intro conjI)
  show "vprintf_loop ((pre @ ''%d'' @ post) @ [NUL]) [VInt x] 0 buf [] 0 =
      Some (pre @ decimal (sint x) @ post, int (length (pre @ decimal (sint x) @ post)))"
    using assms by (simp add: vprintf_loop_text vprintf_loop_d vprintf_loop_text [of post "[NUL]"])
  show "(hd (decimal (sint x)) = CHR ''-'') = (sint x < 0)" by (rule decimal_sign)
  show "number_of ''0123456789'' 10 (dropWhile ((=) (CHR ''-'')) (decimal (sint x))) = nat \<bar>sint x\<bar>"
    using sint_u32 [of x] by (intro decimal_value) simp_all
qed

theorem vprintf_decimal_witness:
  "vprintf_loop ((''t='' @ ''%d'' @ '' ms'') @ [NUL]) [VInt 0xfffffff4] 0 (replicate 64 NUL) [] 0 =
     Some (''t='' @ decimal (-12) @ '' ms'', 8) \<and> decimal (-12) = ''-12''"
proof -
  have d: "decimal (-12) = ''-12''" by code_simp
  have i: "sint (0xfffffff4 :: u32) = -12" by simp
  show ?thesis
    using d i vprintf_decimal [of "''t=''" "'' ms''" "0xfffffff4" "replicate 64 NUL"] by simp
qed

end
