(* ===== verification/Amp_Service.thy ===== *)
theory Amp_Service
  imports Amp_Rpmsg_Link Amp_Print
begin

text \<open>
  System services of the maincore for the subcore, src/components/esp_amp/system/esp_amp_service.c,
  and the routing of subcore output over them, the second half of system/esp_amp_print.c. The subcore
  puts a request into a buffer of a virtual queue, the supplicant task of the maincore takes it out,
  serves it and returns the buffer. The only service is printing a line.
\<close>

subsection \<open>Requests\<close>

definition SERVICE_QUEUE_LEN :: u16 where "SERVICE_QUEUE_LEN = 16"
definition SERVICE_QUEUE_ITEM_SIZE :: u16 where "SERVICE_QUEUE_ITEM_SIZE = 128"
definition SYSTEM_SERVICE_ID_PRINT :: u16 where "SYSTEM_SERVICE_ID_PRINT = 1"

text \<open>\<open>srv_pkt_hdr_t\<close>: \<open>srv_id\<close> at offset 0, \<open>param_len\<close> at 2, \<open>param\<close> at 4.\<close>

definition pkt_srv_id :: "memory \<Rightarrow> ptr \<Rightarrow> u16" where "pkt_srv_id m pkt = load16 m pkt"
definition pkt_param_len :: "memory \<Rightarrow> ptr \<Rightarrow> u16" where "pkt_param_len m pkt = load16 m (pkt + 2)"
definition offsetof_param :: u32 where "offsetof_param = 4"

definition put_srv_hdr :: "memory \<Rightarrow> ptr \<Rightarrow> u16 \<Rightarrow> u16 \<Rightarrow> memory" where
  "put_srv_hdr m pkt srv_id param_len = store16 (store16 m pkt srv_id) (pkt + 2) param_len"

text \<open>The static variables of the component. \<open>supplicant_daemon\<close> is the handle of the task.\<close>

record 'f service =
  service_queue :: "'f esp_amp_queue"
  s_system_service_ready :: bool
  supplicant_daemon :: ptr

definition esp_amp_system_service_recv_request ::
    "'z config \<Rightarrow> 'f service \<Rightarrow> 'z core_scheme \<Rightarrow>
     (int \<times> (u16 \<times> ptr \<times> u16) option \<times> 'f service \<times> 'z core_scheme) option" where
  "esp_amp_system_service_recv_request c srv s = do {
     let s1 = esp_amp_env_enter_critical c s;
     (ret, pkt, pkt_len, q, s2) \<leftarrow> esp_amp_queue_recv_try c (service_queue srv) s1;
     let s3 = esp_amp_env_exit_critical c s2;
     let srv1 = srv\<lparr>service_queue := q\<rparr>;
     if ret \<noteq> ESP_OK then Some (-1, None, srv1, s3)
     else Some (0, Some (pkt_srv_id (mem s3) pkt, pkt + offsetof_param, pkt_param_len (mem s3) pkt), srv1, s3)
   }"

definition esp_amp_system_service_destroy_request ::
    "'z config \<Rightarrow> ptr \<Rightarrow> 'f service \<Rightarrow> 'z core_scheme \<Rightarrow> (esp_err \<times> 'f service \<times> 'z core_scheme) option" where
  "esp_amp_system_service_destroy_request c buf srv s = do {
     let pkt = buf - offsetof_param;
     let s1 = esp_amp_env_enter_critical c s;
     (ret, q, s2) \<leftarrow> esp_amp_queue_free_try c (service_queue srv) pkt s1;
     Some (ret, srv\<lparr>service_queue := q\<rparr>, esp_amp_env_exit_critical c s2)
   }"

definition esp_amp_system_get_supplicant :: "'f service \<Rightarrow> ptr" where
  "esp_amp_system_get_supplicant srv = supplicant_daemon srv"

text \<open>The result, \<open>*buf\<close> and \<open>*max_len\<close>.\<close>

definition esp_amp_system_service_create_request ::
    "'z config \<Rightarrow> 'f service \<Rightarrow> 'z core_scheme \<Rightarrow> (int \<times> ptr \<times> u16 \<times> 'f service \<times> 'z core_scheme) option" where
  "esp_amp_system_service_create_request c srv s = do {
     let s1 = esp_amp_env_enter_critical c s;
     (ret, pkt, q, s2) \<leftarrow> esp_amp_queue_alloc_try c (service_queue srv) SERVICE_QUEUE_ITEM_SIZE s1;
     let s3 = esp_amp_env_exit_critical c s2;
     let srv1 = srv\<lparr>service_queue := q\<rparr>;
     if ret \<noteq> ESP_OK then Some (-1, NULL, 0, srv1, s3)
     else Some (0, pkt + offsetof_param, SERVICE_QUEUE_ITEM_SIZE - 4, srv1, s3\<lparr>mem := put_srv_hdr (mem s3) pkt 0xffff 0\<rparr>)
   }"

definition esp_amp_system_service_send_request ::
    "('f \<Rightarrow> ptr \<Rightarrow> 'z core_scheme \<Rightarrow> (int \<times> 'z core_scheme) option) \<Rightarrow> 'z config \<Rightarrow> u16 \<Rightarrow> ptr \<Rightarrow> u16 \<Rightarrow>
     'f service \<Rightarrow> 'z core_scheme \<Rightarrow> (int \<times> 'f service \<times> 'z core_scheme) option" where
  "esp_amp_system_service_send_request call c srv_id param param_len srv s = do {
     let pkt = param - offsetof_param;
     let s1 = esp_amp_env_enter_critical c (s\<lparr>mem := put_srv_hdr (mem s) pkt srv_id param_len\<rparr>);
     (ret, q, s2) \<leftarrow> esp_amp_queue_send_try call c (service_queue srv) pkt SERVICE_QUEUE_ITEM_SIZE s1;
     let s3 = esp_amp_env_exit_critical c s2;
     Some (if ret \<noteq> ESP_OK then -1 else 0, srv\<lparr>service_queue := q\<rparr>, s3)
   }"

subsection \<open>Callbacks and initialisation\<close>

text \<open>\<open>notify\<close> is \<open>xTaskNotifyFromISR\<close> with the yield that follows it, \<open>task_create\<close> is
  \<open>xTaskCreateStatic\<close> on the supplicant task; both belong to FreeRTOS.\<close>

definition recv_cb ::
    "(ptr \<Rightarrow> 'z core_scheme \<Rightarrow> 'z core_scheme) \<Rightarrow> 'f service \<Rightarrow> ptr \<Rightarrow> 'z core_scheme \<Rightarrow> (int \<times> 'z core_scheme) option" where
  "recv_cb notify srv args s =
     (if supplicant_daemon srv \<noteq> NULL then Some (0, notify (supplicant_daemon srv) s) else Some (0, s))"

definition notify_cb :: "'z config \<Rightarrow> ptr \<Rightarrow> 'z core_scheme \<Rightarrow> (int \<times> 'z core_scheme) option" where
  "notify_cb c args s = do {
     s1 \<leftarrow> esp_amp_sw_intr_trigger c SW_INTR_RESERVED_ID_SYS_SVC s;
     Some (0, s1)
   }"

text \<open>\<open>f_recv\<close> and \<open>f_notify\<close> are the function pointers of the two callbacks. A failing assertion is
  \<open>None\<close>.\<close>

definition esp_amp_system_service_init ::
    "(u32 \<Rightarrow> nat) \<Rightarrow> 'f \<Rightarrow> 'f \<Rightarrow> (('f, 'z) amp \<Rightarrow> ptr \<times> ('f, 'z) amp) \<Rightarrow> ('f, 'z) amp_config \<Rightarrow>
     'f service \<Rightarrow> ('f, 'z) amp \<Rightarrow> (int \<times> 'f service \<times> ('f, 'z) amp) option" where
  "esp_amp_system_service_init clz f_recv f_notify task_create c srv s =
     (if IS_MAIN_CORE c then do {
        (ret, q, s1) \<leftarrow> esp_amp_queue_main_init clz c SERVICE_QUEUE_LEN SERVICE_QUEUE_ITEM_SIZE (Some f_recv) NULL False
                           SYS_INFO_RESERVED_ID_SYSTEM s;
        (case q of
           None \<Rightarrow> None
         | Some q \<Rightarrow> if ret \<noteq> ESP_OK then None else do {
             (ret, s2) \<leftarrow> esp_amp_queue_intr_enable c q SW_INTR_RESERVED_ID_SYS_SVC s1;
             if ret \<noteq> ESP_OK then None
             else let (task, s3) = task_create s2
                  in if task = NULL then None
                     else Some (0, srv\<lparr>service_queue := q, supplicant_daemon := task, s_system_service_ready := True\<rparr>, s3)
           })
      } else do {
        (ret, q, s1) \<leftarrow> esp_amp_queue_sub_init c (Some f_notify) NULL True SYS_INFO_RESERVED_ID_SYSTEM s;
        (case q of
           None \<Rightarrow> None
         | Some q \<Rightarrow> if ret \<noteq> ESP_OK then None
             else Some (0, srv\<lparr>service_queue := q, s_system_service_ready := True\<rparr>, s1))
      })"

definition esp_amp_system_service_is_ready :: "'f service \<Rightarrow> bool" where
  "esp_amp_system_service_is_ready srv \<longleftrightarrow> s_system_service_ready srv"

subsection \<open>The supplicant\<close>

text \<open>A C string in memory; \<open>None\<close> when no terminator follows.\<close>

partial_function (option) c_string :: "memory \<Rightarrow> ptr \<Rightarrow> string option" where
  "c_string m p =
     (if load8 m p = 0 then Some []
      else do { cs \<leftarrow> c_string m (p + 1); Some (char_of (unat (load8 m p)) # cs) })"

text \<open>\<open>puts\<close> on the console of the maincore, which is the list of the lines written.\<close>

definition esp_amp_system_service_print :: "ptr \<Rightarrow> u16 \<Rightarrow> memory \<Rightarrow> string list \<Rightarrow> string list option" where
  "esp_amp_system_service_print param param_len m console = map_option (\<lambda>l. console @ [l]) (c_string m param)"

text \<open>
  The flag that \<open>handle_subcore_panic\<close> tests is set by an interrupt: \<open>panicked k\<close> is its value at the
  \<open>k\<close>-th test. When it is set the handler is called and the task sleeps for ever, which is the result
  \<open>True\<close>. \<open>route\<close> is the configuration option \<open>ROUTE_SUBCORE_PRINT\<close>.
\<close>

definition handle_subcore_panic :: "(nat \<Rightarrow> bool) \<Rightarrow> nat \<Rightarrow> bool \<times> nat" where
  "handle_subcore_panic panicked k = (panicked k, Suc k)"

partial_function (option) serve_requests ::
    "bool \<Rightarrow> (nat \<Rightarrow> bool) \<Rightarrow> 'z config \<Rightarrow> nat \<Rightarrow> 'f service \<Rightarrow> 'z core_scheme \<Rightarrow> string list \<Rightarrow>
     (bool \<times> nat \<times> 'f service \<times> 'z core_scheme \<times> string list) option" where
  "serve_requests route panicked c k srv s console = do {
     (ret, req, srv1, s1) \<leftarrow> esp_amp_system_service_recv_request c srv s;
     (case req of
        None \<Rightarrow> Some (False, k, srv1, s1, console)
      | Some (srv_id, param, param_len) \<Rightarrow> do {
          console1 \<leftarrow> (if route \<and> srv_id = SYSTEM_SERVICE_ID_PRINT
                        then esp_amp_system_service_print param param_len (mem s1) console else Some console);
          (_, srv2, s2) \<leftarrow> esp_amp_system_service_destroy_request c param srv1 s1;
          let (stop, k1) = handle_subcore_panic panicked k;
          if stop then Some (True, k1, srv2, s2, console1)
          else serve_requests route panicked c k1 srv2 s2 console1
        })
   }"

text \<open>What the task does from one notification to the next.\<close>

definition supplicant_round ::
    "bool \<Rightarrow> (nat \<Rightarrow> bool) \<Rightarrow> 'z config \<Rightarrow> nat \<Rightarrow> 'f service \<Rightarrow> 'z core_scheme \<Rightarrow> string list \<Rightarrow>
     (bool \<times> nat \<times> 'f service \<times> 'z core_scheme \<times> string list) option" where
  "supplicant_round route panicked c k srv s console =
     (let (stop, k1) = handle_subcore_panic panicked k
      in if stop then Some (True, k1, srv, s, console)
         else serve_requests route panicked c k1 srv s console)"

subsection \<open>Routing of subcore output\<close>

text \<open>
  The static variables of \<open>virtqueue_send_char\<close> with the state they work on. \<open>uart\<close> is what went out on
  the serial port. While the subcore waits for a buffer the maincore returns some: \<open>peer k\<close> is what it
  did to the shared memory before the \<open>k\<close>-th reading of the clock, \<open>now k\<close> is that reading.
\<close>

record ('f, 'z) printer =
  pbuf :: ptr
  pbuf_len :: u16
  ppos :: u16
  psrv :: "'f service"
  pcore :: "'z core_scheme"
  puart :: string
  ptick :: nat

partial_function (option) create_retry ::
    "(nat \<Rightarrow> memory \<Rightarrow> memory) \<Rightarrow> (nat \<Rightarrow> int) \<Rightarrow> 'z config \<Rightarrow> u32 \<Rightarrow> ('f, 'z) printer \<Rightarrow> ('f, 'z) printer option" where
  "create_retry peer now c cur_time p =
     (let k = ptick p; p1 = p\<lparr>ptick := Suc k\<rparr>
      in if now k - uint cur_time < 10 then do {
           let s = (pcore p)\<lparr>mem := peer k (mem (pcore p))\<rparr>;
           (ret, buf, len, srv, s1) \<leftarrow> esp_amp_system_service_create_request c (psrv p) s;
           let p2 = p1\<lparr>pbuf := buf, pbuf_len := len, psrv := srv, pcore := s1\<rparr>;
           if ret = 0 then Some p2 else create_retry peer now c cur_time p2
         } else Some p1)"

definition create_buffer ::
    "(nat \<Rightarrow> memory \<Rightarrow> memory) \<Rightarrow> (nat \<Rightarrow> int) \<Rightarrow> 'z config \<Rightarrow> ('f, 'z) printer \<Rightarrow> ('f, 'z) printer option" where
  "create_buffer peer now c p = do {
     (ret, buf, len, srv, s) \<leftarrow> esp_amp_system_service_create_request c (psrv p) (pcore p);
     let p1 = p\<lparr>pbuf := buf, pbuf_len := len, psrv := srv, pcore := s\<rparr>;
     if ret \<noteq> 0 then create_retry peer now c (word_of_int (now (ptick p1))) (p1\<lparr>ptick := Suc (ptick p1)\<rparr>)
     else Some p1
   }"

definition byte_of :: "char \<Rightarrow> u8" where "byte_of ch = word_of_nat (of_char ch)"

text \<open>The line is terminated, and the line feed with it.\<close>

definition end_line :: "memory \<Rightarrow> ptr \<Rightarrow> u16 \<Rightarrow> memory" where
  "end_line m buf pos =
     (let m1 = store8 m (buf + ucast pos) 0
      in if 1 \<le> pos \<and> load8 m1 (buf + ucast (pos - 1)) = 10 then store8 m1 (buf + ucast (pos - 1)) 0
         else if 2 \<le> pos \<and> load8 m1 (buf + ucast (pos - 2)) = 13 \<and> load8 m1 (buf + ucast (pos - 1)) = 10
         then store8 m1 (buf + ucast (pos - 2)) 0 else m1)"

text \<open>Writing the character, and sending the line when it is complete or the buffer is full.\<close>

definition put_char ::
    "('f \<Rightarrow> ptr \<Rightarrow> 'z core_scheme \<Rightarrow> (int \<times> 'z core_scheme) option) \<Rightarrow> 'z config \<Rightarrow> char \<Rightarrow> ('f, 'z) printer \<Rightarrow>
     ('f, 'z) printer option" where
  "put_char call c ch p =
     (let buf = pbuf p;
          s1 = (pcore p)\<lparr>mem := store8 (mem (pcore p)) (buf + ucast (ppos p)) (byte_of ch)\<rparr>;
          pos = ppos p + 1
      in if uint pos = uint (pbuf_len p) - 1 \<or> ch = CHR 0x0A then do {
           (_, srv, s2) \<leftarrow> esp_amp_system_service_send_request call c SYSTEM_SERVICE_ID_PRINT buf (pos + 1) (psrv p)
                             (s1\<lparr>mem := end_line (mem s1) buf pos\<rparr>);
           Some (p\<lparr>pbuf := NULL, ppos := 0, psrv := srv, pcore := s2\<rparr>)
         } else Some (p\<lparr>ppos := pos, pcore := s1\<rparr>))"

definition virtqueue_send_char ::
    "('f \<Rightarrow> ptr \<Rightarrow> 'z core_scheme \<Rightarrow> (int \<times> 'z core_scheme) option) \<Rightarrow> (nat \<Rightarrow> memory \<Rightarrow> memory) \<Rightarrow> (nat \<Rightarrow> int) \<Rightarrow>
     'z config \<Rightarrow> char \<Rightarrow> ('f, 'z) printer \<Rightarrow> ('f, 'z) printer option" where
  "virtqueue_send_char call peer now c ch p =
     (if ch = NUL then Some p
      else if pbuf p = NULL then
        if \<not> esp_amp_system_service_is_ready (psrv p) then Some (p\<lparr>puart := puart p @ [ch]\<rparr>)
        else do {
          p1 \<leftarrow> create_buffer peer now c p;
          if pbuf p1 = NULL then Some p1 else put_char call c ch p1
        }
      else put_char call c ch p)"

text \<open>The serial port: \<open>subcore_uart_putchar\<close>, and \<open>subcore_putchar\<close> where output is not routed.\<close>

definition subcore_uart_putchar :: "char \<Rightarrow> ('f, 'z) printer \<Rightarrow> ('f, 'z) printer option" where
  "subcore_uart_putchar ch p = Some (p\<lparr>puart := puart p @ [ch]\<rparr>)"

definition subcore_putchar ::
    "bool \<Rightarrow> ('f \<Rightarrow> ptr \<Rightarrow> 'z core_scheme \<Rightarrow> (int \<times> 'z core_scheme) option) \<Rightarrow> (nat \<Rightarrow> memory \<Rightarrow> memory) \<Rightarrow> (nat \<Rightarrow> int) \<Rightarrow>
     'z config \<Rightarrow> char \<Rightarrow> ('f, 'z) printer \<Rightarrow> ('f, 'z) printer option" where
  "subcore_putchar route call peer now c ch p =
     (if route then virtqueue_send_char call peer now c ch p else subcore_uart_putchar ch p)"

definition esp_amp_subcore_early_printf ::
    "string \<Rightarrow> string \<Rightarrow> va_arg list \<Rightarrow> ('f, 'z) printer \<Rightarrow> (int \<times> ('f, 'z) printer) option" where
  "esp_amp_subcore_early_printf buf0 format args p = subcore_vprintf subcore_uart_putchar buf0 format args p"

definition esp_amp_subcore_printf ::
    "bool \<Rightarrow> ('f \<Rightarrow> ptr \<Rightarrow> 'z core_scheme \<Rightarrow> (int \<times> 'z core_scheme) option) \<Rightarrow> (nat \<Rightarrow> memory \<Rightarrow> memory) \<Rightarrow> (nat \<Rightarrow> int) \<Rightarrow>
     'z config \<Rightarrow> string \<Rightarrow> string \<Rightarrow> va_arg list \<Rightarrow> ('f, 'z) printer \<Rightarrow> (int \<times> ('f, 'z) printer) option" where
  "esp_amp_subcore_printf route call peer now c buf0 format args p =
     subcore_vprintf (subcore_putchar route call peer now c) buf0 format args p"

definition esp_amp_subcore_puts ::
    "bool \<Rightarrow> ('f \<Rightarrow> ptr \<Rightarrow> 'z core_scheme \<Rightarrow> (int \<times> 'z core_scheme) option) \<Rightarrow> (nat \<Rightarrow> memory \<Rightarrow> memory) \<Rightarrow> (nat \<Rightarrow> int) \<Rightarrow>
     'z config \<Rightarrow> string \<Rightarrow> ('f, 'z) printer \<Rightarrow> (int \<times> ('f, 'z) printer) option" where
  "esp_amp_subcore_puts route call peer now c str p =
     map_option (Pair 0) (put_string (subcore_putchar route call peer now c) str p)"

definition esp_amp_subcore_putchar ::
    "bool \<Rightarrow> ('f \<Rightarrow> ptr \<Rightarrow> 'z core_scheme \<Rightarrow> (int \<times> 'z core_scheme) option) \<Rightarrow> (nat \<Rightarrow> memory \<Rightarrow> memory) \<Rightarrow> (nat \<Rightarrow> int) \<Rightarrow>
     'z config \<Rightarrow> u32 \<Rightarrow> ('f, 'z) printer \<Rightarrow> (u32 \<times> ('f, 'z) printer) option" where
  "esp_amp_subcore_putchar route call peer now c ch p =
     map_option (Pair ch) (subcore_putchar route call peer now c (char_of (unat ch)) p)"

end
