(* ===== verification/Amp_Service_Link.thy ===== *)
theory Amp_Service_Link
  imports Amp_Service
begin

text \<open>
  System services over a virtual queue: a request written by the subcore is served by the supplicant
  of the maincore, and a line the subcore prints appears on the console of the maincore.
\<close>

subsection \<open>Requests\<close>

text \<open>A buffer of the service queue, apart from the ring and the light sleep counter.\<close>

definition item_apart :: "ptr \<Rightarrow> ptr \<Rightarrow> nat \<Rightarrow> 'z core_scheme \<Rightarrow> bool" where
  "item_apart b d n s \<longleftrightarrow> span b 128 \<inter> ring d n = {} \<and> lp_access_hp_cnt s \<notin> span b 128"

lemma put_srv_hdr_effect:
  "pkt_srv_id (put_srv_hdr m b i l) b = i" "pkt_param_len (put_srv_hdr m b i l) b = l"
  "agree (- span b 4) (put_srv_hdr m b i l) m"
proof -
  have "span b 2 \<subseteq> span b 4" "span (b + 2) 2 \<subseteq> span b 4" by (rule span_sub; simp)+
  then show "agree (- span b 4) (put_srv_hdr m b i l) m"
    unfolding put_srv_hdr_def by (intro frame_intros agree_refl) auto
qed (simp_all add: put_srv_hdr_def pkt_srv_id_def pkt_param_len_def mem_simps)

lemma item_parts: "span b 4 \<subseteq> span b 128" "span (b + 4) 124 \<subseteq> span b 128" "span b 4 \<inter> span (b + 4) 124 = {}" for b :: ptr
proof -
  show "span b 4 \<subseteq> span b 128" "span (b + 4) 124 \<subseteq> span b 128" by (rule span_sub; simp)+
  show "span b 4 \<inter> span (b + 4) 124 = {}" by (rule disj_Int) (simp add: disj_def)
qed

lemma create_request_effect:
  assumes ref: "refines n d 128 a (service_queue srv) qr (mem s)" and pc: "port_ok c" and rdy: "pm_ready c d (8 * n) s"
    and fb: "free_bufs a = b # bs" and ap: "item_apart b d n s"
  obtains q s' where "esp_amp_system_service_create_request c srv s = Some (0, b + 4, 124, srv\<lparr>service_queue := q\<rparr>, s')"
    "refines n d 128 (a\<lparr>free_bufs := bs, held_m := Suc (held_m a)\<rparr>) q qr (mem s')" "pm_held c d n s'"
    "lp_access_hp_cnt s' = lp_access_hp_cnt s"
    "notify_fc q = notify_fc (service_queue srv)" "priv_data q = priv_data (service_queue srv)"
proof -
  let ?s1 = "esp_amp_env_enter_critical c s"
  have rdy1: "pm_ready c d (8 * n) ?s1" using rdy pc by (simp add: pm_ready_def pm_cnt_def)
  obtain ret b' q s2 a' where al: "esp_amp_queue_alloc_try c (service_queue srv) 128 ?s1 = Some (ret, b', q, s2)"
    and aq: "aq_alloc 128 128 a = (ret, b', a')" and ref2: "refines n d 128 a' q qr (mem s2)"
    using alloc_refines [OF _ pc rdy1, of 128 a "service_queue srv" qr 128] ref pc by auto
  have ok: "ret = ESP_OK" "b' = b" "a' = a\<lparr>free_bufs := bs, held_m := Suc (held_m a)\<rparr>" using aq fb by auto
  note k = alloc_try_keeps [OF al [unfolded ok(1)]]
  have fr: "pm_frame c ?s1 s2" using pm_enter_frame [OF pc] k(1) by simp
  define s3 where "s3 = esp_amp_env_exit_critical c s2"
  have lp: "lp_access_hp_cnt s3 = lp_access_hp_cnt s" using fr pc by (simp add: s3_def pm_frame_def)
  have held: "pm_held c d n s3"
    using pm_ready_enter(2,3) [OF pc rdy1] k(1) pc by (simp add: pm_held_def pm_cnt_def ring_def s3_def)
  define m where "m = put_srv_hdr (mem s3) b 0xffff 0"
  have ag: "agree (- span b 4) m (mem s3)" unfolding m_def by (rule put_srv_hdr_effect)
  have "refines n d 128 a' q qr m"
    using refines_cong [of n d 128 a' q qr "mem s3" m] ref2 ap item_parts(1) [of b] agree_mono [OF agree_sym [OF ag], of "ring d n"] pc
    by (auto simp: s3_def item_apart_def)
  moreover have "pm_held c d n (s3\<lparr>mem := m\<rparr>)"
    using held ap item_parts(1) [of b] lp by (intro pm_held_store agree_mono [OF ag]) (auto simp: item_apart_def)
  moreover have "esp_amp_system_service_create_request c srv s = Some (0, b + 4, 124, srv\<lparr>service_queue := q\<rparr>, s3\<lparr>mem := m\<rparr>)"
    using al ok by (simp add: esp_amp_system_service_create_request_def SERVICE_QUEUE_ITEM_SIZE_def offsetof_param_def
        s3_def [symmetric] m_def)
  ultimately show thesis using that [of q "s3\<lparr>mem := m\<rparr>"] ok(3) lp k by simp
qed

lemma send_request_effect:
  assumes ref: "refines n d 128 a (service_queue srv) qr (mem s)" and pc: "port_ok c" and held: "pm_held c d n s"
    and nf: "notify_ok call c d n (service_queue srv)" "notify_keeps call (service_queue srv) (span b 128)"
    and ap: "item_apart b d n s" and hm: "held_m a \<noteq> 0"
  shows "\<exists>ret q s'. esp_amp_system_service_send_request call c sid (b + 4) len srv s =
      Some (ret, srv\<lparr>service_queue := q\<rparr>, s') \<and>
    refines n d 128 (a\<lparr>msgs := msgs a @ [(b, 128)], held_m := held_m a - 1\<rparr>) q qr (mem s') \<and>
    agree (span (b + 4) 124) (mem s') (mem s) \<and> pkt_srv_id (mem s') b = sid \<and> pkt_param_len (mem s') b = len \<and>
    (notify_fc (service_queue srv) = None \<longrightarrow> ret = 0)"
proof -
  define m where "m = put_srv_hdr (mem s) b sid len"
  note h = put_srv_hdr_effect [where m = "mem s" and b = b and i = sid and l = len, folded m_def]
  define s1 where "s1 = esp_amp_env_enter_critical c (s\<lparr>mem := m\<rparr>)"
  have s1: "mem s1 = m" "lp_access_hp_cnt s1 = lp_access_hp_cnt s" using pc by (simp_all add: s1_def)
  note sub = item_parts [of b]
  have "agree (ring d n) (mem s) m"
    using ap sub by (intro agree_mono [OF agree_sym [OF h(3)]]) (auto simp: item_apart_def)
  then have ref1: "refines n d 128 a (service_queue srv) qr (mem s1)" using refines_cong [OF ref] s1 by simp
  have "pm_held c d n (s\<lparr>mem := m\<rparr>)"
    using held ap sub by (intro pm_held_store agree_mono [OF h(3)]) (auto simp: item_apart_def)
  then have held1: "pm_held c d n s1" using pc by (simp add: pm_held_def pm_cnt_def s1_def)
  obtain ret q s2 a' r where snd: "esp_amp_queue_send_try call c (service_queue srv) b 128 s1 = Some (ret, q, s2)"
    and aq: "aq_send 128 b 128 a = (r, a')" and ref2: "refines n d 128 a' q qr (mem s2)"
    and rr: "r = ESP_OK \<and> notify_fc (service_queue srv) \<noteq> None \<or> ret = r"
    using send_refines [OF ref1 pc held1 nf(1), of b 128] by blast
  have ok: "r = ESP_OK" "a' = a\<lparr>msgs := msgs a @ [(b, 128)], held_m := held_m a - 1\<rparr>" using aq hm by auto
  have ag: "agree (span b 128) (mem s2) m"
    using send_try_frame [OF ref1 pc _ _ nf snd] ap s1 by (simp add: item_apart_def)
  have "agree (span (b + 4) 124) (mem s2) (mem s)"
    by (rule agree_trans [OF agree_mono [OF ag sub(2)] agree_mono [OF h(3)]]) (use sub(3) in auto)
  moreover have "pkt_srv_id (mem s2) b = sid" "pkt_param_len (mem s2) b = len"
    using h(1,2) load16_cong [OF agree_mono [OF ag], of b] load16_cong [OF agree_mono [OF ag], of "b + 2"]
      span_sub [of b b 2 128] span_sub [of "b + 2" b 2 128]
    by (simp_all add: pkt_srv_id_def pkt_param_len_def)
  moreover have "esp_amp_system_service_send_request call c sid (b + 4) len srv s =
      Some (if ret \<noteq> ESP_OK then -1 else 0, srv\<lparr>service_queue := q\<rparr>, esp_amp_env_exit_critical c s2)"
    using snd by (simp add: esp_amp_system_service_send_request_def offsetof_param_def SERVICE_QUEUE_ITEM_SIZE_def s1_def m_def)
  ultimately show ?thesis using ref2 ok rr pc by auto
qed

subsection \<open>Strings in memory\<close>

text \<open>A print request in its buffer.\<close>

definition line_at :: "memory \<Rightarrow> ptr \<Rightarrow> string \<Rightarrow> bool" where
  "line_at m b line \<longleftrightarrow> pkt_srv_id m b = SYSTEM_SERVICE_ID_PRINT \<and> length line < 124 \<and> NUL \<notin> set line \<and>
     load_bytes m (b + 4) (length line) = map byte_of line \<and> load8 m (b + 4 + word_of_nat (length line)) = 0"

lemma byte_of_char: "unat (byte_of ch) = (of_char ch :: nat)"
  by (simp add: byte_of_def unat_of_nat_lt)

lemma byte_of_zero: "byte_of ch = 0 \<longleftrightarrow> ch = NUL"
proof -
  have "byte_of ch = 0 \<longleftrightarrow> (of_char ch :: nat) = 0" by (metis byte_of_char unat_eq_zero)
  also have "\<dots> \<longleftrightarrow> (of_char ch :: nat) = of_char NUL" by simp
  finally show ?thesis by (simp only: of_char_eq_iff)
qed

lemma c_string_bytes:
  "NUL \<notin> set cs \<Longrightarrow> load_bytes m p (length cs) = map byte_of cs \<Longrightarrow> load8 m (p + word_of_nat (length cs)) = 0 \<Longrightarrow>
    c_string m p = Some cs"
proof (induction cs arbitrary: p)
  case Nil
  then show ?case by (simp add: c_string.simps [of m p])
next
  case (Cons ch cs)
  have b: "m p = byte_of ch" "load_bytes m (p + 1) (length cs) = map byte_of cs"
    using Cons.prems(2) by (simp_all add: load_bytes_Suc)
  then have "c_string m (p + 1) = Some cs" using Cons by (simp add: add.assoc)
  moreover have "load8 m p = byte_of ch" "byte_of ch \<noteq> 0" using b(1) Cons.prems(1) byte_of_zero [of ch] by (auto simp: load8_def)
  ultimately show ?case by (subst c_string.simps) (simp add: byte_of_char)
qed

lemma line_at_string: "line_at m b line \<Longrightarrow> c_string m (b + 4) = Some line"
  unfolding line_at_def by (intro c_string_bytes) auto

lemma line_at_cong:
  assumes "line_at m b line" and "agree (span b 128) m m'"
  shows "line_at m' b line"
proof -
  have l: "length line < 124" using assms(1) by (simp add: line_at_def)
  have "load16 m b = load16 m' b"
    by (intro load16_cong agree_mono [OF assms(2)] span_sub) simp
  moreover have "load_bytes m (b + 4) (length line) = load_bytes m' (b + 4) (length line)"
    using l by (intro load_bytes_cong agree_mono [OF assms(2)] span_sub) simp_all
  moreover have "load8 m (b + 4 + word_of_nat (length line)) = load8 m' (b + 4 + word_of_nat (length line))"
  proof (intro load8_cong agree_mono [OF assms(2)] span_sub)
    have "unat (b + 4 + word_of_nat (length line) - b) = 4 + length line"
      using l by (simp add: unat_word_ariths unat_of_nat32)
    then show "unat (b + 4 + word_of_nat (length line) - b) + 1 \<le> 128" using l by simp
  qed
  ultimately show ?thesis using assms(1) by (simp add: line_at_def pkt_srv_id_def)
qed

subsection \<open>Collecting a line\<close>

text \<open>The printer has no buffer and starts at position zero, or a buffer of 124 bytes with room for
  another character and the terminator.\<close>

definition printer_ok :: "('f, 'z) printer \<Rightarrow> bool" where
  "printer_ok p \<longleftrightarrow> (if pbuf p = NULL then ppos p = 0 else pbuf_len p = 124 \<and> ppos p < 123)"

lemma ppos_room:
  assumes "(pos :: u16) < 123"
  shows "(ucast (pos + 1) :: u32) = ucast pos + 1" "unat (pos + 1) = Suc (unat pos)" "1 \<le> pos + 1"
    "buf + ucast pos \<in> span (buf :: ptr) 124" "buf + ucast pos + 1 \<in> span buf 124"
    "uint (pos + 1) = 1 + int (unat pos)"
proof -
  have u: "unat pos < 123" using assms by (simp add: word_less_nat_alt)
  then show e: "(ucast (pos + 1) :: u32) = ucast pos + 1" by (intro ucast_suc16) simp
  show s: "unat (pos + 1) = Suc (unat pos)" using u by (simp add: unat_word_ariths)
  then show "1 \<le> pos + 1" by (simp add: word_le_nat_alt)
  show "uint (pos + 1) = 1 + int (unat pos)" using s by (simp only: uint_nat of_nat_Suc)
  show "buf + ucast pos \<in> span buf 124" using u by (simp add: in_span_iff)
  have "unat (ucast (pos + 1) :: u32) < 124" using s u by simp
  then show "buf + ucast pos + 1 \<in> span buf 124" unfolding e by (simp add: in_span_iff add.assoc)
qed

text \<open>The second branch of the code cannot be taken.\<close>

lemma end_line_eq:
  "end_line m buf pos =
     (let m1 = store8 m (buf + ucast pos) 0
      in if 1 \<le> pos \<and> load8 m1 (buf + ucast (pos - 1)) = 10 then store8 m1 (buf + ucast (pos - 1)) 0 else m1)"
proof -
  have "1 \<le> pos" if "2 \<le> pos" using that by (simp add: word_le_nat_alt)
  then show ?thesis by (auto simp: end_line_def Let_def)
qed

text \<open>What is written stays within the buffer.\<close>

lemma end_line_effect:
  assumes "pos < 123" and "m' = end_line (store8 m (buf + ucast pos) (byte_of ch)) buf (pos + 1)"
  shows "agree (- span buf 124) m' m"
    and "ch = CHR 0x0A \<Longrightarrow> m' = store8 (store8 m (buf + ucast pos) 0) (buf + ucast pos + 1) 0"
proof -
  note r = ppos_room [OF assms(1)]
  show "agree (- span buf 124) m' m"
    unfolding assms(2) end_line_eq Let_def using r(4,5) [of buf] by (auto simp: r(1,3) agree_def store8_def add.assoc [symmetric])
  assume "ch = CHR 0x0A"
  then have "byte_of ch = 10" by (simp add: byte_of_def)
  then show "m' = store8 (store8 m (buf + ucast pos) 0) (buf + ucast pos + 1) 0"
    unfolding assms(2) end_line_eq Let_def by (simp add: r(1,3) load8_def store8_def add.assoc [symmetric] fun_upd_twist)
qed

lemma put_char_ok:
  assumes "printer_ok p" and "pbuf p \<noteq> NULL" and "put_char call c ch p = Some p'"
  shows "printer_ok p'"
proof -
  have pos: "ppos p < 123" and len: "pbuf_len p = 124" using assms(1,2) by (simp_all add: printer_ok_def)
  have "unat (ppos p) < 123" using pos by (simp add: word_less_nat_alt)
  moreover note ppos_room(6) [OF pos]
  ultimately have "unat (ppos p + 1) < 123" if "uint (ppos p + 1) \<noteq> 123"
    using that ppos_room(2) [OF pos] by linarith
  then have room: "ppos p + 1 < 123" if "uint (ppos p + 1) \<noteq> 123" using that by (simp add: word_less_nat_alt)
  show ?thesis
  proof (cases "uint (ppos p + 1) = 123 \<or> ch = CHR 0x0A")
    case True
    then obtain srv s where "p' = p\<lparr>pbuf := NULL, ppos := 0, psrv := srv, pcore := s\<rparr>"
      using assms(3) len by (auto simp: put_char_def Let_def split: Option.bind_splits)
    then show ?thesis by (simp add: printer_ok_def)
  next
    case False
    with assms(3) len obtain s where "p' = p\<lparr>ppos := ppos p + 1, pcore := s\<rparr>" by (auto simp: put_char_def Let_def)
    then show ?thesis using False room len assms(2) by (simp add: printer_ok_def)
  qed
qed

lemma create_request_buf:
  assumes "esp_amp_system_service_create_request c srv s = Some (ret, buf, len, srv', s')"
  shows "ret = 0 \<and> len = 124 \<or> ret \<noteq> 0 \<and> buf = NULL"
  using assms by (auto simp: esp_amp_system_service_create_request_def Let_def SERVICE_QUEUE_ITEM_SIZE_def
      split: if_splits Option.bind_splits)

lemma create_retry_ok:
  "create_retry peer now c t p = Some p' \<Longrightarrow> ppos p = 0 \<Longrightarrow> pbuf p = NULL \<Longrightarrow> printer_ok p'"
proof (induction rule: create_retry.raw_induct [rotated, consumes 1])
  case (1 rec peer now c t p p')
  show ?case
  proof (cases "now (ptick p) - uint t < 10")
    case False
    then show ?thesis using 1 by (auto simp: Let_def printer_ok_def)
  next
    case True
    then obtain ret buf len srv s1 where
      c: "esp_amp_system_service_create_request c (psrv p) ((pcore p)\<lparr>mem := peer (ptick p) (mem (pcore p))\<rparr>) = Some (ret, buf, len, srv, s1)"
      using 1(2) by (auto simp: Let_def split: Option.bind_splits)
    show ?thesis using 1 True c create_request_buf [OF c] by (auto simp: Let_def printer_ok_def split: if_splits)
  qed
qed

lemma create_buffer_ok:
  assumes "create_buffer peer now c p = Some p'" and "printer_ok p" and "pbuf p = NULL"
  shows "printer_ok p'"
proof -
  have pos: "ppos p = 0" using assms(2,3) by (simp add: printer_ok_def)
  obtain ret buf len srv s where c: "esp_amp_system_service_create_request c (psrv p) (pcore p) = Some (ret, buf, len, srv, s)"
    using assms(1) by (auto simp: create_buffer_def split: Option.bind_splits)
  show ?thesis
  proof (cases "ret = 0")
    case True
    then show ?thesis using assms(1) c create_request_buf [OF c] pos by (auto simp: create_buffer_def printer_ok_def)
  next
    case False
    then have "create_retry peer now c (word_of_int (now (ptick p)))
        (p\<lparr>pbuf := NULL, pbuf_len := len, psrv := srv, pcore := s, ptick := Suc (ptick p)\<rparr>) = Some p'"
      using assms(1) c create_request_buf [OF c] by (simp add: create_buffer_def)
    from create_retry_ok [OF this] show ?thesis using pos by simp
  qed
qed

lemma send_char_ok:
  assumes "virtqueue_send_char call peer now c ch p = Some p'" and "printer_ok p"
  shows "printer_ok p'"
proof -
  have uart: "printer_ok (p\<lparr>puart := x\<rparr>) = printer_ok p" for x by (simp add: printer_ok_def)
  show ?thesis
    using assms create_buffer_ok [of peer now c p] uart
    by (auto simp: virtqueue_send_char_def split: if_splits Option.bind_splits intro: put_char_ok)
qed

text \<open>Text without line feed is only collected.\<close>

lemma put_text:
  assumes "NUL \<notin> set cs" and "CHR 0x0A \<notin> set cs" and "pbuf p \<noteq> NULL" and "pbuf_len p = 124"
    and "unat (ppos p) + length cs < 123"
  shows "put_string (virtqueue_send_char call peer now c) cs p = Some (p\<lparr>ppos := ppos p + word_of_nat (length cs),
      pcore := (pcore p)\<lparr>mem := store_bytes (mem (pcore p)) (pbuf p + ucast (ppos p)) (map byte_of cs)\<rparr>\<rparr>)"
  using assms
proof (induction cs arbitrary: p)
  case Nil
  then show ?case by simp
next
  case (Cons ch cs)
  have pos: "ppos p < 123" using Cons.prems(5) by (simp add: word_less_nat_alt)
  note r = ppos_room [OF pos]
  define p1 where "p1 = p\<lparr>ppos := ppos p + 1,
      pcore := (pcore p)\<lparr>mem := store8 (mem (pcore p)) (pbuf p + ucast (ppos p)) (byte_of ch)\<rparr>\<rparr>"
  have "uint (ppos p + 1) \<noteq> 123" using r(6) Cons.prems(5) by (simp only: list.size)
  then have one: "virtqueue_send_char call peer now c ch p = Some p1"
    using Cons.prems by (auto simp: virtqueue_send_char_def put_char_def Let_def p1_def)
  have "put_string (virtqueue_send_char call peer now c) cs p1 = Some (p1\<lparr>ppos := ppos p1 + word_of_nat (length cs),
      pcore := (pcore p1)\<lparr>mem := store_bytes (mem (pcore p1)) (pbuf p1 + ucast (ppos p1)) (map byte_of cs)\<rparr>\<rparr>)"
    using Cons.prems r(2) by (intro Cons.IH) (simp_all add: p1_def)
  then show ?case using one r(1) by (simp add: p1_def store8_def add.assoc)
qed

text \<open>The line feed ends the line.\<close>

lemma store_bytes_snoc: "store_bytes m a (bs @ [x]) = (store_bytes m a bs)(a + word_of_nat (length bs) := x)"
  by (induction bs arbitrary: m a) (simp_all add: add.assoc)

lemma line_written:
  assumes "length line < 122" and "m' = store8 (store8 (store_bytes m b (map byte_of line)) (b + word_of_nat (length line)) 0)
      (b + word_of_nat (length line) + 1) 0"
  shows "load_bytes m' b (length line) = map byte_of line" "load8 m' (b + word_of_nat (length line)) = 0"
    "agree (- span b 124) m' m"
proof -
  let ?bs = "map byte_of line @ [0, 0]"
  have m': "m' = store_bytes m b ?bs"
    unfolding assms(2) using store_bytes_snoc [of m b "map byte_of line @ [0]" 0] store_bytes_snoc [of m b "map byte_of line" 0]
    by (simp add: store8_def add.assoc add.commute [of 1])
  have l: "load_bytes m' b (length line + 2) = ?bs"
    unfolding m' using load_store_bytes_same [of ?bs m b] assms(1) by simp
  have nth: "m' (b + word_of_nat i) = ?bs ! i" if "i < length line + 2" for i
    using that by (subst l [symmetric]) (simp add: load_bytes_def del: upt_Suc)
  show "load_bytes m' b (length line) = map byte_of line"
    by (rule nth_equalityI) (simp_all add: load_bytes_def nth nth_append)
  show "load8 m' (b + word_of_nat (length line)) = 0" using nth [of "length line"] by (simp add: load8_def nth_append)
  have "span b (length ?bs) \<subseteq> span b 124" using assms(1) by (intro span_sub) simp
  then show "agree (- span b 124) m' m" unfolding m' using assms(1) by (intro frame_intros agree_refl) auto
qed

subsection \<open>A printed line\<close>

text \<open>The conditions under which the subcore can print into the buffer \<open>b\<close>.\<close>

definition can_print ::
    "('f \<Rightarrow> ptr \<Rightarrow> 'z core_scheme \<Rightarrow> (int \<times> 'z core_scheme) option) \<Rightarrow> 'z config \<Rightarrow> ptr \<Rightarrow> nat \<Rightarrow> ptr \<Rightarrow> ('f, 'z) printer \<Rightarrow> bool" where
  "can_print call c d n b p \<longleftrightarrow> port_ok c \<and> pm_ready c d (8 * n) (pcore p) \<and> esp_amp_system_service_is_ready (psrv p) \<and>
     pbuf p = NULL \<and> ppos p = 0 \<and> b + 4 \<noteq> NULL \<and> item_apart b d n (pcore p) \<and>
     notify_ok call c d n (service_queue (psrv p)) \<and> notify_keeps call (service_queue (psrv p)) (span b 128)"

text \<open>A line feed behind text that is collected already.\<close>

lemma put_line_feed:
  assumes ref: "refines n d 128 a (service_queue (psrv p)) qr (mem (pcore p))" and pc: "port_ok c" and held: "pm_held c d n (pcore p)"
    and nf: "notify_ok call c d n (service_queue (psrv p))" "notify_keeps call (service_queue (psrv p)) (span b 128)"
    and ap: "item_apart b d n (pcore p)" and hm: "held_m a \<noteq> 0"
    and p: "pbuf p = b + 4" "pbuf_len p = 124" "ppos p = word_of_nat (length line)" and l: "length line < 122" "NUL \<notin> set line"
    and m: "mem (pcore p) = store_bytes m0 (b + 4) (map byte_of line)"
  shows "\<exists>q s'. put_char call c (CHR 0x0A) p = Some (p\<lparr>pbuf := NULL, ppos := 0, psrv := (psrv p)\<lparr>service_queue := q\<rparr>, pcore := s'\<rparr>) \<and>
    refines n d 128 (a\<lparr>msgs := msgs a @ [(b, 128)], held_m := held_m a - 1\<rparr>) q qr (mem s') \<and> line_at (mem s') b line"
proof -
  have pos: "ppos p < 123" using l(1) p(3) by (simp add: word_less_nat_alt unat_of_nat16)
  have up: "(ucast (ppos p) :: u32) = word_of_nat (length line)"
    using l(1) by (simp add: p(3) word_unat_eq_iff unat_of_nat16 unat_of_nat32)
  define m1 where "m1 = end_line (store8 (mem (pcore p)) (b + 4 + ucast (ppos p)) (byte_of (CHR 0x0A))) (b + 4) (ppos p + 1)"
  have "m1 = store8 (store8 (mem (pcore p)) (b + 4 + word_of_nat (length line)) 0) (b + 4 + word_of_nat (length line) + 1) 0"
    using end_line_effect(2) [OF pos m1_def refl] by (simp only: up)
  note w = line_written [OF l(1) this [unfolded m]] and e = end_line_effect(1) [OF pos m1_def]
  have out: "agree (ring d n) (mem (pcore p)) m1" "agree {lp_access_hp_cnt (pcore p)} m1 (mem (pcore p))"
    using ap item_parts(2) [of b] by (auto intro!: agree_mono [OF agree_sym [OF e]] agree_mono [OF e] simp: item_apart_def)
  have "item_apart b d n ((pcore p)\<lparr>mem := m1\<rparr>)" using ap by (simp add: item_apart_def)
  from send_request_effect [OF _ pc pm_held_store [OF held out(2)] nf this hm, of qr SYSTEM_SERVICE_ID_PRINT "ppos p + 1 + 1"]
    refines_cong [OF ref out(1)]
  obtain ret q s' where snd: "esp_amp_system_service_send_request call c SYSTEM_SERVICE_ID_PRINT (b + 4) (ppos p + 1 + 1) (psrv p)
      ((pcore p)\<lparr>mem := m1\<rparr>) = Some (ret, (psrv p)\<lparr>service_queue := q\<rparr>, s')"
    and r: "refines n d 128 (a\<lparr>msgs := msgs a @ [(b, 128)], held_m := held_m a - 1\<rparr>) q qr (mem s')"
    and ag: "agree (span (b + 4) 124) (mem s') m1" and id: "pkt_srv_id (mem s') b = SYSTEM_SERVICE_ID_PRINT" by auto
  have "load_bytes (mem s') (b + 4) (length line) = map byte_of line"
    using w(1) l(1) by (subst load_bytes_cong [OF agree_mono [OF ag]]) (auto intro!: span_sub)
  moreover have "load8 (mem s') (b + 4 + word_of_nat (length line)) = 0"
    using w(2) l(1) by (subst load8_cong [OF agree_mono [OF ag]]) (auto intro!: span_sub simp: unat_of_nat32)
  ultimately have "line_at (mem s') b line" using id l by (simp add: line_at_def)
  moreover have "put_char call c (CHR 0x0A) p = Some (p\<lparr>pbuf := NULL, ppos := 0, psrv := (psrv p)\<lparr>service_queue := q\<rparr>, pcore := s'\<rparr>)"
    using snd by (simp add: put_char_def Let_def p(1) m1_def)
  ultimately show ?thesis using r by blast
qed

lemma put_string_append:
  "put_string putc (xs @ ys) s = Option.bind (put_string putc xs s) (put_string putc ys)"
proof (induction xs arbitrary: s)
  case (Cons x xs)
  then show ?case by (cases "putc x s") simp_all
qed simp

lemma send_char_create:
  assumes "pbuf p = NULL" and "esp_amp_system_service_is_ready (psrv p)" and "create_buffer peer now c p = Some p1"
    and "pbuf p1 \<noteq> NULL" and "ch \<noteq> NUL"
  shows "virtqueue_send_char call peer now c ch p = virtqueue_send_char call peer now c ch p1"
  using assms by (simp add: virtqueue_send_char_def)

lemma print_line:
  assumes ref: "refines n d 128 a (service_queue (psrv p)) qr (mem (pcore p))" and fb: "free_bufs a = b # bs"
    and ok: "can_print call c d n b p" and l: "length line < 122" "NUL \<notin> set line" "CHR 0x0A \<notin> set line"
  shows "\<exists>q s'. put_string (virtqueue_send_char call peer now c) (line @ [CHR 0x0A]) p =
      Some (p\<lparr>pbuf := NULL, pbuf_len := 124, psrv := (psrv p)\<lparr>service_queue := q\<rparr>, pcore := s'\<rparr>) \<and>
    refines n d 128 (a\<lparr>free_bufs := bs, msgs := msgs a @ [(b, 128)]\<rparr>) q qr (mem s') \<and> line_at (mem s') b line"
proof -
  note ok' = ok [unfolded can_print_def]
  then have pc: "port_ok c" and rdy: "pm_ready c d (8 * n) (pcore p)" and ap: "item_apart b d n (pcore p)" by simp_all
  obtain q1 s1 where cr: "esp_amp_system_service_create_request c (psrv p) (pcore p) =
      Some (0, b + 4, 124, (psrv p)\<lparr>service_queue := q1\<rparr>, s1)"
    and r1: "refines n d 128 (a\<lparr>free_bufs := bs, held_m := Suc (held_m a)\<rparr>) q1 qr (mem s1)" "pm_held c d n s1"
    and lp: "lp_access_hp_cnt s1 = lp_access_hp_cnt (pcore p)"
    and q1: "notify_fc q1 = notify_fc (service_queue (psrv p))" "priv_data q1 = priv_data (service_queue (psrv p))"
    by (rule create_request_effect [OF ref pc rdy fb ap])
  define p1 where "p1 = p\<lparr>pbuf := b + 4, pbuf_len := 124, psrv := (psrv p)\<lparr>service_queue := q1\<rparr>, pcore := s1\<rparr>"
  have cb: "create_buffer peer now c p = Some p1" using cr by (simp add: create_buffer_def p1_def)
  define m where "m = store_bytes (mem s1) (b + 4) (map byte_of line)"
  define p2 where "p2 = p1\<lparr>ppos := word_of_nat (length line), pcore := s1\<lparr>mem := m\<rparr>\<rparr>"
  have "span (b + 4) (length (map byte_of line)) \<subseteq> span (b + 4) 124" using l(1) by (intro span_sub) simp
  then have ag: "agree (- span b 128) m (mem s1)"
    unfolding m_def using l(1) item_parts(2) [of b] by (intro frame_intros agree_refl) auto
  have out: "agree (ring d n) (mem s1) m" "agree {lp_access_hp_cnt s1} m (mem s1)"
    using ap lp by (auto intro!: agree_mono [OF agree_sym [OF ag]] agree_mono [OF ag] simp: item_apart_def)
  have nf: "notify_ok call c d n q1" "notify_keeps call q1 (span b 128)"
    using ok' q1 by (simp_all add: notify_ok_def notify_keeps_def)
  have "item_apart b d n (pcore p2)" using ap lp by (simp add: item_apart_def p2_def)
  from put_line_feed [of n d "a\<lparr>free_bufs := bs, held_m := Suc (held_m a)\<rparr>" p2 qr c call b line "mem s1"] this
  obtain q s' where lf: "put_char call c (CHR 0x0A) p2 =
      Some (p2\<lparr>pbuf := NULL, ppos := 0, psrv := (psrv p2)\<lparr>service_queue := q\<rparr>, pcore := s'\<rparr>)"
    and r: "refines n d 128 (a\<lparr>free_bufs := bs, msgs := msgs a @ [(b, 128)]\<rparr>) q qr (mem s')" "line_at (mem s') b line"
    using refines_cong [OF r1(1) out(1)] pm_held_store [OF r1(2) out(2)] pc nf l by (auto simp: p2_def p1_def m_def)
  have body: "put_string (virtqueue_send_char call peer now c) line p1 = Some p2"
    using put_text [of line p1 call peer now c] l ok' by (simp add: p1_def p2_def m_def)
  have "virtqueue_send_char call peer now c (CHR 0x0A) p2 = put_char call c (CHR 0x0A) p2"
    using ok' by (simp add: virtqueue_send_char_def p2_def p1_def)
  then have "put_string (virtqueue_send_char call peer now c) (line @ [CHR 0x0A]) p1 =
      Some (p2\<lparr>pbuf := NULL, ppos := 0, psrv := (psrv p2)\<lparr>service_queue := q\<rparr>, pcore := s'\<rparr>)"
    using body lf by (simp add: put_string_append)
  moreover have "put_string (virtqueue_send_char call peer now c) (line @ [CHR 0x0A]) p =
      put_string (virtqueue_send_char call peer now c) (line @ [CHR 0x0A]) p1"
  proof -
    have first: "virtqueue_send_char call peer now c ch p = virtqueue_send_char call peer now c ch p1" if "ch \<noteq> NUL" for ch
      using ok' that by (intro send_char_create [OF _ _ cb]) (simp_all add: p1_def)
    show ?thesis
    proof (cases line)
      case (Cons ch cs)
      then have "ch \<noteq> NUL" using l(2) by auto
      then show ?thesis using first by (simp add: Cons)
    qed (simp add: first)
  qed
  moreover have "p2\<lparr>pbuf := NULL, ppos := 0, psrv := (psrv p2)\<lparr>service_queue := q\<rparr>, pcore := s'\<rparr> =
      p\<lparr>pbuf := NULL, pbuf_len := 124, psrv := (psrv p)\<lparr>service_queue := q\<rparr>, pcore := s'\<rparr>"
    using ok' by (simp add: p2_def p1_def)
  ultimately show ?thesis using r by auto
qed

subsection \<open>Serving requests\<close>

lemma recv_request_effect:
  assumes ref: "refines n d 128 a qm (service_queue srv) (mem s)" and pc: "port_ok c" and rdy: "pm_ready c d (8 * n) s"
    and na: "\<not> pm_active c"
  shows "\<exists>q s'. mem s' = mem s \<and> lp_access_hp_cnt s' = lp_access_hp_cnt s \<and> (case msgs a of
      [] \<Rightarrow> esp_amp_system_service_recv_request c srv s = Some (-1, None, srv\<lparr>service_queue := q\<rparr>, s') \<and>
        refines n d 128 a qm q (mem s)
    | (b, sz) # ms \<Rightarrow> esp_amp_system_service_recv_request c srv s =
          Some (0, Some (pkt_srv_id (mem s) b, b + 4, pkt_param_len (mem s) b), srv\<lparr>service_queue := q\<rparr>, s') \<and>
        refines n d 128 (a\<lparr>msgs := ms, held_r := Suc (held_r a)\<rparr>) qm q (mem s))"
proof -
  let ?s1 = "esp_amp_env_enter_critical c s"
  have rdy1: "pm_ready c d (8 * n) ?s1" using rdy pc by (simp add: pm_ready_def pm_cnt_def)
  obtain ret b sz q s2 a' where rc: "esp_amp_queue_recv_try c (service_queue srv) ?s1 = Some (ret, b, sz, q, s2)"
    and aq: "aq_recv a = (ret, b, sz, a')" and ref2: "refines n d 128 a' qm q (mem s2)"
    using recv_refines [OF _ pc rdy1, of 128 a qm "service_queue srv"] ref pc by auto
  have s2: "s2 = ?s1" using rc na by (auto simp: esp_amp_queue_recv_try_def Let_def split: if_splits)
  let ?s' = "esp_amp_env_exit_critical c s2"
  have k: "mem ?s' = mem s" "lp_access_hp_cnt ?s' = lp_access_hp_cnt s" using pc by (simp_all add: s2)
  have def: "esp_amp_system_service_recv_request c srv s = (if ret \<noteq> ESP_OK then Some (-1, None, srv\<lparr>service_queue := q\<rparr>, ?s')
      else Some (0, Some (pkt_srv_id (mem ?s') b, b + 4, pkt_param_len (mem ?s') b), srv\<lparr>service_queue := q\<rparr>, ?s'))"
    using rc by (simp add: esp_amp_system_service_recv_request_def Let_def offsetof_param_def)
  show ?thesis
    using aq ref2 def k pc by (intro exI [of _ q] exI [of _ ?s']) (auto simp: s2 split: list.splits prod.splits)
qed

lemma destroy_request_effect:
  assumes "refines n d 128 a qm (service_queue srv) (mem s)" and pc: "port_ok c" and "pm_held c d n s" and "held_r a \<noteq> 0"
  obtains q s' where "esp_amp_system_service_destroy_request c (b + 4) srv s = Some (ESP_OK, srv\<lparr>service_queue := q\<rparr>, s')"
    "refines n d 128 (a\<lparr>free_bufs := free_bufs a @ [b], held_r := held_r a - 1\<rparr>) qm q (mem s')"
    "agree (- insert (lp_access_hp_cnt s) (ring d n)) (mem s') (mem s)" "lp_access_hp_cnt s' = lp_access_hp_cnt s"
proof -
  obtain q s2 where fr: "esp_amp_queue_free_try c (service_queue srv) b (esp_amp_env_enter_critical c s) = Some (ESP_OK, q, s2)"
    and e: "refines n d 128 (a\<lparr>free_bufs := free_bufs a @ [b], held_r := held_r a - 1\<rparr>) qm q (mem s2)"
    "agree (- insert (lp_access_hp_cnt s) (ring d n)) (mem s2) (mem s)" "core.more s2 = core.more s"
    "lp_access_hp_cnt s2 = lp_access_hp_cnt s"
    by (rule free_try_effect [OF assms])
  have "esp_amp_system_service_destroy_request c (b + 4) srv s =
      Some (ESP_OK, srv\<lparr>service_queue := q\<rparr>, esp_amp_env_exit_critical c s2)"
    using fr by (simp add: esp_amp_system_service_destroy_request_def offsetof_param_def)
  then show thesis using that [of q "esp_amp_env_exit_critical c s2"] e pc by simp
qed

text \<open>The pending requests: print requests with these lines, in buffers apart from the ring and the
  light sleep counter.\<close>

definition pending :: "memory \<Rightarrow> ptr \<Rightarrow> nat \<Rightarrow> ptr \<Rightarrow> (ptr \<times> u16) list \<Rightarrow> string list \<Rightarrow> bool" where
  "pending m d n cnt ms lines \<longleftrightarrow>
     list_all2 (\<lambda>(b, sz) line. line_at m b line \<and> span b 128 \<inter> ring d n = {} \<and> cnt \<notin> span b 128) ms lines"

lemma pending_cong:
  assumes "pending m d n cnt ms lines" and "agree (- insert cnt (ring d n)) m' m"
  shows "pending m' d n cnt ms lines"
  unfolding pending_def
proof (rule list_all2_mono [OF assms(1) [unfolded pending_def]], clarify)
  fix b line assume "line_at m b line" "span b 128 \<inter> ring d n = {}" "cnt \<notin> span b 128"
  then show "line_at m' b line \<and> span b 128 \<inter> ring d n = {} \<and> cnt \<notin> span b 128"
    using line_at_cong [of m b line m'] agree_mono [OF agree_sym [OF assms(2)], of "span b 128"] by auto
qed

lemma serve_requests_lines:
  assumes "refines n d 128 a qm (service_queue srv) (mem s)" and pc: "port_ok c" and na: "\<not> pm_active c"
    and "lp_access_hp_cnt s \<notin> ring d n" and "pending (mem s) d n (lp_access_hp_cnt s) (msgs a) lines" and np: "\<And>k. \<not> panicked k"
  shows "\<exists>k' srv' s'. serve_requests True panicked c k srv s console = Some (False, k', srv', s', console @ lines) \<and>
    refines n d 128 (a\<lparr>msgs := [], free_bufs := free_bufs a @ map fst (msgs a)\<rparr>) qm (service_queue srv') (mem s')"
  using assms(1,4,5)
proof (induction "msgs a" arbitrary: a srv s k console lines)
  case Nil
  have rdy: "pm_ready c d (8 * n) s" using na Nil.prems(2) by (simp add: pm_ready_def ring_def)
  from recv_request_effect [OF Nil.prems(1) pc rdy na] Nil.hyps obtain q s' where
    "esp_amp_system_service_recv_request c srv s = Some (-1, None, srv\<lparr>service_queue := q\<rparr>, s')"
    "refines n d 128 a qm q (mem s')" by (auto split: list.splits)
  moreover have "lines = []" using Nil by (simp add: pending_def)
  moreover have "a\<lparr>msgs := [], free_bufs := free_bufs a @ map fst (msgs a)\<rparr> = a" using Nil.hyps by (cases a) simp
  ultimately show ?case by (auto simp: serve_requests.simps [of True panicked c k])
next
  case (Cons x ms)
  obtain b sz where x: "msgs a = (b, sz) # ms" using Cons.hyps(2) [symmetric] by (cases x) simp
  obtain line rest where ln: "lines = line # rest" "line_at (mem s) b line" "pending (mem s) d n (lp_access_hp_cnt s) ms rest"
    using Cons.prems(3) x by (auto simp: pending_def list_all2_Cons1)
  have rdy: "pm_ready c d (8 * n) s" using na Cons.prems(2) by (simp add: pm_ready_def ring_def)
  from recv_request_effect [OF Cons.prems(1) pc rdy na] x obtain q1 s1 where
    rc: "esp_amp_system_service_recv_request c srv s =
      Some (0, Some (pkt_srv_id (mem s) b, b + 4, pkt_param_len (mem s) b), srv\<lparr>service_queue := q1\<rparr>, s1)"
    and k1: "mem s1 = mem s" "lp_access_hp_cnt s1 = lp_access_hp_cnt s"
    and r1: "refines n d 128 (a\<lparr>msgs := ms, held_r := Suc (held_r a)\<rparr>) qm q1 (mem s1)" by auto
  have "pm_held c d n s1" using na Cons.prems(2) k1 by (simp add: pm_held_def)
  then obtain q2 s2 where de: "esp_amp_system_service_destroy_request c (b + 4) (srv\<lparr>service_queue := q1\<rparr>) s1 =
      Some (ESP_OK, srv\<lparr>service_queue := q2\<rparr>, s2)"
    and r2: "refines n d 128 (a\<lparr>msgs := ms, free_bufs := free_bufs a @ [b]\<rparr>) qm q2 (mem s2)"
    and ag: "agree (- insert (lp_access_hp_cnt s) (ring d n)) (mem s2) (mem s)" and lp: "lp_access_hp_cnt s2 = lp_access_hp_cnt s"
    using destroy_request_effect [OF _ pc, of n d "a\<lparr>msgs := ms, held_r := Suc (held_r a)\<rparr>" qm "srv\<lparr>service_queue := q1\<rparr>" s1 b] r1 k1 by auto
  have step: "serve_requests True panicked c k srv s console =
      serve_requests True panicked c (Suc k) (srv\<lparr>service_queue := q2\<rparr>) s2 (console @ [line])"
    using rc de np line_at_string [OF ln(2)] ln(2) k1
    by (subst serve_requests.simps) (simp add: esp_amp_system_service_print_def handle_subcore_panic_def line_at_def)
  let ?a = "a\<lparr>msgs := ms, free_bufs := free_bufs a @ [b]\<rparr>"
  have "ms = msgs ?a" by simp
  from Cons.hyps(1) [OF this, of "srv\<lparr>service_queue := q2\<rparr>" s2 rest "Suc k" "console @ [line]"] r2 lp Cons.prems(2)
    pending_cong [OF ln(3) ag]
  show ?case unfolding step by (simp add: x ln(1))
qed

subsection \<open>A sample service\<close>

definition svc_queue :: "bool \<Rightarrow> nat esp_amp_queue" where
  "svc_queue b = (demo_queue b)\<lparr>max_item_size := 128\<rparr>"

definition svc_ring :: memory where
  "svc_ring = filled 0x1000 (filled 0x1000 (\<lambda>_. 0) 0 0x2000 128) 1 0x2080 128"

definition svc_state :: core where "svc_state = demo_core\<lparr>mem := svc_ring\<rparr>"

definition svc_main :: "nat service" where
  "svc_main = \<lparr>service_queue = svc_queue False, s_system_service_ready = True, supplicant_daemon = 0x5000\<rparr>"

definition svc_printer :: "(nat, unit) printer" where
  "svc_printer = \<lparr>pbuf = NULL, pbuf_len = 0, ppos = 0,
     psrv = \<lparr>service_queue = svc_queue True, s_system_service_ready = True, supplicant_daemon = NULL\<rparr>,
     pcore = svc_state, puart = [], ptick = 0\<rparr>"

lemma svc_fills: "fills 0x1000 2 0 0x2000 128 (\<lambda>_. 0) svc_ring"
proof -
  have "span (desc_slot 0x1000 (word_of_nat i)) 8 \<inter> - ring 0x1000 2 = {}" if "i < 2" for i
    using slot_span [OF that, of "0x1000"] by auto
  from this [of 0] this [of 1] have "agree (- ring 0x1000 2) svc_ring (\<lambda>_. 0)"
    unfolding svc_ring_def by (intro agree_trans [OF filled_frame filled_frame]) simp_all
  then show ?thesis by (auto simp: fills_def svc_ring_def filled_read less_2_cases_iff)
qed

lemma svc_refines: "refines 2 0x1000 128 (initial_queue 2 0x2000 128) (svc_queue True) (svc_queue False) svc_ring"
proof (rule initial_refines [OF _ svc_fills])
  show "ring_size 2" unfolding ring_size_def by (intro exI [of _ 1]) simp
qed (simp_all add: svc_queue_def demo_queue_def side_def flip_at_def)

lemma svc_initial: "free_bufs (initial_queue 2 0x2000 128) = [0x2000, 0x2080]" "msgs (initial_queue 2 0x2000 128) = []"
  by (simp_all add: initial_queue_def upt_rec)

lemma svc_apart: "span 0x2000 128 \<inter> ring 0x1000 2 = {}" "0 \<notin> span (0x2000 :: ptr) 128" "0 \<notin> ring 0x1000 2"
proof -
  show "span 0x2000 128 \<inter> ring 0x1000 2 = {}" unfolding ring_def by (rule disj_Int) (simp add: disj_def)
qed (simp_all add: in_span_iff ring_def)

lemma svc_can_print: "can_print (\<lambda>f p s. None) (demo_config True) 0x1000 2 0x2000 svc_printer"
proof -
  have "notify_fc (svc_queue True) = None" by (simp add: svc_queue_def demo_queue_def)
  moreover have "pm_ready (demo_config True) 0x1000 16 svc_state"
    by (simp add: pm_ready_def svc_state_def demo_core_def in_span_iff)
  ultimately show ?thesis
    using svc_apart
    by (simp add: can_print_def svc_printer_def svc_state_def demo_core_def item_apart_def esp_amp_system_service_is_ready_def
        notify_ok_def notify_keeps_def)
qed

subsection \<open>Properties\<close>

text \<open>C23. A line the subcore prints is handed to the maincore: with the service ready, a free buffer in
  the queue and no line begun, printing up to 121 characters (none of them a terminator or line
  feed) and a line feed allocates the buffer, sends it exactly once, as a print request whose
  parameter is the line as a terminated C string without its line feed, and leaves the printer ready
  for the next line; nothing goes to the serial port.\<close>

theorem routed_line:
  assumes "refines n d 128 a (service_queue (psrv p)) qr (mem (pcore p))" and "free_bufs a = b # bs"
    and "can_print call c d n b p" and "length line < 122" and "NUL \<notin> set line" and "CHR 0x0A \<notin> set line"
  shows "\<exists>p'. esp_amp_subcore_puts True call peer now c (line @ [CHR 0x0A]) p = Some (0, p') \<and>
    pbuf p' = NULL \<and> ppos p' = 0 \<and> puart p' = puart p \<and>
    refines n d 128 (a\<lparr>free_bufs := bs, msgs := msgs a @ [(b, 128)]\<rparr>) (service_queue (psrv p')) qr (mem (pcore p')) \<and>
    pkt_srv_id (mem (pcore p')) b = SYSTEM_SERVICE_ID_PRINT \<and> c_string (mem (pcore p')) (b + 4) = Some line"
proof -
  obtain q s' where pr: "put_string (virtqueue_send_char call peer now c) (line @ [CHR 0x0A]) p =
      Some (p\<lparr>pbuf := NULL, pbuf_len := 124, psrv := (psrv p)\<lparr>service_queue := q\<rparr>, pcore := s'\<rparr>)"
    and r: "refines n d 128 (a\<lparr>free_bufs := bs, msgs := msgs a @ [(b, 128)]\<rparr>) q qr (mem s')" "line_at (mem s') b line"
    using print_line [OF assms] by blast
  have f: "subcore_putchar True call peer now c = virtqueue_send_char call peer now c"
    by (simp add: fun_eq_iff subcore_putchar_def)
  show ?thesis
    using pr r line_at_string [OF r(2)] assms(3) by (simp add: esp_amp_subcore_puts_def f line_at_def can_print_def)
qed

theorem routed_line_witness:
  "\<exists>p'. esp_amp_subcore_puts True (\<lambda>f p s. None) (\<lambda>k m. m) (\<lambda>k. 0) (demo_config True) (''hello'' @ [CHR 0x0A]) svc_printer = Some (0, p') \<and>
     c_string (mem (pcore p')) 0x2004 = Some ''hello''"
proof -
  have "refines 2 0x1000 128 (initial_queue 2 0x2000 128) (service_queue (psrv svc_printer)) (svc_queue False) (mem (pcore svc_printer))"
    using svc_refines by (simp add: svc_printer_def svc_state_def)
  from routed_line [OF this svc_initial(1) svc_can_print, of "''hello''" "\<lambda>k m. m" "\<lambda>k. 0"]
  obtain p' where "esp_amp_subcore_puts True (\<lambda>f p s. None) (\<lambda>k m. m) (\<lambda>k. 0) (demo_config True) (''hello'' @ [CHR 0x0A]) svc_printer = Some (0, p')"
    "c_string (mem (pcore p')) (0x2000 + 4) = Some ''hello''" by auto
  then show ?thesis by (intro exI [of _ p']) simp
qed

text \<open>C24. The supplicant serves every pending line: woken with print requests pending in the queue and
  no subcore panic, it writes their lines to the console in the order they were sent, returns every
  buffer to the subcore and comes back to waiting.\<close>

theorem supplicant_serves:
  assumes "refines n d 128 a qm (service_queue srv) (mem s)" and "port_ok c" and "\<not> pm_active c"
    and "lp_access_hp_cnt s \<notin> ring d n" and "pending (mem s) d n (lp_access_hp_cnt s) (msgs a) lines"
    and "\<And>k. \<not> panicked k"
  shows "\<exists>k' srv' s'. supplicant_round True panicked c k srv s console = Some (False, k', srv', s', console @ lines) \<and>
    refines n d 128 (a\<lparr>msgs := [], free_bufs := free_bufs a @ map fst (msgs a)\<rparr>) qm (service_queue srv') (mem s')"
proof -
  have "supplicant_round True panicked c k srv s console = serve_requests True panicked c (Suc k) srv s console"
    using assms(6) [of k] by (simp add: supplicant_round_def handle_subcore_panic_def)
  then show ?thesis using serve_requests_lines [OF assms] by simp
qed

theorem supplicant_serves_witness:
  "\<exists>(t :: core) srv srv' t' k'. c_string (mem t) 0x2004 = Some ''hello'' \<and>
     supplicant_round True (\<lambda>k. False) (demo_config False) 0 (srv :: nat service) t [''up''] = Some (False, k', srv', t', [''up'', ''hello''])"
proof -
  have "refines 2 0x1000 128 (initial_queue 2 0x2000 128) (service_queue (psrv svc_printer)) (svc_queue False) (mem (pcore svc_printer))"
    using svc_refines by (simp add: svc_printer_def svc_state_def)
  from print_line [OF this svc_initial(1) svc_can_print, of "''hello''" "\<lambda>k m. m" "\<lambda>k. 0"]
  obtain q :: "nat esp_amp_queue" and s' :: core where
    r: "refines 2 0x1000 128 ((initial_queue 2 0x2000 128)\<lparr>free_bufs := [0x2080], msgs := [(0x2000, 128)]\<rparr>) q (svc_queue False) (mem s')"
    and l: "line_at (mem s') 0x2000 ''hello''"
    by (auto simp: svc_initial)
  let ?t = "s'\<lparr>lp_access_hp_cnt := NULL\<rparr>"
  have "pending (mem ?t) 0x1000 2 (lp_access_hp_cnt ?t) [(0x2000, 128)] [''hello'']"
    using l svc_apart by (simp add: pending_def)
  moreover have "\<not> pm_active (demo_config False)" by (simp add: pm_active_def)
  ultimately have "\<exists>k' srv' t'. supplicant_round True (\<lambda>k. False) (demo_config False) 0 svc_main ?t [''up''] =
      Some (False, k', srv', t', [''up''] @ [''hello''])"
    using supplicant_serves [of 2 "0x1000" _ q svc_main ?t "demo_config False" "[''hello'']" "\<lambda>k. False" 0 "[''up'']"] r svc_apart
    by (fastforce simp: svc_main_def)
  then obtain k' srv' t' where "supplicant_round True (\<lambda>k. False) (demo_config False) 0 svc_main ?t [''up''] =
      Some (False, k', srv', t', [''up'', ''hello''])" by auto
  moreover have "c_string (mem ?t) 0x2004 = Some ''hello''" using line_at_string [OF l] by simp
  ultimately show ?thesis by blast
qed



end
