(* ===== verification/Amp_Event.thy ===== *)
theory Amp_Event
  imports Amp_Sw_Intr
begin

text \<open>
  Events, src/components/esp_amp/src/event: words of event bits in shared memory. The bare-metal
  variant polls such a word, the FreeRTOS variant moves its bits into an event group from the
  software interrupt. Both variants notify in the same way.
\<close>

subsection \<open>Notifying\<close>

text \<open>The result of \<open>esp_amp_sys_info_get\<close> with the assertion that follows each call: an event is
  a word of four bytes.\<close>

definition event_bits_of :: "'z config \<Rightarrow> u16 \<Rightarrow> 'z core_scheme \<Rightarrow> ptr option" where
  "event_bits_of c sysinfo_id s = do {
     (event_bits, event_bits_size) \<leftarrow> esp_amp_sys_info_get c sysinfo_id SYS_INFO_CAP_HP s;
     if event_bits \<noteq> NULL \<and> event_bits_size = Some 4 then Some event_bits else None
   }"

definition bm_event_notify_by_id ::
    "'z config \<Rightarrow> u16 \<Rightarrow> u32 \<Rightarrow> 'z core_scheme \<Rightarrow> (u32 \<times> 'z core_scheme) option" where
  "bm_event_notify_by_id c sysinfo_id bit_mask s =
     (let s1 = PM_SKIP_LIGHT_SLEEP_ENTER c s
      in do {
        p \<leftarrow> event_bits_of c sysinfo_id s1;
        let ret_val = load32 (mem s1) p;
        s2 \<leftarrow> esp_amp_sw_intr_trigger c SW_INTR_RESERVED_ID_EVENT
                (s1\<lparr>mem := store32 (mem s1) p (ret_val OR bit_mask)\<rparr>);
        s3 \<leftarrow> PM_SKIP_LIGHT_SLEEP_EXIT c s2;
        Some (ret_val, s3)
      })"

definition fr_event_notify_by_id ::
    "'z config \<Rightarrow> u16 \<Rightarrow> u32 \<Rightarrow> 'z core_scheme \<Rightarrow> (u32 \<times> 'z core_scheme) option" where
  "fr_event_notify_by_id c sysinfo_id bit_mask s = do {
     p \<leftarrow> event_bits_of c sysinfo_id s;
     let ret_val = load32 (mem s) p;
     s2 \<leftarrow> esp_amp_sw_intr_trigger c SW_INTR_RESERVED_ID_EVENT
             (s\<lparr>mem := store32 (mem s) p (ret_val OR bit_mask)\<rparr>);
     Some (ret_val, s2)
   }"

subsection \<open>Waiting on bare metal\<close>

text \<open>
  While a core waits, the notifying core sets bits of the word: \<open>peer k\<close> is what it sets before the
  \<open>k\<close>-th atomic access and whether a weak compare-and-exchange at that access fails spuriously.
  \<open>now k\<close> is the reading of the millisecond clock after that access, an \<open>int64_t\<close>; the start time
  is kept in an \<open>uint32_t\<close> and the difference is computed in \<open>int64_t\<close>.
\<close>

definition timed_out :: "(nat \<Rightarrow> int) \<Rightarrow> nat \<Rightarrow> u32 \<Rightarrow> u32 \<Rightarrow> bool" where
  "timed_out now k cur_time timeout_ms \<longleftrightarrow> uint timeout_ms < now k - uint cur_time"

definition peer_writes :: "interference \<Rightarrow> nat \<Rightarrow> ptr \<Rightarrow> memory \<Rightarrow> memory" where
  "peer_writes peer k p m = store32 m p (load32 m p OR fst (peer k))"

partial_function (option) wait_all ::
    "interference \<Rightarrow> (nat \<Rightarrow> int) \<Rightarrow> ptr \<Rightarrow> u32 \<Rightarrow> bool \<Rightarrow> u32 \<Rightarrow> u32 \<Rightarrow> memory \<Rightarrow> nat \<Rightarrow> u32 \<Rightarrow> u32 \<Rightarrow>
     (u32 \<times> memory \<times> nat) option" where
  "wait_all peer now p bit_mask clear_on_exit cur_time timeout_ms m k expected desired =
     (let m1 = peer_writes peer k p m;
          actual = load32 m1 p
      in if actual = expected \<and> \<not> snd (peer k) then Some (expected, store32 m1 p desired, k + 1)
         else let expected' = actual OR bit_mask;
                  desired' = (if clear_on_exit then expected' AND NOT bit_mask else expected')
              in if actual AND bit_mask \<noteq> bit_mask \<and> timed_out now k cur_time timeout_ms
                 then Some (actual, m1, k + 1)
                 else wait_all peer now p bit_mask clear_on_exit cur_time timeout_ms m1 (k + 1) expected' desired')"

partial_function (option) wait_any ::
    "interference \<Rightarrow> (nat \<Rightarrow> int) \<Rightarrow> ptr \<Rightarrow> u32 \<Rightarrow> bool \<Rightarrow> u32 \<Rightarrow> u32 \<Rightarrow> memory \<Rightarrow> nat \<Rightarrow>
     (u32 \<times> memory \<times> nat) option" where
  "wait_any peer now p bit_mask clear_on_exit cur_time timeout_ms m k =
     (let m1 = peer_writes peer k p m;
          ret = load32 m1 p;
          m2 = (if clear_on_exit then store32 m1 p (ret AND NOT bit_mask) else m1)
      in if timed_out now k cur_time timeout_ms then Some (ret, m2, k + 1)
         else if ret AND bit_mask = 0
         then wait_any peer now p bit_mask clear_on_exit cur_time timeout_ms m2 (k + 1)
         else Some (ret, m2, k + 1))"

definition bm_event_wait_by_id ::
    "interference \<Rightarrow> (nat \<Rightarrow> int) \<Rightarrow> int \<Rightarrow> 'z config \<Rightarrow> u16 \<Rightarrow> u32 \<Rightarrow> bool \<Rightarrow> bool \<Rightarrow> u32 \<Rightarrow> 'z core_scheme \<Rightarrow>
     (u32 \<times> nat \<times> 'z core_scheme) option" where
  "bm_event_wait_by_id peer now start c sysinfo_id bit_mask clear_on_exit wait_for_all timeout_ms s =
     (let cur_time = word_of_int start;
          expected = bit_mask;
          desired = (if clear_on_exit then 0 else expected);
          s1 = PM_SKIP_LIGHT_SLEEP_ENTER c s
      in do {
        p \<leftarrow> event_bits_of c sysinfo_id s1;
        (ret, m, k) \<leftarrow>
          (if wait_for_all
           then wait_all peer now p bit_mask clear_on_exit cur_time timeout_ms (mem s1) 0 expected desired
           else wait_any peer now p bit_mask clear_on_exit cur_time timeout_ms (mem s1) 0);
        s2 \<leftarrow> PM_SKIP_LIGHT_SLEEP_EXIT c (s1\<lparr>mem := m\<rparr>);
        Some (ret, k, s2)
      })"

partial_function (option) clear_loop ::
    "interference \<Rightarrow> ptr \<Rightarrow> u32 \<Rightarrow> memory \<Rightarrow> nat \<Rightarrow> u32 \<Rightarrow> u32 \<Rightarrow> (u32 \<times> memory \<times> nat) option" where
  "clear_loop peer p bit_mask m k expected desired =
     (let m1 = peer_writes peer k p m;
          cur = load32 m1 p
      in if cur = expected \<and> \<not> snd (peer k) then Some (expected, store32 m1 p desired, k + 1)
         else clear_loop peer p bit_mask m1 (k + 1) cur (cur AND NOT bit_mask))"

definition bm_event_clear_by_id ::
    "interference \<Rightarrow> 'z config \<Rightarrow> u16 \<Rightarrow> u32 \<Rightarrow> 'z core_scheme \<Rightarrow> (u32 \<times> nat \<times> 'z core_scheme) option" where
  "bm_event_clear_by_id peer c sysinfo_id bit_mask s =
     (let s1 = PM_SKIP_LIGHT_SLEEP_ENTER c s
      in do {
        p \<leftarrow> event_bits_of c sysinfo_id s1;
        (expected, m, k) \<leftarrow> clear_loop peer p bit_mask (mem s1) 0 0 0;
        s2 \<leftarrow> PM_SKIP_LIGHT_SLEEP_EXIT c (s1\<lparr>mem := m\<rparr>);
        Some (expected, k, s2)
      })"

definition bm_event_init :: "'z config \<Rightarrow> 'z core_scheme \<Rightarrow> int option" where
  "bm_event_init c s = do {
     (main_core_event_bits, _) \<leftarrow> esp_amp_sys_info_get c SYS_INFO_RESERVED_ID_EVENT_MAIN SYS_INFO_CAP_HP s;
     (sub_core_event_bits, _) \<leftarrow> esp_amp_sys_info_get c SYS_INFO_RESERVED_ID_EVENT_SUB SYS_INFO_CAP_HP s;
     Some (if main_core_event_bits = NULL \<or> sub_core_event_bits = NULL then -1 else 0)
   }"

subsection \<open>Event groups of FreeRTOS\<close>

text \<open>
  The event table of the FreeRTOS variant extends the state of the core. The event groups
  themselves belong to FreeRTOS: its functions are fields of \<open>rtos_events\<close>.
\<close>

record esp_amp_event =
  ev_sysinfo_id :: u16
  event_handle :: ptr
  event_bits :: ptr

record 'f event_core = "'f amp_core" +
  event_table :: "esp_amp_event list"

type_synonym ('f, 'z) ev = "('f, 'z) event_core_scheme"
type_synonym ('f, 'z) ev_config = "('f, 'z event_core_ext) amp_core_ext config"

record 's rtos_events =
  xEventGroupSetBitsFromISR :: "ptr \<Rightarrow> u32 \<Rightarrow> 's \<Rightarrow> bool \<times> 's"
  xEventGroupSetBits :: "ptr \<Rightarrow> u32 \<Rightarrow> 's \<Rightarrow> 's"
  xEventGroupWaitBits :: "ptr \<Rightarrow> u32 \<Rightarrow> bool \<Rightarrow> bool \<Rightarrow> u32 \<Rightarrow> 's \<Rightarrow> u32 \<times> 's"
  xEventGroupClearBits :: "ptr \<Rightarrow> u32 \<Rightarrow> 's \<Rightarrow> u32 \<times> 's"
  xEventGroupCreateStatic :: "'s \<Rightarrow> ptr \<times> 's"
  pdMS_TO_TICKS :: "u32 \<Rightarrow> u32"
  portMAX_DELAY :: u32

text \<open>The interrupt service routine of the event component; \<open>n\<close> entries of the table are left.\<close>

fun event_isr_loop ::
    "('f, 'z) ev rtos_events \<Rightarrow> interference \<Rightarrow> nat \<Rightarrow> nat \<Rightarrow> nat \<Rightarrow> bool \<times> ('f, 'z) ev \<Rightarrow>
     (bool \<times> ('f, 'z) ev) option" where
  "event_isr_loop os peer k i 0 ys = Some ys"
| "event_isr_loop os peer k i (Suc n) (need_yield, s) =
     (let e = event_table s ! i
      in if event_handle e = NULL then event_isr_loop os peer k (Suc i) n (need_yield, s)
         else do {
           (unprocessed, m, k') \<leftarrow> cas_take peer (event_bits e) (mem s) k 0;
           let (task_yield, s1) = xEventGroupSetBitsFromISR os (event_handle e) unprocessed (s\<lparr>mem := m\<rparr>);
           event_isr_loop os peer k' (Suc i) n (need_yield \<or> task_yield, s1)
         })"

definition os_env_event_isr ::
    "('f, 'z) ev rtos_events \<Rightarrow> interference \<Rightarrow> ('f, 'z) ev_config \<Rightarrow> ptr \<Rightarrow> ('f, 'z) ev \<Rightarrow>
     (int \<times> ('f, 'z) ev) option" where
  "os_env_event_isr os peer c args s =
     (let s1 = portENTER_CRITICAL_ISR c s
      in do {
        (need_yield, s2) \<leftarrow> event_isr_loop os peer 0 0 (length (event_table s1)) (False, s1);
        Some (if need_yield then 1 else 0, portEXIT_CRITICAL_ISR c s2)
      })"

fun event_lookup :: "u16 \<Rightarrow> esp_amp_event list \<Rightarrow> ptr" where
  "event_lookup sysinfo_id [] = NULL"
| "event_lookup sysinfo_id (e # es) =
     (if ev_sysinfo_id e = sysinfo_id then event_handle e else event_lookup sysinfo_id es)"

definition UINT_MAX :: u32 where "UINT_MAX = -1"

definition fr_event_wait_by_id ::
    "('f, 'z) ev rtos_events \<Rightarrow> ('f, 'z) ev_config \<Rightarrow> u16 \<Rightarrow> u32 \<Rightarrow> bool \<Rightarrow> bool \<Rightarrow> u32 \<Rightarrow> ('f, 'z) ev \<Rightarrow>
     (u32 \<times> ('f, 'z) ev) option" where
  "fr_event_wait_by_id os c sysinfo_id bit_mask clear_on_exit wait_for_all timeout s =
     (let s1 = portENTER_CRITICAL c s;
          handle = event_lookup sysinfo_id (event_table s1);
          s2 = portEXIT_CRITICAL c s1
      in if handle = NULL then None
         else let timeout_tick = (if timeout \<noteq> UINT_MAX then pdMS_TO_TICKS os timeout else portMAX_DELAY os)
              in Some (xEventGroupWaitBits os handle bit_mask clear_on_exit wait_for_all timeout_tick s2))"

definition fr_event_clear_by_id ::
    "('f, 'z) ev rtos_events \<Rightarrow> ('f, 'z) ev_config \<Rightarrow> u16 \<Rightarrow> u32 \<Rightarrow> ('f, 'z) ev \<Rightarrow> (u32 \<times> ('f, 'z) ev) option" where
  "fr_event_clear_by_id os c sysinfo_id bit_mask s =
     (let s1 = portENTER_CRITICAL c s;
          handle = event_lookup sysinfo_id (event_table s1);
          s2 = portEXIT_CRITICAL c s1
      in if handle = NULL then None else Some (xEventGroupClearBits os handle bit_mask s2))"

text \<open>Index of the first free entry and of the first entry with the id; the table length if none.\<close>

fun idx_free :: "esp_amp_event list \<Rightarrow> nat" where
  "idx_free [] = 0"
| "idx_free (e # es) = (if event_handle e = NULL then 0 else Suc (idx_free es))"

fun idx_dup :: "u16 \<Rightarrow> esp_amp_event list \<Rightarrow> nat" where
  "idx_dup sysinfo_id [] = 0"
| "idx_dup sysinfo_id (e # es) = (if ev_sysinfo_id e = sysinfo_id then 0 else Suc (idx_dup sysinfo_id es))"

definition esp_amp_event_bind_handle ::
    "('f, 'z) ev rtos_events \<Rightarrow> interference \<Rightarrow> ('f, 'z) ev_config \<Rightarrow> u16 \<Rightarrow> ptr \<Rightarrow> ('f, 'z) ev \<Rightarrow>
     (int \<times> ('f, 'z) ev) option" where
  "esp_amp_event_bind_handle os peer c sysinfo_id handle s =
     (if handle = NULL then Some (-1, s)
      else do {
        p \<leftarrow> event_bits_of c sysinfo_id s;
        let s1 = portENTER_CRITICAL c s;
        let tbl = event_table s1;
        let idx_insert = (if idx_dup sysinfo_id tbl = length tbl then idx_free tbl else idx_dup sysinfo_id tbl);
        let s2 = (if idx_insert \<noteq> length tbl
                  then s1\<lparr>event_table := tbl[idx_insert :=
                         \<lparr>ev_sysinfo_id = sysinfo_id, event_handle = handle, event_bits = p\<rparr>]\<rparr>
                  else s1);
        let s3 = portEXIT_CRITICAL c s2;
        if idx_dup sysinfo_id tbl = length tbl \<and> idx_free tbl = length tbl then Some (-1, s3)
        else do {
          (unprocessed, m, _) \<leftarrow> cas_take peer p (mem s3) 0 (load32 (mem s3) p);
          Some (0, xEventGroupSetBits os handle unprocessed (s3\<lparr>mem := m\<rparr>))
        }
      })"

definition esp_amp_event_unbind_handle :: "('f, 'z) ev_config \<Rightarrow> u16 \<Rightarrow> ('f, 'z) ev \<Rightarrow> ('f, 'z) ev" where
  "esp_amp_event_unbind_handle c sysinfo_id s =
     (let s1 = portENTER_CRITICAL c s;
          i = idx_dup sysinfo_id (event_table s1);
          s2 = (if i < length (event_table s1)
                then s1\<lparr>event_table := (event_table s1)[i :=
                        \<lparr>ev_sysinfo_id = 0, event_handle = NULL, event_bits = NULL\<rparr>]\<rparr>
                else s1)
      in portEXIT_CRITICAL c s2)"

definition esp_amp_event_create :: "'z config \<Rightarrow> u16 \<Rightarrow> 'z core_scheme \<Rightarrow> (int \<times> 'z core_scheme) option" where
  "esp_amp_event_create c sysinfo_id s = do {
     (p, s1) \<leftarrow> esp_amp_sys_info_alloc c sysinfo_id 4 SYS_INFO_CAP_HP s;
     if p = NULL then Some (-1, s1) else Some (0, s1\<lparr>mem := store32 (mem s1) p 0\<rparr>)
   }"

text \<open>
  \<open>esp_amp_event_init\<close> of the FreeRTOS variant on maincore; \<open>isr\<close> is the function pointer of
  \<open>os_env_event_isr\<close>. The subcore branch of the source calls \<open>esp_amp_sys_info_get\<close> with two
  arguments and does not compile.
\<close>

definition fr_event_init ::
    "('f, 'z) ev rtos_events \<Rightarrow> interference \<Rightarrow> 'f \<Rightarrow> ('f, 'z) ev_config \<Rightarrow> ('f, 'z) ev \<Rightarrow> (int \<times> ('f, 'z) ev) option" where
  "fr_event_init os peer isr c s = do {
     (r1, s1) \<leftarrow> esp_amp_event_create c SYS_INFO_RESERVED_ID_EVENT_MAIN s;
     (r2, s2) \<leftarrow> (if r1 = 0 then esp_amp_event_create c SYS_INFO_RESERVED_ID_EVENT_SUB s1 else None);
     if r2 \<noteq> 0 then None else do {
       let s3 = portENTER_CRITICAL c s2;
       let s4 = s3\<lparr>event_table := map (\<lambda>_. \<lparr>ev_sysinfo_id = 0, event_handle = NULL, event_bits = NULL\<rparr>) (event_table s3)\<rparr>;
       let s5 = portEXIT_CRITICAL c s4;
       let (default_event_handle, s6) = xEventGroupCreateStatic os s5;
       if default_event_handle = NULL then None else do {
         (_, s7) \<leftarrow> esp_amp_event_bind_handle os peer c SYS_INFO_RESERVED_ID_EVENT_SUB default_event_handle s6;
         (r, s8) \<leftarrow> esp_amp_sw_intr_add_handler c SW_INTR_RESERVED_ID_EVENT (Some isr) NULL s7;
         if r = 0 then Some (0, s8) else None
       }
     }
   }"

subsection \<open>The loops\<close>

lemma peer_writes_read [simp]:
  "load32 (peer_writes peer k p m) p = load32 m p OR fst (peer k)"
  "store32 (peer_writes peer k p m) p v = store32 m p v"
  by (simp_all add: peer_writes_def)

lemma peer_bits_step: "k < k' \<Longrightarrow> (x OR fst (peer k)) OR peer_bits peer (Suc k) k' = x OR peer_bits peer k k'"
  by (simp add: peer_bits_first or.assoc)

lemma and_not_disjoint: "x AND b = 0 \<Longrightarrow> x AND NOT b = x" for x b :: "'a::len word"
proof -
  assume "x AND b = 0"
  have "x = x AND (b OR NOT b)" by simp
  also have "\<dots> = (x AND b) OR (x AND NOT b)" by (rule bit.conj_disj_distrib)
  finally show ?thesis using \<open>x AND b = 0\<close> by simp
qed

lemma or_absorb_mask: "x AND m = m \<Longrightarrow> x OR m = x" for x m :: "'a::len word"
  using word_ao_absorbs(6) [of x m] by simp

definition wait_inv :: "u32 \<Rightarrow> bool \<Rightarrow> u32 \<Rightarrow> u32 \<Rightarrow> bool" where
  "wait_inv bit_mask clear expected desired \<longleftrightarrow> expected AND bit_mask = bit_mask \<and>
     desired = (if clear then expected AND NOT bit_mask else expected)"

text \<open>Waiting for all bits: they are taken together, in one atomic step, or none is.\<close>

lemma wait_all_sound:
  "wait_all peer now p bit_mask clear cur tmo m k expected desired = Some res \<Longrightarrow>
   wait_inv bit_mask clear expected desired \<Longrightarrow>
   k < snd (snd res) \<and> fst res = load32 m p OR peer_bits peer k (snd (snd res)) \<and>
   (if fst res AND bit_mask = bit_mask
    then fst (snd res) = store32 m p (if clear then fst res AND NOT bit_mask else fst res)
    else timed_out now (snd (snd res) - 1) cur tmo \<and> fst (snd res) = store32 m p (fst res))"
proof (induction rule: wait_all.raw_induct [rotated, consumes 1])
  case (1 rec peer now p bit_mask clear cur tmo m k expected desired res)
  define m1 where "m1 = peer_writes peer k p m"
  define actual where "actual = load32 m p OR fst (peer k)"
  have m1: "load32 m1 p = actual" "store32 m1 p v = store32 m p v" "m1 = store32 m p actual" for v
    by (simp_all add: m1_def actual_def peer_writes_def)
  show ?case
  proof (cases "actual = expected \<and> \<not> snd (peer k)")
    case True
    with 1(2) have "res = (expected, store32 m p desired, k + 1)" by (simp add: Let_def m1_def [symmetric] m1)
    with True 1(3) show ?thesis by (auto simp: wait_inv_def actual_def)
  next
    case False
    note go = this
    show ?thesis
    proof (cases "actual AND bit_mask \<noteq> bit_mask \<and> timed_out now k cur tmo")
      case True
      with go 1(2) have "res = (actual, m1, k + 1)" by (auto simp: Let_def m1_def [symmetric] m1)
      with True m1 show ?thesis by (simp add: actual_def)
    next
      case False
      let ?e = "actual OR bit_mask" and ?d = "if clear then (actual OR bit_mask) AND NOT bit_mask else actual OR bit_mask"
      from False go 1(2) have "rec peer now p bit_mask clear cur tmo m1 (k + 1) ?e ?d = Some res"
        by (auto simp: Let_def m1_def [symmetric] m1)
      moreover have "wait_inv bit_mask clear ?e ?d" by (simp add: wait_inv_def)
      ultimately show ?thesis
        using 1(1) [of peer now p bit_mask clear cur tmo m1 "k + 1" ?e ?d res]
        by (auto simp: m1 actual_def peer_bits_step split: if_splits)
    qed
  qed
qed

text \<open>
  From access \<open>T\<close> on the time is over or the notifier has set the bits; waiting then ends once the
  notifier is quiet.
\<close>

definition wait_ends :: "interference \<Rightarrow> (nat \<Rightarrow> int) \<Rightarrow> u32 \<Rightarrow> u32 \<Rightarrow> (u32 \<Rightarrow> bool) \<Rightarrow> nat \<Rightarrow> u32 \<Rightarrow> nat \<Rightarrow> bool" where
  "wait_ends peer now cur tmo met T bits k \<longleftrightarrow>
     (\<forall>j. T \<le> j \<and> k \<le> j \<longrightarrow> timed_out now j cur tmo \<or> met (bits OR peer_bits peer k (Suc j)))"

lemma wait_ends_step:
  "wait_ends peer now cur tmo met T bits k \<Longrightarrow> wait_ends peer now cur tmo met T (bits OR fst (peer k)) (Suc k)"
  by (auto simp: wait_ends_def peer_bits_step simp del: peer_bits.simps)

lemma wait_all_returns:
  assumes "quiet_from K peer" and "wait_ends peer now cur tmo (\<lambda>b. b AND bit_mask = bit_mask) T (load32 m p) k"
  shows "\<exists>res. wait_all peer now p bit_mask clear cur tmo m k expected desired = Some res"
  using assms(2)
proof (induction "max K T - k" arbitrary: k m expected desired)
  case 0
  then have "K \<le> k" "T \<le> k" by simp_all
  then have q: "peer k = (0, False)" "peer (Suc k) = (0, False)" using assms(1) by (simp_all add: quiet_from_def)
  have "timed_out now k cur tmo \<or> load32 m p AND bit_mask = bit_mask"
    using 0(2) \<open>T \<le> k\<close> q unfolding wait_ends_def by force
  then show ?case
    using or_absorb_mask [of "load32 m p" bit_mask] q
    by (auto simp: wait_all.simps [of peer now p bit_mask clear cur tmo m k]
        wait_all.simps [of peer now p bit_mask clear cur tmo _ "Suc k"] Let_def)
next
  case (Suc n)
  have "wait_ends peer now cur tmo (\<lambda>b. b AND bit_mask = bit_mask) T (load32 (peer_writes peer k p m) p) (Suc k)"
    using wait_ends_step [OF Suc.prems] by simp
  moreover have "n = max K T - Suc k" using Suc.hyps(2) by simp
  ultimately have "\<exists>res. wait_all peer now p bit_mask clear cur tmo (peer_writes peer k p m) (Suc k) e d = Some res" for e d
    by (rule Suc.hyps(1) [rotated])
  then show ?case by (subst wait_all.simps) (simp add: Let_def)
qed

text \<open>Waiting for any bit.\<close>

lemma wait_any_sound:
  "wait_any peer now p bit_mask clear cur tmo m k = Some res \<Longrightarrow>
   k < snd (snd res) \<and> fst res = load32 m p OR peer_bits peer k (snd (snd res)) \<and>
   fst (snd res) = store32 m p (if clear then fst res AND NOT bit_mask else fst res) \<and>
   (fst res AND bit_mask = 0 \<longrightarrow> timed_out now (snd (snd res) - 1) cur tmo)"
proof (induction rule: wait_any.raw_induct [rotated, consumes 1])
  case (1 rec peer now p bit_mask clear cur tmo m k res)
  define ret where "ret = load32 m p OR fst (peer k)"
  define m2 where "m2 = store32 m p (if clear then ret AND NOT bit_mask else ret)"
  show ?case
  proof (cases "timed_out now k cur tmo \<or> ret AND bit_mask \<noteq> 0")
    case True
    with 1(2) have "res = (ret, m2, k + 1)"
      by (cases clear) (auto simp: Let_def m2_def ret_def peer_writes_def split: if_splits)
    with True show ?thesis by (auto simp: m2_def ret_def)
  next
    case False
    then have "load32 m2 p = ret" by (simp add: m2_def and_not_disjoint)
    moreover from False 1(2) have "rec peer now p bit_mask clear cur tmo m2 (k + 1) = Some res"
      by (cases clear) (auto simp: Let_def m2_def ret_def peer_writes_def)
    ultimately show ?thesis
      using 1(1) [of peer now p bit_mask clear cur tmo m2 "k + 1" res]
      by (auto simp: ret_def peer_bits_step m2_def)
  qed
qed

lemma wait_any_returns:
  assumes "quiet_from K peer" and "wait_ends peer now cur tmo (\<lambda>b. b AND bit_mask \<noteq> 0) T (load32 m p) k"
  shows "\<exists>res. wait_any peer now p bit_mask clear cur tmo m k = Some res"
  using assms(2)
proof (induction "max K T - k" arbitrary: k m)
  case 0
  then have "K \<le> k" "T \<le> k" by simp_all
  then have q: "peer k = (0, False)" using assms(1) by (simp add: quiet_from_def)
  have "timed_out now k cur tmo \<or> load32 m p AND bit_mask \<noteq> 0"
    using 0(2) \<open>T \<le> k\<close> q unfolding wait_ends_def by force
  then show ?case using q by (auto simp: wait_any.simps [of peer now p bit_mask clear cur tmo m k] Let_def)
next
  case (Suc n)
  let ?r = "load32 m p OR fst (peer k)"
  show ?case
  proof (cases "?r AND bit_mask = 0")
    case False
    then show ?thesis by (subst wait_any.simps) (simp add: Let_def)
  next
    case True
    then have c: "?r AND NOT bit_mask = ?r" by (rule and_not_disjoint)
    have "wait_ends peer now cur tmo (\<lambda>b. b AND bit_mask \<noteq> 0) T ?r (Suc k)" using wait_ends_step [OF Suc.prems] .
    moreover have "n = max K T - Suc k" using Suc.hyps(2) by simp
    ultimately have "\<exists>res. wait_any peer now p bit_mask clear cur tmo m' (Suc k) = Some res" if "load32 m' p = ?r" for m'
      using Suc.hyps(1) that by metis
    then show ?thesis using c by (subst wait_any.simps) (simp add: Let_def)
  qed
qed

text \<open>Clearing.\<close>

lemma clear_loop_sound:
  "clear_loop peer p bit_mask m k expected desired = Some res \<Longrightarrow> desired = expected AND NOT bit_mask \<Longrightarrow>
   k < snd (snd res) \<and> fst res = load32 m p OR peer_bits peer k (snd (snd res)) \<and>
   fst (snd res) = store32 m p (fst res AND NOT bit_mask)"
proof (induction rule: clear_loop.raw_induct [rotated, consumes 1])
  case (1 rec peer p bit_mask m k expected desired res)
  let ?c = "load32 m p OR fst (peer k)"
  show ?case
  proof (cases "?c = expected \<and> \<not> snd (peer k)")
    case True
    with 1(2) have "res = (expected, store32 m p desired, k + 1)" by (simp add: Let_def)
    with True 1(3) show ?thesis by auto
  next
    case False
    with 1(2) have "rec peer p bit_mask (peer_writes peer k p m) (k + 1) ?c (?c AND NOT bit_mask) = Some res"
      by (auto simp: Let_def)
    from 1(1) [OF this refl] show ?thesis by (simp add: peer_bits_step)
  qed
qed

lemma clear_loop_returns:
  assumes "quiet_from K peer"
  shows "\<exists>res. clear_loop peer p bit_mask m k expected desired = Some res"
proof (induction "K - k" arbitrary: k m expected desired)
  case 0
  then have "peer k = (0, False)" "peer (Suc k) = (0, False)" using assms by (simp_all add: quiet_from_def)
  then show ?case
    by (simp add: clear_loop.simps [of peer p bit_mask m k] clear_loop.simps [of peer p bit_mask _ "Suc k"] Let_def)
next
  case (Suc n)
  then have "\<exists>res. clear_loop peer p bit_mask m' (k + 1) e d = Some res" for m' e d by simp
  then show ?case by (subst clear_loop.simps) (simp add: Let_def)
qed

subsection \<open>The operations on bare metal\<close>

text \<open>The word is where the id says and the light sleep counter is elsewhere.\<close>

definition event_at :: "'z config \<Rightarrow> u16 \<Rightarrow> ptr \<Rightarrow> 'z core_scheme \<Rightarrow> bool" where
  "event_at c i p s \<longleftrightarrow> event_bits_of c i (PM_SKIP_LIGHT_SLEEP_ENTER c s) = Some p \<and> pm_ready c p 4 s"

text \<open>Leaving an operation that has written the word only.\<close>

lemma event_exit:
  assumes "port_ok c" and "pm_ready c p 4 s" and "s1 = PM_SKIP_LIGHT_SLEEP_ENTER c s"
  shows "load32 (mem s1) p = load32 (mem s) p"
    and "\<exists>s2. PM_SKIP_LIGHT_SLEEP_EXIT c (s1\<lparr>mem := store32 (mem s1) p v\<rparr>) = Some s2 \<and> load32 (mem s2) p = v"
proof -
  note e = pm_ready_enter [OF assms(1,2), folded assms(3)]
  show "load32 (mem s1) p = load32 (mem s) p" by (rule load32_cong [OF e(1)])
  let ?s = "s1\<lparr>mem := store32 (mem s1) p v\<rparr>"
  have "pm_cnt ?s = pm_cnt s1" by (rule pm_cnt_store32 [OF e(2)])
  then have "pm_active c \<Longrightarrow> pm_cnt ?s \<noteq> 0" using e(3) by simp
  then obtain s2 where x: "PM_SKIP_LIGHT_SLEEP_EXIT c ?s = Some s2" "pm_frame c ?s s2"
    by (rule pm_exit_ok [OF assms(1)])
  have "agree (span p 4) (mem s2) (mem ?s)" using pm_frame_agree [OF x(2)] e(2) by simp
  then show "\<exists>s2. PM_SKIP_LIGHT_SLEEP_EXIT c ?s = Some s2 \<and> load32 (mem s2) p = v"
    using x(1) load32_cong by fastforce
qed

lemma event_at_bits: "event_at c i p s \<Longrightarrow> event_bits_of c i (PM_SKIP_LIGHT_SLEEP_ENTER c s) = Some p"
  by (simp add: event_at_def)

lemma event_wait_spec:
  assumes "port_ok c" and "event_at c i p s" and "quiet_from K peer"
    and "wait_ends peer now (word_of_int start) timeout_ms
      (\<lambda>b. if wait_for_all then b AND bit_mask = bit_mask else b AND bit_mask \<noteq> 0) T (load32 (mem s) p) 0"
  shows "\<exists>ret k s'. bm_event_wait_by_id peer now start c i bit_mask clear wait_for_all timeout_ms s = Some (ret, k, s') \<and>
    ret = load32 (mem s) p OR peer_bits peer 0 k \<and>
    (let met = (if wait_for_all then ret AND bit_mask = bit_mask else ret AND bit_mask \<noteq> 0)
     in (met \<or> timed_out now (k - 1) (word_of_int start) timeout_ms) \<and>
        load32 (mem s') p = (if clear \<and> met then ret AND NOT bit_mask else ret))"
proof -
  define s1 where "s1 = PM_SKIP_LIGHT_SLEEP_ENTER c s"
  have at: "event_bits_of c i s1 = Some p" "pm_ready c p 4 s" using assms(2) by (simp_all add: event_at_def s1_def)
  note ex = event_exit [OF assms(1) at(2) s1_def]
  let ?cur = "word_of_int start"
  obtain r m k where loop: "(if wait_for_all
       then wait_all peer now p bit_mask clear ?cur timeout_ms (mem s1) 0 bit_mask (if clear then 0 else bit_mask)
       else wait_any peer now p bit_mask clear ?cur timeout_ms (mem s1) 0) = Some (r, m, k)"
    using wait_all_returns [OF assms(3), of now ?cur timeout_ms bit_mask T "mem s1" p 0]
      wait_any_returns [OF assms(3), of now ?cur timeout_ms bit_mask T "mem s1" p 0] assms(4) ex(1)
    by (cases wait_for_all) fastforce+
  have r: "r = load32 (mem s1) p OR peer_bits peer 0 k"
    and m: "let met = (if wait_for_all then r AND bit_mask = bit_mask else r AND bit_mask \<noteq> 0)
      in (met \<or> timed_out now (k - 1) ?cur timeout_ms) \<and>
         m = store32 (mem s1) p (if clear \<and> met then r AND NOT bit_mask else r)"
    using loop wait_all_sound [of peer now p bit_mask clear ?cur timeout_ms "mem s1" 0 bit_mask "if clear then 0 else bit_mask" "(r, m, k)"]
      wait_any_sound [of peer now p bit_mask clear ?cur timeout_ms "mem s1" 0 "(r, m, k)"]
    by (auto simp: wait_inv_def Let_def and_not_disjoint split: if_splits)
  let ?met = "if wait_for_all then r AND bit_mask = bit_mask else r AND bit_mask \<noteq> 0"
  obtain s2 where s2: "PM_SKIP_LIGHT_SLEEP_EXIT c (s1\<lparr>mem := m\<rparr>) = Some s2"
      "load32 (mem s2) p = (if clear \<and> ?met then r AND NOT bit_mask else r)"
    using ex(2) m by (auto simp: Let_def)
  have "bm_event_wait_by_id peer now start c i bit_mask clear wait_for_all timeout_ms s = Some (r, k, s2)"
    unfolding bm_event_wait_by_id_def Let_def s1_def [symmetric] at(1) using loop s2(1) by simp
  then show ?thesis using r ex(1) m s2(2) by (intro exI [of _ r] exI [of _ k] exI [of _ s2]) (simp add: Let_def)
qed

text \<open>Triggering an interrupt writes the pending word of the peer and the light sleep counter only.\<close>

lemma trigger_frame:
  assumes "port_ok c" and "esp_amp_sw_intr_trigger c j s = Some s'"
    and "span (peer_sw_intr_st c) 4 \<inter> A = {}" and "lp_access_hp_cnt s \<notin> A"
  shows "agree A (mem s') (mem s)" "lp_access_hp_cnt s' = lp_access_hp_cnt s"
proof -
  let ?s1 = "PM_SKIP_LIGHT_SLEEP_ENTER c s"
  define s3 where "s3 = esp_amp_platform_sw_intr_trigger c (?s1\<lparr>mem := store32 (mem ?s1) (peer_sw_intr_st c)
      (load32 (mem ?s1) (peer_sw_intr_st c) OR BIT j)\<rparr>)"
  have x: "PM_SKIP_LIGHT_SLEEP_EXIT c s3 = Some s'"
    using assms(2) by (auto simp: esp_amp_sw_intr_trigger_def Let_def s3_def split: if_splits)
  note f = pm_enter_frame [OF assms(1), of s] pm_exit_frame [OF assms(1) x]
  have lp: "lp_access_hp_cnt s3 = lp_access_hp_cnt s" using f(1) by (simp add: s3_def pm_frame_def)
  have "agree A (mem s') (mem s3)" using pm_frame_agree [OF f(2)] assms(4) lp by simp
  moreover have "agree A (mem s3) (mem ?s1)"
    unfolding s3_def using assms(3) by (simp add: agree_store32)
  moreover have "agree A (mem ?s1) (mem s)" using pm_frame_agree [OF f(1)] assms(4) by simp
  ultimately show "agree A (mem s') (mem s)" by (blast intro: agree_trans)
  show "lp_access_hp_cnt s' = lp_access_hp_cnt s" using f(2) lp by (simp add: pm_frame_def)
qed

text \<open>Room for two more nested light sleep locks.\<close>

definition notify_ready :: "'z config \<Rightarrow> ptr \<Rightarrow> 'z core_scheme \<Rightarrow> bool" where
  "notify_ready c p s \<longleftrightarrow> ESP_AMP_SW_INTR_BIT_ADDR c \<noteq> NULL \<and> span p 4 \<inter> span (peer_sw_intr_st c) 4 = {} \<and>
     lp_access_hp_cnt s \<notin> span (peer_sw_intr_st c) 4 \<and> (pm_active c \<longrightarrow> unat (pm_cnt s) < 254)"

lemma trigger_cnt:
  assumes "port_ok c" and "esp_amp_sw_intr_trigger c j s = Some s'" and "pm_active c"
    and "lp_access_hp_cnt s \<notin> span (peer_sw_intr_st c) 4"
  shows "pm_cnt s' = pm_cnt s"
proof -
  let ?s1 = "PM_SKIP_LIGHT_SLEEP_ENTER c s"
  define s3 where "s3 = esp_amp_platform_sw_intr_trigger c (?s1\<lparr>mem := store32 (mem ?s1) (peer_sw_intr_st c)
      (load32 (mem ?s1) (peer_sw_intr_st c) OR BIT j)\<rparr>)"
  have x: "PM_SKIP_LIGHT_SLEEP_EXIT c s3 = Some s'"
    using assms(2) by (auto simp: esp_amp_sw_intr_trigger_def Let_def s3_def split: if_splits)
  have "lp_access_hp_cnt ?s1 = lp_access_hp_cnt s" using pm_enter_frame [OF assms(1), of s] by (simp add: pm_frame_def)
  then have "lp_access_hp_cnt ?s1 \<notin> span (peer_sw_intr_st c) 4" using assms(4) by simp
  from pm_cnt_store32 [OF this] have "pm_cnt s3 = pm_cnt s + 1"
    using pm_enter_cnt [OF assms(1,3), of s] by (simp add: s3_def pm_cnt_def)
  then show ?thesis using pm_exit_cnt [OF assms(1,3), of s3] x by auto
qed

lemma notify_effect:
  assumes "port_ok c" and "event_at c i p s" and "notify_ready c p s"
  shows "\<exists>s'. bm_event_notify_by_id c i bit_mask s = Some (load32 (mem s) p, s') \<and>
    load32 (mem s') p = load32 (mem s) p OR bit_mask \<and>
    load32 (mem s') (peer_sw_intr_st c) = load32 (mem s) (peer_sw_intr_st c) OR BIT SW_INTR_RESERVED_ID_EVENT"
proof -
  let ?st = "peer_sw_intr_st c"
  define s1 where "s1 = PM_SKIP_LIGHT_SLEEP_ENTER c s"
  have at: "event_bits_of c i s1 = Some p" "pm_ready c p 4 s" using assms(2) by (simp_all add: event_at_def s1_def)
  have rst: "pm_ready c ?st 4 s" using assms(3) at(2) by (simp add: pm_ready_def notify_ready_def)
  note e = pm_ready_enter [OF assms(1) at(2), folded s1_def] and est = pm_ready_enter [OF assms(1) rst, folded s1_def]
  define s2 where "s2 = s1\<lparr>mem := store32 (mem s1) p (load32 (mem s1) p OR bit_mask)\<rparr>"
  have cnt2: "pm_cnt s2 = pm_cnt s1" unfolding s2_def by (rule pm_cnt_store32 [OF e(2)])
  have "pm_cnt s2 \<noteq> -1" if "pm_active c"
  proof -
    have "unat (pm_cnt s) < 254" using assms(3) that by (simp add: notify_ready_def)
    then have "unat (pm_cnt s + 1) < 255" by (simp add: unat_word_ariths)
    moreover have "unat (-1 :: u8) = 255" by (simp add: unsigned_minus_1_eq_mask mask_eq_exp_minus_1)
    ultimately have "pm_cnt s + 1 \<noteq> -1" by (metis less_irrefl)
    then show ?thesis using cnt2 pm_enter_cnt [OF assms(1) that, of s] s1_def by simp
  qed
  then have r2: "pm_ready c ?st 4 s2" using est(2) by (simp add: pm_ready_def s2_def)
  have "SW_INTR_RESERVED_ID_EVENT \<le> SW_INTR_ID_MAX" by (simp add: SW_INTR_RESERVED_ID_EVENT_def SW_INTR_ID_MAX_def)
  from trigger_effect [OF assms(1) r2 this] assms(3) obtain s3 where
    t: "esp_amp_sw_intr_trigger c SW_INTR_RESERVED_ID_EVENT s2 = Some s3"
    and st: "load32 (mem s3) ?st = load32 (mem s2) ?st OR BIT SW_INTR_RESERVED_ID_EVENT"
    by (auto simp: notify_ready_def)
  have dis: "span ?st 4 \<inter> span p 4 = {}" using assms(3) by (auto simp: notify_ready_def)
  have lp2: "lp_access_hp_cnt s2 = lp_access_hp_cnt s1" by (simp add: s2_def)
  note fr = trigger_frame [OF assms(1) t dis] 
  have w: "load32 (mem s3) p = load32 (mem s1) p OR bit_mask"
    using load32_cong [OF fr(1)] e(2) lp2 by (simp add: s2_def)
  have st2: "load32 (mem s2) ?st = load32 (mem s) ?st"
    using load32_cong [OF est(1)] load32_cong [OF agree_store32 [OF _ agree_refl]] dis by (simp add: s2_def Int_commute)
  have "pm_active c \<Longrightarrow> pm_cnt s3 \<noteq> 0" using trigger_cnt [OF assms(1) t] est(2) lp2 cnt2 e(3) by simp
  then obtain s4 where x: "PM_SKIP_LIGHT_SLEEP_EXIT c s3 = Some s4" "pm_frame c s3 s4" by (rule pm_exit_ok [OF assms(1)])
  have lp3: "lp_access_hp_cnt s3 = lp_access_hp_cnt s1" using fr(2) e(2) lp2 by simp
  have "agree (span p 4) (mem s4) (mem s3)" "agree (span ?st 4) (mem s4) (mem s3)"
    using pm_frame_agree [OF x(2)] lp3 e(2) est(2) by simp_all
  from this [THEN load32_cong] have "load32 (mem s4) p = load32 (mem s) p OR bit_mask"
    "load32 (mem s4) ?st = load32 (mem s) ?st OR BIT SW_INTR_RESERVED_ID_EVENT"
    using w st st2 load32_cong [OF e(1)] by simp_all
  moreover have "bm_event_notify_by_id c i bit_mask s = Some (load32 (mem s) p, s4)"
    using at(1) t x(1) load32_cong [OF e(1)]
    by (simp add: bm_event_notify_by_id_def Let_def s1_def [symmetric] s2_def)
  ultimately show ?thesis by blast
qed

lemma create_effect:
  assumes ok: "pool_ok c SYS_INFO_CAP_HP (mem s) bs" and "i \<notin> fst ` set bs" and "block_fits c SYS_INFO_CAP_HP bs 4"
  shows "\<exists>p s'. esp_amp_event_create c i s = Some (0, s') \<and> pool_ok c SYS_INFO_CAP_HP (mem s') (bs @ [(i, 4)]) \<and>
    p = buf_addr c SYS_INFO_CAP_HP i (bs @ [(i, 4)]) \<and> p \<noteq> NULL \<and> load32 (mem s') p = 0 \<and>
    lp_access_hp_cnt s' = lp_access_hp_cnt s"
proof -
  let ?bs = "bs @ [(i, 4)]" and ?hp = SYS_INFO_CAP_HP
  let ?p = "buf_addr c ?hp i ?bs"
  obtain s1 where a: "esp_amp_sys_info_alloc c i 4 ?hp s = Some (?p, s1)" and ok1: "pool_ok c ?hp (mem s1) ?bs"
    using sys_info.alloc_done [OF ok assms(2,3)] by blast
  have n: "?p \<noteq> NULL" using sys_info.place_nonnull [OF ok1, of i] by simp
  have lp: "lp_access_hp_cnt s1 = lp_access_hp_cnt s" using a alloc_pool_eq [OF ok, of i 4] assms(2,3) by auto
  have "map_of ?bs i = Some 4" using assms(2) by (simp add: map_add_def map_of_eq_None_iff [THEN iffD2])
  moreover have "agree (- span ?p 4) (store32 (mem s1) ?p 0) (mem s1)" by (intro frame_intros agree_refl) auto
  ultimately have "pool_ok c ?hp (store32 (mem s1) ?p 0) ?bs"
    using pool_ok_buffer_write [OF ok1, of i 4] by simp
  then show ?thesis using a n lp by (auto simp: esp_amp_event_create_def)
qed

lemma event_bits_of_pool:
  assumes "pool_ok c SYS_INFO_CAP_HP (mem s) bs" and "map_of bs i = Some 4"
  shows "event_bits_of c i s = Some (buf_addr c SYS_INFO_CAP_HP i bs)"
proof -
  have "i \<in> fst ` set bs" using assms(2) by (force dest: map_of_SomeD)
  then show ?thesis
    using get_pool_eq [OF assms(1), of i] sys_info.place_nonnull [OF assms(1)] assms(2)
    by (simp add: event_bits_of_def)
qed

subsection \<open>Event groups\<close>

text \<open>
  What the event component relies on of FreeRTOS: \<open>gbits h s\<close>, the bits of event group \<open>h\<close>, gains
  the bits set, the other groups keep theirs, and the memory and table of the component are left
  alone.
\<close>

definition os_events_ok :: "('f, 'z) ev rtos_events \<Rightarrow> (ptr \<Rightarrow> ('f, 'z) ev \<Rightarrow> u32) \<Rightarrow> bool" where
  "os_events_ok os gbits \<longleftrightarrow>
     (\<forall>h b s. let s' = snd (xEventGroupSetBitsFromISR os h b s) in
        mem s' = mem s \<and> event_table s' = event_table s \<and>
        (\<forall>g. gbits g s' = (if g = h then gbits g s OR b else gbits g s))) \<and>
     (\<forall>h b s. let s' = xEventGroupSetBits os h b s in
        mem s' = mem s \<and> event_table s' = event_table s \<and>
        (\<forall>g. gbits g s' = (if g = h then gbits g s OR b else gbits g s))) \<and>
     (\<forall>g s m. gbits g (s\<lparr>mem := m\<rparr>) = gbits g s) \<and> (\<forall>g s t. gbits g (s\<lparr>event_table := t\<rparr>) = gbits g s) \<and>
     (\<forall>g s s'. crit_frame s s' \<longrightarrow> gbits g s' = gbits g s)"

lemma os_events_isr:
  assumes "os_events_ok os gbits" and "xEventGroupSetBitsFromISR os h b s = (ty, s')"
  shows "mem s' = mem s" "event_table s' = event_table s" "gbits g s' = (if g = h then gbits g s OR b else gbits g s)"
  using assms(1) [unfolded os_events_ok_def Let_def, THEN conjunct1, THEN spec, THEN spec, THEN spec, of h b s] assms(2)
  by simp_all

lemma os_events_set:
  assumes "os_events_ok os gbits"
  shows "mem (xEventGroupSetBits os h b s) = mem s" "event_table (xEventGroupSetBits os h b s) = event_table s"
    "gbits g (xEventGroupSetBits os h b s) = (if g = h then gbits g s OR b else gbits g s)"
  using assms [unfolded os_events_ok_def Let_def, THEN conjunct2, THEN conjunct1, THEN spec, THEN spec, THEN spec, of h b s]
  by simp_all

lemma os_events_mem:
  assumes "os_events_ok os gbits"
  shows "gbits g (s\<lparr>mem := m\<rparr>) = gbits g s" "gbits g (s\<lparr>event_table := t\<rparr>) = gbits g s"
    "crit_frame s s' \<Longrightarrow> gbits g s' = gbits g s"
  using assms unfolding os_events_ok_def by simp_all

lemma event_table_more: "core.more s' = core.more s \<Longrightarrow> event_table s' = event_table s"
  by (cases s; cases s') simp

lemma fr_sections:
  assumes "port_ok c" and "\<not> IS_ENV_BM c"
  shows "crit_frame s (portENTER_CRITICAL c s)" "crit_frame s (portEXIT_CRITICAL c s)"
    "crit_frame s (portENTER_CRITICAL_ISR c s)" "crit_frame s (portEXIT_CRITICAL_ISR c s)"
  using assms by (simp_all add: port_ok_def)

lemma fr_section_fields:
  assumes "port_ok c" and "\<not> IS_ENV_BM c"
  shows "mem (portENTER_CRITICAL c s) = mem s" "mem (portEXIT_CRITICAL c s) = mem s"
    "mem (portENTER_CRITICAL_ISR c s) = mem s" "mem (portEXIT_CRITICAL_ISR c s) = mem s"
  using fr_sections [OF assms, THEN crit_frame_fields(1)] by simp_all

lemma fr_section_table:
  assumes "port_ok c" and "\<not> IS_ENV_BM c"
  shows "event_table (portENTER_CRITICAL c s) = event_table s" "event_table (portEXIT_CRITICAL c s) = event_table s"
    "event_table (portENTER_CRITICAL_ISR c s) = event_table s" "event_table (portEXIT_CRITICAL_ISR c s) = event_table s"
  by (rule event_table_more, rule crit_frame_fields(6), rule fr_sections [OF assms])+

text \<open>Entries with a handle have different handles and words that do not overlap.\<close>

fun entries_apart :: "esp_amp_event list \<Rightarrow> bool" where
  "entries_apart [] \<longleftrightarrow> True"
| "entries_apart (e # es) \<longleftrightarrow> entries_apart es \<and>
     (event_handle e \<noteq> NULL \<longrightarrow> (\<forall>f \<in> set es. event_handle f \<noteq> NULL \<longrightarrow>
        event_handle f \<noteq> event_handle e \<and> span (event_bits e) 4 \<inter> span (event_bits f) 4 = {}))"

text \<open>
  Effect of the service routine on the entries \<open>es\<close>, from state \<open>s\<close> to \<open>s'\<close>: each bound word is
  emptied into its group, with what the peer set meanwhile, and nothing else changes.
\<close>

definition moved ::
    "interference \<Rightarrow> (ptr \<Rightarrow> 's \<Rightarrow> u32) \<Rightarrow> ('s \<Rightarrow> memory) \<Rightarrow> esp_amp_event list \<Rightarrow> 's \<Rightarrow> 's \<Rightarrow> bool" where
  "moved peer gbits mm es s s' \<longleftrightarrow>
     (\<forall>e \<in> set es. event_handle e \<noteq> NULL \<longrightarrow> load32 (mm s') (event_bits e) = 0 \<and>
        (\<exists>a b. gbits (event_handle e) s' =
           gbits (event_handle e) s OR load32 (mm s) (event_bits e) OR peer_bits peer a b)) \<and>
     (\<forall>h. (\<forall>e \<in> set es. event_handle e \<noteq> NULL \<longrightarrow> event_handle e \<noteq> h) \<longrightarrow> gbits h s' = gbits h s) \<and>
     (\<forall>p. (\<forall>e \<in> set es. event_handle e \<noteq> NULL \<longrightarrow> span (event_bits e) 4 \<inter> span p 4 = {}) \<longrightarrow>
        load32 (mm s') p = load32 (mm s) p)"

lemma moved_skip: "event_handle e = NULL \<Longrightarrow> moved peer gbits mm (e # es) s s' = moved peer gbits mm es s s'"
  by (simp add: moved_def)

lemma moved_step:
  assumes "moved peer gbits mm es s1 s'" and "entries_apart (e # es)" and "event_handle e \<noteq> NULL"
    and "mm s1 = store32 (mm s) (event_bits e) 0"
    and "\<And>g. gbits g s1 = (if g = event_handle e
        then gbits g s OR load32 (mm s) (event_bits e) OR peer_bits peer a b else gbits g s)"
  shows "moved peer gbits mm (e # es) s s'"
proof -
  have other: "load32 (mm s1) p = load32 (mm s) p" if "span (event_bits e) 4 \<inter> span p 4 = {}" for p
    unfolding assms(4) by (rule load32_cong [OF agree_store32 [OF that agree_refl]])
  have apart: "event_handle f \<noteq> event_handle e" "span (event_bits e) 4 \<inter> span (event_bits f) 4 = {}"
    if "f \<in> set es" "event_handle f \<noteq> NULL" for f using assms(2,3) that by auto
  have "load32 (mm s') (event_bits e) = load32 (mm s1) (event_bits e)"
    using assms(1) apart(2) unfolding moved_def by blast
  moreover have "gbits (event_handle e) s' = gbits (event_handle e) s1"
    using assms(1) apart(1) unfolding moved_def by blast
  ultimately have head: "load32 (mm s') (event_bits e) = 0 \<and> (\<exists>a b. gbits (event_handle e) s' =
      gbits (event_handle e) s OR load32 (mm s) (event_bits e) OR peer_bits peer a b)"
    using assms(4,5) by auto
  have "load32 (mm s') (event_bits f) = 0 \<and> (\<exists>a b. gbits (event_handle f) s' =
      gbits (event_handle f) s OR load32 (mm s) (event_bits f) OR peer_bits peer a b)"
    if "f \<in> set es" "event_handle f \<noteq> NULL" for f
    using assms(1,5) that apart [OF that] other [OF apart(2) [OF that]] unfolding moved_def by (metis (no_types))
  moreover have "gbits h s' = gbits h s"
    if "\<forall>f \<in> set (e # es). event_handle f \<noteq> NULL \<longrightarrow> event_handle f \<noteq> h" for h
    using assms(1,3,5) that unfolding moved_def by auto
  moreover have "load32 (mm s') p = load32 (mm s) p"
    if "\<forall>f \<in> set (e # es). event_handle f \<noteq> NULL \<longrightarrow> span (event_bits f) 4 \<inter> span p 4 = {}" for p
    using assms(1,3) that other [of p] unfolding moved_def by simp
  ultimately show ?thesis using head unfolding moved_def by simp
qed

lemma event_isr_loop_moves:
  assumes "os_events_ok os gbits" and "quiet_from K peer"
  shows "event_table s = tbl \<Longrightarrow> i + n = length tbl \<Longrightarrow> entries_apart (drop i tbl) \<Longrightarrow>
    \<exists>y' s'. event_isr_loop os peer k i n (y, s) = Some (y', s') \<and> event_table s' = tbl \<and>
      moved peer gbits mem (drop i tbl) s s'"
proof (induction n arbitrary: k i y s)
  case 0
  then show ?case by (simp add: moved_def)
next
  case (Suc n)
  let ?e = "tbl ! i"
  have drop: "drop i tbl = ?e # drop (Suc i) tbl" using Suc.prems by (simp add: Cons_nth_drop_Suc)
  have ap: "entries_apart (drop (Suc i) tbl)" using Suc.prems(3) drop by simp
  show ?case
  proof (cases "event_handle ?e = NULL")
    case True
    then show ?thesis using Suc.IH [OF Suc.prems(1) _ ap, of k y] Suc.prems drop by (simp add: moved_skip)
  next
    case False
    obtain u m k' where take: "cas_take peer (event_bits ?e) (mem s) k 0 = Some (u, m, k')"
      using cas_take_returns [OF assms(2), of "event_bits ?e" "mem s" k 0] by auto
    have u: "u = load32 (mem s) (event_bits ?e) OR peer_bits peer k k'" and m: "m = store32 (mem s) (event_bits ?e) 0"
      using cas_take_sound [OF take] by simp_all
    obtain ty s1 where set: "xEventGroupSetBitsFromISR os (event_handle ?e) u (s\<lparr>mem := m\<rparr>) = (ty, s1)"
      by (cases "xEventGroupSetBitsFromISR os (event_handle ?e) u (s\<lparr>mem := m\<rparr>)")
    have s1: "mem s1 = m" "event_table s1 = tbl"
      "gbits g s1 = (if g = event_handle ?e then gbits g s OR u else gbits g s)" for g
      using os_events_isr [OF assms(1) set] os_events_mem [OF assms(1)] Suc.prems(1) by simp_all
    from Suc.IH [OF s1(2) _ ap, of k' "y \<or> ty"] Suc.prems(2) obtain y' s' where
      "event_isr_loop os peer k' (Suc i) n (y \<or> ty, s1) = Some (y', s')" "event_table s' = tbl"
      and mv: "moved peer gbits mem (drop (Suc i) tbl) s1 s'" by auto
    moreover have "moved peer gbits mem (drop i tbl) s s'"
      unfolding drop using Suc.prems(3) drop False s1 u m
      by (intro moved_step [OF mv, where a = k and b = k']) (simp_all add: or.assoc)
    ultimately show ?thesis using False take set Suc.prems(1) by simp
  qed
qed

text \<open>The table as a map from ids to handles.\<close>

lemma event_lookup_update:
  assumes "i = (if idx_dup x tbl = length tbl then idx_free tbl else idx_dup x tbl)" and "i < length tbl"
  shows "event_lookup x (tbl[i := \<lparr>ev_sysinfo_id = x, event_handle = h, event_bits = p\<rparr>]) = h"
  using assms
proof (induction tbl arbitrary: i)
  case Nil
  then show ?case by simp
next
  case (Cons e tbl)
  show ?case
  proof (cases "ev_sysinfo_id e = x \<or> i = 0")
    case True
    then have "i = 0" using Cons.prems(1) by (cases "ev_sysinfo_id e = x") simp_all
    then show ?thesis by simp
  next
    case False
    then obtain j where j: "i = Suc j" by (cases i) auto
    then have "j = (if idx_dup x tbl = length tbl then idx_free tbl else idx_dup x tbl)" "j < length tbl"
      using Cons.prems False j by (cases "idx_dup x tbl = length tbl"; cases "event_handle e = NULL"; simp)+
    from Cons.IH [OF this] show ?thesis using False j by simp
  qed
qed

lemma event_lookup_other:
  assumes "y \<noteq> x" and "i < length tbl \<Longrightarrow> ev_sysinfo_id (tbl ! i) = x \<or> ev_sysinfo_id (tbl ! i) \<noteq> y"
  shows "event_lookup y (tbl[i := \<lparr>ev_sysinfo_id = x, event_handle = h, event_bits = p\<rparr>]) = event_lookup y tbl"
  using assms
proof (induction tbl arbitrary: i)
  case (Cons e tbl)
  show ?case
  proof (cases i)
    case 0
    then show ?thesis using Cons.prems by auto
  next
    case (Suc j)
    have "event_lookup y (tbl[j := \<lparr>ev_sysinfo_id = x, event_handle = h, event_bits = p\<rparr>]) = event_lookup y tbl"
      using Cons.prems Suc by (intro Cons.IH) auto
    then show ?thesis using Suc by simp
  qed
qed simp

lemma idx_found:
  "idx_free tbl \<le> length tbl" "idx_dup x tbl \<le> length tbl"
  "idx_free tbl < length tbl \<Longrightarrow> event_handle (tbl ! idx_free tbl) = NULL"
  "idx_dup x tbl < length tbl \<Longrightarrow> ev_sysinfo_id (tbl ! idx_dup x tbl) = x"
  by (induction tbl) auto

text \<open>A free entry has id 0; other ids occur once.\<close>

definition table_ok :: "esp_amp_event list \<Rightarrow> bool" where
  "table_ok tbl \<longleftrightarrow> (\<forall>e \<in> set tbl. event_handle e = NULL \<longrightarrow> ev_sysinfo_id e = 0) \<and>
     (\<forall>i < length tbl. \<forall>j < length tbl. i \<noteq> j \<longrightarrow> ev_sysinfo_id (tbl ! i) = ev_sysinfo_id (tbl ! j) \<longrightarrow> ev_sysinfo_id (tbl ! i) = 0)"

lemma idx_iff:
  "idx_free tbl < length tbl \<longleftrightarrow> (\<exists>e \<in> set tbl. event_handle e = NULL)"
  "idx_dup x tbl < length tbl \<longleftrightarrow> (\<exists>e \<in> set tbl. ev_sysinfo_id e = x)"
  by (induction tbl) auto

lemma event_lookup_none: "\<forall>e \<in> set tbl. ev_sysinfo_id e \<noteq> x \<Longrightarrow> event_lookup x tbl = NULL"
  by (induction tbl) auto

text \<open>Where binding \<open>x\<close> puts its entry, and that \<open>x\<close> is nowhere else.\<close>

lemma insert_index:
  assumes "table_ok tbl" and "x \<noteq> 0" and "i = (if idx_dup x tbl = length tbl then idx_free tbl else idx_dup x tbl)"
    and "i < length tbl"
  shows "ev_sysinfo_id (tbl ! i) = x \<or> ev_sysinfo_id (tbl ! i) = 0"
    and "j < length tbl \<Longrightarrow> j \<noteq> i \<Longrightarrow> ev_sysinfo_id (tbl ! j) \<noteq> x"
proof -
  have "ev_sysinfo_id (tbl ! i) = x" if "idx_dup x tbl \<noteq> length tbl"
    using that assms(3,4) idx_found(4) [of x tbl] by simp
  moreover have none: "\<forall>e \<in> set tbl. ev_sysinfo_id e \<noteq> x" "ev_sysinfo_id (tbl ! i) = 0" if "idx_dup x tbl = length tbl"
    using that assms(1,3,4) idx_iff(2) [of x tbl] idx_found(3) [of tbl] by (auto simp: table_ok_def)
  ultimately show "ev_sysinfo_id (tbl ! i) = x \<or> ev_sysinfo_id (tbl ! i) = 0" by blast
  show "ev_sysinfo_id (tbl ! j) \<noteq> x" if "j < length tbl" "j \<noteq> i"
  proof (cases "idx_dup x tbl = length tbl")
    case True
    then show ?thesis using none(1) that(1) by simp
  next
    case False
    then have "ev_sysinfo_id (tbl ! i) = x" using assms(3,4) idx_found(4) [of x tbl] by simp
    then show ?thesis using assms(1,2,4) that unfolding table_ok_def by metis
  qed
qed

lemma table_ok_update:
  assumes "table_ok tbl" and "i < length tbl" and "event_handle e = NULL \<longrightarrow> ev_sysinfo_id e = 0"
    and "\<And>j. j < length tbl \<Longrightarrow> j \<noteq> i \<Longrightarrow> ev_sysinfo_id (tbl ! j) \<noteq> ev_sysinfo_id e \<or> ev_sysinfo_id e = 0"
  shows "table_ok (tbl[i := e])"
  unfolding table_ok_def
proof (intro conjI ballI allI impI)
  fix f assume "f \<in> set (tbl[i := e])" "event_handle f = NULL"
  then show "ev_sysinfo_id f = 0" using assms(1,3) set_update_subset_insert [of tbl i e] by (auto simp: table_ok_def)
next
  fix j k assume *: "j < length (tbl[i := e])" "k < length (tbl[i := e])" "j \<noteq> k"
    "ev_sysinfo_id (tbl[i := e] ! j) = ev_sysinfo_id (tbl[i := e] ! k)"
  then show "ev_sysinfo_id (tbl[i := e] ! j) = 0"
    using assms(1,4) [unfolded table_ok_def] assms(4) [of j] assms(4) [of k] by (cases "j = i"; cases "k = i") (auto simp: table_ok_def)
qed

lemma bind_effect:
  assumes os: "os_events_ok os gbits" and pc: "port_ok c" "\<not> IS_ENV_BM c" and q: "quiet_from K peer"
    and p: "event_bits_of c x s = Some p" and h: "h \<noteq> NULL"
    and room: "idx_dup x (event_table s) < length (event_table s) \<or> idx_free (event_table s) < length (event_table s)"
  shows "\<exists>i k s'. i < length (event_table s) \<and>
    i = (if idx_dup x (event_table s) = length (event_table s) then idx_free (event_table s) else idx_dup x (event_table s)) \<and>
    esp_amp_event_bind_handle os peer c x h s = Some (0, s') \<and>
    event_table s' = (event_table s)[i := \<lparr>ev_sysinfo_id = x, event_handle = h, event_bits = p\<rparr>] \<and>
    mem s' = store32 (mem s) p 0 \<and>
    gbits h s' = gbits h s OR load32 (mem s) p OR peer_bits peer 0 k"
proof -
  let ?tbl = "event_table s"
  define i where "i = (if idx_dup x ?tbl = length ?tbl then idx_free ?tbl else idx_dup x ?tbl)"
  have i: "i < length ?tbl" using room idx_found(1) [of ?tbl] idx_found(2) [of x ?tbl] by (auto simp: i_def)
  let ?e = "\<lparr>ev_sysinfo_id = x, event_handle = h, event_bits = p\<rparr>"
  define s3 where "s3 = portEXIT_CRITICAL c ((portENTER_CRITICAL c s)\<lparr>event_table := ?tbl[i := ?e]\<rparr>)"
  note fl = fr_section_fields [OF pc] fr_section_table [OF pc]
  have s3: "mem s3 = mem s" "event_table s3 = ?tbl[i := ?e]" "gbits g s3 = gbits g s" for g
    using fl os_events_mem(3) [OF os fr_sections(1) [OF pc]] os_events_mem(3) [OF os fr_sections(2) [OF pc]] os_events_mem(2) [OF os]
    by (simp_all add: s3_def)
  obtain u m k where take: "cas_take peer p (mem s3) 0 (load32 (mem s3) p) = Some (u, m, k)"
    using cas_take_returns [OF q, of p "mem s3" 0] by (metis prod_cases3)
  have u: "u = load32 (mem s) p OR peer_bits peer 0 k" and m: "m = store32 (mem s) p 0"
    using cas_take_sound [OF take] s3(1) by simp_all
  have "esp_amp_event_bind_handle os peer c x h s = Some (0, xEventGroupSetBits os h u (s3\<lparr>mem := m\<rparr>))"
    using h p i room take by (auto simp: esp_amp_event_bind_handle_def Let_def fl s3_def i_def)
  then show ?thesis
    using i u m s3 os_events_set [OF os] os_events_mem(1) [OF os]
    by (intro exI [of _ i] exI [of _ k] exI) (auto simp: i_def or.assoc)
qed

lemma unbind_effect:
  assumes "port_ok c" "\<not> IS_ENV_BM c"
  shows "event_table (esp_amp_event_unbind_handle c x s) =
    (if idx_dup x (event_table s) < length (event_table s)
     then (event_table s)[idx_dup x (event_table s) := \<lparr>ev_sysinfo_id = 0, event_handle = NULL, event_bits = NULL\<rparr>]
     else event_table s)" "mem (esp_amp_event_unbind_handle c x s) = mem s"
  using fr_section_fields [OF assms] fr_section_table [OF assms] by (auto simp: esp_amp_event_unbind_handle_def Let_def)

subsection \<open>A sample event\<close>

text \<open>Maincore has initialised the pool and created event \<open>0x20\<close>.\<close>

definition demo_event_core :: core where
  "demo_event_core = snd (the (esp_amp_event_create (demo_config True) 0x20
     (snd (esp_amp_sys_info_init (demo_config True) demo_core))))"

lemma demo_event:
  "event_at (demo_config b) 0x20 0x4087a590 demo_event_core" "load32 (mem demo_event_core) 0x4087a590 = 0"
  "lp_access_hp_cnt demo_event_core = NULL"
proof -
  let ?c = "demo_config True :: unit config" and ?s = "snd (esp_amp_sys_info_init (demo_config True) demo_core)"
  have ok: "pool_ok ?c SYS_INFO_CAP_HP (mem ?s) []" by (rule init_pool_ok) simp_all
  have fits: "block_fits ?c SYS_INFO_CAP_HP [] 4" by (simp add: block_fits_def stride_def)
  obtain s' where s': "esp_amp_event_create ?c 0x20 ?s = Some (0, s')" "pool_ok ?c SYS_INFO_CAP_HP (mem s') [(0x20, 4)]"
    "load32 (mem s') (buf_addr ?c SYS_INFO_CAP_HP 0x20 [(0x20, 4)]) = 0" "lp_access_hp_cnt s' = lp_access_hp_cnt ?s"
    using create_effect [OF ok _ fits, of "0x20"] by auto
  have a: "buf_addr ?c SYS_INFO_CAP_HP 0x20 [(0x20, 4)] = 0x4087a590" by (simp add: buf_addr_def)
  have d: "demo_event_core = s'" using s'(1) by (simp add: demo_event_core_def)
  then show "load32 (mem demo_event_core) 0x4087a590 = 0" using s'(3) a by simp
  have "event_bits_of ?c 0x20 s' = Some 0x4087a590" using event_bits_of_pool [OF s'(2), of "0x20"] a by simp
  moreover have "event_bits_of (demo_config b) 0x20 s' = event_bits_of ?c 0x20 s'"
    by (simp add: event_bits_of_def esp_amp_sys_info_get_def demo_config_def ESP_AMP_HP_SHARED_MEM_POOL_START_def
        ESP_AMP_HP_SHARED_MEM_START_def)
  moreover have lp: "lp_access_hp_cnt s' = NULL" using s'(4) by (simp add: esp_amp_sys_info_init_def demo_core_def Let_def)
  ultimately show "event_at (demo_config b) 0x20 0x4087a590 demo_event_core"
    unfolding d by (simp add: event_at_def pm_ready_def in_span_iff)
  show "lp_access_hp_cnt demo_event_core = NULL" using lp d by simp
qed

text \<open>A sample FreeRTOS: the bits of the event groups are the extension of the state.\<close>

definition demo_os :: "(nat, ptr \<Rightarrow> u32) ev rtos_events" where
  "demo_os = \<lparr>xEventGroupSetBitsFromISR = \<lambda>h b s. (False, event_core.more_update (\<lambda>g. g(h := g h OR b)) s),
     xEventGroupSetBits = \<lambda>h b s. event_core.more_update (\<lambda>g. g(h := g h OR b)) s,
     xEventGroupWaitBits = \<lambda>h b cl al tk s. (event_core.more s h, s),
     xEventGroupClearBits = \<lambda>h b s. (event_core.more s h, event_core.more_update (\<lambda>g. g(h := g h AND NOT b)) s),
     xEventGroupCreateStatic = \<lambda>s. (0x100, s), pdMS_TO_TICKS = \<lambda>t. t, portMAX_DELAY = -1\<rparr>"

definition demo_ev :: "(nat, ptr \<Rightarrow> u32) ev" where
  "demo_ev = \<lparr>mem = store32 (\<lambda>_. 0) 0x4000 5, main_sw_intr = False, sub_sw_intr = False, sw_intr_ena = True,
     mstatus = MSTATUS_MIE, s_critical_nesting = 0, s_old_mstatus = 0, bm_intr_nesting_cnt = 0,
     lp_access_hp_cnt = NULL, sw_intr_handlers = [],
     event_table = [\<lparr>ev_sysinfo_id = 7, event_handle = 0x100, event_bits = 0x4000\<rparr>,
       \<lparr>ev_sysinfo_id = 0, event_handle = NULL, event_bits = NULL\<rparr>], \<dots> = \<lambda>_. 8\<rparr>"

definition demo_fr :: "(nat, ptr \<Rightarrow> u32) ev_config" where
  "demo_fr = (demo_config True)\<lparr>IS_ENV_BM := False\<rparr>"

lemma demo_fr_simps [simp]: "port_ok demo_fr" "\<not> IS_ENV_BM demo_fr"
  by (simp_all add: demo_fr_def demo_config_def port_ok_def)

lemma event_more: "core.more s' = core.more s \<Longrightarrow> event_core.more s' = event_core.more s"
  by (cases s; cases s') simp

lemma demo_os_ok: "os_events_ok demo_os (\<lambda>g s. event_core.more s g)"
proof -
  have "event_core.more s' g = event_core.more s g" if "crit_frame s s'" for g :: ptr and s s' :: "(nat, ptr \<Rightarrow> u32) ev"
    using event_more [OF crit_frame_fields(6) [OF that]] by simp
  then show ?thesis by (simp add: os_events_ok_def demo_os_def Let_def)
qed

text \<open>The sample FreeRTOS state over the memory with the sample event.\<close>

definition demo_bind :: "(nat, ptr \<Rightarrow> u32) ev" where
  "demo_bind = demo_ev\<lparr>mem := mem demo_event_core\<rparr>"

lemma demo_bind:
  "event_bits_of demo_fr 0x20 demo_bind = Some 0x4087a590" "table_ok (event_table demo_bind)"
  if "demo_bind_core = demo_bind"
proof -
  have "event_bits_of (demo_config True) 0x20 demo_event_core = Some 0x4087a590"
    using demo_event(1) [of True] by (simp add: event_at_def)
  moreover have mb: "mem demo_bind = mem demo_event_core" by (simp add: demo_bind_def)
  moreover have "event_bits_of demo_fr 0x20 demo_bind = event_bits_of (demo_config True) 0x20 demo_event_core"
    unfolding event_bits_of_def esp_amp_sys_info_get_def mb
    by (simp add: demo_fr_def demo_config_def
        ESP_AMP_HP_SHARED_MEM_POOL_START_def ESP_AMP_HP_SHARED_MEM_START_def)
  ultimately show "event_bits_of demo_fr 0x20 demo_bind = Some 0x4087a590" by simp
  show "table_ok (event_table demo_bind)"
    by (auto simp: table_ok_def demo_bind_def demo_ev_def less_Suc_eq)
qed

subsection \<open>Properties\<close>

text \<open>C12. Waiting on bare metal ends and is atomic. When the bits asked for get set or the time is
  over, waiting returns the value the word had at one moment: the bits that were set plus those
  notified up to then. Either that value satisfies the request, and then the requested bits are
  removed from the word if they are to be cleared, all in the same step; or the timeout has passed,
  and no bit is removed. A bit notified later is never removed.\<close>

theorem event_wait_atomic:
  assumes "port_ok c" and "event_at c i p s" and "quiet_from K peer"
    and "wait_ends peer now (word_of_int start) timeout_ms
      (\<lambda>b. if wait_for_all then b AND bit_mask = bit_mask else b AND bit_mask \<noteq> 0) T (load32 (mem s) p) 0"
  shows "\<exists>ret k s'. bm_event_wait_by_id peer now start c i bit_mask clear wait_for_all timeout_ms s = Some (ret, k, s') \<and>
    ret = load32 (mem s) p OR peer_bits peer 0 k \<and>
    (let met = (if wait_for_all then ret AND bit_mask = bit_mask else ret AND bit_mask \<noteq> 0)
     in (met \<or> timed_out now (k - 1) (word_of_int start) timeout_ms) \<and>
        load32 (mem s') p = (if clear \<and> met then ret AND NOT bit_mask else ret))"
  using assms by (rule event_wait_spec)

theorem event_wait_atomic_witness:
  "\<exists>ret k s'. bm_event_wait_by_id (\<lambda>k. (if k = 1 then 6 else 0, k = 0)) (\<lambda>k. 5) 5 (demo_config False) 0x20 2 True True 100
      demo_event_core = Some (ret, k, s') \<and> ret = 6 \<and> load32 (mem s') 0x4087a590 = 4"
proof -
  let ?peer = "\<lambda>k :: nat. (if k = 1 then 6 else 0 :: u32, k = 0)" and ?now = "\<lambda>k :: nat. 5 :: int"
  have q: "quiet_from 2 ?peer" by (auto simp: quiet_from_def)
  have pb: "peer_bits ?peer 0 (Suc (Suc j)) = 6" for j by (induction j) simp_all
  have ends: "wait_ends ?peer ?now (word_of_int 5) 100 (\<lambda>b. if True then b AND 2 = 2 else b AND 2 \<noteq> 0) 1
      (load32 (mem demo_event_core) 0x4087a590) 0"
    unfolding wait_ends_def
  proof (intro allI impI disjI2)
    fix j :: nat assume "1 \<le> j \<and> 0 \<le> j"
    then obtain i where "j = Suc i" by (cases j) auto
    then show "if True then (load32 (mem demo_event_core) 0x4087a590 OR peer_bits ?peer 0 (Suc j)) AND 2 = 2
      else (load32 (mem demo_event_core) 0x4087a590 OR peer_bits ?peer 0 (Suc j)) AND 2 \<noteq> 0"
      using pb [of i] by (simp only:) (simp add: demo_event(2))
  qed
  obtain ret k s' where
    w: "bm_event_wait_by_id ?peer ?now 5 (demo_config False) 0x20 2 True True 100 demo_event_core = Some (ret, k, s')"
    "ret = 0 OR peer_bits ?peer 0 k"
    "ret AND 2 = 2 \<or> timed_out ?now (k - 1) (word_of_int 5) 100"
    "load32 (mem s') 0x4087a590 = (if True \<and> ret AND 2 = 2 then ret AND NOT 2 else ret)"
    using event_wait_atomic [OF demo_config_simps(5) demo_event(1) [of False] q ends, of True, unfolded demo_event(2) Let_def if_True]
    by (elim exE conjE) (rule that; assumption)
  have "ret AND 2 = 2" using w(3) by (simp add: timed_out_def)
  moreover have "k = 0 \<or> k = 1 \<or> (\<exists>j. k = Suc (Suc j))" by (metis One_nat_def not0_implies_Suc)
  ultimately have "ret = 6" using w(2) pb by auto
  then show ?thesis using w by simp
qed

text \<open>C13. A notified event reaches the waiting core. Notifying returns the old bits, sets the new ones and
  makes the event interrupt pending on the peer; if the peer then waits for these bits, for any or
  for all of them, and no further bits are set, it returns at once with all of them, and they are
  gone from the word exactly when they were to be cleared.\<close>

theorem event_notify_reaches_waiter:
  assumes "port_ok c" and "port_ok d" and "event_at c i p s" and "notify_ready c p s"
    and "quiet_from 0 peer" and "bit_mask \<noteq> 0"
  shows "\<exists>s'. bm_event_notify_by_id c i bit_mask s = Some (load32 (mem s) p, s') \<and>
    load32 (mem s') (peer_sw_intr_st c) = load32 (mem s) (peer_sw_intr_st c) OR BIT SW_INTR_RESERVED_ID_EVENT \<and>
    (\<forall>t. mem t = mem s' \<and> event_at d i p t \<longrightarrow>
      (\<exists>ret k t'. bm_event_wait_by_id peer now start d i bit_mask clear wait_for_all timeout_ms t = Some (ret, k, t') \<and>
        ret = load32 (mem s) p OR bit_mask \<and> load32 (mem t') p = (if clear then ret AND NOT bit_mask else ret)))"
proof -
  obtain s' where n: "bm_event_notify_by_id c i bit_mask s = Some (load32 (mem s) p, s')"
    "load32 (mem s') p = load32 (mem s) p OR bit_mask"
    "load32 (mem s') (peer_sw_intr_st c) = load32 (mem s) (peer_sw_intr_st c) OR BIT SW_INTR_RESERVED_ID_EVENT"
    using notify_effect [OF assms(1,3,4)] by blast
  have quiet: "peer_bits peer 0 k = 0" for k
    using assms(5) by (induction k) (simp_all add: quiet_from_def)
  have "\<exists>ret k t'. bm_event_wait_by_id peer now start d i bit_mask clear wait_for_all timeout_ms t = Some (ret, k, t') \<and>
        ret = load32 (mem s) p OR bit_mask \<and> load32 (mem t') p = (if clear then ret AND NOT bit_mask else ret)"
    if t: "mem t = mem s'" "event_at d i p t" for t
  proof -
    let ?w = "load32 (mem s) p OR bit_mask"
    have met: "?w AND bit_mask = bit_mask" "?w AND bit_mask \<noteq> 0" using assms(6) by simp_all
    have "wait_ends peer now (word_of_int start) timeout_ms
        (\<lambda>b. if wait_for_all then b AND bit_mask = bit_mask else b AND bit_mask \<noteq> 0) 0 (load32 (mem t) p) 0"
      using met t n(2) quiet by (simp add: wait_ends_def del: peer_bits.simps)
    from event_wait_spec [OF assms(2) t(2) assms(5) this, of clear] met t(1) n(2) quiet show ?thesis
      by (auto simp: Let_def)
  qed
  with n show ?thesis by blast
qed

theorem event_notify_reaches_waiter_witness:
  "\<exists>s'. bm_event_notify_by_id (demo_config True) 0x20 2 demo_event_core = Some (0, s')"
proof -
  have "notify_ready (demo_config True) 0x4087a590 demo_event_core"
    using demo_event(1) [of True] disj_nowrap [of "0x4087a590" 4 "0x4087a564" 4]
    by (simp add: notify_ready_def demo_event(3) in_span_iff)
  from event_notify_reaches_waiter [OF demo_config_simps(5) demo_config_simps(5) demo_event(1) this, of "\<lambda>_. (0, False)" 2 ] demo_event(2)
  show ?thesis by (simp add: quiet_from_def) blast
qed





end
