(* ===== verification/Amp_Dump.thy ===== *)
theory Amp_Dump
  imports Amp_Event
begin

text \<open>
  The functions that list the tables of a core in the log: esp_amp_sys_info_dump, esp_amp_sw_intr_handler_dump
  and esp_amp_event_table_dump. A dump is modelled by the rows it prints.
\<close>

type_synonym sys_info_row = "u16 \<times> u16 \<times> ptr"

text \<open>The loop over the list of blocks, from \<open>e\<close> on. The address printed is computed from the head.\<close>

partial_function (option) sys_info_rows :: "memory \<Rightarrow> ptr \<Rightarrow> ptr \<Rightarrow> sys_info_row list option" where
  "sys_info_rows m head e =
     (if e = NULL then Some []
      else do {
        rows \<leftarrow> sys_info_rows m head (hdr_next m e);
        Some ((hdr_info_id m e, hdr_size m e, head + sizeof_sys_info_header) # rows)
      })"

definition esp_amp_sys_info_dump :: "'z config \<Rightarrow> 'z core_scheme \<Rightarrow> (sys_info_row list \<times> sys_info_row list) option" where
  "esp_amp_sys_info_dump c s = do {
     let hp = ESP_AMP_HP_SHARED_MEM_POOL_START c;
     rows \<leftarrow> sys_info_rows (mem s) hp (hdr_next (mem s) hp);
     if SUBCORE_TYPE_LP_CORE c then do {
       let rtc = ESP_AMP_RTC_SHARED_MEM_POOL_START c;
       rows' \<leftarrow> sys_info_rows (mem s) rtc (hdr_next (mem s) rtc);
       Some (rows, rows')
     } else Some (rows, [])
   }"

definition esp_amp_sw_intr_handler_dump :: "('f, 'z) amp \<Rightarrow> (u32 \<times> 'f) list" where
  "esp_amp_sw_intr_handler_dump s =
     concat (map (\<lambda>e. case handler e of None \<Rightarrow> [] | Some f \<Rightarrow> [(intr_id e, f)]) (sw_intr_handlers s))"

definition esp_amp_event_table_dump :: "('f, 'z) ev \<Rightarrow> (u16 \<times> ptr) list" where
  "esp_amp_event_table_dump s =
     concat (map (\<lambda>e. if event_handle e \<noteq> NULL then [(ev_sysinfo_id e, event_handle e)] else []) (event_table s))"

lemma sys_info_rows_pool:
  assumes "pool m e bs" and "0 < unat e" and "unat e + extent bs < 4294967296"
  shows "sys_info_rows m h e = Some (map (\<lambda>(i, sz). (i, sz, h + sizeof_sys_info_header)) bs)"
  using assms
proof (induction m e bs rule: pool.induct)
  case (2 m e b)
  then have "e \<noteq> NULL" by auto
  with 2 show ?case by (cases b) (simp add: sys_info_rows.simps [of m h e] sys_info_rows.simps [of m h NULL])
next
  case (3 m e b b' bs)
  then have e: "e \<noteq> NULL" by auto
  have "unat (e + word_of_nat (stride (snd b))) = unat e + stride (snd b)"
    using 3 by (intro unat_add_of_nat) simp
  with 3 have "sys_info_rows m h (e + word_of_nat (stride (snd b))) = Some (map (\<lambda>(i, sz). (i, sz, h + sizeof_sys_info_header)) (b' # bs))"
    by simp
  with e 3 show ?case by (cases b) (simp add: sys_info_rows.simps [of m h e])
qed simp

lemma sys_info_rows_ok:
  assumes "pool_ok c cap m bs" and "h = pool_head c cap"
  shows "sys_info_rows m h (hdr_next m h) = Some (map (\<lambda>(i, sz). (i, sz, h + sizeof_sys_info_header)) bs)"
proof -
  have ok: "pool m h (root_block # bs)" "0 < unat h" "unat h + extent (root_block # bs) < 4294967296"
    using assms by (simp_all add: pool_ok_def)
  then have "h \<noteq> NULL" by auto
  then have "sys_info_rows m h h = do { rows \<leftarrow> sys_info_rows m h (hdr_next m h); Some ((hdr_info_id m h, hdr_size m h, h + sizeof_sys_info_header) # rows) }"
    by (subst sys_info_rows.simps) simp
  with sys_info_rows_pool [OF ok, of h] show ?thesis by (cases root_block) (auto split: Option.bind_splits)
qed

text \<open>The dump of the pools ends and lists every block once, in the order of allocation, with its id and its
  size; but the address it prints is the one behind the head of the pool, for every block.\<close>

theorem sys_info_dump_lists:
  assumes "pool_ok c SYS_INFO_CAP_HP (mem s) bs" and "SUBCORE_TYPE_LP_CORE c \<Longrightarrow> pool_ok c SYS_INFO_CAP_RTC (mem s) rs"
  shows "esp_amp_sys_info_dump c s = Some (map (\<lambda>(i, sz). (i, sz, pool_head c SYS_INFO_CAP_HP + sizeof_sys_info_header)) bs,
    if SUBCORE_TYPE_LP_CORE c then map (\<lambda>(i, sz). (i, sz, pool_head c SYS_INFO_CAP_RTC + sizeof_sys_info_header)) rs else [])"
  using sys_info_rows_ok [OF assms(1) refl] sys_info_rows_ok [OF assms(2) refl]
  by (simp add: esp_amp_sys_info_dump_def pool_head_def Let_def)

text \<open>The two other dumps list exactly what is registered.\<close>

lemma sw_intr_dump_lists:
  "set (esp_amp_sw_intr_handler_dump s) = {(i, f). \<exists>e \<in> set (sw_intr_handlers s). intr_id e = i \<and> handler e = Some f}"
  by (auto simp: esp_amp_sw_intr_handler_dump_def split: option.splits)

lemma event_dump_lists:
  "set (esp_amp_event_table_dump s) = {(i, h). h \<noteq> NULL \<and> (\<exists>e \<in> set (event_table s). ev_sysinfo_id e = i \<and> event_handle e = h)}"
  by (auto simp: esp_amp_event_table_dump_def split: if_splits)

end
