(* ===== verification/Amp_Div64.thy ===== *)
theory Amp_Div64
  imports Amp_Arith64 "HOL-Library.Signed_Division"
begin

text \<open>
  The shift, division and population count routines of
  src/components/esp_amp/idf_stub/esp_system/arith64.c. The C union of a 64 bit value with its two
  32 bit halves is a pair of projections and a join; values of type \<open>arith64_s64\<close> are words read with
  \<open>sint\<close>. Shift counts are words of 32 bits, the pattern of the C \<open>int\<close>. A division by zero, which the
  code turns into a trap, is the value \<open>None\<close>.
\<close>

subsection \<open>Halves, negation and absolute value\<close>

definition arith64_hi :: "u64 \<Rightarrow> u32" where
  "arith64_hi n = ucast (drop_bit 32 n)"

definition arith64_lo :: "u64 \<Rightarrow> u32" where
  "arith64_lo n = ucast n"

definition arith64_join :: "u32 \<Rightarrow> u32 \<Rightarrow> u64" where
  "arith64_join hi lo = push_bit 32 (ucast hi) OR ucast lo"

definition arith64_neg :: "u64 \<Rightarrow> u64 \<Rightarrow> u64" where
  "arith64_neg a b = (a XOR (if 0 \<le> sint b then 0 else - 1)) + (if sint b < 0 then 1 else 0)"

definition arith64_abs :: "u64 \<Rightarrow> u64" where
  "arith64_abs a = arith64_neg a a"

definition absvdi2 :: "u64 \<Rightarrow> u64" where
  "absvdi2 a = arith64_abs a"

subsection \<open>Shifts\<close>

definition ashldi3 :: "u64 \<Rightarrow> u32 \<Rightarrow> u64" where
  "ashldi3 a b =
     (let hi = arith64_hi a; lo = arith64_lo a; b = unat (b AND 63)
      in if 32 \<le> b then arith64_join (push_bit (b - 32) lo) 0
         else if b \<noteq> 0
         then arith64_join (drop_bit (32 - b) lo OR push_bit b hi) (push_bit b lo)
         else arith64_join hi lo)"

definition ashrdi3 :: "u64 \<Rightarrow> u32 \<Rightarrow> u64" where
  "ashrdi3 a b =
     (let hi = arith64_hi a; lo = arith64_lo a; b = unat (b AND 63)
      in if 32 \<le> b then arith64_join (signed_drop_bit 31 hi) (signed_drop_bit (b - 32) hi)
         else if b \<noteq> 0
         then arith64_join (signed_drop_bit b hi) (push_bit (32 - b) hi OR drop_bit b lo)
         else arith64_join hi lo)"

definition lshrdi3 :: "u64 \<Rightarrow> u32 \<Rightarrow> u64" where
  "lshrdi3 a b =
     (let hi = arith64_hi a; lo = arith64_lo a; b = unat (b AND 63)
      in if 32 \<le> b then arith64_join 0 (drop_bit (b - 32) hi)
         else if b \<noteq> 0
         then arith64_join (drop_bit b hi) (push_bit (32 - b) hi OR drop_bit b lo)
         else arith64_join hi lo)"

subsection \<open>Division\<close>

text \<open>The loop of the long division, on the number of iterations left; the result is the final
  remainder, numerator and wrap.\<close>

fun divmod_loop :: "nat \<Rightarrow> u64 \<Rightarrow> u64 \<Rightarrow> u64 \<Rightarrow> u64 \<Rightarrow> u64 \<times> u64 \<times> u64" where
  "divmod_loop 0 b rem a wrap = (rem, a, wrap)"
| "divmod_loop (Suc bits) b rem a wrap =
     (let rem = push_bit 1 rem OR drop_bit 63 a;
          a = push_bit 1 a OR (wrap AND 1);
          wrap = signed_drop_bit 63 (b - rem - 1);
          rem = rem - (b AND wrap)
      in divmod_loop bits b rem a wrap)"

text \<open>The pointer \<open>c\<close> is modelled by whether it is not NULL; the second part of the result is what is
  stored through it.\<close>

definition divmoddi4 :: "u64 \<Rightarrow> u64 \<Rightarrow> bool \<Rightarrow> (u64 \<times> u64 option) option" where
  "divmoddi4 a b c =
     (let store = (\<lambda>r. if c then Some r else None)
      in if b > a then Some (0, store a)
         else if arith64_hi b = 0 \<and> b = 0 then None
         else if arith64_hi b = 0 \<and> b = 1 then Some (a, store 0)
         else if arith64_hi b = 0 \<and> arith64_hi a = 0
         then Some (ucast (arith64_lo a div arith64_lo b), store (ucast (arith64_lo a mod arith64_lo b)))
         else
           let bits = of_nat (clzdi2 b) - of_nat (clzdi2 a) + 1 :: u8;
               rem = drop_bit (unat bits) a;
               a = push_bit (64 - unat bits) a;
               (rem, a, wrap) = divmod_loop (unat bits) b rem a 0
           in Some (push_bit 1 a OR (wrap AND 1), store rem))"

definition divdi3 :: "u64 \<Rightarrow> u64 \<Rightarrow> u64 option" where
  "divdi3 a b =
     (case divmoddi4 (arith64_abs a) (arith64_abs b) False of
        None \<Rightarrow> None
      | Some (q, _) \<Rightarrow> Some (arith64_neg q (a XOR b)))"

definition moddi3 :: "u64 \<Rightarrow> u64 \<Rightarrow> u64 option" where
  "moddi3 a b =
     (case divmoddi4 (arith64_abs a) (arith64_abs b) True of
        Some (_, Some r) \<Rightarrow> Some (arith64_neg r a)
      | _ \<Rightarrow> None)"

definition udivdi3 :: "u64 \<Rightarrow> u64 \<Rightarrow> u64 option" where
  "udivdi3 a b = map_option fst (divmoddi4 a b False)"

definition umoddi3 :: "u64 \<Rightarrow> u64 \<Rightarrow> u64 option" where
  "umoddi3 a b = Option.bind (divmoddi4 a b True) snd"

subsection \<open>Population count\<close>

definition popcountsi2 :: "u32 \<Rightarrow> nat" where
  "popcountsi2 a =
     (let a = a - (drop_bit 1 a AND 0x55555555);
          a = (drop_bit 2 a AND 0x33333333) + (a AND 0x33333333);
          a = (a + drop_bit 4 a) AND 0x0F0F0F0F;
          a = a + drop_bit 16 a
      in unat ((a + drop_bit 8 a) AND 63))"

definition popcountdi2 :: "u64 \<Rightarrow> nat" where
  "popcountdi2 a =
     (let a = a - (drop_bit 1 a AND 0x5555555555555555);
          a = (drop_bit 2 a AND 0x3333333333333333) + (a AND 0x3333333333333333);
          a = (a + drop_bit 4 a) AND 0x0F0F0F0F0F0F0F0F;
          a = a + drop_bit 32 a;
          a = a + drop_bit 16 a
      in unat ((a + drop_bit 8 a) AND 127))"

subsection \<open>Shifts are the shifts of 64 bit words\<close>

lemma bit_join:
  "bit (arith64_join hi lo) n \<longleftrightarrow> n < 64 \<and> (if n < 32 then bit lo n else bit hi (n - 32))"
  by (auto simp: arith64_join_def bit_simps dest: bit_imp_le_length)

lemma bit_hi: "bit (arith64_hi a) n \<longleftrightarrow> n < 32 \<and> bit a (n + 32)"
  by (auto simp: arith64_hi_def bit_simps ac_simps)

lemma bit_lo: "bit (arith64_lo a) n \<longleftrightarrow> n < 32 \<and> bit a n"
  by (auto simp: arith64_lo_def bit_simps)

lemmas halves_bits = bit_join bit_hi bit_lo

lemma unat_and_63: "unat (b AND 63 :: u32) < 64"
proof -
  have "b AND 63 = take_bit 6 b" by (simp add: take_bit_eq_mask mask_eq_exp_minus_1)
  then show ?thesis using take_bit_nat_less_exp [of 6 "unat b"] by (simp add: unsigned_take_bit_eq)
qed

lemma ashldi3_shift: "ashldi3 a b = push_bit (unat (b AND 63)) a"
proof (rule bit_word_eqI)
  fix n assume "n < LENGTH(64)"
  then show "bit (ashldi3 a b) n = bit (push_bit (unat (b AND 63)) a) n"
    using unat_and_63 [of b]
    by (auto simp: ashldi3_def Let_def halves_bits bit_simps)
qed

lemma lshrdi3_shift: "lshrdi3 a b = drop_bit (unat (b AND 63)) a"
proof (rule bit_word_eqI)
  fix n assume "n < LENGTH(64)"
  then show "bit (lshrdi3 a b) n = bit (drop_bit (unat (b AND 63)) a) n"
    using unat_and_63 [of b]
    by (auto simp: lshrdi3_def Let_def halves_bits bit_simps ac_simps dest: bit_imp_le_length)
qed

lemma ashrdi3_shift: "ashrdi3 a b = signed_drop_bit (unat (b AND 63)) a"
proof (rule bit_word_eqI)
  fix n assume "n < LENGTH(64)"
  then show "bit (ashrdi3 a b) n = bit (signed_drop_bit (unat (b AND 63)) a) n"
    using unat_and_63 [of b]
    by (auto simp: ashrdi3_def Let_def halves_bits bit_simps add.commute [of n])
qed

subsection \<open>Long division\<close>

lemma shift_in_bit: "unat (x * 2 OR y) = (2 * unat x + unat y) mod 2 ^ 64" if "unat y \<le> 1" for x y :: u64
proof -
  have "y = 0 \<or> y = 1" using that by (auto simp: word_unat_eq_iff)
  then have "push_bit 1 x OR y = push_bit 1 x + y"
  proof (elim disjE)
    assume "y = 1"
    have "\<not> bit (push_bit 1 x) n \<or> \<not> bit (1::u64) n" for n
      by (auto simp only: bit_push_bit_iff bit_1_iff)
    from disjunctive_add [of "push_bit 1 x" 1, OF this] \<open>y = 1\<close> show ?thesis by simp
  qed simp
  then have "unat (x * 2 OR y) = (unat (x * 2) + unat y) mod 2 ^ 64"
    by (simp add: unat_word_ariths(1))
  also have "\<dots> = (unat x * 2 + unat y) mod 2 ^ 64"
    by (simp add: unat_word_ariths(2) mod_add_left_eq)
  finally show ?thesis by (simp add: mult.commute)
qed

lemma bit63_iff: "bit x 63 \<longleftrightarrow> 2 ^ 63 \<le> unat x" for x :: u64
proof -
  have "unat x < 2 ^ 64" using unsigned_less [of x] by simp
  moreover have "bit x 63 \<longleftrightarrow> odd (unat x div 2 ^ 63)"
    by (simp only: bit_iff_odd [of "unat x", symmetric] bit_unsigned_iff) simp
  moreover have "unat x div 2 ^ 63 = (if 2 ^ 63 \<le> unat x then 1 else 0)"
    using calculation(1) by (auto simp: div_nat_eqI)
  ultimately show ?thesis by simp
qed

lemma wrap_mask:
  fixes b r :: u64
  assumes "unat r < unat b \<Longrightarrow> unat b - unat r \<le> 2 ^ 63" and "unat b \<le> unat r \<Longrightarrow> unat r - unat b < 2 ^ 63"
  shows "signed_drop_bit 63 (b - r - 1) = (if unat b \<le> unat r then - 1 else 0)"
proof -
  have sign: "signed_drop_bit 63 x = (if bit x 63 then - 1 else 0)" for x :: u64
    by (rule bit_word_eqI) (auto simp: bit_simps not_less_eq_eq Suc_le_eq)
  have "bit (b - r - 1) 63 \<longleftrightarrow> unat b \<le> unat r"
  proof -
    show ?thesis
    proof (cases "unat b \<le> unat r")
      case True
      then have "unat (r - b) < 2 ^ 63" "unat (r - b) = unat r - unat b"
        using assms(2) by (simp_all add: word_le_nat_alt unat_sub)
      moreover have "b - r - 1 = NOT (r - b)" by (simp add: not_eq_complement)
      moreover have "\<not> bit (r - b) 63" using calculation(1) by (simp add: bit63_iff)
      ultimately show ?thesis using True by (simp add: bit_not_iff)
    next
      case False
      then have "unat (b - r) = unat b - unat r" by (simp add: unat_sub word_le_nat_alt)
      moreover have "unat (b - r - 1) = unat (b - r) - 1"
        using False by (intro unat_minus_one) auto
      ultimately have "unat (b - r - 1) < 2 ^ 63" using False assms(1) by simp
      then show ?thesis using False by (simp add: bit63_iff)
    qed
  qed
  then show ?thesis by (simp add: sign)
qed

text \<open>
  The state of the long division of \<open>N\<close> by \<open>b\<close> with \<open>k\<close> iterations left: the quotient \<open>Q\<close> of the bits
  consumed so far sits in the low bits of \<open>a\<close> and in \<open>wrap\<close>, the remaining bits of \<open>N\<close> in the high
  bits of \<open>a\<close>.
\<close>

definition long_division :: "nat \<Rightarrow> nat \<Rightarrow> nat \<Rightarrow> nat \<Rightarrow> nat \<Rightarrow> u64 \<Rightarrow> u64 \<Rightarrow> u64 \<Rightarrow> bool" where
  "long_division N b n k Q rem a wrap \<longleftrightarrow>
     wrap \<in> {0, - 1} \<and> unat (wrap AND 1) = Q mod 2 \<and> Q < 2 ^ (n - k) \<and>
     unat a = (N mod 2 ^ k) * 2 ^ (64 - k) + Q div 2 \<and>
     N div 2 ^ k = Q * b + unat rem \<and> unat rem < b"

text \<open>Shifting one bit of the dividend in.\<close>

lemma long_division_shift:
  assumes inv: "long_division N (unat b) n (Suc k) Q rem a wrap" and n: "Suc k \<le> n" "n \<le> 63" and N: "N < 2 ^ 64"
    and r: "rem' = push_bit 1 rem OR drop_bit 63 a" and a': "a' = push_bit 1 a OR (wrap AND 1)"
  shows "unat rem' = 2 * unat rem + N div 2 ^ k mod 2" and "N div 2 ^ k = 2 * Q * unat b + unat rem'"
    and "unat a' = N mod 2 ^ k * 2 ^ (64 - k) + Q"
proof -
  let ?t = "N div 2 ^ k mod 2" and ?m = "N mod 2 ^ k" and ?c = "2 ^ (63 - k) :: nat"
  note i = inv [unfolded long_division_def]
  have k: "(2::nat) ^ k * ?c = 2 ^ 63" "(2::nat) ^ (64 - k) = 2 * ?c" "64 - Suc k = 63 - k"
    using n by (simp_all add: Suc_diff_le flip: power_add power_Suc)
  have "Q < 2 ^ (n - Suc k)" using i by simp
  also have "\<dots> \<le> ?c" using n by (intro power_increasing) auto
  finally have Q: "Q div 2 < ?c" by simp
  have "N mod 2 ^ Suc k = 2 ^ k * ?t + ?m" using mod_mult2_eq [of N "2 ^ k" 2] by (simp add: ac_simps)
  then have "unat a = (2 ^ k * ?t + ?m) * ?c + Q div 2" using i k(3) by simp
  also have "\<dots> = ?t * (2 ^ k * ?c) + (?m * ?c + Q div 2)" by (simp add: algebra_simps)
  finally have a: "unat a = ?t * 2 ^ 63 + (?m * ?c + Q div 2)" by (simp only: k(1))
  have "Suc ?m * ?c \<le> 2 ^ k * ?c" by (intro mult_right_mono) (simp_all add: Suc_le_eq)
  then have low: "?m * ?c + Q div 2 < 2 ^ 63" using Q k(1) by simp
  have t: "unat (drop_bit 63 a) = ?t" using low a by (simp add: unat_div_distrib drop_bit_eq_div)
  have Nk: "N div 2 ^ k = 2 * (N div 2 ^ Suc k) + ?t"
    by (metis div_mult2_eq mult.commute mult_div_mod_eq power_Suc)
  have "2 * unat rem + ?t \<le> N div 2 ^ k" using i Nk by simp
  also have "\<dots> \<le> N" by simp
  finally show r': "unat rem' = 2 * unat rem + ?t" using N t by (simp add: r shift_in_bit)
  show "N div 2 ^ k = 2 * Q * unat b + unat rem'" using Nk i r' by simp
  let ?x = "2 * (?m * ?c + Q div 2) + Q mod 2"
  have "unat (wrap AND 1) \<le> 1" using i by simp
  then have "unat a' = (2 * unat a + unat (wrap AND 1)) mod 2 ^ 64" unfolding a' by (simp add: shift_in_bit)
  also have "2 * unat a + unat (wrap AND 1) = ?x + ?t * 2 ^ 64" using a i by simp
  also have "\<dots> mod 2 ^ 64 = ?x" using low by (simp only: mod_mult_self1) simp
  finally show "unat a' = ?m * 2 ^ (64 - k) + Q" by (simp add: k(2) algebra_simps)
qed

lemma long_division_step:
  assumes inv: "long_division N (unat b) n (Suc k) Q rem a wrap"
    and n: "Suc k \<le> n" "n \<le> 63" and N: "N < 2 ^ 64"
    and big: "unat b \<le> 2 ^ 63 \<or> k = 0 \<and> n = 1 \<and> unat b \<le> N"
    and r: "rem' = push_bit 1 rem OR drop_bit 63 a" and a': "a' = push_bit 1 a OR (wrap AND 1)"
    and w: "wrap' = signed_drop_bit 63 (b - rem' - 1)"
  shows "\<exists>Q'. long_division N (unat b) n k Q' (rem' - (b AND wrap')) a' wrap'"
proof -
  note s = long_division_shift [OF inv n N r a']
  have Q: "Q < 2 ^ (n - Suc k)" and rb: "unat rem < unat b" using inv by (simp_all add: long_division_def)
  have r2: "unat rem' < 2 * unat b" using s(1) rb by linarith
  have wm: "wrap' = (if unat b \<le> unat rem' then - 1 else 0)"
    unfolding w
  proof (rule wrap_mask)
    assume le: "unat b \<le> unat rem'"
    moreover have "unat rem' < 2 ^ 64" using unsigned_less [of rem'] by simp
    ultimately have "unat rem' < 2 ^ 63 + unat b" using r2 by (cases "unat b \<le> 2 ^ 63") auto
    then show "unat rem' - unat b < 2 ^ 63" using le by (simp add: less_diff_conv2)
  next
    assume lt: "unat rem' < unat b"
    show "unat b - unat rem' \<le> 2 ^ 63"
    proof (cases "unat b \<le> 2 ^ 63")
      case False
      with big have "k = 0" "n = 1" "unat b \<le> N" by auto
      with Q s(2) lt show ?thesis by simp
    qed simp
  qed
  have nk: "n - k = Suc (n - Suc k)" using n by simp
  show ?thesis
  proof (cases "unat b \<le> unat rem'")
    case True
    then have "unat (rem' - b) = unat rem' - unat b" by (simp add: unat_sub word_le_nat_alt)
    moreover have "N div 2 ^ k = (2 * Q + 1) * unat b + (unat rem' - unat b)" using s(2) True by (simp add: algebra_simps)
    moreover have "unat rem' - unat b < unat b" using r2 True by linarith
    ultimately have "long_division N (unat b) n k (2 * Q + 1) (rem' - (b AND wrap')) a' wrap'"
      using True wm Q s(3) nk by (simp add: long_division_def)
    then show ?thesis by blast
  next
    case False
    then have "long_division N (unat b) n k (2 * Q) (rem' - (b AND wrap')) a' wrap'"
      using wm Q s(2,3) nk by (simp add: long_division_def)
    then show ?thesis by blast
  qed
qed

lemma long_division_loop:
  assumes "long_division N (unat b) n k Q rem a wrap" "k \<le> n" "n \<le> 63" "N < 2 ^ 64"
    and "unat b \<le> 2 ^ 63 \<or> k \<le> 1 \<and> n = 1 \<and> unat b \<le> N"
    and "divmod_loop k b rem a wrap = (rem', a', wrap')"
  shows "\<exists>Q'. long_division N (unat b) n 0 Q' rem' a' wrap'"
  using assms
proof (induction k arbitrary: Q rem a wrap)
  case (Suc k)
  let ?r = "push_bit 1 rem OR drop_bit 63 a" and ?a = "push_bit 1 a OR (wrap AND 1)"
  let ?w = "signed_drop_bit 63 (b - ?r - 1)"
  have "unat b \<le> 2 ^ 63 \<or> k = 0 \<and> n = 1 \<and> unat b \<le> N" using Suc.prems(5) by auto
  then obtain Q' where "long_division N (unat b) n k Q' (?r - (b AND ?w)) ?a ?w"
    using long_division_step [OF Suc.prems(1-4) _ refl refl refl] by blast
  moreover have "unat b \<le> 2 ^ 63 \<or> k \<le> 1 \<and> n = 1 \<and> unat b \<le> N" using Suc.prems(5) by auto
  moreover have "divmod_loop k b (?r - (b AND ?w)) ?a ?w = (rem', a', wrap')"
    using Suc.prems(6) by (simp only: divmod_loop.simps Let_def)
  ultimately show ?case using Suc.IH Suc.prems(2-4) by auto
qed auto

lemma unat_drop_bit64: "unat (drop_bit n a) = unat a div 2 ^ n" for a :: u64
proof -
  have "unat a < 2 ^ 64" by (rule order.strict_trans2 [OF unsigned_less]) simp
  then have "take_bit LENGTH(64) (unat a) = unat a" by (simp add: take_bit_nat_eq_self)
  moreover have "unat (drop_bit n a) = drop_bit n (take_bit LENGTH(64) (unat a))"
    by (rule unsigned_drop_bit_eq)
  ultimately show ?thesis by (simp only: drop_bit_eq_div)
qed

lemma long_division_start:
  fixes a b :: u64
  assumes "b \<le> a" and "2 \<le> unat b" and bits: "bits = of_nat (clzdi2 b) - of_nat (clzdi2 a) + 1"
  shows "unat (bits :: u8) = clzdi2 b - clzdi2 a + 1" and "unat bits \<le> 63"
    and "unat b \<le> 2 ^ 63 \<or> unat bits = 1"
    and "long_division (unat a) (unat b) (unat bits) (unat bits) 0 (drop_bit (unat bits) a)
      (push_bit (64 - unat bits) a) 0"
proof -
  let ?ca = "clzdi2 a" and ?cb = "clzdi2 b"
  have le: "unat b \<le> unat a" using assms(1) by (simp add: word_le_nat_alt)
  have "a \<noteq> 0" "b \<noteq> 0" using le assms(2) by auto
  then have ca: "?ca \<le> 63" "2 ^ (63 - ?ca) \<le> unat a" "unat a < 2 ^ (64 - ?ca)"
    and cb: "?cb \<le> 63" "2 ^ (63 - ?cb) \<le> unat b" "unat b < 2 ^ (64 - ?cb)"
    using clzdi2_spec by blast+
  have "(2::nat) ^ (63 - ?cb) < 2 ^ (64 - ?ca)" using cb(2) le ca(3) by linarith
  then have "63 - ?cb < 64 - ?ca" by (rule power_less_imp_less_exp [rotated]) simp
  then have cc: "?ca \<le> ?cb" using ca(1) cb(1) by simp
  have "(2::nat) ^ 1 < 2 ^ (64 - ?cb)" using cb(3) assms(2) by simp
  then have cb62: "?cb \<le> 62" using power_less_imp_less_exp [of "2::nat" 1 "64 - ?cb"] by simp
  have "bits = of_nat (?cb - ?ca + 1)" using bits cc by (simp add: of_nat_diff)
  then show n: "unat bits = ?cb - ?ca + 1" using cb62 by (simp only: unsigned_of_nat) (simp add: take_bit_nat_eq_self)
  then show n63: "unat bits \<le> 63" using cb62 by simp
  show "unat b \<le> 2 ^ 63 \<or> unat bits = 1"
  proof (cases "?cb = 0")
    case False
    then have "(2::nat) ^ (64 - ?cb) \<le> 2 ^ 63" by (intro power_increasing) auto
    with cb(3) show ?thesis by linarith
  qed (use n in simp)
  have "unat a div 2 ^ unat bits < 2 ^ (63 - ?cb)"
  proof -
    have "(2::nat) ^ (64 - ?ca) = 2 ^ (63 - ?cb) * 2 ^ unat bits"
    proof -
      have "64 - ?ca = (63 - ?cb) + unat bits" using n cc cb(1) by simp
      then show ?thesis by (simp only: power_add)
    qed
    with ca(3) show ?thesis by (simp add: less_mult_imp_div_less)
  qed
  then have r: "unat (drop_bit (unat bits) a) < unat b"
    using cb(2) by (simp only: unat_drop_bit64)
  have "unat (push_bit (64 - unat bits) a) = take_bit 64 (push_bit (64 - unat bits) (unat a))"
    by (simp add: unsigned_push_bit_eq)
  also have "\<dots> = (unat a mod 2 ^ unat bits) * 2 ^ (64 - unat bits)"
    using n63 by (simp only: take_bit_push_bit) (simp add: push_bit_eq_mult take_bit_eq_mod)
  finally show "long_division (unat a) (unat b) (unat bits) (unat bits) 0 (drop_bit (unat bits) a)
      (push_bit (64 - unat bits) a) 0"
    using r unfolding unat_drop_bit64 long_division_def by simp
qed

lemma ucast_up_div_mod:
  fixes x y :: u32
  shows "ucast (x div y) = (ucast x div ucast y :: u64)" "ucast (x mod y) = (ucast x mod ucast y :: u64)"
proof -
  have up: "unat (ucast z :: u64) = unat z" for z :: u32
  proof -
    have "unat z < 2 ^ 64" by (rule order.strict_trans2 [OF unsigned_less]) simp
    then show ?thesis by (simp add: unsigned_ucast_eq take_bit_nat_eq_self)
  qed
  show "ucast (x div y) = (ucast x div ucast y :: u64)" "ucast (x mod y) = (ucast x mod ucast y :: u64)"
    by (simp_all add: word_unat_eq_iff unat_div_distrib unat_mod_distrib up)
qed

lemma divmoddi4_spec:
  "divmoddi4 a b c = (if b = 0 then None else Some (a div b, if c then Some (a mod b) else None))"
proof -
  consider "b = 0" | "b > a" "b \<noteq> 0" | "b = 1" "b \<le> a" | "b \<noteq> 0" "b \<noteq> 1" "b \<le> a" "arith64_hi b = 0" "arith64_hi a = 0"
    | "b \<noteq> 0" "b \<noteq> 1" "b \<le> a" "arith64_hi b \<noteq> 0 \<or> arith64_hi a \<noteq> 0"
    by (metis not_less)
  then show ?thesis
  proof cases
    case 1
    then show ?thesis by (simp add: divmoddi4_def arith64_hi_def)
  next
    case 2
    then show ?thesis by (auto simp: divmoddi4_def word_less_nat_alt word_unat_eq_iff unat_div_distrib unat_mod_distrib)
  next
    case 3
    then show ?thesis by (simp add: divmoddi4_def arith64_hi_def not_less)
  next
    case 4
    have lo: "ucast (arith64_lo x) = x" if "arith64_hi x = 0" for x
    proof -
      have "arith64_join (arith64_hi x) (arith64_lo x) = x"
        by (rule bit_word_eqI) (auto simp: halves_bits)
      with that show ?thesis by (simp add: arith64_join_def)
    qed
    have "ucast (arith64_lo a div arith64_lo b) = a div b" "ucast (arith64_lo a mod arith64_lo b) = a mod b"
      using lo [OF 4(4)] lo [OF 4(5)] by (simp_all add: ucast_up_div_mod)
    then show ?thesis using 4 by (simp add: divmoddi4_def leD)
  next
    case 5
    have "2 \<le> unat b" using 5(1,2) by (auto simp: word_unat_eq_iff)
    define bits :: u8 where "bits = of_nat (clzdi2 b) - of_nat (clzdi2 a) + 1"
    note st = long_division_start [OF 5(3) \<open>2 \<le> unat b\<close> bits_def]
    obtain rem' a' wrap' where l: "divmod_loop (unat bits) b (drop_bit (unat bits) a)
      (push_bit (64 - unat bits) a) 0 = (rem', a', wrap')" by (metis prod_cases3)
    have "unat b \<le> 2 ^ 63 \<or> unat bits \<le> 1 \<and> unat bits = 1 \<and> unat b \<le> unat a"
      using st(3) 5(3) by (auto simp: word_le_nat_alt)
    from long_division_loop [OF st(4) order_refl st(2) _ this l] unsigned_less [of a]
    obtain Q where Q: "long_division (unat a) (unat b) (unat bits) 0 Q rem' a' wrap'" by auto
    note Q' = Q [unfolded long_division_def]
    have "Q < 2 ^ 64" using Q' st(2) power_increasing [of "unat bits" 64 "2::nat"] by simp
    moreover have "unat (wrap' AND 1) \<le> 1" using Q' by simp
    ultimately have "unat (push_bit 1 a' OR (wrap' AND 1)) = Q" using Q' by (simp add: shift_in_bit)
    moreover have "Q = unat a div unat b" "unat rem' = unat a mod unat b" using Q' by auto
    ultimately have "push_bit 1 a' OR (wrap' AND 1) = a div b" "rem' = a mod b"
      by (simp_all add: word_unat_eq_iff unat_div_distrib unat_mod_distrib)
    moreover have "divmoddi4 a b c = Some (push_bit 1 a' OR (wrap' AND 1), if c then Some rem' else None)"
      using 5 l unfolding divmoddi4_def Let_def bits_def [symmetric] by auto
    ultimately show ?thesis using 5(1) by simp
  qed
qed

subsection \<open>Signed division\<close>

lemma arith64_neg_eq: "arith64_neg x b = (if sint b < 0 then - x else x)"
  by (simp add: arith64_neg_def not_eq_complement)

lemma uint_abs64: "uint (arith64_abs a) = \<bar>sint a\<bar>"
proof (cases "sint a < 0")
  case True
  have "- (2 ^ 63) \<le> sint a" using sint_greater_eq [of a] by simp
  moreover have "- a = word_of_int (- sint a)" by simp
  ultimately have "uint (- a) = - sint a"
    using True by (simp only: uint_word_of_int_eq) (simp add: take_bit_int_eq_self)
  with True show ?thesis by (simp add: arith64_abs_def arith64_neg_eq)
next
  case False
  then show ?thesis
    by (simp add: arith64_abs_def arith64_neg_eq uint_sint take_bit_int_eq_self sint_lt [of a, simplified] order.strict_trans [OF sint_lt [of a]])
qed

lemma arith64_abs_zero: "arith64_abs b = 0 \<longleftrightarrow> b = 0"
  by (simp add: arith64_abs_def arith64_neg_eq)

lemma sint_xor_neg: "sint (a XOR b) < 0 \<longleftrightarrow> (sint a < 0) \<noteq> (sint b < 0)" for a b :: u64
  by (simp add: bit_last_iff [symmetric] bit_xor_iff)

lemma divdi3_spec: "divdi3 a b = (if b = 0 then None else Some (word_of_int (sint a sdiv sint b)))"
proof (cases "b = 0")
  case False
  have "arith64_abs a div arith64_abs b = word_of_int (\<bar>sint a\<bar> div \<bar>sint b\<bar>)"
    by (simp only: uint_abs64 [symmetric] uint_div [symmetric]) simp
  with False show ?thesis
    by (auto simp: divdi3_def divmoddi4_spec arith64_abs_zero arith64_neg_eq sint_xor_neg
        signed_divide_int_def sgn_if)
qed (simp add: divdi3_def divmoddi4_spec arith64_abs_zero)

lemma moddi3_spec: "moddi3 a b = (if b = 0 then None else Some (word_of_int (sint a smod sint b)))"
proof (cases "b = 0")
  case False
  have "arith64_abs a mod arith64_abs b = word_of_int (\<bar>sint a\<bar> mod \<bar>sint b\<bar>)"
    by (simp only: uint_abs64 [symmetric] uint_mod [symmetric]) simp
  with False show ?thesis
    by (auto simp: moddi3_def divmoddi4_spec arith64_abs_zero arith64_neg_eq
        signed_modulo_int_def sgn_if)
qed (simp add: moddi3_def divmoddi4_spec arith64_abs_zero)

subsection \<open>Properties\<close>

text \<open>C34. The 64 bit division routines the subcore links in place of libgcc compute the quotient and
  the remainder of C: the shift-and-subtract routine agrees with unsigned division and modulus for
  every numerator and divisor, through all of its special cases, the signed variants truncate
  towards zero and give the remainder the sign of the numerator, and all trap for a zero divisor and
  for no other.\<close>

theorem div64_is_division:
  "divmoddi4 a b c = (if b = 0 then None else Some (a div b, if c then Some (a mod b) else None)) \<and>
   udivdi3 a b = (if b = 0 then None else Some (a div b)) \<and>
   umoddi3 a b = (if b = 0 then None else Some (a mod b)) \<and>
   divdi3 a b = (if b = 0 then None else Some (word_of_int (sint a sdiv sint b))) \<and>
   moddi3 a b = (if b = 0 then None else Some (word_of_int (sint a smod sint b)))"
  by (simp add: divmoddi4_spec divdi3_spec moddi3_spec udivdi3_def umoddi3_def)

text \<open>The 64 bit shifts composed of 32 bit halves are the left, logical right and arithmetic right
  shift of the whole word, by the count modulo 64.\<close>

theorem shift64_is_shift:
  "ashldi3 a b = push_bit (unat b mod 64) a \<and> lshrdi3 a b = drop_bit (unat b mod 64) a \<and>
   ashrdi3 a b = signed_drop_bit (unat b mod 64) a"
proof -
  have "b AND 63 = take_bit 6 b" by (simp add: take_bit_eq_mask mask_eq_exp_minus_1)
  then have "unat (b AND 63) = unat b mod 64" by (simp add: take_bit_eq_mod unat_mod_distrib)
  then show ?thesis by (simp add: ashldi3_shift lshrdi3_shift ashrdi3_shift)
qed

end
