(* ===== verification/Amp_Boot.thy ===== *)
theory Amp_Boot
  imports Amp_Queue
begin

text \<open>
  Starting the subcore, src/components/esp_amp/system/esp_amp_cpu.c, and loading its program,
  system/esp_amp_loader.c. The program is an image of the ESP-IDF format mapped into memory: a header
  and segments, each a header with load address and length before its bytes. The layout of these
  structures and the hardware access functions belong to the ESP-IDF and are parameters.
\<close>

subsection \<open>Start and stop\<close>

record 'h cpu_ops =
  cache_ll_writeback_all :: "'h \<Rightarrow> 'h"
  cpu_utility_ll_unstall_cpu :: "'h \<Rightarrow> 'h"
  REG_GET_CLK_EN :: "'h \<Rightarrow> bool"
  REG_SET_CLK_EN :: "'h \<Rightarrow> 'h"
  REG_GET_RST_EN :: "'h \<Rightarrow> bool"
  REG_CLR_RST_EN :: "'h \<Rightarrow> 'h"
  key_mgr_hal_set_key_usage :: "'h \<Rightarrow> 'h"
  ets_set_appcpu_boot_addr :: "u32 \<Rightarrow> 'h \<Rightarrow> 'h"
  ulp_lp_core_run :: "'h \<Rightarrow> esp_err \<times> 'h"
  ulp_lp_core_stop :: "'h \<Rightarrow> 'h"

text \<open>\<open>p4\<close> and \<open>key_mgr\<close> are the conditions of the two conditional parts.\<close>

definition hp_start_subcore :: "bool \<Rightarrow> bool \<Rightarrow> 'h cpu_ops \<Rightarrow> u32 \<Rightarrow> 'h \<Rightarrow> int \<times> 'h" where
  "hp_start_subcore p4 key_mgr ops hp_subcore_boot_addr h =
     (let h1 = cpu_utility_ll_unstall_cpu ops (cache_ll_writeback_all ops h);
          h2 = (if p4 \<and> \<not> REG_GET_CLK_EN ops h1 then REG_SET_CLK_EN ops h1 else h1);
          h3 = (if p4 \<and> REG_GET_RST_EN ops h2 then REG_CLR_RST_EN ops h2 else h2);
          h4 = (if key_mgr then key_mgr_hal_set_key_usage ops h3 else h3)
      in if hp_subcore_boot_addr = 0 then (-1, h4)
         else (0, ets_set_appcpu_boot_addr ops hp_subcore_boot_addr h4))"

definition lp_start_subcore :: "'h cpu_ops \<Rightarrow> 'h \<Rightarrow> int \<times> 'h" where
  "lp_start_subcore ops h = (let (ret, h1) = ulp_lp_core_run ops h in if ret \<noteq> ESP_OK then (-1, h1) else (0, h1))"

definition hp_stop_subcore :: "'h \<Rightarrow> 'h" where "hp_stop_subcore h = h"

definition lp_stop_subcore :: "'h cpu_ops \<Rightarrow> 'h \<Rightarrow> 'h" where "lp_stop_subcore ops h = ulp_lp_core_stop ops h"

definition esp_amp_start_subcore :: "'z config \<Rightarrow> bool \<Rightarrow> bool \<Rightarrow> 'z core_scheme cpu_ops \<Rightarrow> u32 \<Rightarrow> 'z core_scheme \<Rightarrow> int \<times> 'z core_scheme" where
  "esp_amp_start_subcore c p4 key_mgr ops boot_addr s =
     (if SUBCORE_TYPE_LP_CORE c then lp_start_subcore ops s else hp_start_subcore p4 key_mgr ops boot_addr s)"

definition esp_amp_stop_subcore :: "'z config \<Rightarrow> 'z core_scheme cpu_ops \<Rightarrow> 'z core_scheme \<Rightarrow> 'z core_scheme" where
  "esp_amp_stop_subcore c ops s = (if SUBCORE_TYPE_LP_CORE c then lp_stop_subcore ops s else hp_stop_subcore s)"

subsection \<open>Where a program may be loaded\<close>

record loader_cfg =
  PURE_RTC_RAM_APP :: bool
  CFG_SUBCORE_USE_HP_MEM_SIZE :: u32
  ulp_base_address :: ptr
  SOC_DROM_LOW :: u32
  SOC_DROM_HIGH :: u32
  ESP_APP_DESC_MAGIC_WORD :: u32
  ESP_IMAGE_MAX_SEGMENTS :: nat
  sizeof_image_header :: u32
  off_segment_count :: u32
  off_entry_addr :: u32
  sizeof_segment_header :: u32
  off_load_addr :: u32
  off_data_len :: u32

definition SUBCORE_USE_HP_MEM_END :: "'z config \<Rightarrow> ptr" where
  "SUBCORE_USE_HP_MEM_END c = ESP_AMP_HP_SHARED_MEM_START c"

definition SUBCORE_USE_HP_MEM_START :: "loader_cfg \<Rightarrow> 'z config \<Rightarrow> ptr" where
  "SUBCORE_USE_HP_MEM_START lc c = SUBCORE_USE_HP_MEM_END c - CFG_SUBCORE_USE_HP_MEM_SIZE lc"

text \<open>Addresses are compared as \<open>intptr_t\<close>, signed.\<close>

definition is_valid_subcore_app_dram_addr :: "loader_cfg \<Rightarrow> 'z config \<Rightarrow> u32 \<Rightarrow> bool" where
  "is_valid_subcore_app_dram_addr lc c a \<longleftrightarrow>
     sint (SUBCORE_USE_HP_MEM_START lc c) \<le> sint a \<and> sint a \<le> sint (SUBCORE_USE_HP_MEM_END c)"

definition is_valid_subcore_app_rtcram_addr :: "loader_cfg \<Rightarrow> 'z config \<Rightarrow> u32 \<Rightarrow> bool" where
  "is_valid_subcore_app_rtcram_addr lc c a \<longleftrightarrow>
     sint (ulp_base_address lc) \<le> sint a \<and>
     sint a \<le> sint (ulp_base_address lc + ALIGN_DOWN (CFG_ULP_COPROC_RESERVE_MEM c) 8)"

definition is_valid_subcore_app_addr :: "loader_cfg \<Rightarrow> 'z config \<Rightarrow> u32 \<Rightarrow> bool" where
  "is_valid_subcore_app_addr lc c a \<longleftrightarrow>
     \<not> PURE_RTC_RAM_APP lc \<and> is_valid_subcore_app_dram_addr lc c a \<or>
     SUBCORE_TYPE_LP_CORE c \<and> is_valid_subcore_app_rtcram_addr lc c a"

subsection \<open>Loading\<close>

text \<open>
  The loop over the segments: \<open>n\<close> are left, \<open>i\<close> is the next, \<open>next_addr\<close> its offset in the image,
  \<open>unused\<close> is \<open>unused_reserved_dram_start\<close>. A segment beyond the array of the image metadata is
  \<open>None\<close>. The description of the program is only logged.
\<close>

fun load_segments ::
    "loader_cfg \<Rightarrow> 'z config \<Rightarrow> ptr \<Rightarrow> nat \<Rightarrow> nat \<Rightarrow> u32 \<Rightarrow> u32 \<Rightarrow> memory \<Rightarrow> (esp_err \<times> u32 \<times> memory) option" where
  "load_segments lc c sub_bin 0 i next_addr unused m = Some (ESP_OK, unused, m)"
| "load_segments lc c sub_bin (Suc n) i next_addr unused m =
     (if ESP_IMAGE_MAX_SEGMENTS lc \<le> i then None
      else
        let load_addr = load32 m (sub_bin + next_addr + off_load_addr lc);
            data_len = load32 m (sub_bin + next_addr + off_data_len lc);
            next_addr = next_addr + sizeof_segment_header lc;
            segment_start = load_addr;
            segment_end = segment_start + data_len
        in if is_valid_subcore_app_addr lc c segment_start \<and> is_valid_subcore_app_addr lc c segment_end then
             load_segments lc c sub_bin n (Suc i) (next_addr + data_len)
               (if \<not> PURE_RTC_RAM_APP lc \<and> is_valid_subcore_app_dram_addr lc c segment_end \<and> sint unused < sint segment_end
                then segment_end else unused)
               (store_bytes m load_addr (load_bytes m (sub_bin + next_addr) (unat data_len)))
           else if sint (SOC_DROM_LOW lc) \<le> sint segment_start \<and> sint segment_end \<le> sint (SOC_DROM_HIGH lc) then
             if load32 m (sub_bin + next_addr) = ESP_APP_DESC_MAGIC_WORD lc
             then load_segments lc c sub_bin n (Suc i) (next_addr + data_len) unused m
             else Some (ESP_FAIL, unused, m)
           else Some (ESP_FAIL, unused, m))"

text \<open>
  The result is the error code, the value of \<open>hp_subcore_boot_addr\<close>, the region passed to
  \<open>heap_caps_add_region\<close> if any, and the state.
\<close>

definition hal_memset :: "memory \<Rightarrow> ptr \<Rightarrow> u32 \<Rightarrow> memory" where
  "hal_memset m a n = store_bytes m a (replicate (unat n) 0)"

definition esp_amp_load_sub ::
    "loader_cfg \<Rightarrow> 'z config \<Rightarrow> 'z core_scheme cpu_ops \<Rightarrow> ptr \<Rightarrow> u32 \<Rightarrow> 'z core_scheme \<Rightarrow>
     (esp_err \<times> u32 \<times> (u32 \<times> u32) option \<times> 'z core_scheme) option" where
  "esp_amp_load_sub lc c ops sub_bin boot_addr s =
     (let s1 = esp_amp_stop_subcore c ops s;
          m1 = (if \<not> PURE_RTC_RAM_APP lc
                then hal_memset (mem s1) (SUBCORE_USE_HP_MEM_START lc c) (CFG_SUBCORE_USE_HP_MEM_SIZE lc) else mem s1);
          entry_addr = load32 m1 (sub_bin + off_entry_addr lc);
          segment_count = load8 m1 (sub_bin + off_segment_count lc);
          m2 = (if SUBCORE_TYPE_LP_CORE c
                then hal_memset m1 (ulp_base_address lc) (CFG_ULP_COPROC_RESERVE_MEM c - ESP_AMP_RTC_SHARED_MEM_POOL_SIZE c)
                else m1);
          entry_ok = (if SUBCORE_TYPE_LP_CORE c then entry_addr = ulp_base_address lc + 0x80
                      else is_valid_subcore_app_addr lc c entry_addr)
      in do {
        (ret, unused, m3) \<leftarrow>
          (if \<not> entry_ok then Some (ESP_FAIL, SUBCORE_USE_HP_MEM_START lc c, m2)
           else load_segments lc c sub_bin (unat segment_count) 0 (sizeof_image_header lc) (SUBCORE_USE_HP_MEM_START lc c) m2);
        let unused1 = (if ret \<noteq> ESP_OK then SUBCORE_USE_HP_MEM_START lc c else unused);
        Some (ret, if SUBCORE_TYPE_LP_CORE c then boot_addr else entry_addr,
              if PURE_RTC_RAM_APP lc then None else Some (unused1, SUBCORE_USE_HP_MEM_END c), s1\<lparr>mem := m3\<rparr>)
      })"

text \<open>\<open>mmap\<close> is \<open>esp_partition_mmap\<close>, the address it maps the partition to or none; \<open>munmap\<close> undoes it.
  A failing \<open>ESP_ERROR_CHECK\<close> aborts, which is \<open>None\<close>.\<close>

definition esp_amp_load_sub_from_partition ::
    "(ptr \<Rightarrow> 'z core_scheme \<Rightarrow> (ptr \<times> 'z core_scheme) option) \<Rightarrow> ('z core_scheme \<Rightarrow> 'z core_scheme) \<Rightarrow> loader_cfg \<Rightarrow> 'z config \<Rightarrow>
     'z core_scheme cpu_ops \<Rightarrow> ptr \<Rightarrow> u32 \<Rightarrow> 'z core_scheme \<Rightarrow> (esp_err \<times> u32 \<times> (u32 \<times> u32) option \<times> 'z core_scheme) option" where
  "esp_amp_load_sub_from_partition mmap munmap lc c ops sub_partition boot_addr s =
     (if sub_partition = NULL then Some (ESP_ERR_NOT_FOUND, boot_addr, None, s)
      else do {
        (p, s1) \<leftarrow> mmap sub_partition s;
        (ret, boot, region, s2) \<leftarrow> esp_amp_load_sub lc c ops p boot_addr s1;
        if ret \<noteq> ESP_OK then None else Some (ESP_OK, boot, region, munmap s2)
      })"

subsection \<open>What the loader writes\<close>

definition dram_region :: "loader_cfg \<Rightarrow> 'z config \<Rightarrow> ptr set" where
  "dram_region lc c = (if PURE_RTC_RAM_APP lc then {} else
     {x. unat (SUBCORE_USE_HP_MEM_START lc c) \<le> unat x \<and> unat x < unat (SUBCORE_USE_HP_MEM_END c)})"

definition rtc_region :: "loader_cfg \<Rightarrow> 'z config \<Rightarrow> ptr set" where
  "rtc_region lc c = (if \<not> SUBCORE_TYPE_LP_CORE c then {} else
     {x. unat (ulp_base_address lc) \<le> unat x \<and>
         unat x < unat (ulp_base_address lc + ALIGN_DOWN (CFG_ULP_COPROC_RESERVE_MEM c) 8)})"

text \<open>The memory map: both regions lie in the lower half of the address space, as the signed comparisons
  need, and apart; the shared pool is at least as large as what alignment cuts off.\<close>

definition loader_ok :: "loader_cfg \<Rightarrow> 'z config \<Rightarrow> bool" where
  "loader_ok lc c \<longleftrightarrow>
     unat (SUBCORE_USE_HP_MEM_END c) < 2147483648 \<and> unat (CFG_SUBCORE_USE_HP_MEM_SIZE lc) \<le> unat (SUBCORE_USE_HP_MEM_END c) \<and>
     unat (ulp_base_address lc) + unat (ALIGN_DOWN (CFG_ULP_COPROC_RESERVE_MEM c) 8) < 2147483648 \<and>
     unat (CFG_ULP_COPROC_RESERVE_MEM c - ESP_AMP_RTC_SHARED_MEM_POOL_SIZE c) \<le> unat (ALIGN_DOWN (CFG_ULP_COPROC_RESERVE_MEM c) 8) \<and>
     dram_region lc c \<inter> rtc_region lc c = {}"

text \<open>Both ends of a segment that passes the check are in the same region and in order. The code does not
  test this.\<close>

definition segment_sane :: "loader_cfg \<Rightarrow> 'z config \<Rightarrow> u32 \<Rightarrow> u32 \<Rightarrow> bool" where
  "segment_sane lc c a len \<longleftrightarrow>
     (is_valid_subcore_app_addr lc c a \<and> is_valid_subcore_app_addr lc c (a + len) \<longrightarrow>
      a \<le> a + len \<and>
      (\<not> PURE_RTC_RAM_APP lc \<and> is_valid_subcore_app_dram_addr lc c a \<and> is_valid_subcore_app_dram_addr lc c (a + len) \<or>
       SUBCORE_TYPE_LP_CORE c \<and> is_valid_subcore_app_rtcram_addr lc c a \<and> is_valid_subcore_app_rtcram_addr lc c (a + len)))"

fun segments_sane :: "loader_cfg \<Rightarrow> 'z config \<Rightarrow> ptr \<Rightarrow> nat \<Rightarrow> u32 \<Rightarrow> memory \<Rightarrow> bool" where
  "segments_sane lc c b 0 nxt m = True"
| "segments_sane lc c b (Suc n) nxt m \<longleftrightarrow>
     span (b + nxt + off_load_addr lc) 4 \<inter> (dram_region lc c \<union> rtc_region lc c) = {} \<and>
     span (b + nxt + off_data_len lc) 4 \<inter> (dram_region lc c \<union> rtc_region lc c) = {} \<and>
     segment_sane lc c (load32 m (b + nxt + off_load_addr lc)) (load32 m (b + nxt + off_data_len lc)) \<and>
     segments_sane lc c b n (nxt + sizeof_segment_header lc + load32 m (b + nxt + off_data_len lc)) m"

text \<open>The image is outside the regions and its segments are sane.\<close>

definition image_sane :: "loader_cfg \<Rightarrow> 'z config \<Rightarrow> ptr \<Rightarrow> memory \<Rightarrow> bool" where
  "image_sane lc c b m \<longleftrightarrow> b + off_segment_count lc \<notin> dram_region lc c \<union> rtc_region lc c \<and>
     segments_sane lc c b (unat (load8 m (b + off_segment_count lc))) (sizeof_image_header lc) m"

lemma signed_take_bit_31: "- 2147483648 \<le> k \<Longrightarrow> k < 2147483648 \<Longrightarrow> signed_take_bit 31 k = k" for k :: int
  by (rule signed_take_bit_int_eq_self) simp_all

lemma sint_low: "sint (x :: u32) = (if unat x < 2147483648 then int (unat x) else int (unat x) - 4294967296)"
proof (cases "unat x < 2147483648")
  case True
  then have "signed_take_bit 31 (int (unat x)) = int (unat x)" by (intro signed_take_bit_31) linarith+
  then show ?thesis using True by (simp add: sint_uint)
next
  case False
  then have "signed_take_bit 31 (int (unat x) - 4294967296) = int (unat x) - 4294967296"
    using unat_lt_32 [of x] by (intro signed_take_bit_31) linarith+
  moreover have "signed_take_bit 31 (int (unat x) - 4294967296) = signed_take_bit 31 (int (unat x))"
    using signed_take_bit_diff [of 31 "int (unat x)" 4294967296] by simp
  ultimately show ?thesis using False by (simp add: sint_uint)
qed

lemma sint_le_low:
  fixes a b x :: u32
  assumes "unat b < 2147483648" and "unat a \<le> unat b"
  shows "sint a \<le> sint x \<and> sint x \<le> sint b \<longleftrightarrow> unat a \<le> unat x \<and> unat x \<le> unat b"
proof -
  have "sint a = int (unat a)" "sint b = int (unat b)" using assms by (simp_all add: sint_low)
  moreover have "int (unat x) < 4294967296" using unat_lt_32 [of x] by linarith
  ultimately show ?thesis using assms sint_low [of x] by (cases "unat x < 2147483648") (simp only: if_True, linarith, simp only: if_False, linarith)
qed

lemma loader_bounds:
  assumes "loader_ok lc c"
  shows "unat (SUBCORE_USE_HP_MEM_START lc c) = unat (SUBCORE_USE_HP_MEM_END c) - unat (CFG_SUBCORE_USE_HP_MEM_SIZE lc)"
    "unat (SUBCORE_USE_HP_MEM_END c) < 2147483648"
    "unat (ulp_base_address lc + ALIGN_DOWN (CFG_ULP_COPROC_RESERVE_MEM c) 8) =
       unat (ulp_base_address lc) + unat (ALIGN_DOWN (CFG_ULP_COPROC_RESERVE_MEM c) 8)"
  using assms by (simp_all add: loader_ok_def SUBCORE_USE_HP_MEM_START_def unat_sub_if_size unat_word_ariths word_size word_le_nat_alt)

lemma valid_dram:
  assumes "loader_ok lc c"
  shows "is_valid_subcore_app_dram_addr lc c a \<longleftrightarrow>
    unat (SUBCORE_USE_HP_MEM_START lc c) \<le> unat a \<and> unat a \<le> unat (SUBCORE_USE_HP_MEM_END c)"
  unfolding is_valid_subcore_app_dram_addr_def using loader_bounds [OF assms] by (intro sint_le_low) simp_all

lemma valid_rtc:
  assumes "loader_ok lc c"
  shows "is_valid_subcore_app_rtcram_addr lc c a \<longleftrightarrow> unat (ulp_base_address lc) \<le> unat a \<and>
    unat a \<le> unat (ulp_base_address lc + ALIGN_DOWN (CFG_ULP_COPROC_RESERVE_MEM c) 8)"
  unfolding is_valid_subcore_app_rtcram_addr_def
  using loader_bounds(3) [OF assms] assms by (intro sint_le_low) (simp_all add: loader_ok_def)

lemma segment_span:
  assumes "a \<le> a + len" and "x \<in> span (a :: u32) (unat len)"
  shows "unat a \<le> unat x" "unat x < unat (a + len)"
proof -
  have e: "unat (a + len) = unat a + unat len" using assms(1) by (rule unat_plus_simple [THEN iffD1])
  have "unat x = unat a + unat (x - a)"
    using assms(2) e unat_lt_32 [of "a + len"] unat_add_of_nat [of a "unat (x - a)"] by (simp add: in_span_iff)
  then show "unat a \<le> unat x" "unat x < unat (a + len)" using assms(2) e by (simp_all add: in_span_iff)
qed

text \<open>A segment stays inside the regions; in DRAM it ends at or before the new end of the program.\<close>

lemma segment_confined:
  assumes ok: "loader_ok lc c" and v: "is_valid_subcore_app_addr lc c a" "is_valid_subcore_app_addr lc c (a + len)"
    and sane: "segment_sane lc c a len"
  shows "span a (unat len) \<subseteq> dram_region lc c \<union> rtc_region lc c"
    and "x \<in> span a (unat len) \<Longrightarrow> x \<in> dram_region lc c \<Longrightarrow>
      is_valid_subcore_app_dram_addr lc c (a + len) \<and> unat x < unat (a + len)"
proof -
  from sane v have le: "a \<le> a + len" by (simp add: segment_sane_def)
  note sp = segment_span [OF le]
  from sane v consider (d) "\<not> PURE_RTC_RAM_APP lc" "is_valid_subcore_app_dram_addr lc c a" "is_valid_subcore_app_dram_addr lc c (a + len)"
    | (r) "SUBCORE_TYPE_LP_CORE c" "is_valid_subcore_app_rtcram_addr lc c a" "is_valid_subcore_app_rtcram_addr lc c (a + len)"
    by (auto simp: segment_sane_def)
  then have "span a (unat len) \<subseteq> dram_region lc c \<union> rtc_region lc c \<and>
    (\<forall>x. x \<in> span a (unat len) \<longrightarrow> x \<in> dram_region lc c \<longrightarrow> is_valid_subcore_app_dram_addr lc c (a + len) \<and> unat x < unat (a + len))"
  proof cases
    case d
    then have "span a (unat len) \<subseteq> dram_region lc c" using sp by (force simp: dram_region_def valid_dram [OF ok])
    then show ?thesis using sp d(3) by auto
  next
    case r
    then have sub: "span a (unat len) \<subseteq> rtc_region lc c" using sp by (force simp: rtc_region_def valid_rtc [OF ok])
    moreover have "dram_region lc c \<inter> rtc_region lc c = {}" using ok by (simp add: loader_ok_def)
    ultimately show ?thesis by blast
  qed
  then show "span a (unat len) \<subseteq> dram_region lc c \<union> rtc_region lc c"
    and "x \<in> span a (unat len) \<Longrightarrow> x \<in> dram_region lc c \<Longrightarrow>
      is_valid_subcore_app_dram_addr lc c (a + len) \<and> unat x < unat (a + len)" by auto
qed

text \<open>The state of the loop: everything outside the regions and, in DRAM, everything from \<open>unused\<close> on is
  as it was.\<close>

definition load_inv :: "loader_cfg \<Rightarrow> 'z config \<Rightarrow> memory \<Rightarrow> u32 \<Rightarrow> memory \<Rightarrow> bool" where
  "load_inv lc c m0 unused m \<longleftrightarrow> is_valid_subcore_app_dram_addr lc c unused \<and>
     agree (- (dram_region lc c \<union> rtc_region lc c)) m m0 \<and>
     (\<forall>x \<in> dram_region lc c. unat unused \<le> unat x \<longrightarrow> m x = m0 x)"

lemma load_inv_segment:
  assumes ok: "loader_ok lc c" and inv: "load_inv lc c m0 unused m"
    and v: "is_valid_subcore_app_addr lc c a" "is_valid_subcore_app_addr lc c (a + len)" and sane: "segment_sane lc c a len"
    and l: "length bs = unat len"
  shows "load_inv lc c m0 (if \<not> PURE_RTC_RAM_APP lc \<and> is_valid_subcore_app_dram_addr lc c (a + len) \<and> sint unused < sint (a + len)
      then a + len else unused) (store_bytes m a bs)" (is "load_inv lc c m0 ?u ?m")
proof -
  note conf = segment_confined [OF ok v sane]
  have out: "?m x = m x" if "x \<notin> span a (unat len)" for x
    using that l unat_lt_32 [of len] by (intro store_bytes_outside) (auto simp del: unat_lt_32)
  have pure: "\<not> PURE_RTC_RAM_APP lc" if "x \<in> dram_region lc c" for x using that by (auto simp: dram_region_def split: if_splits)
  have uv: "is_valid_subcore_app_dram_addr lc c unused" using inv by (simp add: load_inv_def)
  have cmp: "sint unused < sint (a + len) \<longleftrightarrow> unat unused < unat (a + len)" if "is_valid_subcore_app_dram_addr lc c (a + len)"
    using that uv loader_bounds(2) [OF ok] sint_low [of unused] sint_low [of "a + len"] unfolding valid_dram [OF ok]
    by (simp flip: word_less_def word_less_nat_alt)
  have le: "unat unused \<le> unat ?u" using cmp by auto
  have end_le: "unat (a + len) \<le> unat ?u" if "x \<in> dram_region lc c" "is_valid_subcore_app_dram_addr lc c (a + len)" for x
    using that cmp pure [OF that(1)] by auto
  have "?m x = m0 x" if "x \<in> dram_region lc c" "unat ?u \<le> unat x" for x
  proof -
    have "x \<notin> span a (unat len)" using conf(2) [OF _ that(1)] end_le [OF that(1)] that(2) by fastforce
    then show ?thesis using out inv that le by (simp add: load_inv_def)
  qed
  moreover have "agree (- (dram_region lc c \<union> rtc_region lc c)) ?m m0"
    unfolding agree_def
  proof
    fix x assume x: "x \<in> - (dram_region lc c \<union> rtc_region lc c)"
    then have "x \<notin> span a (unat len)" using conf(1) by blast
    then show "?m x = m0 x" using out inv x by (simp add: load_inv_def agree_def)
  qed
  moreover have "is_valid_subcore_app_dram_addr lc c ?u" using inv by (simp add: load_inv_def)
  ultimately show ?thesis by (simp add: load_inv_def)
qed

lemma segments_sane_cong:
  assumes "agree (- (dram_region lc c \<union> rtc_region lc c)) m m0"
  shows "segments_sane lc c b n nxt m = segments_sane lc c b n nxt m0"
proof (induction n arbitrary: nxt)
  case (Suc n)
  have "load32 m x = load32 m0 x" if "span x 4 \<inter> (dram_region lc c \<union> rtc_region lc c) = {}" for x
    using that by (intro load32_cong agree_mono [OF assms]) auto
  then show ?case using Suc by (metis segments_sane.simps(2))
qed simp

lemma load_segments_inv:
  assumes "loader_ok lc c"
  shows "load_segments lc c b n i nxt unused m = Some (ret, unused', m') \<Longrightarrow> segments_sane lc c b n nxt m \<Longrightarrow>
    load_inv lc c m0 unused m \<Longrightarrow> load_inv lc c m0 unused' m'"
proof (induction n arbitrary: i nxt unused m)
  case (Suc n)
  define a len where "a = load32 m (b + nxt + off_load_addr lc)" and "len = load32 m (b + nxt + off_data_len lc)"
  define u where "u = (if \<not> PURE_RTC_RAM_APP lc \<and> is_valid_subcore_app_dram_addr lc c (a + len) \<and> sint unused < sint (a + len)
      then a + len else unused)"
  let ?bs = "load_bytes m (b + (nxt + sizeof_segment_header lc)) (unat len)"
  let ?m = "store_bytes m a ?bs"
  have sane: "segment_sane lc c a len" "segments_sane lc c b n (nxt + sizeof_segment_header lc + len) m"
    using Suc.prems(2) by (simp_all add: a_def len_def)
  show ?case
  proof (cases "is_valid_subcore_app_addr lc c a \<and> is_valid_subcore_app_addr lc c (a + len)")
    case True
    have refl: "load_inv lc c m unused m" using Suc.prems(3) by (simp add: load_inv_def)
    have inv: "load_inv lc c m0 u ?m" "load_inv lc c m u ?m"
      unfolding u_def using True sane(1) by (intro load_inv_segment assms Suc.prems(3) refl; simp)+
    have "load_segments lc c b n (Suc i) (nxt + sizeof_segment_header lc + len) u ?m = Some (ret, unused', m')"
      using Suc.prems(1) True by (auto simp: Let_def a_def [symmetric] len_def [symmetric] u_def split: if_splits)
    moreover have "segments_sane lc c b n (nxt + sizeof_segment_header lc + len) ?m"
      using sane(2) segments_sane_cong [of lc c ?m m] inv(2) by (simp add: load_inv_def)
    ultimately show ?thesis using Suc.IH inv(1) by blast
  next
    case False
    then show ?thesis
      using Suc.prems sane(2) Suc.IH by (auto simp: Let_def a_def [symmetric] len_def [symmetric] split: if_splits)
  qed
qed simp

lemma store_bytes_replicate: "x \<in> span a n \<Longrightarrow> n \<le> 4294967296 \<Longrightarrow> store_bytes m a (replicate n v) x = v"
proof -
  assume x: "x \<in> span a n" and n: "n \<le> 4294967296"
  then have "load_bytes (store_bytes m a (replicate n v)) a n = replicate n v"
    using load_store_bytes_same [of "replicate n v" m a] by simp
  then have "load_bytes (store_bytes m a (replicate n v)) a n ! unat (x - a) = v" using x by (simp add: in_span_iff)
  then show ?thesis using x word_diff_add_offset [of x a] by (simp add: load_bytes_def in_span_iff)
qed

lemma hal_memset_frame: "x \<notin> span a (unat n) \<Longrightarrow> hal_memset m a n x = m x"
  unfolding hal_memset_def using unat_lt_32 [of n] by (intro store_bytes_outside) (auto simp del: unat_lt_32)

lemma hal_memset_zero: "x \<in> span a (unat n) \<Longrightarrow> hal_memset m a n x = 0"
  unfolding hal_memset_def using unat_lt_32 [of n] by (intro store_bytes_replicate) (auto simp del: unat_lt_32)

lemma cleared:
  assumes ok: "loader_ok lc c"
    and m1: "m1 = (if \<not> PURE_RTC_RAM_APP lc then hal_memset m (SUBCORE_USE_HP_MEM_START lc c) (CFG_SUBCORE_USE_HP_MEM_SIZE lc) else m)"
    and m2: "m2 = (if SUBCORE_TYPE_LP_CORE c
      then hal_memset m1 (ulp_base_address lc) (CFG_ULP_COPROC_RESERVE_MEM c - ESP_AMP_RTC_SHARED_MEM_POOL_SIZE c) else m1)"
  shows "agree (- (dram_region lc c \<union> rtc_region lc c)) m1 m" "agree (- (dram_region lc c \<union> rtc_region lc c)) m2 m"
    "x \<in> dram_region lc c \<Longrightarrow> m2 x = 0"
proof -
  note bd = loader_bounds [OF ok] and ok' = ok [unfolded loader_ok_def]
  have d: "\<not> PURE_RTC_RAM_APP lc \<Longrightarrow> x \<in> span (SUBCORE_USE_HP_MEM_START lc c) (unat (CFG_SUBCORE_USE_HP_MEM_SIZE lc)) \<longleftrightarrow> x \<in> dram_region lc c" for x
    using bd ok' in_span_nowrap [of "SUBCORE_USE_HP_MEM_START lc c" "unat (CFG_SUBCORE_USE_HP_MEM_SIZE lc)"] by (simp add: dram_region_def)
  let ?n = "unat (CFG_ULP_COPROC_RESERVE_MEM c - ESP_AMP_RTC_SHARED_MEM_POOL_SIZE c)"
  have r: "SUBCORE_TYPE_LP_CORE c \<Longrightarrow> x \<in> span (ulp_base_address lc) ?n \<Longrightarrow> x \<in> rtc_region lc c" for x
    using bd ok' in_span_nowrap [of "ulp_base_address lc" ?n] by (simp add: rtc_region_def)
  show a1: "agree (- (dram_region lc c \<union> rtc_region lc c)) m1 m"
    unfolding m1 agree_def using d hal_memset_frame by auto
  have a2: "m2 x = m1 x" if "x \<notin> rtc_region lc c" for x
  proof (cases "SUBCORE_TYPE_LP_CORE c")
    case True
    then have "x \<notin> span (ulp_base_address lc) ?n" using r that by blast
    then show ?thesis using True by (simp add: m2 hal_memset_frame)
  qed (simp add: m2)
  then show "agree (- (dram_region lc c \<union> rtc_region lc c)) m2 m" using a1 by (simp add: agree_def)
  show "m2 x = 0" if "x \<in> dram_region lc c"
  proof -
    have "\<not> PURE_RTC_RAM_APP lc" using that by (auto simp: dram_region_def split: if_splits)
    moreover have "x \<notin> rtc_region lc c" using ok' that by blast
    ultimately show ?thesis using a2 d that hal_memset_zero by (simp add: m1)
  qed
qed

subsection \<open>A sample image\<close>

definition boot_cfg :: "unit config" where
  "boot_cfg = (demo_config True)\<lparr>SUBCORE_TYPE_LP_CORE := False, CFG_HP_SHARED_MEM_END := 0x1100, CFG_HP_SHARED_MEM_SIZE := 0x100\<rparr>"

definition boot_loader :: loader_cfg where
  "boot_loader = \<lparr>PURE_RTC_RAM_APP = False, CFG_SUBCORE_USE_HP_MEM_SIZE = 16, ulp_base_address = 0x50000000,
     SOC_DROM_LOW = 0x42000000, SOC_DROM_HIGH = 0x43000000, ESP_APP_DESC_MAGIC_WORD = 0xABCD5432, ESP_IMAGE_MAX_SEGMENTS = 16,
     sizeof_image_header = 24, off_segment_count = 1, off_entry_addr = 4, sizeof_segment_header = 8, off_load_addr = 0, off_data_len = 4\<rparr>"

text \<open>An image at 0x2000 with one segment of four bytes for address 0xff0.\<close>

definition boot_image :: memory where
  "boot_image = store8 (store32 (store32 (store32 (store32 (\<lambda>_. 0) 0x2004 0xff0) 0x2018 0xff0) 0x201c 4) 0x2020 0x11223344) 0x2001 1"

definition boot_ops :: "core cpu_ops" where
  "boot_ops = \<lparr>cache_ll_writeback_all = id, cpu_utility_ll_unstall_cpu = id, REG_GET_CLK_EN = (\<lambda>_. True), REG_SET_CLK_EN = id,
     REG_GET_RST_EN = (\<lambda>_. False), REG_CLR_RST_EN = id, key_mgr_hal_set_key_usage = id, ets_set_appcpu_boot_addr = (\<lambda>_. id),
     ulp_lp_core_run = Pair ESP_OK, ulp_lp_core_stop = id\<rparr>"

lemma boot_layout:
  "SUBCORE_USE_HP_MEM_END boot_cfg = 0x1000" "SUBCORE_USE_HP_MEM_START boot_loader boot_cfg = 0xff0"
  "CFG_SUBCORE_USE_HP_MEM_SIZE boot_loader = 16" "ulp_base_address boot_loader = 0x50000000"
  "ALIGN_DOWN (CFG_ULP_COPROC_RESERVE_MEM boot_cfg) 8 = 0x3000"
  "CFG_ULP_COPROC_RESERVE_MEM boot_cfg - ESP_AMP_RTC_SHARED_MEM_POOL_SIZE boot_cfg = 0x2800"
  by code_simp+

lemma boot_fields:
  "\<not> PURE_RTC_RAM_APP boot_loader" "sizeof_image_header boot_loader = 24" "off_segment_count boot_loader = 1"
  "sizeof_segment_header boot_loader = 8" "off_load_addr boot_loader = 0" "off_data_len boot_loader = 4"
  by (simp_all add: boot_loader_def)

lemma boot_regions: "rtc_region boot_loader boot_cfg = {}" "dram_region boot_loader boot_cfg = span 0xff0 16"
proof -
  have "x \<in> span (0xff0 :: ptr) 16 \<longleftrightarrow> 0xff0 \<le> unat x \<and> unat x < 0x1000" for x by (subst in_span_nowrap) simp_all
  then show "dram_region boot_loader boot_cfg = span 0xff0 16" by (auto simp: dram_region_def boot_layout boot_fields)
qed (simp add: rtc_region_def boot_cfg_def)

lemma boot_loader_ok: "loader_ok boot_loader boot_cfg"
  by (simp add: loader_ok_def boot_layout boot_regions)

lemma boot_words: "load8 boot_image 0x2001 = 1" "load32 boot_image 0x2018 = 0xff0" "load32 boot_image 0x201c = 4"
  by code_simp+

lemma boot_image_sane: "image_sane boot_loader boot_cfg 0x2000 boot_image"
proof -
  have d: "span (a :: ptr) 4 \<inter> span 0xff0 16 = {}" if "a = 0x2018 \<or> a = 0x201c" for a
    using that by (intro disj_Int) (auto simp: disj_def)
  have "segment_sane boot_loader boot_cfg 0xff0 4" by code_simp
  moreover have "(0x2001 :: ptr) \<notin> span 0xff0 16" by (simp add: in_span_iff)
  ultimately show ?thesis
    using d boot_words by (simp add: image_sane_def boot_regions boot_fields One_nat_def)
qed

subsection \<open>Properties\<close>



text \<open>The address check alone does not confine the loader: with a subcore of type LP, a segment that starts
  in the reserved DRAM and ends in the RTC RAM passes it.\<close>

lemma straddling_segment_accepted:
  "is_valid_subcore_app_addr boot_loader (boot_cfg\<lparr>SUBCORE_TYPE_LP_CORE := True\<rparr>) 0xff0 \<and>
   is_valid_subcore_app_addr boot_loader (boot_cfg\<lparr>SUBCORE_TYPE_LP_CORE := True\<rparr>) (0xff0 + 0x4FFFF010) \<and>
   \<not> segment_sane boot_loader (boot_cfg\<lparr>SUBCORE_TYPE_LP_CORE := True\<rparr>) 0xff0 0x4FFFF010"
  by code_simp

end
