(* ===== verification/Amp_Panic.thy ===== *)
theory Amp_Panic
  imports Amp_Service_Link Amp_Boot
begin

text \<open>
  Panics of the subcore, src/components/esp_amp/system/esp_amp_panic: the subcore writes the reason,
  its registers and its stack to a dump behind the shared memory and interrupts the maincore, which
  stops it and prints the dump. The exception frame of the CPU belongs to the ESP-IDF: its size and
  the offsets of the two registers the code reads are parameters.
\<close>

subsection \<open>Numbers as text\<close>

text \<open>\<open>itods\<close>: the digits are filled in backwards and reversed in place.\<close>

function itods_fill :: "nat \<Rightarrow> int \<Rightarrow> nat \<Rightarrow> string \<Rightarrow> nat \<times> string" where
  "itods_fill max_len v pos str =
     (if 0 < v \<and> Suc pos < max_len
      then itods_fill max_len (v div 10) (Suc pos) (str[pos := char_of (48 + nat (v mod 10))])
      else (pos, str))"
  by pat_completeness auto
termination by (relation "measure (\<lambda>(max_len, v, pos, str). max_len - pos)") auto

declare itods_fill.simps [simp del]

definition itods_reverse :: "nat \<Rightarrow> string \<Rightarrow> string" where
  "itods_reverse pos str = foldl (\<lambda>s i. s[i := s ! (pos - 1 - i), pos - 1 - i := s ! i]) str [0..<pos div 2]"

definition itods :: "int \<Rightarrow> nat \<Rightarrow> string" where
  "itods v max_len =
     (let str = replicate max_len NUL
      in if v = 0 then str[0 := CHR ''0'']
         else let (pos, str) = itods_fill max_len v 0 str in itods_reverse pos str)"

definition hex_digits :: string where "hex_digits = ''0123456789abcdef''"

fun itohs_loop :: "nat \<Rightarrow> u32 \<Rightarrow> string \<Rightarrow> string" where
  "itohs_loop 0 v str = str"
| "itohs_loop (Suc i) v str = itohs_loop i (drop_bit 4 v) (str[i := hex_digits ! unat (v AND 0xF)])"

definition itohs :: "u32 \<Rightarrow> string \<Rightarrow> string" where
  "itohs v str = (itohs_loop 8 v str)[8 := NUL]"

text \<open>A character buffer read as a C string.\<close>

definition c_text :: "string \<Rightarrow> string" where "c_text buf = takeWhile (\<lambda>ch. ch \<noteq> NUL) buf"

subsection \<open>The dump\<close>

text \<open>\<open>esp_amp_subcore_panic_dump_t\<close>: \<open>is_abort\<close> at offset 0, \<open>stack_dump_length\<close> at 4, \<open>abort_details\<close> at 8 with
  248 bytes, \<open>register_dump\<close> at 256 with 256 bytes, \<open>stack_dump\<close> at 512 with 1024 bytes.\<close>

definition panic_dump :: "'z config \<Rightarrow> ptr" where "panic_dump c = CFG_HP_SHARED_MEM_END c"
definition abort_details :: "'z config \<Rightarrow> ptr" where "abort_details c = panic_dump c + 8"
definition register_dump :: "'z config \<Rightarrow> ptr" where "register_dump c = panic_dump c + 256"
definition stack_dump :: "'z config \<Rightarrow> ptr" where "stack_dump c = panic_dump c + 512"
definition ESP_AMP_PANIC_ABORT_DETAILS_LENGTH :: u32 where "ESP_AMP_PANIC_ABORT_DETAILS_LENGTH = 248"
definition ESP_AMP_PANIC_STACK_DUMP_LENGTH :: u32 where "ESP_AMP_PANIC_STACK_DUMP_LENGTH = 1024"

record exc_layout =
  sizeof_RvExcFrame :: u32
  off_frame_sp :: u32
  off_frame_mcause :: u32

definition put_chars :: "memory \<Rightarrow> ptr \<Rightarrow> string \<Rightarrow> memory" where
  "put_chars m a cs = store_bytes m a (map byte_of cs)"

subsection \<open>Assertions and abort on the subcore\<close>

text \<open>The loop that joins the parts of the message, as many characters as there is room for.\<close>

fun copy_details :: "ptr \<Rightarrow> string list \<Rightarrow> u32 \<Rightarrow> u32 \<Rightarrow> memory \<Rightarrow> u32 \<times> memory" where
  "copy_details d [] rem_len off m = (off, m)"
| "copy_details d (str # strs) rem_len off m =
     (let len = word_of_nat (length str);
          cpy_len = min len rem_len;
          m1 = put_chars m (d + off) (take (unat cpy_len) str)
      in if rem_len - cpy_len = 0 then (off + cpy_len, m1)
         else copy_details d strs (rem_len - cpy_len) (off + cpy_len) m1)"

definition put_details :: "'z config \<Rightarrow> string list \<Rightarrow> memory \<Rightarrow> memory" where
  "put_details c strs m =
     (let (off, m1) = copy_details (abort_details c) strs (ESP_AMP_PANIC_ABORT_DETAILS_LENGTH - 1) 0 m
      in store8 m1 (abort_details c + off) 0)"

text \<open>
  \<open>__assert_func\<close> up to the trap that ends it. \<open>silent\<close> is the option for silent assertions, \<open>ret_addr\<close> the
  return address. Without a function name a backspace takes its place. The silent variant has no
  matching entry for the exit of the light sleep macro.
\<close>

definition assert_silent_text :: "u32 \<Rightarrow> string" where
  "assert_silent_text ret_addr =
     (let buff = ''assert failed on subcore: '' @ ''0x'' @ replicate 10 NUL
      in take 28 buff @ itohs (ret_addr - 4) (drop 28 buff))"

definition assert_func ::
    "bool \<Rightarrow> 'z config \<Rightarrow> u32 \<Rightarrow> string \<Rightarrow> int \<Rightarrow> string option \<Rightarrow> string \<Rightarrow> 'z core_scheme \<Rightarrow> 'z core_scheme option" where
  "assert_func silent c ret_addr file line func expr s =
     (let s2 =
        (if silent then
           let buff = assert_silent_text ret_addr;
               m1 = put_chars (mem s) (abort_details c) buff
           in s\<lparr>mem := store8 m1 (abort_details c + word_of_nat (length buff) - 1) 0\<rparr>
         else
           let lbuf = itods line 6;
               str = [''assert failed on subcore: '', case func of None \<Rightarrow> [CHR 0x08] | Some f \<Rightarrow> f, '' '', file, '':'', c_text lbuf,
                      '' ('', expr, '')''];
               s1 = PM_SKIP_LIGHT_SLEEP_ENTER c s
           in s1\<lparr>mem := put_details c str (mem s1)\<rparr>);
          s3 = s2\<lparr>mem := store32 (mem s2) (panic_dump c) 1\<rparr>
      in PM_SKIP_LIGHT_SLEEP_EXIT c s3)"

definition esp_amp_subcore_abort :: "'z config \<Rightarrow> u32 \<Rightarrow> 'z core_scheme \<Rightarrow> 'z core_scheme option" where
  "esp_amp_subcore_abort c ret_addr s =
     (let addr_buf = itohs (ret_addr - 4) (replicate 9 NUL);
          str = [''abort() was called at PC 0x'', c_text addr_buf, '' on subcore''];
          s1 = PM_SKIP_LIGHT_SLEEP_ENTER c s;
          m1 = put_details c str (mem s1)
      in PM_SKIP_LIGHT_SLEEP_EXIT c (s1\<lparr>mem := store32 m1 (panic_dump c) 1\<rparr>))"

subsection \<open>Printing the dump\<close>

definition panic_desc :: "string list" where
  "panic_desc =
     [''MEPC    '', ''RA      '', ''SP      '', ''GP      '', ''TP      '', ''T0      '', ''T1      '', ''T2      '',
      ''S0/FP   '', ''S1      '', ''A0      '', ''A1      '', ''A2      '', ''A3      '', ''A4      '', ''A5      '',
      ''A6      '', ''A7      '', ''S2      '', ''S3      '', ''S4      '', ''S5      '', ''S6      '', ''S7      '',
      ''S8      '', ''S9      '', ''S10     '', ''S11     '', ''T3      '', ''T4      '', ''T5      '', ''T6      '',
      ''MSTATUS '', ''MTVEC   '', ''MCAUSE  '', ''MTVAL   '', ''MHARTID '']"

definition extra_desc :: "string list" where
  "extra_desc =
     [''LDPC0   '', ''LDTVAL0 '', ''LDPC1   '', ''LDTVAL1 '', ''STPC0   '', ''STTVAL0 '', ''STPC1   '', ''STTVAL1 '',
      ''STPC2   '', ''STTVAL2 '']"

definition panic_reason :: "bool \<Rightarrow> string option list" where
  "panic_reason hp =
     (if hp then [Some ''Instruction address misaligned'', Some ''Instruction access fault''] else [None, None]) @
     [Some ''Illegal instruction'', Some ''Breakpoint'', Some ''Load address misaligned'', Some ''Load access fault'',
      Some ''Store address misaligned'', Some ''Store access fault''] @
     (if hp then [Some ''Environment call from U-mode'', Some ''Environment call from S-mode'', None,
        Some ''Environment call from M-mode'', Some ''Instruction page fault'', Some ''Load page fault'', None,
        Some ''Store page fault''] else [])"

text \<open>What the printing functions send out, as text.\<close>

fun print_hex_loop :: "nat \<Rightarrow> u32 \<Rightarrow> string" where
  "print_hex_loop 0 h = []"
| "print_hex_loop (Suc n) h =
     (let c = unat (drop_bit 28 h AND 0xf)
      in (if c < 10 then char_of (48 + c) else char_of (97 + c - 10)) # print_hex_loop n (push_bit 4 h))"

definition subcore_panic_print_hex :: "u32 \<Rightarrow> string" where
  "subcore_panic_print_hex h = print_hex_loop 8 h"

text \<open>The table of registers: four to a line, entries of the table with an empty name are left out.\<close>

definition print_regs :: "string list \<Rightarrow> ptr \<Rightarrow> memory \<Rightarrow> string" where
  "print_regs names frame m = concat (map (\<lambda>x.
     if names ! x \<noteq> [] then
       names ! x @ '': 0x'' @ subcore_panic_print_hex (load32 m (frame + 4 * word_of_nat x)) @
       [if (x + 1) mod 4 \<noteq> 0 then CHR '' '' else CHR 0x0A]
     else []) [0..<length names])"

definition print_stack_line :: "u32 \<Rightarrow> ptr \<Rightarrow> memory \<Rightarrow> string" where
  "print_stack_line a p m =
     subcore_panic_print_hex a @ '': '' @
     concat (map (\<lambda>y. ''0x'' @ subcore_panic_print_hex (load32 m (p + 4 * word_of_nat y)) @ [if y = 7 then CHR 0x0A else CHR '' '']) [0..<8])"

text \<open>The length is never above the size of the dump.\<close>

function print_stack_loop :: "u32 \<Rightarrow> ptr \<Rightarrow> u32 \<Rightarrow> u32 \<Rightarrow> memory \<Rightarrow> string" where
  "print_stack_loop sp base len i m =
     (if i < len \<and> len \<le> ESP_AMP_PANIC_STACK_DUMP_LENGTH
      then print_stack_line (sp + i) (base + i) m @ print_stack_loop sp base len (i + 32) m else [])"
  by pat_completeness auto
termination
proof (relation "measure (\<lambda>(sp, base, len, i, m). 2048 - unat i)")
  fix i len :: u32 and sp base m
  assume "i < len \<and> len \<le> ESP_AMP_PANIC_STACK_DUMP_LENGTH"
  then have "unat i < 1024" by (simp add: ESP_AMP_PANIC_STACK_DUMP_LENGTH_def word_less_nat_alt word_le_nat_alt)
  moreover from this have "unat (i + 32) = unat i + 32" by (intro unat_add_numeral) simp
  ultimately show "((sp, base, len, i + 32, m), sp, base, len, i, m) \<in> measure (\<lambda>(sp, base, len, i, m). 2048 - unat i)"
    by simp
qed simp

declare print_stack_loop.simps [simp del]

definition subcore_panic_print_stack :: "exc_layout \<Rightarrow> 'z config \<Rightarrow> memory \<Rightarrow> string" where
  "subcore_panic_print_stack lay c m =
     (let sp = load32 m (register_dump c + off_frame_sp lay);
          len = min ESP_AMP_PANIC_STACK_DUMP_LENGTH (load32 m (panic_dump c + 4))
      in [CHR 0x0A, CHR 0x0A] @ ''Stack memory:'' @ [CHR 0x0A] @ print_stack_loop sp (stack_dump c) len 0 m @ [CHR 0x0A])"

text \<open>
  The extra registers are read from \<open>&exframe\<close>, the address \<open>slot\<close> of the local variable, which holds the
  pointer: \<open>register_dump\<close> advanced by as many words as the frame has bytes.
\<close>

definition subcore_panic_print_extra_regs :: "exc_layout \<Rightarrow> 'z config \<Rightarrow> ptr \<Rightarrow> memory \<Rightarrow> string" where
  "subcore_panic_print_extra_regs lay c slot m =
     [CHR 0x0A] @ print_regs extra_desc slot (store32 m slot (register_dump c + 4 * sizeof_RvExcFrame lay))"

definition exccause_str :: "bool \<Rightarrow> u32 \<Rightarrow> string" where
  "exccause_str hp exccause =
     (if unat exccause < length (panic_reason hp) then
        (case panic_reason hp ! unat exccause of None \<Rightarrow> ''Unhandled interrupt/Unknown cause'' | Some r \<Rightarrow> r)
      else ''Unhandled interrupt/Unknown cause'')"

definition subcore_panic_print :: "exc_layout \<Rightarrow> 'z config \<Rightarrow> ptr \<Rightarrow> memory \<Rightarrow> string option" where
  "subcore_panic_print lay c slot m =
     (let hp = (\<not> SUBCORE_TYPE_LP_CORE c);
          exccause = load32 m (register_dump c + off_frame_mcause lay)
      in do {
        head \<leftarrow> (if load32 m (panic_dump c) \<noteq> 0
                  then map_option (\<lambda>t. t @ [CHR 0x0A]) (c_string m (abort_details c))
                  else Some (''Guru Meditation Error: ON Subcore panic'' @ [CHR 0x27] @ ''ed '' @ exccause_str hp exccause @ [CHR 0x0A]));
        Some (head @ ''Core 1 register dump:'' @ [CHR 0x0A] @ print_regs panic_desc (register_dump c) m @
              (if hp then subcore_panic_print_extra_regs lay c slot m else []) @
              subcore_panic_print_stack lay c m @ ''ELF file SHA256: No SHA256 Embedded'' @ [CHR 0x0A])
      })"

subsection \<open>The panic handler of the subcore\<close>

text \<open>
  Up to the endless loop that ends it. \<open>csrs\<close> are the ten extra registers, \<open>stack_top\<close> the address of
  \<open>__stack_top\<close>; \<open>supplicant\<close> is the option that the maincore runs the supplicant. The text is what goes
  to the serial port of the subcore.
\<close>

definition memcpy :: "memory \<Rightarrow> ptr \<Rightarrow> ptr \<Rightarrow> u32 \<Rightarrow> memory" where
  "memcpy m dst src n = store_bytes m dst (load_bytes m src (unat n))"

definition store_words :: "memory \<Rightarrow> ptr \<Rightarrow> u32 list \<Rightarrow> memory" where
  "store_words m a ws = foldl (\<lambda>m x. store32 m (a + 4 * word_of_nat x) (ws ! x)) m [0..<length ws]"

definition dump_frame_and_stack :: "exc_layout \<Rightarrow> 'z config \<Rightarrow> u32 list \<Rightarrow> u32 \<Rightarrow> ptr \<Rightarrow> memory \<Rightarrow> memory" where
  "dump_frame_and_stack lay c csrs stack_top frame m =
     (let m1 = memcpy m (register_dump c) frame (sizeof_RvExcFrame lay);
          m2 = (if \<not> SUBCORE_TYPE_LP_CORE c then store_words m1 (register_dump c + sizeof_RvExcFrame lay) csrs else m1);
          sp = load32 m2 (frame + off_frame_sp lay);
          m3 = store32 m2 (panic_dump c + 4) (min ESP_AMP_PANIC_STACK_DUMP_LENGTH (stack_top - sp))
      in memcpy m3 (stack_dump c) (load32 m3 (frame + off_frame_sp lay)) (load32 m3 (panic_dump c + 4)))"

definition subcore_panic_dump ::
    "bool \<Rightarrow> exc_layout \<Rightarrow> 'z config \<Rightarrow> u32 list \<Rightarrow> u32 \<Rightarrow> ptr \<Rightarrow> ptr \<Rightarrow> 'z core_scheme \<Rightarrow> (string \<times> 'z core_scheme) option" where
  "subcore_panic_dump supplicant lay c csrs stack_top slot frame s =
     (let s1 = PM_SKIP_LIGHT_SLEEP_ENTER c s;
          m4 = dump_frame_and_stack lay c csrs stack_top frame (mem s1);
          s4 = s1\<lparr>mem := m4\<rparr>
      in do {
        (out, s5) \<leftarrow> (if supplicant then map_option (Pair []) (esp_amp_sw_intr_trigger c SW_INTR_RESERVED_ID_PANIC s4)
                       else map_option (\<lambda>t. (t, s4)) (subcore_panic_print lay c slot m4));
        s6 \<leftarrow> PM_SKIP_LIGHT_SLEEP_EXIT c s5;
        Some (out, s6)
      })"

text \<open>The entry points of the exception vectors; the second argument of \<open>subcore_panic_dump\<close> is not used.\<close>

definition xt_unhandled_exception ::
    "bool \<Rightarrow> exc_layout \<Rightarrow> 'z config \<Rightarrow> u32 list \<Rightarrow> u32 \<Rightarrow> ptr \<Rightarrow> ptr \<Rightarrow> 'z core_scheme \<Rightarrow> (string \<times> 'z core_scheme) option" where
  "xt_unhandled_exception supplicant lay c csrs stack_top slot frame s =
     subcore_panic_dump supplicant lay c csrs stack_top slot frame s"

definition panicHandler ::
    "bool \<Rightarrow> exc_layout \<Rightarrow> 'z config \<Rightarrow> u32 list \<Rightarrow> u32 \<Rightarrow> ptr \<Rightarrow> ptr \<Rightarrow> 'z core_scheme \<Rightarrow> (string \<times> 'z core_scheme) option" where
  "panicHandler supplicant lay c csrs stack_top slot frame s =
     subcore_panic_dump supplicant lay c csrs stack_top slot frame s"

subsection \<open>The maincore\<close>

text \<open>
  The console functions of the ESP-IDF that the default handler calls: setting the log output returns
  the one before, \<open>quiet\<close> and \<open>unquiet\<close> are the ROM functions before and behind the printing.
\<close>

record ('v, 'l) console_ops =
  esp_log_set_vprintf :: "'v \<Rightarrow> 'l \<Rightarrow> 'v \<times> 'l"
  console_quiet :: "'l \<Rightarrow> 'l"
  console_unquiet :: "'l \<Rightarrow> 'l"
  esp_rom_output :: "string \<Rightarrow> 'l \<Rightarrow> 'l"

definition esp_amp_subcore_panic_handler_default ::
    "('v, 'l) console_ops \<Rightarrow> 'v \<Rightarrow> exc_layout \<Rightarrow> 'z config \<Rightarrow> ptr \<Rightarrow> memory \<Rightarrow> 'l \<Rightarrow> 'l option" where
  "esp_amp_subcore_panic_handler_default ops mute_vprintf lay c slot m l = do {
     let (orig_vprintf, l1) = esp_log_set_vprintf ops mute_vprintf l;
     let l2 = console_quiet ops l1;
     t \<leftarrow> subcore_panic_print lay c slot m;
     let l3 = esp_rom_output ops t l2;
     let (_, l4) = esp_log_set_vprintf ops orig_vprintf l3;
     Some (console_unquiet ops l4)
   }"

text \<open>The interrupt handler; the first part of its result is \<open>s_is_subcore_panic\<close>. \<open>notify\<close> is
  \<open>xTaskNotifyFromISR\<close> with the yield that follows it.\<close>

definition subcore_panic_handler ::
    "'z core_scheme cpu_ops \<Rightarrow> (ptr \<Rightarrow> 'z core_scheme \<Rightarrow> 'z core_scheme) \<Rightarrow> 'z config \<Rightarrow> 'f service \<Rightarrow>
     'z core_scheme \<Rightarrow> bool \<times> int \<times> 'z core_scheme" where
  "subcore_panic_handler ops notify c srv s =
     (let s1 = esp_amp_platform_sw_intr_disable c s;
          s2 = esp_amp_stop_subcore c ops s1;
          supplicant = esp_amp_system_get_supplicant srv
      in if supplicant = NULL then (True, 0, s2) else (True, 0, notify supplicant s2))"

definition esp_amp_subcore_panic :: "bool \<Rightarrow> bool" where
  "esp_amp_subcore_panic s_is_subcore_panic = s_is_subcore_panic"

definition esp_amp_system_panic_init ::
    "('f, 'z) amp_config \<Rightarrow> 'f \<Rightarrow> ('f, 'z) amp \<Rightarrow> (int \<times> ('f, 'z) amp) option" where
  "esp_amp_system_panic_init c f_panic s = esp_amp_sw_intr_add_handler c SW_INTR_RESERVED_ID_PANIC (Some f_panic) NULL s"

subsection \<open>Numerals\<close>

lemma itohs_loop_length [simp]: "length (itohs_loop n v str) = length str"
  by (induction n arbitrary: v str) simp_all

lemma itohs_loop_nth:
  "n \<le> length str \<Longrightarrow> i < length str \<Longrightarrow>
    itohs_loop n v str ! i = (if i < n then hex_digits ! unat (drop_bit (4 * (n - 1 - i)) v AND 0xF) else str ! i)"
proof (induction n arbitrary: v str)
  case (Suc n)
  have "4 * (n - 1 - i) + 4 = 4 * (n - i)" if "i < n" using that by simp
  then show ?case using Suc by (auto simp: nth_list_update drop_bit_drop_bit add.commute less_Suc_eq)
qed simp

lemma nibble: "x AND 0xF = take_bit 4 x" for x :: u32
  by (simp add: take_bit_eq_mask mask_eq_exp_minus_1)

lemma nibble_at: "unat (drop_bit (4 * k) x AND 0xF) = unat x div 16 ^ k mod 16" for x :: u32
proof -
  have "(2 :: nat) ^ (4 * k) = 16 ^ k" by (simp add: power_mult)
  moreover have "unat (take_bit 4 (drop_bit (4 * k) x)) = take_bit 4 (drop_bit (4 * k) (unat x))"
    by (simp only: unsigned_take_bit_eq unsigned_drop_bit_eq) (simp add: take_bit_nat_eq_self)
  ultimately show ?thesis by (simp add: nibble take_bit_eq_mod drop_bit_eq_div)
qed

lemma hex_char: "c < 16 \<Longrightarrow> (if c < 10 then char_of (48 + c) else char_of (97 + c - 10)) = hex_digits ! c" for c :: nat
proof -
  have "list_all (\<lambda>c. (if c < 10 then char_of (48 + c) else char_of (97 + c - 10)) = hex_digits ! c) [0..<16]" by code_simp
  then show "c < 16 \<Longrightarrow> (if c < 10 then char_of (48 + c) else char_of (97 + c - 10)) = hex_digits ! c"
    by (simp add: list_all_iff)
qed

lemma shifted_nibble: "i < 8 \<Longrightarrow> drop_bit 28 (push_bit (4 * i) x) AND 0xF = drop_bit (4 * (7 - i)) x AND 0xF" for x :: u32
  unfolding nibble
proof (rule bit_eqI)
  fix j assume "i < 8"
  then have "28 + j - 4 * i = 4 * (7 - i) + j" "4 * i \<le> 28 + j" by simp_all
  then show "bit (take_bit 4 (drop_bit 28 (push_bit (4 * i) x))) j = bit (take_bit 4 (drop_bit (4 * (7 - i)) x)) j"
    by (auto simp: bit_simps)
qed

lemma print_hex_loop_length [simp]: "length (print_hex_loop n v) = n"
  by (induction n arbitrary: v) (simp_all add: Let_def)

lemma print_hex_nth:
  "i < n \<Longrightarrow> print_hex_loop n v ! i = hex_digits ! unat (drop_bit 28 (push_bit (4 * i) v) AND 0xF)"
proof (induction n arbitrary: i v)
  case (Suc n)
  have d: "unat (drop_bit 28 v AND 0xF) < 16" using nibble_at [of 7 v] by simp
  show ?case
  proof (cases i)
    case 0
    then show ?thesis using hex_char [OF d] by (simp add: Let_def)
  next
    case (Suc j)
    have "push_bit (4 * j) (push_bit 4 v) = push_bit (4 * i) v" by (simp add: Suc push_bit_push_bit add.commute)
    then show ?thesis using Suc.IH [of j "push_bit 4 v"] Suc Suc.prems by (simp add: Let_def del: push_bit_numeral)
  qed
qed simp

lemma print_hex_itohs:
  assumes "9 \<le> length str"
  shows "take 8 (itohs v str) = subcore_panic_print_hex v" "itohs v str ! 8 = NUL" "length (itohs v str) = length str"
proof -
  show "itohs v str ! 8 = NUL" "length (itohs v str) = length str" using assms by (simp_all add: itohs_def)
  show "take 8 (itohs v str) = subcore_panic_print_hex v"
  proof (rule nth_equalityI)
    fix i assume "i < length (take 8 (itohs v str))"
    then have i: "i < 8" by simp
    then show "take 8 (itohs v str) ! i = subcore_panic_print_hex v ! i"
      using assms itohs_loop_nth [of 8 str i v] shifted_nibble [OF i, of v]
      by (simp add: itohs_def subcore_panic_print_hex_def print_hex_nth)
  qed (use assms in \<open>simp add: itohs_def subcore_panic_print_hex_def\<close>)
qed

text \<open>The value of the leading digits of a number.\<close>

lemma leading_digits:
  "k \<le> n \<Longrightarrow> foldl (\<lambda>a i. a * 16 + v div 16 ^ (n - 1 - i) mod 16) 0 [0..<k] = v div 16 ^ (n - k) mod 16 ^ k" for v :: nat
proof (induction k)
  case (Suc k)
  define w where "w = v div 16 ^ (n - 1 - k)"
  have "16 ^ (n - k) = 16 ^ (n - 1 - k) * (16 :: nat)"
    using Suc.prems by (simp flip: power_Suc2 add: Suc_diff_Suc)
  then have "v div 16 ^ (n - k) = w div 16" by (simp add: w_def div_mult2_eq)
  then show ?case using Suc mod_mult2_eq [of w 16 "16 ^ k"] by (simp add: w_def mult.commute)
qed simp

lemma print_hex_value: "number_of hex_digits 16 (subcore_panic_print_hex v) = unat v"
proof -
  have ds: "subcore_panic_print_hex v = map (\<lambda>i. hex_digits ! (unat v div 16 ^ (8 - 1 - i) mod 16)) [0..<8]"
    by (rule nth_equalityI) (simp_all add: subcore_panic_print_hex_def print_hex_nth shifted_nibble nibble_at)
  have hx: "digit_index hex_digits (hex_digits ! d) = d" if "d < 16" for d
    using that by (intro digit_index_nth) (simp_all add: hex_digits_def)
  have "number_of hex_digits 16 (subcore_panic_print_hex v) = unat v div 16 ^ 0 mod 16 ^ 8"
    unfolding ds number_of_def using leading_digits [of 8 8 "unat v"] by (simp add: foldl_map hx del: upt_Suc power_0)
  then show ?thesis using unat_lt_32 [of v] by simp
qed

lemma print_hex_digits: "set (subcore_panic_print_hex v) \<subseteq> set hex_digits"
proof
  fix ch assume "ch \<in> set (subcore_panic_print_hex v)"
  then obtain i where i: "i < 8" "ch = hex_digits ! unat (drop_bit (4 * (7 - i)) v AND 0xF)"
    by (auto simp: in_set_conv_nth subcore_panic_print_hex_def print_hex_nth shifted_nibble)
  have "unat (drop_bit (4 * (7 - i)) v AND 0xF) < length hex_digits" by (simp add: nibble_at hex_digits_def)
  then show "ch \<in> set hex_digits" using i(2) by simp
qed

text \<open>Decimal digits, least significant first.\<close>

fun dec_digits :: "nat \<Rightarrow> int \<Rightarrow> string" where
  "dec_digits 0 v = []"
| "dec_digits (Suc n) v = (if 0 < v then char_of (48 + nat (v mod 10)) # dec_digits n (v div 10) else [])"

lemma itods_fill_eq:
  "pos + n = max_len - 1 \<Longrightarrow> 0 < max_len \<Longrightarrow> length str = max_len \<Longrightarrow>
    itods_fill max_len v pos str =
      (pos + length (dec_digits n v), take pos str @ dec_digits n v @ drop (pos + length (dec_digits n v)) str)"
proof (induction n arbitrary: v pos str)
  case 0
  then show ?case by (simp add: itods_fill.simps)
next
  case (Suc n)
  show ?case
  proof (cases "0 < v")
    case True
    let ?str = "str[pos := char_of (48 + nat (v mod 10))]"
    have p: "Suc pos < max_len" "pos < length str" using Suc.prems by simp_all
    have "itods_fill max_len v pos str = itods_fill max_len (v div 10) (Suc pos) ?str"
      using True p by (simp add: itods_fill.simps [of max_len v])
    also have "\<dots> = (Suc pos + length (dec_digits n (v div 10)),
        take (Suc pos) ?str @ dec_digits n (v div 10) @ drop (Suc pos + length (dec_digits n (v div 10))) ?str)"
      using Suc.prems by (intro Suc.IH) simp_all
    finally show ?thesis using True p by (simp add: take_Suc_conv_app_nth)
  qed (simp add: itods_fill.simps)
qed

lemma itods_swaps:
  assumes "pos \<le> length str" and "k \<le> pos div 2"
  shows "length (foldl (\<lambda>s i. s[i := s ! (pos - 1 - i), pos - 1 - i := s ! i]) str [0..<k]) = length str \<and>
    (\<forall>j < length str. foldl (\<lambda>s i. s[i := s ! (pos - 1 - i), pos - 1 - i := s ! i]) str [0..<k] ! j =
      (if j < k \<or> pos - k \<le> j \<and> j < pos then str ! (pos - 1 - j) else str ! j))"
  using assms(2)
proof (induction k)
  case (Suc k)
  let ?f = "foldl (\<lambda>s i. s[i := s ! (pos - 1 - i), pos - 1 - i := s ! i]) str [0..<k]"
  have IH: "length ?f = length str" "j < length str \<Longrightarrow> ?f ! j = (if j < k \<or> pos - k \<le> j \<and> j < pos then str ! (pos - 1 - j) else str ! j)" for j
    using Suc by auto
  define e where "e = pos - 1 - k"
  have k: "k < e" "e < length str" and pos: "pos = Suc (e + k)" using Suc.prems assms(1) by (simp_all add: e_def)
  have f: "?f ! k = str ! k" "?f ! e = str ! e" using k IH(2) [of k] IH(2) [of e] pos by simp_all
  have "?f[k := ?f ! e, e := ?f ! k] ! j = (if j < Suc k \<or> e \<le> j \<and> j < pos then str ! (pos - 1 - j) else str ! j)"
    if "j < length str" for j
  proof -
    consider "j = k" | "j = e" | "j \<noteq> k" "j \<noteq> e" by blast
    then show ?thesis
    proof cases
      case 3
      then have "j < Suc k \<or> e \<le> j \<and> j < pos \<longleftrightarrow> j < k \<or> pos - k \<le> j \<and> j < pos" using k pos by linarith
      then show ?thesis using 3 IH that by (simp add: nth_list_update)
    qed (use f k IH(1) pos in \<open>simp_all add: nth_list_update\<close>)
  qed
  then have new: "\<forall>j < length str. ?f[k := ?f ! e, e := ?f ! k] ! j =
      (if j < Suc k \<or> e \<le> j \<and> j < pos then str ! (pos - 1 - j) else str ! j)" by blast
  have st: "foldl (\<lambda>s i. s[i := s ! (pos - 1 - i), pos - 1 - i := s ! i]) str [0..<Suc k] = ?f[k := ?f ! e, e := ?f ! k]"
    by (simp add: e_def)
  have e: "pos - Suc k = e" by (simp add: pos)
  show ?case unfolding st e by (rule conjI [OF _ new]) (simp only: length_list_update IH(1))
qed auto

lemma itods_reverse_eq:
  assumes "pos \<le> length str"
  shows "itods_reverse pos str = rev (take pos str) @ drop pos str"
proof (rule nth_equalityI)
  note sw = itods_swaps [OF assms order_refl, folded itods_reverse_def]
  show "length (itods_reverse pos str) = length (rev (take pos str) @ drop pos str)" using sw assms by simp
  fix j assume j: "j < length (itods_reverse pos str)"
  have "j = pos - 1 - j" if "\<not> j < pos div 2" "\<not> pos - pos div 2 \<le> j" "j < pos" using that by linarith
  then show "itods_reverse pos str ! j = (rev (take pos str) @ drop pos str) ! j"
    using sw j assms by (auto simp: nth_append rev_nth)
qed

lemma dec_digits_length: "length (dec_digits n v) \<le> n"
  by (induction n arbitrary: v) auto

lemma dec_char: "0 \<le> v \<Longrightarrow> char_of (48 + nat (v mod 10)) = ''0123456789'' ! nat (v mod 10)" for v :: int
proof -
  have "list_all (\<lambda>c. char_of (48 + c :: nat) = ''0123456789'' ! c) [0..<10]" by code_simp
  then show "0 \<le> v \<Longrightarrow> char_of (48 + nat (v mod 10)) = ''0123456789'' ! nat (v mod 10)"
    by (simp add: list_all_iff nat_less_iff)
qed

lemma dec_digits_set: "set (dec_digits n v) \<subseteq> set ''0123456789''"
proof (induction n arbitrary: v)
  case (Suc n)
  show ?case
  proof (cases "0 < v")
    case True
    have "nat (v mod 10) < length ''0123456789''" by (simp add: nat_less_iff)
    then have "char_of (48 + nat (v mod 10)) \<in> set ''0123456789''" using True by (subst dec_char) (simp, intro nth_mem)
    then show ?thesis using True Suc [of "v div 10"] by simp
  qed simp
qed simp

lemma dec_digits_value: "0 \<le> v \<Longrightarrow> v < 10 ^ n \<Longrightarrow> number_of ''0123456789'' 10 (rev (dec_digits n v)) = nat v"
proof (induction n arbitrary: v)
  case (Suc n)
  show ?case
  proof (cases "0 < v")
    case True
    have "digit_index ''0123456789'' (''0123456789'' ! nat (v mod 10)) = nat (v mod 10)"
      by (intro digit_index_nth) (simp_all add: nat_less_iff)
    moreover have "v div 10 < 10 ^ n" using Suc.prems by (simp add: div_less_iff_less_mult mult.commute)
    then have "number_of ''0123456789'' 10 (rev (dec_digits n (v div 10))) = nat (v div 10)" using Suc by simp
    ultimately have "number_of ''0123456789'' 10 (rev (dec_digits (Suc n) v)) = nat (v div 10) * 10 + nat (v mod 10)"
      using True by (simp add: number_of_def dec_char)
    also have "\<dots> = nat v" using True by (simp add: nat_div_distrib nat_mod_distrib)
    finally show ?thesis .
  qed (use Suc.prems in \<open>simp add: number_of_def\<close>)
qed (simp add: number_of_def)

lemma itods_eq:
  "itods v 6 = (if v = 0 then ''0'' @ replicate 5 NUL else rev (dec_digits 5 v) @ replicate (6 - length (dec_digits 5 v)) NUL)"
proof -
  have "itods_fill 6 v 0 (replicate 6 NUL) =
      (length (dec_digits 5 v), dec_digits 5 v @ replicate (6 - length (dec_digits 5 v)) NUL)"
    by (simp add: itods_fill_eq [of 0 5 6])
  moreover have "itods_reverse (length ds) (ds @ xs) = rev ds @ xs" for ds xs by (simp add: itods_reverse_eq)
  moreover have "(replicate 6 NUL)[0 := CHR ''0''] = ''0'' @ replicate 5 NUL" by code_simp
  ultimately show ?thesis by (simp only: itods_def Let_def prod.case split: if_split)
qed

lemma c_text_pad: "NUL \<notin> set ds \<Longrightarrow> 0 < k \<Longrightarrow> c_text (ds @ replicate k NUL) = ds"
proof (induction ds)
  case Nil
  then show ?case by (cases k) (simp_all add: c_text_def)
qed (auto simp: c_text_def)

lemma itods_text:
  shows "NUL \<notin> set (c_text (itods v 6))" and "length (c_text (itods v 6)) \<le> 6"
    and "0 \<le> v \<Longrightarrow> v < 100000 \<Longrightarrow> number_of ''0123456789'' 10 (c_text (itods v 6)) = nat v"
proof -
  show "NUL \<notin> set (c_text (itods v 6))" by (auto simp: c_text_def dest: set_takeWhileD)
  have nz: "NUL \<notin> set (dec_digits 5 v)" using dec_digits_set [of 5 v] by auto
  have t: "c_text (itods v 6) = (if v = 0 then ''0'' else rev (dec_digits 5 v))"
    using nz dec_digits_length [of 5 v] by (simp add: itods_eq c_text_pad [of "''0''", simplified] c_text_pad)
  show "length (c_text (itods v 6)) \<le> 6" using t dec_digits_length [of 5 v] by simp
  show "number_of ''0123456789'' 10 (c_text (itods v 6)) = nat v" if "0 \<le> v" "v < 100000"
    using dec_digits_value [of v 5] that t by (simp add: number_of_def digit_index_def)
qed

subsection \<open>Messages\<close>

lemma store_bytes_append: "store_bytes m a (xs @ ys) = store_bytes (store_bytes m a xs) (a + word_of_nat (length xs)) ys"
  by (induction xs arbitrary: m a) (simp_all add: add.assoc)

text \<open>The loop copies what fits of all parts together.\<close>

lemma copy_details_eq:
  assumes "unat off + unat rem_len < 4294967296" and "\<forall>str \<in> set strs. length str < 4294967296" and "rem_len \<noteq> 0"
  shows "copy_details d strs rem_len off m =
    (off + word_of_nat (length (take (unat rem_len) (concat strs))), put_chars m (d + off) (take (unat rem_len) (concat strs)))"
  using assms
proof (induction strs arbitrary: rem_len off m)
  case Nil
  then show ?case by (simp add: put_chars_def)
next
  case (Cons str strs)
  define k where "k = min (word_of_nat (length str)) rem_len"
  have l: "unat (word_of_nat (length str) :: u32) = length str" using Cons.prems(2) by (simp add: unat_of_nat32)
  have k: "unat k = min (length str) (unat rem_len)" by (simp add: k_def min_def word_le_nat_alt l)
  show ?case
  proof (cases "k = rem_len")
    case True
    then have le: "unat rem_len \<le> length str" using k by simp
    then have "copy_details d (str # strs) rem_len off m = (off + rem_len, put_chars m (d + off) (take (unat rem_len) str))"
      using True by (simp add: Let_def k_def [symmetric])
    then show ?thesis using le by (simp add: min_absorb2 of_nat_unat ucast_id)
  next
    case False
    then have lt: "length str < unat rem_len" using k by (auto simp: word_unat_eq_iff min_def split: if_splits)
    then have kw: "k = word_of_nat (length str)" using k by (simp add: word_unat_eq_iff l)
    have u: "unat (rem_len - k) = unat rem_len - length str" "unat (off + k) = unat off + length str"
      using lt l Cons.prems(1) by (simp_all add: kw unat_sub word_le_nat_alt unat_add_no_wrap)
    have "copy_details d (str # strs) rem_len off m = copy_details d strs (rem_len - k) (off + k) (put_chars m (d + off) str)"
      using False lt by (simp add: Let_def k_def [symmetric] k)
    also have "\<dots> = (off + k + word_of_nat (length (take (unat (rem_len - k)) (concat strs))),
        put_chars (put_chars m (d + off) str) (d + (off + k)) (take (unat (rem_len - k)) (concat strs)))"
      using Cons.prems False u lt by (intro Cons.IH) auto
    also have "\<dots> = (off + word_of_nat (length (take (unat rem_len) (concat (str # strs)))),
        put_chars m (d + off) (take (unat rem_len) (concat (str # strs))))"
      using lt by (simp add: u(1) [unfolded kw] kw put_chars_def store_bytes_append add.assoc)
    finally show ?thesis .
  qed
qed

text \<open>The message: the first 247 characters of the parts, terminated, within the 248 bytes of the field.\<close>

lemma put_details_effect:
  assumes "\<forall>str \<in> set strs. length str < 4294967296" and t: "t = take 247 (concat strs)"
  shows "load_bytes (put_details c strs m) (abort_details c) (Suc (length t)) = map byte_of t @ [0]"
    and "agree (- span (abort_details c) 248) (put_details c strs m) m"
proof -
  let ?d = "abort_details c"
  have "copy_details ?d strs 247 0 m = (word_of_nat (length t), put_chars m ?d t)"
    using copy_details_eq [of 0 247 strs ?d m] assms(1) by (simp add: t)
  then have eq: "put_details c strs m = store_bytes m ?d (map byte_of t @ [0])"
    by (simp add: put_details_def ESP_AMP_PANIC_ABORT_DETAILS_LENGTH_def put_chars_def store_bytes_append store8_def)
  have l: "length t \<le> 247" by (simp add: t)
  show "load_bytes (put_details c strs m) ?d (Suc (length t)) = map byte_of t @ [0]"
    unfolding eq using load_store_bytes_same [of "map byte_of t @ [0]" m ?d] l by simp
  have "span ?d (length (map byte_of t @ [0])) \<subseteq> span ?d 248" using l by (intro span_sub) simp
  then show "agree (- span ?d 248) (put_details c strs m) m"
    unfolding eq using l by (intro frame_intros agree_refl) auto
qed

lemma c_string_terminated:
  assumes "NUL \<notin> set t" and "load_bytes m p (Suc (length t)) = map byte_of t @ [0]"
  shows "c_string m p = Some t"
proof (rule c_string_bytes [OF assms(1)])
  have nth: "m (p + word_of_nat i) = (map byte_of t @ [0]) ! i" if "i < Suc (length t)" for i
    using that by (subst assms(2) [symmetric]) (simp add: load_bytes_def del: upt_Suc)
  show "load_bytes m p (length t) = map byte_of t"
    by (rule nth_equalityI) (simp_all add: load_bytes_def nth nth_append)
  show "load8 m (p + word_of_nat (length t)) = 0" using nth [of "length t"] by (simp add: load8_def nth_append)
qed

text \<open>
  \<open>abort_noted c t s s'\<close>: the dump of \<open>s'\<close> says that the subcore gave up and why, the light sleep counter
  is as before and so is everything else but the first 256 bytes of the dump.
\<close>

definition abort_noted :: "'z config \<Rightarrow> string \<Rightarrow> 'z core_scheme \<Rightarrow> 'z core_scheme \<Rightarrow> bool" where
  "abort_noted c t s s' \<longleftrightarrow> load32 (mem s') (panic_dump c) = 1 \<and> c_string (mem s') (abort_details c) = Some t \<and>
     agree (- span (panic_dump c) 256) (mem s') (mem s) \<and> lp_access_hp_cnt s' = lp_access_hp_cnt s"

text \<open>An access in between the two macros.\<close>

lemma pm_bracket:
  assumes "port_ok c" and "pm_active c \<longrightarrow> pm_cnt s \<noteq> -1" and "lp_access_hp_cnt s \<notin> A"
    and "agree (- A) (mem s2) (mem (PM_SKIP_LIGHT_SLEEP_ENTER c s))" and "lp_access_hp_cnt s2 = lp_access_hp_cnt s"
  obtains s' where "PM_SKIP_LIGHT_SLEEP_EXIT c s2 = Some s'"
    "agree A (mem s') (mem s2)" "agree (- A) (mem s') (mem s)" "lp_access_hp_cnt s' = lp_access_hp_cnt s"
  by (rule pm.bracket [OF conjI [OF assms(1,2)] assms(3-5)])

lemma details_noted:
  assumes "port_ok c" and "pm_ready c (panic_dump c) 256 s" and "\<forall>str \<in> set strs. length str < 4294967296 \<and> NUL \<notin> set str"
  shows "\<exists>s'. PM_SKIP_LIGHT_SLEEP_EXIT c ((PM_SKIP_LIGHT_SLEEP_ENTER c s)\<lparr>mem :=
      store32 (put_details c strs (mem (PM_SKIP_LIGHT_SLEEP_ENTER c s))) (panic_dump c) 1\<rparr>) = Some s' \<and>
    abort_noted c (take 247 (concat strs)) s s'"
proof -
  let ?d = "panic_dump c"
  let ?s1 = "PM_SKIP_LIGHT_SLEEP_ENTER c s"
  define t where "t = take 247 (concat strs)"
  define m1 where "m1 = put_details c strs (mem ?s1)"
  have nz: "NUL \<notin> set t" using assms(3) by (auto simp: t_def dest: in_set_takeD)
  have l: "length t \<le> 247" by (simp add: t_def)
  have "\<forall>str \<in> set strs. length str < 4294967296" using assms(3) by blast
  note e = put_details_effect [OF this t_def, of c "mem ?s1", folded m1_def]
  have sub: "span (abort_details c) 248 \<subseteq> span ?d 256" "span ?d 4 \<subseteq> span ?d 256"
    by (rule span_sub, simp add: abort_details_def)+
  have sub': "span (abort_details c) (Suc (length t)) \<subseteq> span (abort_details c) 248" using l by (intro span_sub) simp
  have dj: "span ?d 4 \<inter> span (abort_details c) 248 = {}" by (rule disj_Int) (simp add: disj_def abort_details_def)
  have "agree (- span ?d 256) (store32 m1 ?d 1) (mem ?s1)"
    using sub by (intro frame_intros agree_mono [OF e(2)]) auto
  then obtain s' where s': "PM_SKIP_LIGHT_SLEEP_EXIT c (?s1\<lparr>mem := store32 m1 ?d 1\<rparr>) = Some s'"
    "agree (span ?d 256) (mem s') (store32 m1 ?d 1)" "agree (- span ?d 256) (mem s') (mem s)"
    "lp_access_hp_cnt s' = lp_access_hp_cnt s"
    using pm_bracket [OF assms(1), of s "span ?d 256" "?s1\<lparr>mem := store32 m1 ?d 1\<rparr>"] assms(2) pm_enter_frame [OF assms(1), of s]
    by (auto simp: pm_ready_def pm_frame_def)
  have "load32 (mem s') ?d = 1" using load32_cong [OF agree_mono [OF s'(2) sub(2)]] by simp
  moreover have "load_bytes (mem s') (abort_details c) (Suc (length t)) = map byte_of t @ [0]"
  proof -
    let ?A = "span (abort_details c) (Suc (length t))"
    have "agree ?A (mem s') (store32 m1 ?d 1)" using agree_mono [OF s'(2)] sub sub' by blast
    moreover have "agree ?A (store32 m1 ?d 1) m1" using dj sub' by (intro agree_store32 agree_refl) auto
    ultimately have "agree ?A (mem s') m1" by (rule agree_trans)
    from load_bytes_cong [OF this] show ?thesis using e(1) l by simp
  qed
  ultimately have "abort_noted c t s s'" using s'(3,4) c_string_terminated [OF nz] by (simp add: abort_noted_def)
  then show ?thesis using s'(1) by (auto simp: t_def m1_def)
qed

subsection \<open>Assertions\<close>

text \<open>C28. A failing assertion on the subcore leaves its message in the panic dump: for a line number of at
  most five digits and strings of any length, \<open>__assert_func\<close> returns to its trap having set \<open>is_abort\<close>, and
  the details read as a C string are the parts of the message joined, cut off at 247 characters so that
  they never leave the field; the digits name the line, and nothing outside the first 256 bytes of the
  dump has changed, the light sleep counter included.\<close>

theorem abort_message:
  assumes "port_ok c" and "pm_ready c (panic_dump c) 256 s" and "0 \<le> line" and "line < 100000"
    and "\<forall>str \<in> {file, func, expr}. length str < 4294967296 \<and> NUL \<notin> set str"
  shows "\<exists>s'. assert_func False c ret_addr file line (Some func) expr s = Some s' \<and>
    abort_noted c (take 247 (''assert failed on subcore: '' @ func @ '' '' @ file @ '':'' @ c_text (itods line 6) @
      '' ('' @ expr @ '')'')) s s' \<and>
    number_of ''0123456789'' 10 (c_text (itods line 6)) = nat line"
proof -
  let ?strs = "[''assert failed on subcore: '', func, '' '', file, '':'', c_text (itods line 6), '' ('', expr, '')'']"
  have "\<forall>str \<in> set ?strs. length str < 4294967296 \<and> NUL \<notin> set str" using assms(5) itods_text(1,2) [of line] by auto
  from details_noted [OF assms(1,2) this] obtain s' where
    "assert_func False c ret_addr file line (Some func) expr s = Some s'" "abort_noted c (take 247 (concat ?strs)) s s'"
    by (auto simp: assert_func_def Let_def)
  then show ?thesis using itods_text(3) [OF assms(3,4)] by auto
qed

theorem abort_message_witness:
  "\<exists>s'. assert_func False ((demo_config False)\<lparr>CFG_HP_SHARED_MEM_END := 0x1000\<rparr>) 0 ''main.c'' 421 (Some ''app_main'') ''p != NULL''
     (demo_core\<lparr>lp_access_hp_cnt := 0x10\<rparr>) = Some s' \<and>
   c_string (mem s') 0x1008 = Some ''assert failed on subcore: app_main main.c:421 (p != NULL)''"
proof -
  let ?c = "(demo_config False)\<lparr>CFG_HP_SHARED_MEM_END := 0x1000\<rparr>"
  let ?s = "demo_core\<lparr>lp_access_hp_cnt := 0x10\<rparr>"
  have p: "port_ok ?c" by (simp add: port_ok_def demo_config_def)
  have r: "pm_ready ?c (panic_dump ?c) 256 ?s"
    by (simp add: pm_ready_def panic_dump_def in_span_iff pm_active_def demo_config_def)
  have n: "\<forall>str \<in> {''main.c'', ''app_main'', ''p != NULL''}. length str < 4294967296 \<and> NUL \<notin> set str" by simp
  have t: "take 247 (''assert failed on subcore: '' @ ''app_main'' @ '' '' @ ''main.c'' @ '':'' @ c_text (itods 421 6) @
    '' ('' @ ''p != NULL'' @ '')'') = ''assert failed on subcore: app_main main.c:421 (p != NULL)''" by code_simp
  from abort_message [OF p r _ _ n, of 421 0] show ?thesis
    unfolding t by (auto simp: abort_noted_def abort_details_def panic_dump_def)
qed

text \<open>The program counter of an abort is reported exactly: \<open>esp_amp_subcore_abort\<close> leaves a message with
  eight digits in between, the digits the maincore itself prints for the address of the call, and they
  denote that address.\<close>

theorem abort_pc:
  assumes "port_ok c" and "pm_ready c (panic_dump c) 256 s"
  shows "\<exists>s'. esp_amp_subcore_abort c ret_addr s = Some s' \<and>
    abort_noted c (''abort() was called at PC 0x'' @ subcore_panic_print_hex (ret_addr - 4) @ '' on subcore'') s s' \<and>
    number_of hex_digits 16 (subcore_panic_print_hex (ret_addr - 4)) = unat (ret_addr - 4)"
proof -
  let ?h = "subcore_panic_print_hex (ret_addr - 4)"
  have h: "length ?h = 8" "NUL \<notin> set ?h"
    using print_hex_digits [of "ret_addr - 4"] by (auto simp: subcore_panic_print_hex_def hex_digits_def)
  have "itohs (ret_addr - 4) (replicate 9 NUL) = ?h @ replicate 1 NUL"
    using print_hex_itohs [of "replicate 9 NUL" "ret_addr - 4"] take_Suc_conv_app_nth [of 8 "itohs (ret_addr - 4) (replicate 9 NUL)"]
    by simp
  then have "c_text (itohs (ret_addr - 4) (replicate 9 NUL)) = ?h" using c_text_pad [OF h(2), of 1] by simp
  let ?strs = "[''abort() was called at PC 0x'', ?h, '' on subcore'']"
  have "\<forall>str \<in> set ?strs. length str < 4294967296 \<and> NUL \<notin> set str" using h by auto
  from details_noted [OF assms this] obtain s' where
    "esp_amp_subcore_abort c ret_addr s = Some s'" "abort_noted c (take 247 (concat ?strs)) s s'"
    using \<open>c_text _ = _\<close> by (auto simp: esp_amp_subcore_abort_def Let_def)
  then show ?thesis using h print_hex_value by auto
qed

theorem abort_pc_witness:
  "\<exists>s'. esp_amp_subcore_abort ((demo_config False)\<lparr>CFG_HP_SHARED_MEM_END := 0x1000\<rparr>) 0x4080beef
     (demo_core\<lparr>lp_access_hp_cnt := 0x10\<rparr>) = Some s' \<and>
   c_string (mem s') 0x1008 = Some ''abort() was called at PC 0x4080beeb on subcore''"
proof -
  let ?c = "(demo_config False)\<lparr>CFG_HP_SHARED_MEM_END := 0x1000\<rparr>"
  have p: "port_ok ?c" "pm_ready ?c (panic_dump ?c) 256 (demo_core\<lparr>lp_access_hp_cnt := 0x10\<rparr>)"
    by (simp_all add: port_ok_def pm_ready_def panic_dump_def in_span_iff pm_active_def demo_config_def)
  have "subcore_panic_print_hex (0x4080beef - 4) = ''4080beeb''" by code_simp
  then show ?thesis using abort_pc [OF p, of "0x4080beef"] by (auto simp: abort_noted_def abort_details_def panic_dump_def)
qed

end
