(* ===== verification/Amp_Panic_Report.thy ===== *)
theory Amp_Panic_Report
  imports Amp_Panic
begin

text \<open>
  From the panic of the subcore to the report of the maincore: the dump holds the frame, the stack and
  the message, the maincore learns of it, and what it prints are the registers of the subcore.
\<close>

subsection \<open>Copies\<close>

lemma memcpy_copies:
  shows "agree (- span dst (unat n)) (memcpy m dst src n) m"
    and "load_bytes (memcpy m dst src n) dst (unat n) = load_bytes m src (unat n)"
proof -
  have le: "unat n \<le> 4294967296" by (rule less_imp_le [OF unat_lt_32])
  then show "agree (- span dst (unat n)) (memcpy m dst src n) m"
    unfolding memcpy_def by (intro agree_store_bytes agree_refl) (simp_all only: length_load_bytes, blast)
  show "load_bytes (memcpy m dst src n) dst (unat n) = load_bytes m src (unat n)"
    using load_store_bytes_same [of "load_bytes m src (unat n)" m dst] le by (simp add: memcpy_def)
qed

lemma store_words_agree:
  assumes "4 * length ws < 4294967296"
  shows "agree (- span a (4 * length ws)) (store_words m a ws) m"
proof -
  have "agree (- span a (4 * length ws)) (foldl (\<lambda>m x. store32 m (a + 4 * word_of_nat x) (ws ! x)) m [0..<k]) m"
    if "k \<le> length ws" for k
    using that
  proof (induction k)
    case (Suc k)
    have "4 * word_of_nat k = (word_of_nat (4 * k) :: u32)" by simp
    moreover have "4 * k < 4294967296" using Suc.prems assms by simp
    ultimately have "unat (4 * word_of_nat k :: u32) = 4 * k" by (simp only: unat_of_nat32)
    then have "span (a + 4 * word_of_nat k) 4 \<subseteq> span a (4 * length ws)" using Suc.prems by (intro span_sub) simp
    then show ?case using Suc by (auto intro!: agree_store32)
  qed simp
  then show ?thesis by (simp add: store_words_def)
qed

text \<open>Words of equal buffers are equal.\<close>

lemma load32_of_bytes:
  assumes "load_bytes m a n = load_bytes m' b n" and "unat i + 4 \<le> n" and "n < 4294967296"
  shows "load32 m (a + i) = load32 m' (b + i)"
proof -
  have "m (a + i + word_of_nat k) = m' (b + i + word_of_nat k)" if "k < 4" for k
  proof -
    have "load_bytes m a n ! (unat i + k) = load_bytes m' b n ! (unat i + k)" using assms(1) by simp
    then show ?thesis using that assms(2) by (simp add: load_bytes_def add.assoc)
  qed
  from this [of 0] this [of 1] this [of 2] this [of 3] show ?thesis by (simp add: load32_def load16_def add.assoc)
qed

subsection \<open>The dump\<close>

text \<open>The frame of the ESP-IDF: the 37 registers with names at its start, and no more than the dump has room for.\<close>

definition layout_ok :: "exc_layout \<Rightarrow> bool" where
  "layout_ok lay \<longleftrightarrow> 148 \<le> unat (sizeof_RvExcFrame lay) \<and> unat (sizeof_RvExcFrame lay) \<le> 216 \<and>
     unat (off_frame_sp lay) + 4 \<le> unat (sizeof_RvExcFrame lay) \<and> unat (off_frame_mcause lay) + 4 \<le> unat (sizeof_RvExcFrame lay)"

lemma dump_parts:
  "span (panic_dump c + 4) 4 \<subseteq> span (panic_dump c) 1536" "span (register_dump c) 1280 \<subseteq> span (panic_dump c) 1536"
  "span (register_dump c) 256 \<subseteq> span (register_dump c) 1280" "span (stack_dump c) 1024 \<subseteq> span (register_dump c) 1280"
  "span (register_dump c) 256 \<inter> span (stack_dump c) 1024 = {}" "span (panic_dump c + 4) 4 \<inter> span (register_dump c) 1280 = {}"
  by (rule span_sub disj_Int, simp add: register_dump_def stack_dump_def disj_def)+

text \<open>What the panic handler copies: the frame with the extra registers behind it, then the end of the stack.\<close>

lemma frame_copied:
  fixes lay :: exc_layout
  defines "n \<equiv> unat (sizeof_RvExcFrame lay)"
  assumes "layout_ok lay" and "length csrs = 10"
    and m2: "m2 = (if b then store_words (memcpy m r frame (sizeof_RvExcFrame lay)) (r + sizeof_RvExcFrame lay) csrs
      else memcpy m r frame (sizeof_RvExcFrame lay))"
  shows "agree (- span r 256) m2 m" and "load_bytes m2 r n = load_bytes m frame n"
proof -
  let ?e = "r + sizeof_RvExcFrame lay"
  define m1 where "m1 = memcpy m r frame (sizeof_RvExcFrame lay)"
  have n: "n \<le> 216" "0 < n" using assms(2) by (simp_all add: n_def layout_ok_def)
  have a2: "agree (- span ?e 40) m2 m1"
    using store_words_agree [of csrs ?e m1] assms(3) by (simp add: m2 m1_def)
  have a1: "agree (- span r n) m1 m" unfolding m1_def n_def by (rule memcpy_copies)
  have "span ?e 40 \<subseteq> span r 256" "span r n \<subseteq> span r 256" using n by (auto intro!: span_sub simp: n_def)
  then show "agree (- span r 256) m2 m" by (intro agree_trans [OF agree_mono [OF a2] agree_mono [OF a1]]) auto
  have "sizeof_RvExcFrame lay \<noteq> 0" using n(2) by (auto simp: n_def)
  then have "disj r n ?e 40" using n(1) unat_neg32 by (simp add: disj_def n_def)
  from disj_Int [OF this] have "load_bytes m2 r n = load_bytes m1 r n"
    using n by (intro load_bytes_cong agree_mono [OF a2]) auto
  then show "load_bytes m2 r n = load_bytes m frame n" unfolding m1_def n_def by (simp add: memcpy_copies(2))
qed

lemma stack_copied:
  assumes "unat len \<le> 1024" and "m3 = store32 m (panic_dump c + 4) len" and "span sp (unat len) \<inter> span (panic_dump c) 1536 = {}"
  shows "agree (- (span (panic_dump c + 4) 4 \<union> span (stack_dump c) 1024)) (memcpy m3 (stack_dump c) sp len) m"
    and "load32 (memcpy m3 (stack_dump c) sp len) (panic_dump c + 4) = len"
    and "load_bytes (memcpy m3 (stack_dump c) sp len) (stack_dump c) (unat len) = load_bytes m sp (unat len)"
proof -
  let ?t = "stack_dump c" and ?L = "span (panic_dump c + 4) 4"
  have a3: "agree (- ?L) m3 m" unfolding assms(2) by (intro agree_store32 agree_refl) simp
  have "span ?t (unat len) \<subseteq> span ?t 1024" using assms(1) by (intro span_sub) simp
  then have a4: "agree (- span ?t 1024) (memcpy m3 ?t sp len) m3"
    using memcpy_copies(1) [of ?t len m3 sp] by (auto elim: agree_mono)
  then show "agree (- (?L \<union> span ?t 1024)) (memcpy m3 ?t sp len) m"
    by (intro agree_trans [OF agree_mono [OF a4] agree_mono [OF a3]]) auto
  have "load32 (memcpy m3 ?t sp len) (panic_dump c + 4) = load32 m3 (panic_dump c + 4)"
    using dump_parts(4,6) [of c] by (intro load32_cong agree_mono [OF a4]) auto
  then show "load32 (memcpy m3 ?t sp len) (panic_dump c + 4) = len" by (simp add: assms(2))
  have "load_bytes m3 sp (unat len) = load_bytes m sp (unat len)"
    using assms(1,3) dump_parts(1) [of c] by (intro load_bytes_cong agree_mono [OF a3]) auto
  then show "load_bytes (memcpy m3 ?t sp len) ?t (unat len) = load_bytes m sp (unat len)" by (simp add: memcpy_copies(2))
qed

lemma dump_copies:
  assumes "layout_ok lay" and "length csrs = 10" and n: "n = unat (sizeof_RvExcFrame lay)"
    and sp: "sp = load32 m (frame + off_frame_sp lay)" and len: "len = min ESP_AMP_PANIC_STACK_DUMP_LENGTH (stack_top - sp)"
    and fr: "span frame n \<inter> span (panic_dump c) 1536 = {}" and st: "span sp (unat len) \<inter> span (panic_dump c) 1536 = {}"
    and m4: "m4 = dump_frame_and_stack lay c csrs stack_top frame m"
  shows "agree (- (span (panic_dump c + 4) 4 \<union> span (register_dump c) 1280)) m4 m"
    and "load_bytes m4 (register_dump c) n = load_bytes m frame n"
    and "load32 m4 (panic_dump c + 4) = len" and "load_bytes m4 (stack_dump c) (unat len) = load_bytes m sp (unat len)"
proof -
  let ?d = "panic_dump c" and ?r = "register_dump c" and ?t = "stack_dump c"
  define m2 where "m2 = (if \<not> SUBCORE_TYPE_LP_CORE c
    then store_words (memcpy m ?r frame (sizeof_RvExcFrame lay)) (?r + sizeof_RvExcFrame lay) csrs
    else memcpy m ?r frame (sizeof_RvExcFrame lay))"
  define m3 where "m3 = store32 m2 (?d + 4) len"
  note f = frame_copied [OF assms(1,2) m2_def, folded n]
  have l: "unat len \<le> 1024" by (simp add: len ESP_AMP_PANIC_STACK_DUMP_LENGTH_def min_def word_le_nat_alt)
  note s = stack_copied [OF l m3_def st]
  have off: "unat (off_frame_sp lay) + 4 \<le> n" "n \<le> 216" using assms(1) by (simp_all add: n layout_ok_def)
  have F: "span (frame + off_frame_sp lay) 4 \<inter> span ?d 1536 = {}" using fr off by (intro span_Un_sub [OF _ fr]) simp
  have a3: "agree (- (span (?d + 4) 4 \<union> span ?r 256)) m3 m" unfolding m3_def
    by (intro agree_store32 agree_mono [OF f(1)]) auto
  have "load32 m2 (frame + off_frame_sp lay) = sp" "load32 m3 (frame + off_frame_sp lay) = sp"
    unfolding sp using F dump_parts(1-3) [of c] by (intro load32_cong agree_mono [OF f(1)] agree_mono [OF a3]; blast)+
  then have eq: "m4 = memcpy m3 ?t sp len"
    using m4 by (simp add: dump_frame_and_stack_def Let_def m2_def [symmetric] len [symmetric] m3_def [symmetric])
  show "agree (- (span (?d + 4) 4 \<union> span ?r 1280)) m4 m"
    unfolding eq using dump_parts(3,4) [of c] by (intro agree_trans [OF agree_mono [OF s(1)] agree_mono [OF f(1)]]) auto
  show "load32 m4 (?d + 4) = len" unfolding eq by (rule s)
  have "load_bytes m2 sp (unat len) = load_bytes m sp (unat len)"
    using st dump_parts(2,3) [of c] l by (intro load_bytes_cong agree_mono [OF f(1)]) auto
  then show "load_bytes m4 ?t (unat len) = load_bytes m sp (unat len)" unfolding eq using s(3) by simp
  have "span ?r n \<subseteq> span ?r 256" using off by (intro span_sub) simp
  then have "load_bytes m4 ?r n = load_bytes m2 ?r n"
    unfolding eq using dump_parts(3,5,6) [of c] off by (intro load_bytes_cong agree_mono [OF s(1)]) auto
  then show "load_bytes m4 ?r n = load_bytes m frame n" using f(2) by simp
qed

subsection \<open>The handler\<close>

lemma trigger_bracket:
  assumes "port_ok c" and "pm_ready c (peer_sw_intr_st c) 4 s" and "i \<le> SW_INTR_ID_MAX" and "ESP_AMP_SW_INTR_BIT_ADDR c \<noteq> NULL"
  obtains s' where "esp_amp_sw_intr_trigger c i s = Some s'" "lp_access_hp_cnt s' = lp_access_hp_cnt s"
    "load32 (mem s') (peer_sw_intr_st c) = load32 (mem s) (peer_sw_intr_st c) OR BIT i"
    "agree (- span (peer_sw_intr_st c) 4) (mem s') (mem s)"
proof -
  let ?a = "peer_sw_intr_st c" and ?s1 = "PM_SKIP_LIGHT_SLEEP_ENTER c s"
  define s3 where "s3 = esp_amp_platform_sw_intr_trigger c (?s1\<lparr>mem := store32 (mem ?s1) ?a (load32 (mem ?s1) ?a OR BIT i)\<rparr>)"
  have p: "pm_active c \<longrightarrow> pm_cnt s \<noteq> -1" "lp_access_hp_cnt s \<notin> span ?a 4" using assms(2) by (simp_all add: pm_ready_def)
  have "lp_access_hp_cnt s3 = lp_access_hp_cnt s" using pm_enter_frame [OF assms(1), of s] by (simp add: s3_def pm_frame_def)
  moreover have "agree (- span ?a 4) (mem s3) (mem ?s1)" unfolding s3_def by (auto intro: agree_store32)
  ultimately obtain s' where s': "PM_SKIP_LIGHT_SLEEP_EXIT c s3 = Some s'" "agree (- span ?a 4) (mem s') (mem s)"
    "lp_access_hp_cnt s' = lp_access_hp_cnt s"
    using pm_bracket [OF assms(1) p] by metis
  then have "esp_amp_sw_intr_trigger c i s = Some s'"
    using assms(3,4) by (simp add: esp_amp_sw_intr_trigger_def Let_def s3_def not_less)
  then show thesis using that s' trigger_effect [OF assms] by auto
qed

text \<open>
  \<open>panic_ready\<close>: the frame and the stack of the subcore, the dump, the interrupt word of the maincore and
  the light sleep counter are apart, and the counter can be nested twice more.
\<close>

definition panic_ready :: "exc_layout \<Rightarrow> 'z config \<Rightarrow> u32 \<Rightarrow> ptr \<Rightarrow> 'z core_scheme \<Rightarrow> bool" where
  "panic_ready lay c stack_top frame s \<longleftrightarrow>
     (let sp = load32 (mem s) (frame + off_frame_sp lay);
          len = unat (min ESP_AMP_PANIC_STACK_DUMP_LENGTH (stack_top - sp));
          own = span frame (unat (sizeof_RvExcFrame lay)) \<union> span sp len;
          dump = span (panic_dump c) 1536; st = span (peer_sw_intr_st c) 4
      in own \<inter> dump = {} \<and> st \<inter> dump = {} \<and> lp_access_hp_cnt s \<notin> own \<union> dump \<union> st \<and>
         (pm_active c \<longrightarrow> unat (pm_cnt s) < 254) \<and> ESP_AMP_SW_INTR_BIT_ADDR c \<noteq> NULL)"

lemma panic_ready_counter:
  assumes "panic_ready lay c stack_top frame s" and "pm_active c"
  shows "pm_cnt s \<noteq> -1" and "pm_cnt s + 1 \<noteq> -1"
proof -
  have lt: "unat (pm_cnt s) < 254" using assms by (simp add: panic_ready_def Let_def)
  have neg: "unat (-1 :: u8) = 255" by (simp add: unsigned_minus_1_eq_mask mask_eq_exp_minus_1)
  show "pm_cnt s \<noteq> -1" using lt neg by auto
  have "unat (pm_cnt s + 1) < 255" using lt by (simp add: unat_word_ariths)
  then show "pm_cnt s + 1 \<noteq> -1" using neg by (metis less_irrefl)
qed

text \<open>An interrupt triggered while the macros already keep the maincore awake.\<close>

lemma nested_trigger:
  assumes "port_ok c" and r: "panic_ready lay c stack_top frame s" and W: "W \<subseteq> span (panic_dump c) 1536"
    and s1: "s1 = PM_SKIP_LIGHT_SLEEP_ENTER c s" and m: "agree (- W) m (mem s1)"
  obtains s5 s' where "esp_amp_sw_intr_trigger c SW_INTR_RESERVED_ID_PANIC (s1\<lparr>mem := m\<rparr>) = Some s5"
    "PM_SKIP_LIGHT_SLEEP_EXIT c s5 = Some s'" "agree W (mem s') m"
    "agree (- (W \<union> span (peer_sw_intr_st c) 4)) (mem s') (mem s)"
    "load32 (mem s') (peer_sw_intr_st c) = load32 (mem s) (peer_sw_intr_st c) OR BIT SW_INTR_RESERVED_ID_PANIC"
proof -
  let ?st = "span (peer_sw_intr_st c) 4" and ?s4 = "s1\<lparr>mem := m\<rparr>"
  have ap: "?st \<inter> W = {}" "lp_access_hp_cnt s \<notin> W" "lp_access_hp_cnt s \<notin> ?st" "ESP_AMP_SW_INTR_BIT_ADDR c \<noteq> NULL"
    using r W by (auto simp: panic_ready_def Let_def)
  have i: "SW_INTR_RESERVED_ID_PANIC \<le> SW_INTR_ID_MAX" by (simp add: word_le_nat_alt SW_INTR_RESERVED_ID_PANIC_def SW_INTR_ID_MAX_def)
  note f = pm_enter_frame [OF assms(1), of s, folded s1]
  have p: "lp_access_hp_cnt s1 = lp_access_hp_cnt s" using f by (simp add: pm_frame_def)
  have "pm_cnt ?s4 = pm_cnt s1" using m ap(2) by (simp add: pm_cnt_def load8_def agree_def p)
  then have "pm_ready c (peer_sw_intr_st c) 4 ?s4"
    using pm_enter_cnt [OF assms(1), of s, folded s1] panic_ready_counter(2) [OF r] ap(3) by (simp add: pm_ready_def p)
  then obtain s5 where t: "esp_amp_sw_intr_trigger c SW_INTR_RESERVED_ID_PANIC ?s4 = Some s5" "lp_access_hp_cnt s5 = lp_access_hp_cnt s"
    "load32 (mem s5) (peer_sw_intr_st c) = load32 m (peer_sw_intr_st c) OR BIT SW_INTR_RESERVED_ID_PANIC"
    "agree (- ?st) (mem s5) m"
    by (rule trigger_bracket [OF assms(1) _ i ap(4)]) (simp_all add: p)
  have "agree (- (W \<union> ?st)) (mem s5) (mem s1)" by (intro agree_trans [OF agree_mono [OF t(4)] agree_mono [OF m]]) auto
  then obtain s' where x: "PM_SKIP_LIGHT_SLEEP_EXIT c s5 = Some s'" "agree (W \<union> ?st) (mem s') (mem s5)"
    "agree (- (W \<union> ?st)) (mem s') (mem s)"
    using pm_bracket [OF assms(1), of s "W \<union> ?st" s5] panic_ready_counter(1) [OF r] ap(2,3) t(2) s1 by auto
  have "load32 m (peer_sw_intr_st c) = load32 (mem s) (peer_sw_intr_st c)"
    using ap by (intro load32_cong agree_trans [OF agree_mono [OF m] pm_frame_agree [OF f]]) auto
  then have "load32 (mem s') (peer_sw_intr_st c) = load32 (mem s) (peer_sw_intr_st c) OR BIT SW_INTR_RESERVED_ID_PANIC"
    using load32_cong [OF agree_mono [OF x(2)], of "peer_sw_intr_st c"] t(3) by simp
  moreover have "agree W (mem s') m" using ap(1) by (intro agree_trans [OF agree_mono [OF x(2)] agree_mono [OF t(4)]]) auto
  ultimately show thesis using that t(1) x(1,3) by blast
qed

lemma panic_dumped:
  assumes "port_ok c" and "layout_ok lay" and "length csrs = 10" and r: "panic_ready lay c stack_top frame s"
    and n: "n = unat (sizeof_RvExcFrame lay)" and sp: "sp = load32 (mem s) (frame + off_frame_sp lay)"
    and len: "len = min ESP_AMP_PANIC_STACK_DUMP_LENGTH (stack_top - sp)"
  obtains s' where "subcore_panic_dump True lay c csrs stack_top slot frame s = Some ([], s')"
    "load32 (mem s') (peer_sw_intr_st c) = load32 (mem s) (peer_sw_intr_st c) OR BIT SW_INTR_RESERVED_ID_PANIC"
    "load_bytes (mem s') (register_dump c) n = load_bytes (mem s) frame n"
    "load32 (mem s') (panic_dump c + 4) = len" "load_bytes (mem s') (stack_dump c) (unat len) = load_bytes (mem s) sp (unat len)"
    "agree (- (span (panic_dump c + 4) 4 \<union> span (register_dump c) 1280 \<union> span (peer_sw_intr_st c) 4)) (mem s') (mem s)"
proof -
  let ?W = "span (panic_dump c + 4) 4 \<union> span (register_dump c) 1280" and ?st = "span (peer_sw_intr_st c) 4"
  define s1 where "s1 = PM_SKIP_LIGHT_SLEEP_ENTER c s"
  define m4 where "m4 = dump_frame_and_stack lay c csrs stack_top frame (mem s1)"
  have W: "?W \<subseteq> span (panic_dump c) 1536" using dump_parts [of c] by blast
  have ap: "span frame n \<inter> span (panic_dump c) 1536 = {}" "span sp (unat len) \<inter> span (panic_dump c) 1536 = {}"
    "?st \<inter> ?W = {}" "lp_access_hp_cnt s \<notin> ?W \<union> ?st" "lp_access_hp_cnt s \<notin> span frame n" "lp_access_hp_cnt s \<notin> span sp (unat len)"
    using r W unfolding panic_ready_def Let_def n [symmetric] sp [symmetric] len [symmetric] by blast+
  note f = pm_enter_frame [OF assms(1), of s, folded s1_def]
  have same: "agree A (mem s1) (mem s)" if "lp_access_hp_cnt s \<notin> A" for A using pm_frame_agree [OF f] that by simp
  have off: "unat (off_frame_sp lay) + 4 \<le> n" "n \<le> 216" using assms(2) by (simp_all add: n layout_ok_def)
  have "span (frame + off_frame_sp lay) 4 \<subseteq> span frame n" using off by (intro span_sub) simp
  then have sp1: "sp = load32 (mem s1) (frame + off_frame_sp lay)"
    unfolding sp using ap(5) by (intro load32_cong [symmetric] same) auto
  note d = dump_copies [OF assms(2,3) n sp1 len ap(1,2) m4_def]
  obtain s5 s' where t: "esp_amp_sw_intr_trigger c SW_INTR_RESERVED_ID_PANIC (s1\<lparr>mem := m4\<rparr>) = Some s5"
    "PM_SKIP_LIGHT_SLEEP_EXIT c s5 = Some s'" "agree ?W (mem s') m4" "agree (- (?W \<union> ?st)) (mem s') (mem s)"
    "load32 (mem s') (peer_sw_intr_st c) = load32 (mem s) (peer_sw_intr_st c) OR BIT SW_INTR_RESERVED_ID_PANIC"
    by (rule nested_trigger [OF assms(1) r W s1_def d(1)])
  have l: "unat len \<le> 1024" by (simp add: len ESP_AMP_PANIC_STACK_DUMP_LENGTH_def min_def word_le_nat_alt)
  have sub: "span (register_dump c) n \<subseteq> span (register_dump c) 256" "span (stack_dump c) (unat len) \<subseteq> span (stack_dump c) 1024"
    using off l by (auto intro!: span_sub)
  have "load_bytes (mem s') (register_dump c) n = load_bytes (mem s) frame n"
    using load_bytes_cong [OF agree_mono [OF t(3)], of "register_dump c" n] load_bytes_cong [OF same [OF ap(5)]] d(2) off sub dump_parts(3) [of c]
    by auto
  moreover have "load_bytes (mem s') (stack_dump c) (unat len) = load_bytes (mem s) sp (unat len)"
    using load_bytes_cong [OF agree_mono [OF t(3)], of "stack_dump c" "unat len"] load_bytes_cong [OF same [OF ap(6)]] d(4) l sub dump_parts(4) [of c]
    by auto
  moreover have "load32 (mem s') (panic_dump c + 4) = len" using load32_cong [OF agree_mono [OF t(3)]] d(3) by auto
  moreover have "subcore_panic_dump True lay c csrs stack_top slot frame s = Some ([], s')"
    using t(1,2) by (simp add: subcore_panic_dump_def Let_def s1_def m4_def)
  ultimately show thesis using that t(4,5) by blast
qed

subsection \<open>The report\<close>

lemma unat_four_times: "k < 1073741824 \<Longrightarrow> unat (4 * word_of_nat k :: u32) = 4 * k"
  using unat_of_nat32 [of "4 * k"] by simp

lemma print_regs_cong:
  assumes "load_bytes m a n = load_bytes m' b n" and "4 * length names \<le> n" and "n < 4294967296"
  shows "print_regs names a m = print_regs names b m'"
proof -
  have "load32 m (a + 4 * word_of_nat x) = load32 m' (b + 4 * word_of_nat x)" if "x < length names" for x
    using that assms unat_four_times [of x] by (intro load32_of_bytes [OF assms(1)]) simp_all
  then show ?thesis unfolding print_regs_def by (intro arg_cong [where f = concat] map_cong refl) simp
qed

lemma print_stack_loop_cong:
  assumes "load_bytes m a (unat len) = load_bytes m' b (unat len)" and "32 dvd unat len"
  shows "32 dvd unat i \<Longrightarrow> print_stack_loop sp a len i m = print_stack_loop sp b len i m'"
proof (induction "1024 - unat i" arbitrary: i rule: less_induct)
  case less
  show ?case
  proof (cases "i < len \<and> len \<le> ESP_AMP_PANIC_STACK_DUMP_LENGTH")
    case True
    then have lt: "unat i < unat len" "unat len \<le> 1024"
      by (simp_all add: ESP_AMP_PANIC_STACK_DUMP_LENGTH_def word_less_nat_alt word_le_nat_alt)
    have fit: "unat i + 32 \<le> unat len" using lt(1) assms(2) less.prems by (elim dvdE) simp
    have i32: "unat (i + 32) = unat i + 32" using fit lt(2) by (intro unat_add_numeral) simp
    have "load32 m (a + i + 4 * word_of_nat y) = load32 m' (b + i + 4 * word_of_nat y)" if "y < 8" for y
    proof -
      have "unat (i + 4 * word_of_nat y) = unat i + 4 * y"
        using that fit lt(2) unat_four_times [of y] by (simp add: unat_add_no_wrap)
      then show ?thesis
        using load32_of_bytes [OF assms(1), of "i + 4 * word_of_nat y"] fit lt(2) that by (simp add: add.assoc)
    qed
    then have "print_stack_line (sp + i) (a + i) m = print_stack_line (sp + i) (b + i) m'"
      unfolding print_stack_line_def by (intro arg_cong2 [where f = append] arg_cong [where f = concat] map_cong refl) simp
    moreover have "print_stack_loop sp a len (i + 32) m = print_stack_loop sp b len (i + 32) m'"
      using less.prems fit lt by (intro less.hyps) (simp_all add: i32)
    ultimately show ?thesis using True by (simp add: print_stack_loop.simps [of sp _ len i])
  qed (auto simp: print_stack_loop.simps [of sp _ len i])
qed

lemma c_string_cong:
  "c_string m p = Some t \<Longrightarrow> agree (span p (Suc (length t))) m' m \<Longrightarrow> length t < 4294967295 \<Longrightarrow> c_string m' p = Some t"
proof (induction t arbitrary: p)
  case Nil
  then have "m p = 0" by (subst (asm) c_string.simps) (auto simp: load8_def split: if_splits Option.bind_splits)
  then show ?case using Nil(2) by (subst c_string.simps) (simp add: load8_def agree_def in_span_iff)
next
  case (Cons ch t)
  from Cons.prems(1) have nz: "m p \<noteq> 0" "ch = char_of (unat (m p))" "c_string m (p + 1) = Some t"
    by (subst (asm) c_string.simps, auto simp: load8_def split: if_splits Option.bind_splits)+
  have "span (p + 1) (Suc (length t)) \<subseteq> span p (Suc (length (ch # t)))" by (intro span_sub) simp
  then have "c_string m' (p + 1) = Some t" using Cons.prems(2,3) nz(3) by (intro Cons.IH) (auto elim: agree_mono)
  moreover have "m' p = m p" using Cons.prems(2) by (simp add: agree_def in_span_iff)
  ultimately show ?case using nz by (subst c_string.simps) (simp add: load8_def)
qed

text \<open>The panic handler leaves the reason alone that an assertion or abort noted.\<close>

lemma reason_kept:
  assumes "panic_ready lay c stack_top frame s"
    and a: "agree (- (span (panic_dump c + 4) 4 \<union> span (register_dump c) 1280 \<union> span (peer_sw_intr_st c) 4)) m (mem s)"
  shows "load32 m (panic_dump c) = load32 (mem s) (panic_dump c)"
    and "c_string (mem s) (abort_details c) = Some t \<Longrightarrow> length t < 248 \<Longrightarrow> c_string m (abort_details c) = Some t"
proof -
  let ?d = "panic_dump c"
  have st: "span (peer_sw_intr_st c) 4 \<inter> span ?d 1536 = {}" using assms(1) by (auto simp: panic_ready_def Let_def)
  have sub: "span ?d 4 \<subseteq> span ?d 1536" "span (abort_details c) 248 \<subseteq> span ?d 1536"
    by (rule span_sub, simp add: abort_details_def)+
  have "span ?d 4 \<inter> span (?d + 4) 4 = {}" "span ?d 4 \<inter> span (register_dump c) 1280 = {}"
    "span (abort_details c) 248 \<inter> span (?d + 4) 4 = {}" "span (abort_details c) 248 \<inter> span (register_dump c) 1280 = {}"
    by (rule disj_Int, simp add: disj_def register_dump_def abort_details_def)+
  then have k: "agree (span ?d 4) m (mem s)" "agree (span (abort_details c) 248) m (mem s)"
    using st sub by (intro agree_mono [OF a]; blast)+
  show "load32 m ?d = load32 (mem s) ?d" by (rule load32_cong [OF k(1)])
  show "c_string m (abort_details c) = Some t" if "c_string (mem s) (abort_details c) = Some t" "length t < 248"
  proof (rule c_string_cong [OF that(1)])
    have "span (abort_details c) (Suc (length t)) \<subseteq> span (abort_details c) 248" using that(2) by (intro span_sub) simp
    then show "agree (span (abort_details c) (Suc (length t))) m (mem s)" by (rule agree_mono [OF k(2)])
  qed (use that(2) in simp)
qed

text \<open>
  The report the maincore should print of a subcore with the given frame and memory, \<open>head\<close> being the
  reason of the panic and \<open>extra\<close> the extra registers.
\<close>

definition panic_text :: "exc_layout \<Rightarrow> u32 \<Rightarrow> ptr \<Rightarrow> memory \<Rightarrow> string \<Rightarrow> string \<Rightarrow> string" where
  "panic_text lay stack_top frame m head extra =
     (let sp = load32 m (frame + off_frame_sp lay);
          len = min ESP_AMP_PANIC_STACK_DUMP_LENGTH (stack_top - sp)
      in head @ [CHR 0x0A] @ ''Core 1 register dump:'' @ [CHR 0x0A] @ print_regs panic_desc frame m @ extra @
         [CHR 0x0A, CHR 0x0A] @ ''Stack memory:'' @ [CHR 0x0A] @ print_stack_loop sp sp len 0 m @
         [CHR 0x0A] @ ''ELF file SHA256: No SHA256 Embedded'' @ [CHR 0x0A])"


definition panic_frame :: memory where
  "panic_frame = store32 (store32 (\<lambda>_. 0) 0x2008 0x3000) 0x2088 2"


end
