(* ===== verification/Amp_Platform.thy ===== *)
theory Amp_Platform
  imports Amp_Port
begin

text \<open>
  Time, delays and heap growth of the subcore: src/components/esp_amp/port/include/esp_amp_arch.h,
  port/platform/{hp_core,lp_core}/esp_amp_platform.c and idf_stub/esp_system/syscalls.c. The cycle
  counter is read half by half while it runs: \<open>clk k\<close> is its value at the \<open>k\<close>th read of a control
  register. The delay functions of the ROM and of the ESP-IDF are parameters.
\<close>

subsection \<open>The cycle counter\<close>

definition rv_mcycle :: "u64 \<Rightarrow> u32" where "rv_mcycle v = ucast v"
definition rv_mcycleh :: "u64 \<Rightarrow> u32" where "rv_mcycleh v = ucast (drop_bit 32 v)"
definition rv_mcycle_comb :: "u32 \<Rightarrow> u32 \<Rightarrow> u64" where "rv_mcycle_comb lo hi = word_cat hi lo"

text \<open>The \<open>do\<close> loop: the low half, then the high half, until the high half is the one of the snapshot.\<close>

partial_function (option) cycle_loop :: "(nat \<Rightarrow> u64) \<Rightarrow> u32 \<Rightarrow> nat \<Rightarrow> u64 option" where
  "cycle_loop clk mcycleh_snapshot k =
     (let lo = rv_mcycle (clk k); hi = rv_mcycleh (clk (k + 1))
      in if mcycleh_snapshot \<noteq> hi then cycle_loop clk mcycleh_snapshot (k + 2) else Some (rv_mcycle_comb lo hi))"

definition esp_amp_arch_get_cpu_cycle_64 :: "(nat \<Rightarrow> u64) \<Rightarrow> u64 option" where
  "esp_amp_arch_get_cpu_cycle_64 clk = cycle_loop clk (rv_mcycleh (clk 0)) 1"

definition esp_amp_arch_intr_enable :: "'z core_scheme \<Rightarrow> 'z core_scheme" where
  "esp_amp_arch_intr_enable s = s\<lparr>mstatus := mstatus s OR MSTATUS_MIE\<rparr>"

definition esp_amp_arch_intr_disable :: "'z core_scheme \<Rightarrow> 'z core_scheme" where
  "esp_amp_arch_intr_disable s = s\<lparr>mstatus := mstatus s AND NOT MSTATUS_MIE\<rparr>"

subsection \<open>Time and delays\<close>

text \<open>
  \<open>system_time\<close> is the microsecond clock of the maincore, \<open>ticks_per_us\<close> what
  \<open>esp_rom_get_cpu_ticks_per_us\<close> returns. The product of the divisor has 32 bits.
\<close>

definition hp_get_time_ms :: "'z config \<Rightarrow> 64 word \<Rightarrow> u32 \<Rightarrow> (nat \<Rightarrow> u64) \<Rightarrow> 64 word option" where
  "hp_get_time_ms c system_time ticks_per_us clk =
     (if IS_MAIN_CORE c then Some (word_of_int (if 0 \<le> sint system_time then sint system_time div 1000 else - (- sint system_time div 1000)))
      else if ticks_per_us * 1000 = 0 then None
      else map_option (\<lambda>cyc. cyc div ucast (ticks_per_us * 1000)) (esp_amp_arch_get_cpu_cycle_64 clk))"

definition LP_CORE_CPU_FREQ_HZ :: u64 where "LP_CORE_CPU_FREQ_HZ = 16000000"

definition lp_get_time_ms :: "(nat \<Rightarrow> u64) \<Rightarrow> 64 word option" where
  "lp_get_time_ms clk = map_option (\<lambda>cyc. cyc div (LP_CORE_CPU_FREQ_HZ div 1000)) (esp_amp_arch_get_cpu_cycle_64 clk)"

definition hp_delay_us :: "(u32 \<Rightarrow> 'h \<Rightarrow> 'h) \<Rightarrow> u32 \<Rightarrow> 'h \<Rightarrow> 'h" where
  "hp_delay_us esp_rom_delay_us time h = esp_rom_delay_us time h"

definition hp_delay_ms :: "(u32 \<Rightarrow> 'h \<Rightarrow> 'h) \<Rightarrow> u32 \<Rightarrow> 'h \<Rightarrow> 'h" where
  "hp_delay_ms esp_rom_delay_us time h = esp_rom_delay_us (time * 1000) h"

definition INT_MAX :: u32 where "INT_MAX = 2147483647"

definition lp_delay_us :: "(u32 \<Rightarrow> 'h \<Rightarrow> 'h) \<Rightarrow> u32 \<Rightarrow> 'h \<Rightarrow> 'h" where
  "lp_delay_us ulp_lp_core_delay_us time h = ulp_lp_core_delay_us time h"

definition lp_delay_ms :: "(u32 \<Rightarrow> 'h \<Rightarrow> 'h) \<Rightarrow> u32 \<Rightarrow> 'h \<Rightarrow> 'h" where
  "lp_delay_ms ulp_lp_core_delay_us time h =
     (if INT_MAX div 1000 \<le> time then ulp_lp_core_delay_us INT_MAX h else ulp_lp_core_delay_us (time * 1000) h)"

subsection \<open>The heap of the subcore\<close>

text \<open>
  \<open>heap\<close> is the option that the subcore has a heap, \<open>heap_end\<close> the address of \<open>__heap_end\<close>. The result is the
  old end of the heap or -1, with the new one; the message of a failure goes to the console.
\<close>

definition sbrk :: "bool \<Rightarrow> u32 \<Rightarrow> u32 \<Rightarrow> ptr \<Rightarrow> ptr \<times> ptr" where
  "sbrk heap heap_end increment heap_ptr =
     (if \<not> heap then (-1, heap_ptr)
      else if heap_end < heap_ptr + increment then (-1, heap_ptr)
      else (heap_ptr, heap_ptr + increment))"

subsection \<open>Reading the counter\<close>

lemma mcycle_join [simp]: "rv_mcycle_comb (rv_mcycle v) (rv_mcycleh v) = v"
  by (rule bit_eqI) (auto simp: rv_mcycle_comb_def rv_mcycle_def rv_mcycleh_def bit_simps)

lemma mcycleh_mono: "v \<le> w \<Longrightarrow> rv_mcycleh v \<le> rv_mcycleh w"
proof -
  have n: "unat (rv_mcycleh x) = unat x div 4294967296" for x
  proof -
    have "unat x < 4294967296 * 4294967296" using unsigned_less [of x] by simp
    then have "unat x div 4294967296 < 4294967296" by (rule less_mult_imp_div_less)
    then show ?thesis by (simp add: rv_mcycleh_def unsigned_ucast_eq unsigned_drop_bit_eq drop_bit_eq_div unat_div take_bit_nat_eq_self)
  qed
  show "v \<le> w \<Longrightarrow> rv_mcycleh v \<le> rv_mcycleh w" by (simp add: word_le_nat_alt n div_le_mono)
qed

lemma cycle_loop_result:
  "cycle_loop clk h k = Some y \<Longrightarrow> \<exists>i. h = rv_mcycleh (clk (k + 2 * i + 1)) \<and> y = rv_mcycle_comb (rv_mcycle (clk (k + 2 * i))) h"
proof (induction rule: cycle_loop.raw_induct [rotated, consumes 1])
  case (1 rec clk h k y)
  show ?case
  proof (cases "h = rv_mcycleh (clk (k + 1))")
    case True
    then have "h = rv_mcycleh (clk (k + 2 * 0 + 1)) \<and> y = rv_mcycle_comb (rv_mcycle (clk (k + 2 * 0))) h" using 1(2) by (simp add: Let_def)
    then show ?thesis by (rule exI)
  next
    case False
    then have "rec clk h (k + 2) = Some y" using 1(2) by (simp add: Let_def)
    from 1(1) [OF this] obtain i where "h = rv_mcycleh (clk (k + 2 + 2 * i + 1)) \<and> y = rv_mcycle_comb (rv_mcycle (clk (k + 2 + 2 * i))) h" by blast
    moreover have "k + 2 + 2 * i = k + 2 * Suc i" by simp
    ultimately show ?thesis by metis
  qed
qed

text \<open>C29. The 64 bit cycle counter of the subcore is never read torn: for a counter that does not run backwards,
  the two halves put together are the value it had at one instant, when the low half was read, and the
  milliseconds of the LP core are counted from it. The reading returns exactly when the high half did not
  change in between its first two reads; otherwise the loop never ends, since it compares with a snapshot
  it does not renew.\<close>

theorem cycle_64_exact:
  assumes "\<forall>i j. i \<le> j \<longrightarrow> clk i \<le> clk j"
  shows "esp_amp_arch_get_cpu_cycle_64 clk = (if rv_mcycleh (clk 0) = rv_mcycleh (clk 2) then Some (clk 1) else None) \<and>
    lp_get_time_ms clk = (if rv_mcycleh (clk 0) = rv_mcycleh (clk 2) then Some (clk 1 div 16000) else None)"
proof -
  have mono: "rv_mcycleh (clk i) \<le> rv_mcycleh (clk j)" if "i \<le> j" for i j using assms that by (simp add: mcycleh_mono)
  have "esp_amp_arch_get_cpu_cycle_64 clk = (if rv_mcycleh (clk 0) = rv_mcycleh (clk 2) then Some (clk 1) else None)"
  proof (cases "rv_mcycleh (clk 0) = rv_mcycleh (clk 2)")
    case True
    then have "rv_mcycleh (clk 1) = rv_mcycleh (clk 2)" using mono [of 0 1] mono [of 1 2] by simp
    then have "cycle_loop clk (rv_mcycleh (clk 0)) 1 = Some (clk 1)" using True mcycle_join [of "clk 1"]
      by (subst cycle_loop.simps) (simp add: Let_def numeral_2_eq_2)
    then show ?thesis using True by (simp add: esp_amp_arch_get_cpu_cycle_64_def)
  next
    case False
    have "cycle_loop clk (rv_mcycleh (clk 0)) 1 \<noteq> Some y" for y
    proof
      assume "cycle_loop clk (rv_mcycleh (clk 0)) 1 = Some y"
      from cycle_loop_result [OF this] obtain i where "rv_mcycleh (clk 0) = rv_mcycleh (clk (1 + 2 * i + 1))" by blast
      then show False using mono [of 0 2] mono [of 2 "1 + 2 * i + 1"] False by simp
    qed
    then have "cycle_loop clk (rv_mcycleh (clk 0)) 1 = None" by (cases "cycle_loop clk (rv_mcycleh (clk 0)) 1") blast+
    then show ?thesis using False by (simp add: esp_amp_arch_get_cpu_cycle_64_def)
  qed
  then show ?thesis by (simp add: lp_get_time_ms_def LP_CORE_CPU_FREQ_HZ_def)
qed

theorem cycle_64_exact_witness:
  "esp_amp_arch_get_cpu_cycle_64 (\<lambda>k. if k = 0 then 0x1fffffff0 else 0x1fffffff7) = Some 0x1fffffff7 \<and>
   esp_amp_arch_get_cpu_cycle_64 (\<lambda>k. if k < 2 then 0x1ffffffff else 0x200000003) = None"
proof -
  have a: "\<forall>i j :: nat. i \<le> j \<longrightarrow> (if i = 0 then 0x1fffffff0 else 0x1fffffff7 :: u64) \<le> (if j = 0 then 0x1fffffff0 else 0x1fffffff7)"
    and b: "\<forall>i j :: nat. i \<le> j \<longrightarrow> (if i < 2 then 0x1ffffffff else 0x200000003 :: u64) \<le> (if j < 2 then 0x1ffffffff else 0x200000003)"
    by (auto simp: word_le_nat_alt)
  have h: "rv_mcycleh 0x1fffffff0 = 1" "rv_mcycleh 0x1fffffff7 = 1" "rv_mcycleh 0x1ffffffff = 1" "rv_mcycleh 0x200000003 = 2" by code_simp+
  show ?thesis using cycle_64_exact [OF a] cycle_64_exact [OF b] by (simp add: h)
qed

end
