(* ===== verification/Amp_System.thy ===== *)
theory Amp_System
  imports Amp_Panic Amp_Event Amp_Platform Amp_Queue_Setup
begin

text \<open>
  Bringing the system up: src/components/esp_amp/src/esp_amp.c and system/esp_amp_system.c. The
  maincore initialises interrupts, shared memory, services, panic handling and events in this order;
  the subcore, started later, finds in shared memory what the maincore put there.
\<close>

text \<open>
  What the initialisation gets from outside: the option for the supplicant, results of the ESP-IDF,
  the function pointers of the handlers and the functions of FreeRTOS.
\<close>

record ('f, 'z) init_env =
  ENABLE_SUPPLICANT :: bool
  intr_alloc_result :: int
  pm_register_ok :: bool
  builtin_clz :: "u32 \<Rightarrow> nat"
  fp_recv_cb :: 'f
  fp_notify_cb :: 'f
  fp_panic_handler :: 'f
  fp_event_isr :: 'f
  create_supplicant :: "('f, 'z) ev \<Rightarrow> ptr \<times> ('f, 'z) ev"
  event_os :: "('f, 'z) ev rtos_events"
  event_peer :: interference

definition esp_amp_system_init ::
    "('f, 'z) init_env \<Rightarrow> ('f, 'z) ev_config \<Rightarrow> 'f service \<Rightarrow> ('f, 'z) ev \<Rightarrow> (int \<times> 'f service \<times> ('f, 'z) ev) option" where
  "esp_amp_system_init env c srv s = do {
     (ret, s1) \<leftarrow> (if AUTO_LIGHT_SLEEP_SUPPORT c then esp_amp_system_pm_init (pm_register_ok env) c s else Some (0, s));
     if ret \<noteq> 0 then Some (ret, srv, s1) else do {
       (ret, srv2, s2) \<leftarrow>
         (if ENABLE_SUPPLICANT env
          then esp_amp_system_service_init (builtin_clz env) (fp_recv_cb env) (fp_notify_cb env) (create_supplicant env) c srv s1
          else Some (0, srv, s1));
       if ret \<noteq> 0 then Some (ret, srv2, s2)
       else if IS_MAIN_CORE c then do {
         (ret, s3) \<leftarrow> esp_amp_system_panic_init c (fp_panic_handler env) s2;
         Some (ret, srv2, s3)
       } else Some (0, srv2, s2)
     }
   }"

definition esp_amp_event_init ::
    "('f, 'z) init_env \<Rightarrow> ('f, 'z) ev_config \<Rightarrow> ('f, 'z) ev \<Rightarrow> (int \<times> ('f, 'z) ev) option" where
  "esp_amp_event_init env c s =
     (if IS_ENV_BM c then map_option (\<lambda>ret. (ret, s)) (bm_event_init c s)
      else fr_event_init (event_os env) (event_peer env) (fp_event_isr env) c s)"

text \<open>Every step is asserted to succeed; a failing assertion is \<open>None\<close>.\<close>

definition esp_amp_init ::
    "('f, 'z) init_env \<Rightarrow> ('f, 'z) ev_config \<Rightarrow> 'f service \<Rightarrow> ('f, 'z) ev \<Rightarrow> (int \<times> 'f service \<times> ('f, 'z) ev) option" where
  "esp_amp_init env c srv s =
     (let (ret, s1) = esp_amp_sw_intr_init c (intr_alloc_result env) s
      in if ret \<noteq> 0 then None
         else let (ret, s2) = esp_amp_sys_info_init c s1
              in if ret \<noteq> 0 then None
                 else do {
                   (ret, srv3, s3) \<leftarrow> esp_amp_system_init env c srv s2;
                   if ret \<noteq> 0 then None
                   else do {
                     (ret, s4) \<leftarrow> esp_amp_event_init env c s3;
                     if ret \<noteq> 0 then None else Some (0, srv3, s4)
                   }
                 })"

subsection \<open>Registering the handlers\<close>

definition free_slots :: "'f sw_intr_handler_tbl list \<Rightarrow> nat" where
  "free_slots tbl = length (filter (\<lambda>e. handler e = None) tbl)"

definition registered :: "u32 \<Rightarrow> 'f \<Rightarrow> ('f, 'z) amp \<Rightarrow> bool" where
  "registered i f s \<longleftrightarrow> (\<exists>e \<in> set (sw_intr_handlers s). intr_id e = i \<and> handler e = Some f)"

lemma avail_slot_free:
  "0 < free_slots tbl \<Longrightarrow> find_avail_slot tbl < length tbl \<and> handler (tbl ! find_avail_slot tbl) = None"
  by (induction tbl) (auto simp: free_slots_def)

lemma free_slots_update:
  "k < length tbl \<Longrightarrow> handler (tbl ! k) = None \<Longrightarrow> handler e \<noteq> None \<Longrightarrow> Suc (free_slots (tbl[k := e])) = free_slots tbl"
proof (induction tbl arbitrary: k)
  case (Cons x tbl)
  then show ?case by (cases k) (auto simp: free_slots_def)
qed simp

lemma add_handler_effect:
  assumes "port_ok c" and "i \<le> SW_INTR_ID_MAX" and "0 < free_slots (sw_intr_handlers s)"
  shows "\<exists>s'. esp_amp_sw_intr_add_handler c i (Some f) a s = Some (0, s') \<and> mem s' = mem s \<and> lp_access_hp_cnt s' = lp_access_hp_cnt s \<and> event_table s' = event_table s \<and>
    Suc (free_slots (sw_intr_handlers s')) = free_slots (sw_intr_handlers s) \<and> registered i f s' \<and>
    (\<forall>j g. registered j g s \<longrightarrow> registered j g s')"
proof -
  let ?tbl = "sw_intr_handlers s"
  let ?k = "find_avail_slot ?tbl" and ?e = "\<lparr>intr_id = i, handler = Some f, arg = a\<rparr>"
  define s' where "s' = esp_amp_env_exit_critical c ((esp_amp_env_enter_critical c s)\<lparr>sw_intr_handlers := ?tbl[?k := ?e]\<rparr>)"
  note k = avail_slot_free [OF assms(3)]
  have tbl: "sw_intr_handlers s' = ?tbl[?k := ?e]" by (simp add: s'_def assms(1))
  have "event_table (esp_amp_env_enter_critical c s) = event_table s" by (rule event_table_more) (simp add: assms(1))
  then have ev: "event_table s' = event_table s" unfolding s'_def by (subst event_table_more [of _ "(esp_amp_env_enter_critical c s)\<lparr>sw_intr_handlers := ?tbl[?k := ?e]\<rparr>"]) (simp_all add: assms(1))
  have "registered j g s'" if "registered j g s" for j g
  proof -
    obtain n where "n < length ?tbl" "intr_id (?tbl ! n) = j" "handler (?tbl ! n) = Some g"
      using \<open>registered j g s\<close> by (auto simp: registered_def in_set_conv_nth)
    moreover from this k have "n \<noteq> ?k" by auto
    ultimately have "?tbl ! n \<in> set (?tbl[?k := ?e])" by (metis length_list_update nth_list_update_neq nth_mem)
    then show ?thesis using \<open>intr_id (?tbl ! n) = j\<close> \<open>handler (?tbl ! n) = Some g\<close> by (auto simp: registered_def tbl)
  qed
  moreover have "registered i f s'" using k set_update_memI [of ?k ?tbl ?e] by (force simp: registered_def tbl)
  moreover have "Suc (free_slots (sw_intr_handlers s')) = free_slots ?tbl" using k by (simp add: tbl free_slots_update)
  moreover have "esp_amp_sw_intr_add_handler c i (Some f) a s = Some (0, s')"
    using assms(1,2) k by (auto simp: esp_amp_sw_intr_add_handler_def Let_def s'_def not_less)
  moreover have "mem s' = mem s" "lp_access_hp_cnt s' = lp_access_hp_cnt s" by (simp_all add: s'_def assms(1))
  ultimately show ?thesis using ev by blast
qed

subsection \<open>The queue of the system services\<close>

definition service_bytes :: u16 where "service_bytes = 2188"

abbreviation service_descs :: "ptr \<Rightarrow> ptr" where "service_descs p \<equiv> queue_descs False p NULL"

abbreviation service_bufs :: "ptr \<Rightarrow> ptr" where "service_bufs p \<equiv> queue_bufs False p 16"

text \<open>The queue in its block at \<open>p\<close>: sixteen free buffers of 128 bytes.\<close>

definition service_block :: "memory \<Rightarrow> ptr \<Rightarrow> bool" where
  "service_block m p \<longleftrightarrow> queue_home 16 p (service_descs p) (service_bufs p) 128 m"

lemma service_block_cong:
  assumes "service_block m p" and "agree (span p 2188) m' m"
  shows "service_block m' p"
proof -
  have "span p 12 \<subseteq> span p 2188" "ring (p + 12) 16 \<subseteq> span p 2188" unfolding ring_def by (rule span_sub, simp)+
  then have "agree (span p 12 \<union> ring (service_descs p) 16) m m'"
    by (intro agree_sym [OF agree_mono [OF assms(2)]]) (simp add: queue_descs_def)
  then show ?thesis using queue_home_cong assms(1) by (simp add: service_block_def)
qed

lemma alloc_only_mem: "esp_amp_sys_info_alloc c i sz cap s = Some (p, s') \<Longrightarrow> \<forall>m. s'\<lparr>mem := m\<rparr> = s\<lparr>mem := m\<rparr>"
  by (auto simp: esp_amp_sys_info_alloc_def Let_def split: if_splits option.splits Option.bind_splits)

lemma service_len: "clz_spec clz \<Longrightarrow> get_power_len clz SERVICE_QUEUE_LEN = 16"
proof -
  assume "clz_spec clz"
  then obtain k where k: "unat (get_power_len clz SERVICE_QUEUE_LEN) = 2 ^ k" "2 ^ 4 \<le> (2 :: nat) ^ k" "(2 :: nat) ^ k < 2 ^ 5"
    using get_power_len_bits [of clz SERVICE_QUEUE_LEN] by (auto simp: SERVICE_QUEUE_LEN_def)
  then have "4 \<le> k" "k < 5" by (simp_all only: power_increasing_iff power_strict_increasing_iff)
  then have "k = 4" by simp
  then show ?thesis using k(1) by (simp add: word_unat_eq_iff)
qed

lemma service_queue_up:
  assumes "pool_ok c SYS_INFO_CAP_HP (mem s) []" and "IS_MAIN_CORE c" and "clz_spec clz"
    and "block_fits c SYS_INFO_CAP_HP [] service_bytes" and p: "p = buf_after c SYS_INFO_CAP_HP []"
  shows "\<exists>q m. esp_amp_queue_main_init clz c SERVICE_QUEUE_LEN SERVICE_QUEUE_ITEM_SIZE (Some f) a False i s = Some (ESP_OK, Some q, s\<lparr>mem := m\<rparr>) \<and>
    fresh_handle 16 (service_descs p) 128 (Some f) a False q \<and> service_block m p \<and> agree (- pool_area c SYS_INFO_CAP_HP) m (mem s) \<and>
    pool_ok c SYS_INFO_CAP_HP m [(i, service_bytes)] \<and> p \<noteq> NULL"
proof -
  have rs: "ring_size (unat (16 :: u16))" by (simp add: ring_size_def exI [of _ "4 :: nat"])
  have isz: "(128 :: u16) = get_aligned_size SERVICE_QUEUE_ITEM_SIZE"
    by (simp add: word_unat_eq_iff unat_get_aligned_size SERVICE_QUEUE_ITEM_SIZE_def)
  have bytes: "(2188 :: nat) = queue_hp_bytes False (unat (16 :: u16)) 128" by (simp add: queue_hp_bytes_def)
  have pm: "\<not> split_queue c False" "\<not> pm_active c" using assms(2) by (simp_all add: split_queue_def pm_active_def)
  have fits: "block_fits c SYS_INFO_CAP_HP [] (word_of_nat 2188)" using assms(4) by (simp add: service_bytes_def)
  have "i \<notin> fst ` set ([] :: block list)" by simp
  from main_init_joint [OF assms(1) this pm service_len [OF assms(3), symmetric] rs isz _ bytes _ fits p, where cb = "Some f" and priv = a]
  show ?thesis by (auto simp: queue_made_def service_block_def service_bytes_def)
qed

subsection \<open>The counter of light sleep prevention\<close>

text \<open>The counter at \<open>p\<close> is the only block of RTC memory, and the subcore does not use HP memory.\<close>

definition pm_block :: "'z config \<Rightarrow> ptr \<Rightarrow> memory \<Rightarrow> bool" where
  "pm_block c p m \<longleftrightarrow> SUBCORE_TYPE_LP_CORE c \<and> pool_ok c SYS_INFO_CAP_RTC m [(SYS_INFO_RESERVED_ID_PM, 4)] \<and>
     p = buf_addr c SYS_INFO_CAP_RTC SYS_INFO_RESERVED_ID_PM [(SYS_INFO_RESERVED_ID_PM, 4)] \<and> load8 m p = 0"

lemma pm_block_zero: "pm_block c p m \<Longrightarrow> load8 m p = 0"
  unfolding pm_block_def by blast

lemma pm_block_away:
  assumes "mem_map_ok c" and "pm_block c p m"
  shows "p \<in> pool_area c SYS_INFO_CAP_RTC" "pool_area c SYS_INFO_CAP_RTC \<inter> pool_area c SYS_INFO_CAP_HP = {}"
proof -
  have "map_of [(SYS_INFO_RESERVED_ID_PM, 4 :: u16)] SYS_INFO_RESERVED_ID_PM = Some 4" by simp
  moreover have "p \<in> span p (unat (4 :: u16))" by (simp add: in_span_iff)
  ultimately show "p \<in> pool_area c SYS_INFO_CAP_RTC" using buffer_in_area assms(2) unfolding pm_block_def by blast
  show "pool_area c SYS_INFO_CAP_RTC \<inter> pool_area c SYS_INFO_CAP_HP = {}"
    using assms by (intro areas_apart) (simp_all add: pm_block_def)
qed

lemma pm_block_cong:
  assumes "mem_map_ok c" and blk: "pm_block c p m" and ag: "agree (- pool_area c SYS_INFO_CAP_HP) m' m"
  shows "pm_block c p m'"
proof -
  note away = pm_block_away [OF assms(1,2)]
  have rtc: "agree (pool_area c SYS_INFO_CAP_RTC) m' m" using away(2) by (intro agree_mono [OF ag]) auto
  then have "load8 m' p = 0" using away(1) pm_block_zero [OF blk] by (simp add: load8_def agree_def)
  then show ?thesis using blk pool_ok_elsewhere [OF _ rtc] unfolding pm_block_def by blast
qed

text \<open>Both cores are built for the same RTC memory.\<close>

definition rtc_peers :: "'a config \<Rightarrow> 'b config \<Rightarrow> bool" where
  "rtc_peers c d \<longleftrightarrow> SUBCORE_TYPE_LP_CORE d = SUBCORE_TYPE_LP_CORE c \<and>
     pool_head d SYS_INFO_CAP_RTC = pool_head c SYS_INFO_CAP_RTC \<and> pool_end d SYS_INFO_CAP_RTC = pool_end c SYS_INFO_CAP_RTC"

lemma rtc_peers_same:
  assumes "rtc_peers c d"
  shows "pm_block d p m = pm_block c p m" and "peers c d \<Longrightarrow> mem_map_ok d = mem_map_ok c"
  using assms by (simp_all add: rtc_peers_def pm_block_def pool_ok_def buf_addr_def mem_map_ok_def peers_pool [of c d])

lemma pm_up:
  assumes "IS_MAIN_CORE c" and "mem_map_ok c" and hp: "pool_ok c SYS_INFO_CAP_HP (mem s) []"
    and pm: "AUTO_LIGHT_SLEEP_SUPPORT c \<Longrightarrow> SUBCORE_TYPE_LP_CORE c \<and> ok \<and> block_fits c SYS_INFO_CAP_RTC [] 4 \<and> pool_ok c SYS_INFO_CAP_RTC (mem s) []"
  shows "\<exists>m p. (if AUTO_LIGHT_SLEEP_SUPPORT c then esp_amp_system_pm_init ok c s else Some (0, s)) = Some (0, s\<lparr>mem := m, lp_access_hp_cnt := p\<rparr>) \<and>
    pool_ok c SYS_INFO_CAP_HP m [] \<and> (AUTO_LIGHT_SLEEP_SUPPORT c \<longrightarrow> pm_block c p m)"
proof (cases "AUTO_LIGHT_SLEEP_SUPPORT c")
  case True
  let ?rtc = SYS_INFO_CAP_RTC and ?bs = "[] @ [(SYS_INFO_RESERVED_ID_PM, 4 :: u16)]"
  note pm = pm [OF True]
  obtain s1 p where a: "esp_amp_sys_info_alloc c SYS_INFO_RESERVED_ID_PM 4 ?rtc s = Some (p, s1)" and ok1: "pool_ok c ?rtc (mem s1) ?bs"
    and p: "p = buf_addr c ?rtc SYS_INFO_RESERVED_ID_PM ?bs" "p \<noteq> NULL" and look: "map_of ?bs SYS_INFO_RESERVED_ID_PM = Some 4"
    and ag: "agree (- pool_area c ?rtc) (mem s1) (mem s)" and s1: "\<forall>m. s1\<lparr>mem := m\<rparr> = s\<lparr>mem := m\<rparr>"
    by (rule block_placed [of c ?rtc s "[]" SYS_INFO_RESERVED_ID_PM 4 "buf_after c ?rtc []"]) (use pm in auto)
  let ?m = "store8 (mem s1) p 0"
  have "agree (- span p (unat (4 :: u16))) ?m (mem s1)" by (auto simp: agree_def store8_def in_span_iff)
  then have "pool_ok c ?rtc ?m ?bs" using pool_ok_buffer_write [OF ok1 look] p(1) by simp
  then have blk: "pm_block c p ?m" using pm p(1) by (simp add: pm_block_def)
  have "agree (pool_area c SYS_INFO_CAP_HP) ?m (mem s)"
    using pm_block_away [OF assms(2) blk] ag by (auto simp: agree_def store8_def)
  then have "pool_ok c SYS_INFO_CAP_HP ?m []" by (rule pool_ok_elsewhere [OF hp])
  moreover have "s1\<lparr>lp_access_hp_cnt := p, mem := ?m\<rparr> = s\<lparr>mem := ?m, lp_access_hp_cnt := p\<rparr>"
    using s1 [THEN spec, of ?m] by (cases s1; cases s) simp
  ultimately show ?thesis
    using True assms(1) a p(2) pm blk by (intro exI [of _ ?m] exI [of _ p]) (simp add: esp_amp_system_pm_init_def Let_def)
next
  case False
  then show ?thesis using hp by (intro exI [of _ "mem s"] exI [of _ "lp_access_hp_cnt s"]) simp
qed

subsection \<open>Blocks of the pool\<close>

lemma buffers_apart:
  assumes ok: "pool_ok c cap m bs" and i: "map_of bs i = Some x" and j: "map_of bs j = Some y" and "i \<noteq> j"
  shows "span (buf_addr c cap i bs) (unat x) \<inter> span (buf_addr c cap j bs) (unat y) = {}"
proof -
  let ?h = "pool_head c cap + 8"
  note bi = buf_addr_bounds [OF ok i] and bj = buf_addr_bounds [OF ok j]
  have lt: "unat (pool_head c cap) + 8 + extent bs \<le> unat (pool_end c cap)" and en: "unat (pool_end c cap) < 4294836224"
    using ok by (simp_all add: pool_ok_def)
  have h8: "unat ?h = unat (pool_head c cap) + 8" using lt en by (intro unat_add_numeral) linarith
  have "i \<in> fst ` set bs" "j \<in> fst ` set bs" using i j by (force dest: map_of_SomeD)+
  from block_addr_separate [OF this assms(4), of ?h]
  have "unat (block_addr ?h i bs) + stride x \<le> unat (block_addr ?h j bs) \<or> unat (block_addr ?h j bs) + stride y \<le> unat (block_addr ?h i bs)"
    using i j lt en h8 by simp
  then show ?thesis using bi bj en by (intro disj_nowrap) linarith+
qed

text \<open>Creating an event changes the memory of the pool only, and no block that was there.\<close>

lemma event_create_keeps:
  assumes ok: "pool_ok c SYS_INFO_CAP_HP (mem s) bs" and "i \<notin> fst ` set bs" and "block_fits c SYS_INFO_CAP_HP bs 4"
    and j: "map_of bs j = Some n"
  obtains m where "esp_amp_event_create c i s = Some (0, s\<lparr>mem := m\<rparr>)" "pool_ok c SYS_INFO_CAP_HP m (bs @ [(i, 4)])"
    "agree (span (buf_addr c SYS_INFO_CAP_HP j bs) (unat n)) m (mem s)" "agree (- pool_area c SYS_INFO_CAP_HP) m (mem s)"
proof -
  let ?hp = SYS_INFO_CAP_HP and ?bs = "bs @ [(i, 4)]"
  let ?p = "buf_addr c ?hp i ?bs"
  obtain s1 where a: "esp_amp_sys_info_alloc c i 4 ?hp s = Some (?p, s1)" and ok1: "pool_ok c ?hp (mem s1) ?bs"
    using sys_info.alloc_done [OF ok assms(2,3)] by blast
  have nn: "?p \<noteq> NULL" using sys_info.place_nonnull [OF ok1, of i] by simp
  let ?m = "store32 (mem s1) ?p 0"
  have jn: "j \<in> fst ` set bs" "j \<noteq> i" using j assms(2) by (force dest: map_of_SomeD)+
  have look: "map_of ?bs i = Some 4" "map_of ?bs j = Some n"
    using j assms(2) by (simp_all add: map_add_def map_of_eq_None_iff [THEN iffD2])
  have "span ?p 4 \<inter> span (buf_addr c ?hp j ?bs) (unat n) = {}"
    using buffers_apart [OF ok1 look] jn(2) by auto
  then have "agree (span (buf_addr c ?hp j bs) (unat n)) ?m (mem s1)"
    using sys_info.place_stable [OF jn(1), of c ?hp "(i, 4)"] by (intro agree_store32 agree_refl) simp
  then have k: "agree (span (buf_addr c ?hp j bs) (unat n)) ?m (mem s)"
    using alloc_keeps_buffers [OF ok a j] by (rule agree_trans)
  have "agree (- span ?p (unat (4 :: u16))) ?m (mem s1)" by (intro agree_store32 agree_refl) simp
  then have ok2: "pool_ok c ?hp ?m ?bs" by (rule pool_ok_buffer_write [OF ok1 look(1)])
  have "agree (- pool_area c ?hp) ?m (mem s1)" using buffer_in_area [OF ok1 look(1)] by (intro agree_store32 agree_refl) auto
  then have out: "agree (- pool_area c ?hp) ?m (mem s)" using alloc_outside_area [OF ok a] by (rule agree_trans)
  have "esp_amp_event_create c i s = Some (0, s\<lparr>mem := ?m\<rparr>)"
    using a nn alloc_only_mem [OF a] by (simp add: esp_amp_event_create_def)
  then show thesis using that ok2 k out by blast
qed

subsection \<open>The maincore comes up\<close>

text \<open>What the maincore relies on: FreeRTOS creates its task and its event group and leaves the state of
  the components alone.\<close>

definition calm :: "('f, 'z) ev \<Rightarrow> ('f, 'z) ev \<Rightarrow> bool" where
  "calm s' s \<longleftrightarrow> mem s' = mem s \<and> lp_access_hp_cnt s' = lp_access_hp_cnt s \<and> sw_intr_handlers s' = sw_intr_handlers s \<and> event_table s' = event_table s"

definition init_env_ok :: "(ptr \<Rightarrow> ('f, 'z) ev \<Rightarrow> u32) \<Rightarrow> nat \<Rightarrow> ('f, 'z) init_env \<Rightarrow> bool" where
  "init_env_ok gbits K env \<longleftrightarrow> ENABLE_SUPPLICANT env \<and> intr_alloc_result env = 0 \<and> clz_spec (builtin_clz env) \<and>
     os_events_ok (event_os env) gbits \<and> quiet_from K (event_peer env) \<and>
     (\<forall>s. fst (create_supplicant env s) \<noteq> NULL \<and> calm (snd (create_supplicant env s)) s) \<and>
     (\<forall>s. fst (xEventGroupCreateStatic (event_os env) s) \<noteq> NULL \<and> calm (snd (xEventGroupCreateStatic (event_os env) s)) s) \<and>
     (\<forall>h b s. calm (xEventGroupSetBits (event_os env) h b s) s)"

lemma reserved_ids [simp]:
  "SW_INTR_RESERVED_ID_SYS_SVC \<le> SW_INTR_ID_MAX" "SW_INTR_RESERVED_ID_PANIC \<le> SW_INTR_ID_MAX" "SW_INTR_RESERVED_ID_EVENT \<le> SW_INTR_ID_MAX"
  by (simp_all add: word_le_nat_alt SW_INTR_RESERVED_ID_SYS_SVC_def SW_INTR_RESERVED_ID_PANIC_def SW_INTR_RESERVED_ID_EVENT_def SW_INTR_ID_MAX_def)

lemma system_up:
  assumes "port_ok c" and "IS_MAIN_CORE c" and env: "init_env_ok gbits K env"
    and pm: "(if AUTO_LIGHT_SLEEP_SUPPORT c then esp_amp_system_pm_init (pm_register_ok env) c s0 else Some (0, s0)) = Some (0, s)"
    and "pool_ok c SYS_INFO_CAP_HP (mem s) []" and "block_fits c SYS_INFO_CAP_HP [] service_bytes"
    and p: "p = buf_after c SYS_INFO_CAP_HP []" and slots: "2 \<le> free_slots (sw_intr_handlers s)"
  shows "\<exists>srv' s'. esp_amp_system_init env c srv s0 = Some (0, srv', s') \<and> s_system_service_ready srv' \<and> supplicant_daemon srv' \<noteq> NULL \<and>
    fresh_handle 16 (service_descs p) 128 (Some (fp_recv_cb env)) NULL False (service_queue srv') \<and> service_block (mem s') p \<and>
    pool_ok c SYS_INFO_CAP_HP (mem s') [(SYS_INFO_RESERVED_ID_SYSTEM, service_bytes)] \<and>
    agree (- pool_area c SYS_INFO_CAP_HP) (mem s') (mem s) \<and> lp_access_hp_cnt s' = lp_access_hp_cnt s \<and> event_table s' = event_table s \<and>
    free_slots (sw_intr_handlers s') + 2 = free_slots (sw_intr_handlers s) \<and>
    registered SW_INTR_RESERVED_ID_SYS_SVC (fp_recv_cb env) s' \<and> registered SW_INTR_RESERVED_ID_PANIC (fp_panic_handler env) s'"
proof -
  have clz: "clz_spec (builtin_clz env)" and sup: "ENABLE_SUPPLICANT env" using env by (simp_all add: init_env_ok_def)
  obtain q m where q: "esp_amp_queue_main_init (builtin_clz env) c SERVICE_QUEUE_LEN SERVICE_QUEUE_ITEM_SIZE (Some (fp_recv_cb env)) NULL False
      SYS_INFO_RESERVED_ID_SYSTEM s = Some (ESP_OK, Some q, s\<lparr>mem := m\<rparr>)"
    "fresh_handle 16 (service_descs p) 128 (Some (fp_recv_cb env)) NULL False q" "service_block m p"
    "agree (- pool_area c SYS_INFO_CAP_HP) m (mem s)" "pool_ok c SYS_INFO_CAP_HP m [(SYS_INFO_RESERVED_ID_SYSTEM, service_bytes)]"
    using service_queue_up [OF assms(5,2) clz assms(6) p, of "fp_recv_cb env" NULL SYS_INFO_RESERVED_ID_SYSTEM] by (elim exE conjE) simp
  have npm: "\<not> pm_active c" using assms(2) by (simp add: pm_active_def)
  have qf: "\<not> master q" "callback_fc q = Some (fp_recv_cb env)" using q(2) by (simp_all add: fresh_handle_def)
  obtain s2 where s2: "esp_amp_sw_intr_add_handler c SW_INTR_RESERVED_ID_SYS_SVC (Some (fp_recv_cb env)) (priv_data q) (s\<lparr>mem := m\<rparr>) = Some (0, s2)"
    "mem s2 = m" "lp_access_hp_cnt s2 = lp_access_hp_cnt s" "event_table s2 = event_table s"
    "Suc (free_slots (sw_intr_handlers s2)) = free_slots (sw_intr_handlers s)" "registered SW_INTR_RESERVED_ID_SYS_SVC (fp_recv_cb env) s2"
    using add_handler_effect [OF assms(1) reserved_ids(1), of "s\<lparr>mem := m\<rparr>" "fp_recv_cb env" "priv_data q"] slots by auto
  obtain t s3 where t: "create_supplicant env s2 = (t, s3)" by (cases "create_supplicant env s2")
  have c3: "t \<noteq> NULL" "calm s3 s2" using env [unfolded init_env_ok_def] t by (metis fst_conv snd_conv)+
  obtain s4 where s4: "esp_amp_sw_intr_add_handler c SW_INTR_RESERVED_ID_PANIC (Some (fp_panic_handler env)) NULL s3 = Some (0, s4)"
    "mem s4 = mem s3" "lp_access_hp_cnt s4 = lp_access_hp_cnt s3" "event_table s4 = event_table s3"
    "Suc (free_slots (sw_intr_handlers s4)) = free_slots (sw_intr_handlers s3)"
    "registered SW_INTR_RESERVED_ID_PANIC (fp_panic_handler env) s4" "\<forall>j g. registered j g s3 \<longrightarrow> registered j g s4"
    using add_handler_effect [OF assms(1) reserved_ids(2), of s3 "fp_panic_handler env" NULL] slots s2(5) c3(2) by (auto simp: calm_def)
  have "registered SW_INTR_RESERVED_ID_SYS_SVC (fp_recv_cb env) s4" using s2(6) s4(7) c3(2) by (simp add: registered_def calm_def)
  moreover have "esp_amp_system_init env c srv s0 =
      Some (0, srv\<lparr>service_queue := q, supplicant_daemon := t, s_system_service_ready := True\<rparr>, s4)"
    unfolding esp_amp_system_init_def pm using assms(2) sup q(1) qf s2(1) t c3(1) s4(1) npm
    by (simp add: esp_amp_system_service_init_def esp_amp_queue_intr_enable_def esp_amp_system_panic_init_def Let_def)
  ultimately show ?thesis using q(2-5) s2(2-5) c3 s4(2-6) by (auto simp: calm_def)
qed

lemma fr_section_handlers:
  assumes "port_ok c" and "\<not> IS_ENV_BM c"
  shows "sw_intr_handlers (portENTER_CRITICAL c s) = sw_intr_handlers s" "sw_intr_handlers (portEXIT_CRITICAL c s) = sw_intr_handlers s"
    "lp_access_hp_cnt (portENTER_CRITICAL c s) = lp_access_hp_cnt s" "lp_access_hp_cnt (portEXIT_CRITICAL c s) = lp_access_hp_cnt s"
  by (rule sw_intr_handlers_more, rule crit_frame_fields(6), rule fr_sections [OF assms])+
    (rule crit_frame_fields(5), rule fr_sections [OF assms])+

lemma bind_handlers:
  assumes "port_ok c" and "\<not> IS_ENV_BM c" and "\<forall>h b s. calm (xEventGroupSetBits os h b s) s"
    and "esp_amp_event_bind_handle os peer c x h s = Some (r, s')"
  shows "sw_intr_handlers s' = sw_intr_handlers s" "lp_access_hp_cnt s' = lp_access_hp_cnt s"
  using assms(3,4) fr_section_handlers [OF assms(1,2)]
  by (auto simp: esp_amp_event_bind_handle_def calm_def Let_def split: if_splits Option.bind_splits)

lemma idx_free_reset: "tbl \<noteq> [] \<Longrightarrow> idx_free (map (\<lambda>_. \<lparr>ev_sysinfo_id = 0, event_handle = NULL, event_bits = NULL\<rparr>) tbl) < length tbl"
  by (cases tbl) simp_all

lemma event_up:
  assumes "port_ok c" and "\<not> IS_ENV_BM c" and env: "init_env_ok gbits K env"
    and ok: "pool_ok c SYS_INFO_CAP_HP (mem s) [(i, n)]" "i < SYS_INFO_RESERVED_ID_EVENT_MAIN \<or> SYS_INFO_RESERVED_ID_EVENT_SUB < i"
    and fits: "block_fits c SYS_INFO_CAP_HP [(i, n), (SYS_INFO_RESERVED_ID_EVENT_MAIN, 4)] 4"
    and slots: "0 < free_slots (sw_intr_handlers s)" and tbl: "event_table s \<noteq> []" and p: "p = buf_addr c SYS_INFO_CAP_HP i [(i, n)]"
  shows "\<exists>s'. fr_event_init (event_os env) (event_peer env) (fp_event_isr env) c s = Some (0, s') \<and>
    pool_ok c SYS_INFO_CAP_HP (mem s') [(i, n), (SYS_INFO_RESERVED_ID_EVENT_MAIN, 4), (SYS_INFO_RESERVED_ID_EVENT_SUB, 4)] \<and>
    agree (span p (unat n)) (mem s') (mem s) \<and> agree (- pool_area c SYS_INFO_CAP_HP) (mem s') (mem s) \<and>
    lp_access_hp_cnt s' = lp_access_hp_cnt s \<and> registered SW_INTR_RESERVED_ID_EVENT (fp_event_isr env) s' \<and>
    (\<forall>j g. registered j g s \<longrightarrow> registered j g s')"
proof -
  let ?hp = SYS_INFO_CAP_HP and ?em = SYS_INFO_RESERVED_ID_EVENT_MAIN and ?es = SYS_INFO_RESERVED_ID_EVENT_SUB
  let ?b1 = "[(i, n)]" and ?b2 = "[(i, n), (?em, 4)]" and ?b3 = "[(i, n), (?em, 4), (?es, 4)]"
  have ids: "i \<noteq> ?em" "i \<noteq> ?es" "?em \<noteq> ?es" using ok(2) by (auto simp: SYS_INFO_RESERVED_ID_EVENT_MAIN_def SYS_INFO_RESERVED_ID_EVENT_SUB_def)
  have os: "os_events_ok (event_os env) gbits" "quiet_from K (event_peer env)" "\<forall>h b s. calm (xEventGroupSetBits (event_os env) h b s) s"
    using env by (simp_all add: init_env_ok_def)
  have fits1: "block_fits c ?hp ?b1 4" using fits by (simp add: block_fits_def)
  obtain m1 where m1: "esp_amp_event_create c ?em s = Some (0, s\<lparr>mem := m1\<rparr>)" "pool_ok c ?hp m1 ?b2" "agree (span p (unat n)) m1 (mem s)"
    "agree (- pool_area c ?hp) m1 (mem s)" by (rule event_create_keeps [OF ok(1), of ?em i n]) (use ids fits1 p in auto)
  have p2: "p = buf_addr c ?hp i ?b2" using sys_info.place_stable [of i ?b1 c ?hp "(?em, 4)"] p by simp
  obtain m2 where m2: "esp_amp_event_create c ?es (s\<lparr>mem := m1\<rparr>) = Some (0, s\<lparr>mem := m2\<rparr>)" "pool_ok c ?hp m2 ?b3" "agree (span p (unat n)) m2 m1"
    "agree (- pool_area c ?hp) m2 m1" by (rule event_create_keeps [of c "s\<lparr>mem := m1\<rparr>" ?b2 ?es i n]) (use m1(2) ids fits p2 in auto)
  define s5 where "s5 = portEXIT_CRITICAL c (let s3 = portENTER_CRITICAL c (s\<lparr>mem := m2\<rparr>)
    in s3\<lparr>event_table := map (\<lambda>_. \<lparr>ev_sysinfo_id = 0, event_handle = NULL, event_bits = NULL\<rparr>) (event_table s3)\<rparr>)"
  note fl = fr_section_fields [OF assms(1,2)] fr_section_table [OF assms(1,2)] fr_section_handlers [OF assms(1,2)]
  obtain h s6 where g: "xEventGroupCreateStatic (event_os env) s5 = (h, s6)" by (cases "xEventGroupCreateStatic (event_os env) s5")
  have c6: "h \<noteq> NULL" "calm s6 s5" using env [unfolded init_env_ok_def] g by (metis fst_conv snd_conv)+
  then have s6: "mem s6 = m2" "lp_access_hp_cnt s6 = lp_access_hp_cnt s" "sw_intr_handlers s6 = sw_intr_handlers s"
    "event_table s6 = map (\<lambda>_. \<lparr>ev_sysinfo_id = 0, event_handle = NULL, event_bits = NULL\<rparr>) (event_table s)"
    by (simp_all add: calm_def s5_def Let_def fl)
  have ev: "event_bits_of c ?es s6 = Some (buf_addr c ?hp ?es ?b3)" using m2(2) s6(1) ids by (intro event_bits_of_pool) simp_all
  obtain s7 where s7: "esp_amp_event_bind_handle (event_os env) (event_peer env) c ?es h s6 = Some (0, s7)"
    "mem s7 = store32 m2 (buf_addr c ?hp ?es ?b3) 0"
    using bind_effect [OF os(1) assms(1,2) os(2) ev c6(1)] idx_free_reset [OF tbl] s6 by auto
  have h7: "sw_intr_handlers s7 = sw_intr_handlers s" "lp_access_hp_cnt s7 = lp_access_hp_cnt s"
    using bind_handlers [OF assms(1,2) os(3) s7(1)] s6(2,3) by simp_all
  obtain s8 where s8: "esp_amp_sw_intr_add_handler c SW_INTR_RESERVED_ID_EVENT (Some (fp_event_isr env)) NULL s7 = Some (0, s8)"
    "mem s8 = mem s7" "lp_access_hp_cnt s8 = lp_access_hp_cnt s7" "registered SW_INTR_RESERVED_ID_EVENT (fp_event_isr env) s8" "\<forall>j g. registered j g s7 \<longrightarrow> registered j g s8"
    using add_handler_effect [OF assms(1) reserved_ids(3), of s7 "fp_event_isr env" NULL] slots h7(1) by auto
  have look: "map_of ?b3 ?es = Some 4" "map_of ?b3 i = Some n" using ids by simp_all
  have p3: "p = buf_addr c ?hp i ?b3" using sys_info.place_stable [of i ?b2 c ?hp "(?es, 4)"] p2 by simp
  have "span (buf_addr c ?hp ?es ?b3) 4 \<inter> span p (unat n) = {}" using buffers_apart [OF m2(2) look] ids(2) p3 by auto
  then have "agree (span p (unat n)) (mem s7) m2" unfolding s7(2) by (intro agree_store32 agree_refl)
  then have k: "agree (span p (unat n)) (mem s8) (mem s)" using m2(3) m1(3) s8(2) by (metis agree_trans)
  have "agree (- span (buf_addr c ?hp ?es ?b3) (unat (4 :: u16))) (mem s7) m2" unfolding s7(2) by (intro agree_store32 agree_refl) simp
  then have "pool_ok c ?hp (mem s8) ?b3" using pool_ok_buffer_write [OF m2(2) look(1)] s8(2) by simp
  moreover have "fr_event_init (event_os env) (event_peer env) (fp_event_isr env) c s = Some (0, s8)"
    using m1(1) m2(1) g c6(1) s7(1) s8(1) by (simp add: fr_event_init_def s5_def Let_def)
  moreover have "registered j f s8" if "registered j f s" for j f using that s8(5) h7 by (simp add: registered_def)
  moreover have "agree (- pool_area c ?hp) (mem s7) m2"
    unfolding s7(2) using buffer_in_area [OF m2(2) look(1)] by (intro agree_store32 agree_refl) auto
  then have "agree (- pool_area c ?hp) (mem s8) (mem s)" using m2(4) m1(4) s8(2) by (metis agree_trans)
  ultimately show ?thesis using k s8(3,4) h7(2) by metis
qed

abbreviation init_blocks :: "block list" where
  "init_blocks \<equiv> [(SYS_INFO_RESERVED_ID_SYSTEM, service_bytes), (SYS_INFO_RESERVED_ID_EVENT_MAIN, 4), (SYS_INFO_RESERVED_ID_EVENT_SUB, 4)]"

lemma maincore_up:
  assumes "port_ok c" and "IS_MAIN_CORE c" and "\<not> IS_ENV_BM c" and "mem_map_ok c"
    and "AUTO_LIGHT_SLEEP_SUPPORT c \<longrightarrow> SUBCORE_TYPE_LP_CORE c \<and> pm_register_ok env \<and> block_fits c SYS_INFO_CAP_RTC [] 4"
    and "init_env_ok gbits K env" and "ESP_AMP_SW_INTR_BIT_ADDR c \<noteq> NULL"
    and "block_fits c SYS_INFO_CAP_HP [(SYS_INFO_RESERVED_ID_SYSTEM, service_bytes), (SYS_INFO_RESERVED_ID_EVENT_MAIN, 4)] 4"
    and "3 \<le> free_slots (sw_intr_handlers s)" and "event_table s \<noteq> []"
  obtains srv' s' p where "esp_amp_init env c srv s = Some (0, srv', s')" "supplicant_daemon srv' \<noteq> NULL"
    "registered SW_INTR_RESERVED_ID_SYS_SVC (fp_recv_cb env) s'" "registered SW_INTR_RESERVED_ID_PANIC (fp_panic_handler env) s'"
    "registered SW_INTR_RESERVED_ID_EVENT (fp_event_isr env) s'" "p = buf_addr c SYS_INFO_CAP_HP SYS_INFO_RESERVED_ID_SYSTEM init_blocks"
    "pool_ok c SYS_INFO_CAP_HP (mem s') init_blocks" "service_block (mem s') p"
    "fresh_handle 16 (service_descs p) 128 (Some (fp_recv_cb env)) NULL False (service_queue srv')"
    "AUTO_LIGHT_SLEEP_SUPPORT c \<longrightarrow> pm_block c (lp_access_hp_cnt s') (mem s')"
proof -
  let ?hp = SYS_INFO_CAP_HP
  let ?sys = "[(SYS_INFO_RESERVED_ID_SYSTEM, service_bytes)]"
  obtain s1 where sw: "esp_amp_sw_intr_init c (intr_alloc_result env) s = (0, s1)" "sw_intr_handlers s1 = sw_intr_handlers s" "event_table s1 = event_table s"
    using assms(2,3,6,7) by (auto simp: esp_amp_sw_intr_init_def Let_def esp_amp_platform_sw_intr_install_def init_env_ok_def
        esp_amp_platform_sw_intr_enable_def pmu_sw_intr_enable_def intmtx_sw_intr_enable_def)
  obtain s2 where si: "esp_amp_sys_info_init c s1 = (0, s2)" "sw_intr_handlers s2 = sw_intr_handlers s" "event_table s2 = event_table s"
    using assms(2) sw(2,3) by (simp add: esp_amp_sys_info_init_def Let_def)
  have ok2: "pool_ok c cap (mem s2) []" if "cap_available c cap" for cap using init_pool_ok [OF assms(4,2) that, of s1] si(1) by simp
  obtain m l where pm: "(if AUTO_LIGHT_SLEEP_SUPPORT c then esp_amp_system_pm_init (pm_register_ok env) c s2 else Some (0, s2)) =
      Some (0, s2\<lparr>mem := m, lp_access_hp_cnt := l\<rparr>)" "pool_ok c ?hp m []" "AUTO_LIGHT_SLEEP_SUPPORT c \<longrightarrow> pm_block c l m"
    using pm_up [OF assms(2,4), of s2 "pm_register_ok env"] ok2 assms(5) by (auto simp: cap_available_def)
  let ?s3 = "s2\<lparr>mem := m, lp_access_hp_cnt := l\<rparr>"
  have fits: "block_fits c ?hp [] service_bytes" using assms(8) by (simp add: block_fits_def)
  define p where "p = buf_after c ?hp []"
  have two: "2 \<le> free_slots (sw_intr_handlers ?s3)" "pool_ok c ?hp (mem ?s3) []" using assms(9) si(2) pm(2) by simp_all
  from system_up [OF assms(1,2,6) pm(1) two(2) fits p_def two(1), of srv] obtain srv3 s3 where
    y: "esp_amp_system_init env c srv s2 = Some (0, srv3, s3)" "supplicant_daemon srv3 \<noteq> NULL"
      "fresh_handle 16 (service_descs p) 128 (Some (fp_recv_cb env)) NULL False (service_queue srv3)" "service_block (mem s3) p"
      "pool_ok c ?hp (mem s3) ?sys" "event_table s3 = event_table s2" "free_slots (sw_intr_handlers s3) + 2 = free_slots (sw_intr_handlers s2)"
      "registered SW_INTR_RESERVED_ID_SYS_SVC (fp_recv_cb env) s3" "registered SW_INTR_RESERVED_ID_PANIC (fp_panic_handler env) s3"
      "agree (- pool_area c ?hp) (mem s3) m" "lp_access_hp_cnt s3 = l"
    by (elim exE conjE) simp
  have pa: "p = buf_addr c ?hp SYS_INFO_RESERVED_ID_SYSTEM ?sys" using buf_addr_snoc [of SYS_INFO_RESERVED_ID_SYSTEM "[]" c ?hp service_bytes] by (simp add: p_def)
  have rng: "SYS_INFO_RESERVED_ID_SYSTEM < SYS_INFO_RESERVED_ID_EVENT_MAIN \<or> SYS_INFO_RESERVED_ID_EVENT_SUB < SYS_INFO_RESERVED_ID_SYSTEM"
    by (simp add: word_less_nat_alt SYS_INFO_RESERVED_ID_SYSTEM_def SYS_INFO_RESERVED_ID_EVENT_SUB_def)
  have "0 < free_slots (sw_intr_handlers s3)" "event_table s3 \<noteq> []" using y(6,7) assms(9,10) si by simp_all
  from event_up [OF assms(1,3,6) y(5) rng assms(8) this pa] obtain s4 where
    e: "esp_amp_event_init env c s3 = Some (0, s4)" "pool_ok c ?hp (mem s4) init_blocks" "agree (span p (unat service_bytes)) (mem s4) (mem s3)"
      "agree (- pool_area c ?hp) (mem s4) (mem s3)" "lp_access_hp_cnt s4 = lp_access_hp_cnt s3"
      "registered SW_INTR_RESERVED_ID_EVENT (fp_event_isr env) s4" "\<forall>j g. registered j g s3 \<longrightarrow> registered j g s4"
    using assms(3) by (auto simp: esp_amp_event_init_def)
  then have "esp_amp_init env c srv s = Some (0, srv3, s4)" using sw(1) si(1) y(1) by (simp add: esp_amp_init_def)
  moreover have "p = buf_addr c ?hp SYS_INFO_RESERVED_ID_SYSTEM init_blocks" by (simp add: pa buf_addr_def)
  moreover have "service_block (mem s4) p" using service_block_cong [OF y(4)] e(3) by (simp add: service_bytes_def)
  moreover have "AUTO_LIGHT_SLEEP_SUPPORT c \<longrightarrow> pm_block c (lp_access_hp_cnt s4) (mem s4)"
    using pm_block_cong [OF assms(4) _ agree_trans [OF e(4) y(10)], of l] pm(3) e(5) y(11) by simp
  ultimately show thesis using that y(2,3,8,9) e(2,6,7) by blast
qed

subsection \<open>The subcore comes up\<close>

lemma init_block_ids:
  "map_of init_blocks SYS_INFO_RESERVED_ID_SYSTEM = Some service_bytes"
  "map_of init_blocks SYS_INFO_RESERVED_ID_EVENT_MAIN = Some 4" "map_of init_blocks SYS_INFO_RESERVED_ID_EVENT_SUB = Some 4"
  by (simp_all add: SYS_INFO_RESERVED_ID_SYSTEM_def SYS_INFO_RESERVED_ID_EVENT_MAIN_def SYS_INFO_RESERVED_ID_EVENT_SUB_def)

lemma platform_enable_fields [simp]:
  "mem (esp_amp_platform_sw_intr_enable c s) = mem s" "mem (esp_amp_platform_intr_enable s) = mem s"
  by (simp_all add: esp_amp_platform_sw_intr_enable_def pmu_sw_intr_enable_def intmtx_sw_intr_enable_def esp_amp_platform_intr_enable_def)

text \<open>The subcore finds the counter, if it is there, and nothing else changes.\<close>

lemma pm_found:
  assumes "\<not> IS_MAIN_CORE d" and "AUTO_LIGHT_SLEEP_SUPPORT d \<Longrightarrow> pm_block d l (mem t)"
  shows "(if AUTO_LIGHT_SLEEP_SUPPORT d then esp_amp_system_pm_init ok d t else Some (0, t)) =
    Some (0, if AUTO_LIGHT_SLEEP_SUPPORT d then t\<lparr>lp_access_hp_cnt := l\<rparr> else t)"
proof (cases "AUTO_LIGHT_SLEEP_SUPPORT d")
  case True
  with assms(2) have b: "pool_ok d SYS_INFO_CAP_RTC (mem t) [(SYS_INFO_RESERVED_ID_PM, 4)]"
    "l = buf_addr d SYS_INFO_CAP_RTC SYS_INFO_RESERVED_ID_PM [(SYS_INFO_RESERVED_ID_PM, 4)]" by (simp_all add: pm_block_def)
  have "l \<noteq> NULL" using sys_info.place_nonnull [OF b(1), of SYS_INFO_RESERVED_ID_PM] b(2) by simp
  then show ?thesis
    using True assms(1) get_pool_eq [OF b(1), of SYS_INFO_RESERVED_ID_PM] b(2) by (simp add: esp_amp_system_pm_init_def)
qed simp

lemma subcore_up:
  fixes env :: "('f, 'z) init_env" and qm :: "'f esp_amp_queue"
  assumes "\<not> IS_MAIN_CORE d" and "IS_ENV_BM d" and "mem_map_ok d" and "ENABLE_SUPPLICANT env"
    and "ESP_AMP_SW_INTR_BIT_ADDR d \<noteq> NULL" and ok: "pool_ok d SYS_INFO_CAP_HP (mem t) init_blocks"
    and p: "p = buf_addr d SYS_INFO_CAP_HP SYS_INFO_RESERVED_ID_SYSTEM init_blocks"
    and pm: "AUTO_LIGHT_SLEEP_SUPPORT d \<Longrightarrow> pm_block d l (mem t)"
    and blk: "service_block (mem t) p" and qm: "fresh_handle 16 (service_descs p) 128 cb a False qm"
  shows "\<exists>srv' t'. esp_amp_init env d srv t = Some (0, srv', t') \<and> mem t' = mem t \<and> s_system_service_ready srv' \<and>
    (AUTO_LIGHT_SLEEP_SUPPORT d \<longrightarrow> lp_access_hp_cnt t' = l) \<and>
    refines 16 (service_descs p) 128 (initial_queue 16 (service_bufs p) 128) (service_queue srv') qm (mem t')"
proof -
  let ?hp = SYS_INFO_CAP_HP
  define t1 where "t1 = esp_amp_platform_intr_enable (esp_amp_platform_sw_intr_enable d t)"
  define t2 where "t2 = (if AUTO_LIGHT_SLEEP_SUPPORT d then t1\<lparr>lp_access_hp_cnt := l\<rparr> else t1)"
  have t2: "mem t1 = mem t" "mem t2 = mem t" by (simp_all add: t1_def t2_def)
  have sw: "esp_amp_sw_intr_init d (intr_alloc_result env) t = (0, t1)"
    using assms(1,2,5) by (simp add: esp_amp_sw_intr_init_def Let_def esp_amp_platform_sw_intr_install_def t1_def)
  have pmi: "(if AUTO_LIGHT_SLEEP_SUPPORT d then esp_amp_system_pm_init (pm_register_ok env) d t1 else Some (0, t1)) = Some (0, t2)"
    unfolding t2_def using pm t2(1) by (intro pm_found assms(1)) simp
  have ok2: "pool_ok d ?hp (mem u) init_blocks" if "mem u = mem t" for u using ok that by simp
  have nn: "buf_addr d ?hp i init_blocks \<noteq> NULL" if "map_of init_blocks i = Some n" for i n
    using sys_info.place_nonnull [OF ok] map_of_SomeD [OF that] by (metis fst_conv image_eqI)
  note get = get_pool_eq [OF ok2]
  have pc: "port_ok d" using assms(2) by (simp add: port_ok_def)
  have pn: "p \<noteq> NULL" using nn [OF init_block_ids(1)] p by simp
  have made: "queue_made False 16 128 p NULL cb a False qm (mem t2)" using blk qm t2(2) by (simp add: queue_made_def service_block_def)
  have "span p 12 \<subseteq> span p (unat service_bytes)" by (intro span_sub) (simp add: service_bytes_def)
  then have area: "span p 12 \<subseteq> pool_area d ?hp" using buffer_in_area [OF ok init_block_ids(1)] p by blast
  have rdy: "pm_ready d p 12 t2" if "pm_active d"
  proof -
    have a: "AUTO_LIGHT_SLEEP_SUPPORT d" using that by (simp add: pm_active_def)
    then have lp: "lp_access_hp_cnt t2 = l" by (simp add: t2_def)
    moreover have "pm_cnt t2 = 0" using pm_block_zero [OF pm [OF a]] by (simp add: pm_cnt_def lp t2(2))
    moreover have "l \<notin> span p 12" using pm_block_away [OF assms(3) pm [OF a]] area by blast
    ultimately show ?thesis by (simp add: pm_ready_def)
  qed
  have rs: "ring_size 16" by (simp add: ring_size_def exI [of _ "4 :: nat"])
  obtain q t3 where q: "esp_amp_queue_sub_init d (Some (fp_notify_cb env)) NULL True SYS_INFO_RESERVED_ID_SYSTEM t2 = Some (ESP_OK, Some q, t3)"
    "mem t3 = mem t2" "pm_frame d t2 t3" "refines 16 (service_descs p) 128 (initial_queue 16 (service_bufs p) 128) q qm (mem t3)"
    using sub_init_attach [OF made rs ok2 [OF t2(2)] init_block_ids(1) p pn pc rdy, of "Some (fp_notify_cb env)" NULL] by auto
  have "AUTO_LIGHT_SLEEP_SUPPORT d \<longrightarrow> lp_access_hp_cnt t3 = l" using q(3) by (simp add: pm_frame_def t2_def)
  moreover have "esp_amp_system_init env d srv t1 = Some (0, srv\<lparr>service_queue := q, s_system_service_ready := True\<rparr>, t3)"
    unfolding esp_amp_system_init_def pmi using assms(1,4) q(1) by (simp add: esp_amp_system_service_init_def)
  moreover have "esp_amp_event_init env d t3 = Some (0, t3)"
    using assms(2) nn [OF init_block_ids(2)] nn [OF init_block_ids(3)] q(2) t2(2)
    by (simp add: esp_amp_event_init_def bm_event_init_def get init_block_ids del: map_of.simps)
  ultimately show ?thesis
    using sw assms(1) q(2,4) t2(2) by (simp add: esp_amp_init_def esp_amp_sys_info_init_def)
qed

subsection \<open>Properties\<close>

text \<open>C8. The two cores come up together, with and without automatic light sleep. With a well-formed memory
  map that has room for the queue of the system services, the two event words and the counter of light
  sleep prevention, three free entries in the interrupt table and a working FreeRTOS, \<open>esp_amp_init\<close> of the
  maincore passes all its assertions, registers the handlers of services, panics and events and starts the
  supplicant; and whenever the subcore runs its own \<open>esp_amp_init\<close> on the memory left by the maincore, it
  succeeds too, the service queues of both cores are the two ends of one empty queue, and with automatic
  light sleep both cores use the same counter, which is zero.\<close>

theorem system_bring_up:
  fixes env :: "('f, 'z) init_env" and env' :: "('f, 'y) init_env"
  assumes "port_ok c" and "IS_MAIN_CORE c" and "\<not> IS_ENV_BM c" and "mem_map_ok c"
    and "AUTO_LIGHT_SLEEP_SUPPORT c \<longrightarrow> SUBCORE_TYPE_LP_CORE c \<and> pm_register_ok env \<and> block_fits c SYS_INFO_CAP_RTC [] 4"
    and "init_env_ok gbits K env" and "ESP_AMP_SW_INTR_BIT_ADDR c \<noteq> NULL"
    and "block_fits c SYS_INFO_CAP_HP [(SYS_INFO_RESERVED_ID_SYSTEM, service_bytes), (SYS_INFO_RESERVED_ID_EVENT_MAIN, 4)] 4"
    and "3 \<le> free_slots (sw_intr_handlers s)" and "event_table s \<noteq> []"
    and "peers c d" and "IS_ENV_BM d" and "AUTO_LIGHT_SLEEP_SUPPORT d = AUTO_LIGHT_SLEEP_SUPPORT c" "rtc_peers c d" and "ENABLE_SUPPLICANT env'"
  shows "\<exists>srv' s' p. esp_amp_init env c srv s = Some (0, srv', s') \<and> supplicant_daemon srv' \<noteq> NULL \<and>
    registered SW_INTR_RESERVED_ID_SYS_SVC (fp_recv_cb env) s' \<and> registered SW_INTR_RESERVED_ID_PANIC (fp_panic_handler env) s' \<and>
    registered SW_INTR_RESERVED_ID_EVENT (fp_event_isr env) s' \<and>
    (\<forall>t srv0. mem t = mem s' \<longrightarrow> (\<exists>srv2 t'. esp_amp_init env' d srv0 t = Some (0, srv2, t') \<and> mem t' = mem s' \<and>
       s_system_service_ready srv2 \<and>
       (AUTO_LIGHT_SLEEP_SUPPORT c \<longrightarrow> lp_access_hp_cnt t' = lp_access_hp_cnt s' \<and> pm_cnt s' = 0) \<and>
       refines 16 (p + 12) 128 (initial_queue 16 (p + 140) 128) (service_queue srv2) (service_queue srv') (mem t')))"
proof -
  let ?hp = SYS_INFO_CAP_HP
  obtain srv3 s4 p where m: "esp_amp_init env c srv s = Some (0, srv3, s4)" "supplicant_daemon srv3 \<noteq> NULL"
    "registered SW_INTR_RESERVED_ID_SYS_SVC (fp_recv_cb env) s4" "registered SW_INTR_RESERVED_ID_PANIC (fp_panic_handler env) s4"
    "registered SW_INTR_RESERVED_ID_EVENT (fp_event_isr env) s4"
    and pa: "p = buf_addr c ?hp SYS_INFO_RESERVED_ID_SYSTEM init_blocks" and ok: "pool_ok c ?hp (mem s4) init_blocks"
    and blk: "service_block (mem s4) p" and q: "fresh_handle 16 (service_descs p) 128 (Some (fp_recv_cb env)) NULL False (service_queue srv3)"
    and cnt: "AUTO_LIGHT_SLEEP_SUPPORT c \<longrightarrow> pm_block c (lp_access_hp_cnt s4) (mem s4)"
    by (rule maincore_up [OF assms(1-10)])
  have d: "\<not> IS_MAIN_CORE d" "ESP_AMP_SW_INTR_BIT_ADDR d \<noteq> NULL" "mem_map_ok d"
    using assms(2,4,7,11) rtc_peers_same(2) [OF assms(14,11)] by (auto simp: peers_def ESP_AMP_SW_INTR_BIT_ADDR_def ESP_AMP_HP_SHARED_MEM_START_def)
  have pd: "p = buf_addr d ?hp SYS_INFO_RESERVED_ID_SYSTEM init_blocks" using pa peers_pool(3) [OF assms(11)] by metis
  have pl: "service_descs p = p + 12" "service_bufs p = p + 140" by (simp_all add: queue_descs_def queue_bufs_def)
  have zero: "AUTO_LIGHT_SLEEP_SUPPORT c \<longrightarrow> pm_cnt s4 = 0" using cnt pm_block_zero by (auto simp: pm_cnt_def)
  have "\<exists>srv2 t'. esp_amp_init env' d srv0 t = Some (0, srv2, t') \<and> mem t' = mem s4 \<and> s_system_service_ready srv2 \<and>
       (AUTO_LIGHT_SLEEP_SUPPORT c \<longrightarrow> lp_access_hp_cnt t' = lp_access_hp_cnt s4 \<and> pm_cnt s4 = 0) \<and>
       refines 16 (p + 12) 128 (initial_queue 16 (p + 140) 128) (service_queue srv2) (service_queue srv3) (mem t')"
    if t: "mem t = mem s4" for t srv0
  proof -
    have okd: "pool_ok d ?hp (mem t) init_blocks" and b: "service_block (mem t) p" using ok blk peers_pool(4) [OF assms(11)] t by simp_all
    have "pm_block d (lp_access_hp_cnt s4) (mem t)" if "AUTO_LIGHT_SLEEP_SUPPORT d"
      using cnt that assms(13) t rtc_peers_same(1) [OF assms(14)] by simp
    from subcore_up [OF d(1) assms(12) d(3) assms(15) d(2) okd pd this b q, of srv0] zero t assms(13)
    show ?thesis unfolding pl by auto
  qed
  then show ?thesis using m by blast
qed

definition bring_env :: "(nat, ptr \<Rightarrow> u32) init_env" where
  "bring_env = \<lparr>ENABLE_SUPPLICANT = True, intr_alloc_result = 0, pm_register_ok = True, builtin_clz = clzsi2, fp_recv_cb = 1,
     fp_notify_cb = 2, fp_panic_handler = 3, fp_event_isr = 4, create_supplicant = \<lambda>s. (0x80, s), event_os = demo_os,
     event_peer = \<lambda>_. (0, False)\<rparr>"

definition bring_state :: "(nat, ptr \<Rightarrow> u32) ev" where
  "bring_state = demo_ev\<lparr>sw_intr_handlers := replicate 4 \<lparr>intr_id = 0, handler = None, arg = NULL\<rparr>\<rparr>"

definition bring_service :: "nat service" where
  "bring_service = \<lparr>service_queue = demo_queue False, s_system_service_ready = False, supplicant_daemon = NULL\<rparr>"

definition bring_main :: "(nat, ptr \<Rightarrow> u32) ev_config" where
  "bring_main = (sleep_config True)\<lparr>IS_ENV_BM := False\<rparr>"

theorem system_bring_up_witness:
  "\<exists>srv' s' srv2 t'. esp_amp_init bring_env bring_main bring_service bring_state = Some (0, srv', s') \<and>
    registered SW_INTR_RESERVED_ID_PANIC 3 s' \<and> esp_amp_init bring_env (sleep_config False) bring_service s' = Some (0, srv2, t') \<and>
    lp_access_hp_cnt t' = lp_access_hp_cnt s'"
proof -
  let ?c = bring_main and ?d = "sleep_config False :: (nat, ptr \<Rightarrow> u32) ev_config"
  have c: "IS_MAIN_CORE ?c" "\<not> IS_ENV_BM ?c" "port_ok ?c" "peers ?c ?d" "AUTO_LIGHT_SLEEP_SUPPORT ?d = AUTO_LIGHT_SLEEP_SUPPORT ?c" "AUTO_LIGHT_SLEEP_SUPPORT ?c" "rtc_peers ?c ?d"
    by (simp_all add: rtc_peers_def pool_head_def pool_end_def ESP_AMP_RTC_SHARED_MEM_POOL_START_def ESP_AMP_RTC_SHARED_MEM_POOL_SIZE_def bring_main_def sleep_config_def demo_config_def port_ok_def peers_def)
  have same: "pool_head ?c SYS_INFO_CAP_HP = 0x4087a580" "pool_end ?c SYS_INFO_CAP_HP = 0x4087e560"
    "pool_head ?c SYS_INFO_CAP_RTC = 0x50002800" "pool_end ?c SYS_INFO_CAP_RTC = 0x50003000"
    "ESP_AMP_SW_INTR_BIT_ADDR ?c = 0x4087a560" "SUBCORE_TYPE_LP_CORE ?c"
    by (simp_all add: bring_main_def sleep_config_def pool_head_def pool_end_def demo_config_def ESP_AMP_SW_INTR_BIT_ADDR_def ESP_AMP_HP_SHARED_MEM_START_def
        ESP_AMP_HP_SHARED_MEM_POOL_START_def ESP_AMP_RTC_SHARED_MEM_POOL_START_def ESP_AMP_RTC_SHARED_MEM_POOL_SIZE_def
        ALIGN_DOWN_def ALIGN_UP_def)
  have m: "mem_map_ok ?c" "ESP_AMP_SW_INTR_BIT_ADDR ?c \<noteq> NULL"
    "block_fits ?c SYS_INFO_CAP_HP [(SYS_INFO_RESERVED_ID_SYSTEM, service_bytes), (SYS_INFO_RESERVED_ID_EVENT_MAIN, 4)] 4"
    "AUTO_LIGHT_SLEEP_SUPPORT ?c \<longrightarrow> SUBCORE_TYPE_LP_CORE ?c \<and> pm_register_ok bring_env \<and> block_fits ?c SYS_INFO_CAP_RTC [] 4"
    by (simp_all add: mem_map_ok_def same block_fits_def service_bytes_def stride_def bring_env_def)
  have e: "init_env_ok (\<lambda>g s. event_core.more s g) 0 bring_env"
    using demo_os_ok clz_spec_clzsi2 by (simp add: init_env_ok_def bring_env_def quiet_from_def calm_def demo_os_def)
  have s: "3 \<le> free_slots (sw_intr_handlers bring_state)" "event_table bring_state \<noteq> []"
    by (simp_all add: bring_state_def demo_ev_def free_slots_def eval_nat_numeral)
  have "ENABLE_SUPPLICANT bring_env" "IS_ENV_BM ?d" by (simp_all add: bring_env_def sleep_config_def demo_config_def)
  note up = system_bring_up [OF c(3,1,2) m(1,4) e m(2,3) s c(4) this(2) c(5,7) this(1), of bring_service]
  show ?thesis using up c(6) by (fastforce simp: bring_env_def)
qed

end
