(* ===== verification/Spec2Isabelle.thy ===== *)
theory Spec2Isabelle
  imports Amp_Rpc_Life Amp_Service_Link Amp_Dump Amp_Div64 Amp_Panic_Report Amp_System
begin

text \<open>
  ESP-AMP: asymmetric multiprocessing on ESP32 SoCs. A maincore under FreeRTOS and a subcore (an LP core or
  the second HP core, usually on bare metal) run separate programs and work together over shared memory and
  software interrupts. This development models the component src/components/esp_amp, one theory or a
  few per part, and proves what makes each part correct. Paths below are relative to that directory where
  they do not start with src/examples.

  \<^bold>\<open>How the parts fit together.\<close> The maincore loads and starts the subcore (Amp_Boot). Both call
  \<open>esp_amp_init\<close> (Amp_System). The maincore allocates blocks of shared memory by id and the subcore finds them
  (Amp_Sys_Info). A virtual queue in such a block passes buffers from one core to the other (Amp_Queue*);
  software interrupts (Amp_Sw_Intr) tell the other core to look. RPMsg (Amp_Rpmsg*) is datagrams over two
  queues, RPC (Amp_Rpc*) is calls over RPMsg, events (Amp_Event) are words of bits with an interrupt, and
  the system services (Amp_Service*) are a queue over which the subcore prints on the console of the
  maincore (Amp_Print). When the subcore panics, the maincore reports why (Amp_Panic*). While the subcore works
  in HP memory it keeps the maincore from light sleep (Amp_Pm).

  \<^bold>\<open>Theories and sources.\<close>
  \<^item> Amp_Prelude: 8, 16 and 32 bit words, byte addressed little-endian memory with loads and stores, spans
    of addresses, agreement of two memories on a set of addresses, and the collections of facts on them.
  \<^item> Amp_Port: the configuration record (Kconfig options, memory map, port macros), the state \<open>core\<close> of a
    core (memory, interrupt lines, status register, static variables), critical sections
    (port/env), interrupt hardware (port/platform/sw_intr). Amp_Env: queues of port/env.
  \<^item> Amp_Platform: port/include/esp_amp_arch.h, port/platform/hp_core and lp_core (cycle counter, clock,
    delays), and heap growth of idf_stub/esp_system/syscalls.c.
  \<^item> Amp_Utils: src/esp_amp_utils.c. Amp_Arith64, Amp_Div64: idf_stub/esp_system/arith64.c.
  \<^item> Amp_Sys_Info: src/esp_amp_sys_info.c and priv_include/esp_amp_mem_priv.h.
  \<^item> Amp_Pm: system/esp_amp_pm.c. Amp_Sw_Intr: src/esp_amp_sw_intr.c.
  \<^item> Amp_Queue (operations), Amp_Queue_Ring (abstract queue and refinement), Amp_Queue_Life
    (interleavings), Amp_Queue_Setup (layout and set-up by both cores): src/esp_amp_queue.c.
  \<^item> Amp_Rpmsg, Amp_Rpmsg_Ept (endpoint list), Amp_Rpmsg_Link (over the queue), Amp_Rpmsg_Setup (layout and
    set-up of the two queues): src/esp_amp_rpmsg.c.
  \<^item> Amp_Event: src/event/baremetal and src/event/freertos.
  \<^item> Amp_Rpc (operations), Amp_Rpc_Link (requests and responses over RPMsg), Amp_Rpc_Call (a complete call over
    both cores), Amp_Rpc_Life (initialisation and deinitialisation): src/rpc. Amp_Rpc_Call also has the services of
    src/examples/rpc/maincore_client_subcore_server/subcore/main/rpc_service.c.
  \<^item> Amp_Dump: the functions of src/esp_amp_sys_info.c, src/esp_amp_sw_intr.c and src/event/freertos that list
    tables in the log, as the rows they print.
  \<^item> Amp_Print: formatted output of system/esp_amp_print.c. Amp_Service, Amp_Service_Link:
    system/esp_amp_service.c and the routing half of system/esp_amp_print.c.
  \<^item> Amp_Boot: system/esp_amp_cpu.c and system/esp_amp_loader.c.
  \<^item> Amp_Panic, Amp_Panic_Report: system/esp_amp_panic.
  \<^item> Amp_System: system/esp_amp_system.c and src/esp_amp.c.

  \<^bold>\<open>How code is modelled.\<close> A C function is a definition with the name of the function; the environment and
  SoC variants of one function have prefixes (\<open>bm_\<close> and \<open>fr_\<close> for bare metal and FreeRTOS, \<open>hp_\<close> and \<open>lp_\<close>,
  \<open>pmu_\<close> and \<open>intmtx_\<close>). Static variables and shared memory are passed through the calls. Structures in
  shared memory are bytes at the offsets of the RV32 ABI; structures of one core are records. A
  failing assertion, an access the C standard leaves undefined and a loop that does not end are the
  value \<open>None\<close>; error codes are results. Function pointers are values of a type parameter, calling them is
  an argument \<open>call\<close>. Code of the ESP-IDF, of FreeRTOS and of the compiler is a parameter, and what is relied
  on of it is a named predicate (\<open>port_ok\<close>, \<open>os_events_ok\<close>, \<open>init_env_ok\<close>, \<open>clz_spec\<close>, \<open>layout_ok\<close>, \<open>loader_ok\<close>).
  Where the other core runs concurrently, what it does to a word between two accesses is a sequence of
  interferences, so that the theorems hold for every interleaving and every number of failures of a weak
  compare-and-exchange.

  \<^bold>\<open>Termination.\<close> Loops over lists and counters are total functions. Loops that end only if the other core
  stops interfering, if time passes or if a list is not cyclic are partial functions into \<open>option\<close>; that
  they return is part of the theorem. There is no fuel.

  \<^bold>\<open>Interfaces.\<close> \<open>critical_section\<close> (Amp_Port) is what the port promises; \<open>access_guard\<close> (Amp_Pm) what the light sleep
  macros promise to code in between them; \<open>block_pool\<close> (Amp_Sys_Info) the laws of allocation and lookup;
  the array of descriptors (Amp_Queue_Ring) and the list of endpoints (Amp_Rpmsg_Ept) are interfaces of the
  queue and of RPMsg. Each is interpreted on the model of the code, and the clients use its facts.

  \<^bold>\<open>What is shown.\<close>
  \<^item> The queue refines an abstract queue for every interleaving of both cores: first in, first out, no buffer
    lost or owned twice, wrap-around of the indices and flip counters included. Set-up establishes it, for one queue
    and for the two queues of RPMsg, in both layouts of shared memory: one block in HP memory, or, with
    automatic light sleep, the descriptors of maincore's sending queue in RTC memory.
  \<^item> The allocator keeps its blocks inside the pool and apart, and finds what it allocated.
  \<^item> A triggered software interrupt is never lost and reaches exactly the handlers registered for it.
  \<^item> Messages, requests, responses and printed lines arrive with the bytes that were sent, at the right
    callback, and buffers return to their owner; every error result has its code and no other effect.
  \<^item> A remote procedure call returns: on a link at rest, executing a command, a poll on the server's core and a
    poll on the client's core give the client the status and the bytes the handler computes, cut to the
    buffers in between, and leave the link at rest and both ends ready for the next call. Servers and clients
    come into that state by their initialisation and leave the other endpoints as they were when they go.
  \<^item> Waiting for events ends and takes bits atomically; event groups receive every notified bit.
  \<^item> Formatted output prints numerals that read back as the number, never overruns its buffers and counts
    what it prints; 64 bit arithmetic is arithmetic.
  \<^item> A successful load writes only memory reserved for the subcore. A panic is reported as it happened; the
    messages of assertions and aborts are kept within their field.
  \<^item> Critical sections and light sleep prevention nest. The cycle counter is read without tearing.
  \<^item> The two cores come up, with and without automatic light sleep: the initialisation of the maincore
    succeeds and that of the subcore then attaches to the other end of the service queue and to the
    counter of light sleep prevention.

  \<^bold>\<open>Not modelled.\<close> Start-up code and exception vectors before the first C function (register writes and
  assembly), the application description (data), logging, the examples apart from the services named above, and
  the test programs. Relaxed memory ordering is not modelled: fences are between accesses that
  the model already orders.
\<close>

end
